(* ===== verification/Prelude.thy ===== *)
theory Prelude
  imports Complex_Main "HOL-Library.Word" "HOL-Library.List_Lexorder" "HOL-Library.Char_ord"
    "HOL-Library.Multiset"
begin

text \<open>
  What the components of the development share: the Go types they are written with
  (unsigned 64-bit integers, durations, instants, floating-point numbers), the pieces of Go's
  standard library the sources call on strings and numbers (package strings, strconv, sort), and
  the generic lemmas on lists, sorting and scanning.

  \<^item> \<open>u64\<close> is Go's uint64: addition and subtraction wrap around.
  \<^item> \<open>Duration\<close> is time.Duration in nanoseconds; \<open>Time\<close> is time.Time in nanoseconds since
    Go's zero time, so the zero value of time.Time is \<open>0\<close>; \<open>time_Sub\<close> saturates as
    Time.Sub does.
  \<^item> \<open>f64\<close> is float64 read as a rational number: rounding, NaN and the infinities are not
    modelled (the configuration rejects the latter two, nonNegative in config.go).
  \<^item> \<open>string\<close> is a byte string, as Go's string is.
\<close>

section \<open>Go's basic types\<close>

type_synonym u64 = "64 word"
type_synonym Duration = int
type_synonym Time = int
type_synonym f64 = rat

named_theorems go_defs \<open>definitions of Go library functions, unfolded to evaluate them\<close>
named_theorems word_order \<open>facts that move comparisons of machine words to natural numbers\<close>

definition max_duration :: Duration where
  "max_duration = 2 ^ 63 - 1"

definition min_duration :: Duration where
  "min_duration = - (2 ^ 63)"

text \<open>Time.Sub, which saturates at the ends of the Duration range.\<close>

definition time_Sub :: "Time \<Rightarrow> Time \<Rightarrow> Duration" where
  "time_Sub t u = max min_duration (min max_duration (t - u))"

definition IsZero :: "Time \<Rightarrow> bool" where
  "IsZero t = (t = 0)"

definition Nanosecond :: Duration where "Nanosecond = 1"
definition Millisecond :: Duration where "Millisecond = 1000000"
definition Second :: Duration where "Second = 1000000000"

text \<open>Duration.Seconds, and Duration.Milliseconds, which truncates towards zero.\<close>

definition Seconds :: "Duration \<Rightarrow> f64" where
  "Seconds d = of_int d / 1000000000"

definition Milliseconds :: "Duration \<Rightarrow> int" where
  "Milliseconds d = sgn d * (\<bar>d\<bar> div 1000000)"

text \<open>Arithmetic on int64, and so on Duration, wraps around.\<close>

definition wrap64 :: "int \<Rightarrow> int" where
  "wrap64 n = (n + 2 ^ 63) mod 2 ^ 64 - 2 ^ 63"

section \<open>Package strings\<close>

fun HasPrefix :: "string \<Rightarrow> string \<Rightarrow> bool" where
  "HasPrefix s [] = True"
| "HasPrefix [] (p # ps) = False"
| "HasPrefix (c # cs) (p # ps) = (c = p \<and> HasPrefix cs ps)"

fun Contains :: "string \<Rightarrow> string \<Rightarrow> bool" where
  "Contains [] p = (p = [])"
| "Contains (c # cs) p = (HasPrefix (c # cs) p \<or> Contains cs p)"

definition HasSuffix :: "string \<Rightarrow> string \<Rightarrow> bool" where
  "HasSuffix s p = HasPrefix (rev s) (rev p)"

definition TrimPrefix :: "string \<Rightarrow> string \<Rightarrow> string" where
  "TrimPrefix s p = (if HasPrefix s p then drop (length p) s else s)"

definition TrimSuffix :: "string \<Rightarrow> string \<Rightarrow> string" where
  "TrimSuffix s p = (if HasSuffix s p then take (length s - length p) s else s)"

text \<open>strings.Split with a separator of one byte: never empty.\<close>

fun Split :: "string \<Rightarrow> char \<Rightarrow> string list" where
  "Split [] c = [[]]"
| "Split (x # xs) c =
     (if x = c then [] # Split xs c
      else (case Split xs c of [] \<Rightarrow> [[x]] | y # ys \<Rightarrow> (x # y) # ys))"

fun Join :: "string list \<Rightarrow> string \<Rightarrow> string" where
  "Join [] sep = []"
| "Join [s] sep = s"
| "Join (s # t # ts) sep = s @ sep @ Join (t # ts) sep"

text \<open>strings.Cut with a separator of one byte: before, after, found.\<close>

fun Cut :: "string \<Rightarrow> char \<Rightarrow> string \<times> string \<times> bool" where
  "Cut [] c = ([], [], False)"
| "Cut (x # xs) c =
     (if x = c then ([], xs, True)
      else (case Cut xs c of (b, a, ok) \<Rightarrow> (x # b, a, ok)))"

text \<open>The white space strings.TrimSpace trims from ASCII text.\<close>

definition is_space :: "char \<Rightarrow> bool" where
  "is_space c = (of_char c \<in> {9, 10, 11, 12, 13, 32 :: int})"

definition TrimSpace :: "string \<Rightarrow> string" where
  "TrimSpace s = rev (dropWhile is_space (rev (dropWhile is_space s)))"

text \<open>strings.ToUpper on ASCII text.\<close>

definition upper_char :: "char \<Rightarrow> char" where
  "upper_char c = (if 97 \<le> (of_char c :: int) \<and> of_char c \<le> (122 :: int)
     then char_of (of_char c - 32 :: int) else c)"

definition ToUpper :: "string \<Rightarrow> string" where
  "ToUpper s = map upper_char s"

section \<open>Package strconv\<close>

definition is_digit :: "char \<Rightarrow> bool" where
  "is_digit c = (48 \<le> (of_char c :: int) \<and> of_char c \<le> (57 :: int))"

definition digit_value :: "char \<Rightarrow> int" where
  "digit_value c = of_char c - 48"

definition dec_value :: "string \<Rightarrow> int" where
  "dec_value s = foldl (\<lambda>n c. 10 * n + digit_value c) 0 s"

text \<open>strconv.ParseUint(s, 10, 64): digits only, and no more than 64 bits.\<close>

definition ParseUint :: "string \<Rightarrow> u64 option" where
  "ParseUint s =
     (if s = [] \<or> \<not> list_all is_digit s then None
      else if dec_value s < 18446744073709551616 then Some (of_int (dec_value s)) else None)"

text \<open>The decimal rendering of a number (fmt's verb d).\<close>

definition digit_char :: "nat \<Rightarrow> char" where
  "digit_char d = char_of (48 + int d)"

fun show_nat :: "nat \<Rightarrow> string" where
  "show_nat n = (if n < 10 then [digit_char n] else show_nat (n div 10) @ [digit_char (n mod 10)])"

declare show_nat.simps [simp del]

definition show_u64 :: "u64 \<Rightarrow> string" where
  "show_u64 w = show_nat (unat w)"

definition show_int :: "int \<Rightarrow> string" where
  "show_int i = (if i < 0 then CHR ''-'' # show_nat (nat (- i)) else show_nat (nat i))"

section \<open>Package sort\<close>

text \<open>
  sort.SliceStable: for a strict weak order the stable sorted permutation is unique, so any
  stable algorithm computes it.
\<close>

fun insert_stable :: "('a \<Rightarrow> 'a \<Rightarrow> bool) \<Rightarrow> 'a \<Rightarrow> 'a list \<Rightarrow> 'a list" where
  "insert_stable lt x [] = [x]"
| "insert_stable lt x (y # ys) =
     (if lt y x then y # insert_stable lt x ys else x # y # ys)"

definition SliceStable :: "('a \<Rightarrow> 'a \<Rightarrow> bool) \<Rightarrow> 'a list \<Rightarrow> 'a list" where
  "SliceStable lt xs = foldr (insert_stable lt) xs []"

text \<open>
  The loop the sources use to keep the best element seen so far, starting from nothing: replaced
  by an element only when that element is strictly better.
\<close>

fun scan_from :: "('a \<Rightarrow> 'a \<Rightarrow> bool) \<Rightarrow> 'a option \<Rightarrow> 'a list \<Rightarrow> 'a option" where
  "scan_from better b [] = b"
| "scan_from better b (x # xs) =
     scan_from better (case b of None \<Rightarrow> Some x | Some y \<Rightarrow> if better x y then Some x else b) xs"

definition scan_best :: "('a \<Rightarrow> 'a \<Rightarrow> bool) \<Rightarrow> 'a list \<Rightarrow> 'a option" where
  "scan_best better xs = scan_from better None xs"

section \<open>Lemmas: time\<close>

text \<open>Within the range of a Duration a comparison with Time.Sub is one with the difference.\<close>

lemma le_time_Sub [simp]:
  "min_duration < d \<Longrightarrow> d \<le> max_duration \<Longrightarrow> d \<le> time_Sub t u \<longleftrightarrow> d \<le> t - u"
  by (auto simp: time_Sub_def)

lemma time_Sub_less [simp]:
  "min_duration < d \<Longrightarrow> d \<le> max_duration \<Longrightarrow> time_Sub t u < d \<longleftrightarrow> t - u < d"
  by (auto simp: time_Sub_def)

lemma time_Sub_le [simp]:
  "min_duration \<le> d \<Longrightarrow> d < max_duration \<Longrightarrow> time_Sub t u \<le> d \<longleftrightarrow> t - u \<le> d"
  by (auto simp: time_Sub_def)

lemma less_time_Sub [simp]:
  "min_duration \<le> d \<Longrightarrow> d < max_duration \<Longrightarrow> d < time_Sub t u \<longleftrightarrow> d < t - u"
  by (auto simp: time_Sub_def)

lemma time_Sub_exact:
  "min_duration \<le> t - u \<Longrightarrow> t - u \<le> max_duration \<Longrightarrow> time_Sub t u = t - u"
  by (simp add: time_Sub_def)

lemma duration_range [simp]: "min_duration < 0" "0 < max_duration"
  by (simp_all add: min_duration_def max_duration_def)

section \<open>Lemmas: machine words\<close>

lemmas [word_order] = word_le_nat_alt word_less_nat_alt

lemma unat_plus_bounded:
  "unat (a :: u64) + unat b < 2 ^ 64 \<Longrightarrow> unat (a + b) = unat a + unat b"
  by (simp add: unat_word_ariths)

lemma one_le_word [simp]: "1 \<le> w \<longleftrightarrow> w \<noteq> (0 :: u64)"
  by (simp add: word_le_nat_alt Suc_le_eq unat_gt_0)

lemma min_word_eq_0: "(min a b = (0 :: u64)) \<longleftrightarrow> a = 0 \<or> b = 0"
  by (auto simp: min_def word_le_nat_alt unat_eq_zero)

section \<open>Lemmas: maps as association lists\<close>

text \<open>Deleting and rewriting the entries of a map one by one.\<close>

lemma fst_map_filter:
  assumes "\<And>i k e. f (i, k) = Some e \<Longrightarrow> fst e = i"
  shows "fst ` set (List.map_filter f xs) \<subseteq> fst ` set xs"
proof (induction xs)
  case (Cons x xs)
  then show ?case using assms [of "fst x" "snd x"]
    by (auto simp: map_filter_simps split: option.splits)
qed (simp add: map_filter_simps)

lemma map_filter_entries:
  assumes "distinct (map fst xs)" "\<And>i k e. f (i, k) = Some e \<Longrightarrow> fst e = i"
  shows "distinct (map fst (List.map_filter f xs)) \<and>
    map_of (List.map_filter f xs) i = (case map_of xs i of None \<Rightarrow> None | Some k \<Rightarrow> map_option snd (f (i, k)))"
  using assms(1)
proof (induction xs)
  case (Cons x xs)
  obtain j k where x: "x = (j, k)" by force
  have j: "j \<notin> fst ` set (List.map_filter f xs)"
    using Cons.prems fst_map_filter [of f xs] assms(2) x by auto
  then have "map_of (List.map_filter f xs) j = None" by (simp add: map_of_eq_None_iff)
  moreover have "distinct (map fst xs)" "map_of xs j = None"
    using Cons.prems x by (auto simp: map_of_eq_None_iff)
  ultimately show ?case
    using Cons.IH x j assms(2) [of j k] by (cases "f (j, k)") (auto simp: map_filter_simps split: option.splits)
qed (simp add: map_filter_simps)

lemmas map_of_map_filter = map_filter_entries [THEN conjunct2] map_filter_entries [THEN conjunct1]

section \<open>Lemmas: strings\<close>

lemma HasPrefix_iff: "HasPrefix s p \<longleftrightarrow> (\<exists>t. s = p @ t)"
  by (induction s p rule: HasPrefix.induct) auto

lemma HasPrefix_append [simp]: "HasPrefix (p @ s) p"
  by (auto simp: HasPrefix_iff)

lemma TrimPrefix_append [simp]: "TrimPrefix (p @ s) p = s"
  by (simp add: TrimPrefix_def)

lemma HasSuffix_append [simp]: "HasSuffix (s @ p) p"
  by (simp add: HasSuffix_def)

lemma HasSuffix_snoc [simp]: "HasSuffix (s @ [c]) [d] \<longleftrightarrow> c = d"
  by (auto simp: HasSuffix_def)

lemma TrimSuffix_append [simp]: "TrimSuffix (s @ p) p = s"
  by (simp add: TrimSuffix_def)

lemma TrimSuffix_other [simp]: "c \<noteq> d \<Longrightarrow> TrimSuffix (s @ [c]) [d] = s @ [c]"
  by (simp add: TrimSuffix_def)

lemma Split_not_Nil [simp]: "Split s c \<noteq> []"
  by (cases s) (auto split: list.splits)

lemma Split_no_sep [simp]: "c \<notin> set s \<Longrightarrow> Split s c = [s]"
  by (induction s) auto

lemma Split_append_sep [simp]: "c \<notin> set s \<Longrightarrow> Split (s @ c # t) c = s # Split t c"
  by (induction s) auto

lemma Join_Cons: "xs \<noteq> [] \<Longrightarrow> Join (x # xs) sep = x @ sep @ Join xs sep"
  by (cases xs) auto

lemma Join_Split: "Join (Split s c) [c] = s"
  by (induction s) (auto simp: Join_Cons split: list.splits elim: Join.elims)

lemma Split_parts: "p \<in> set (Split s c) \<Longrightarrow> c \<notin> set p"
  by (induction s arbitrary: p) (auto split: if_splits list.splits)

lemma Cut_absent: "c \<notin> set s \<Longrightarrow> Cut s c = (s, [], False)"
  by (induction s) auto

lemma Cut_present: "c \<notin> set a \<Longrightarrow> Cut (a @ c # b) c = (a, b, True)"
  by (induction a) auto

section \<open>Lemmas: numbers\<close>

lemma of_char_digit_char: "d < 10 \<Longrightarrow> (of_char (digit_char d) :: int) = 48 + int d"
  by (simp add: digit_char_def of_char_of)

lemma is_digit_char [simp]: "d < 10 \<Longrightarrow> is_digit (digit_char d)"
  by (simp add: is_digit_def of_char_digit_char)

lemma digit_value_char [simp]: "d < 10 \<Longrightarrow> digit_value (digit_char d) = int d"
  by (simp add: digit_value_def of_char_digit_char)

lemma show_nat_not_Nil [simp]: "show_nat n \<noteq> []"
  by (subst show_nat.simps) simp

lemma show_nat_digits: "list_all is_digit (show_nat n)"
proof (induction n rule: show_nat.induct)
  case (1 n)
  then show ?case by (subst show_nat.simps) simp
qed

lemma dec_value_snoc: "dec_value (s @ [c]) = 10 * dec_value s + digit_value c"
  by (simp add: dec_value_def)

lemma dec_value_show_nat [simp]: "dec_value (show_nat n) = int n"
proof (induction n rule: show_nat.induct)
  case (1 n)
  show ?case
  proof (cases "n < 10")
    case True
    then show ?thesis by (simp add: show_nat.simps [of n] dec_value_def)
  next
    case False
    have "int n = 10 * int (n div 10) + int (n mod 10)" by presburger
    with False 1 show ?thesis by (simp add: show_nat.simps [of n] dec_value_snoc)
  qed
qed

text \<open>Printing a 64-bit number and parsing it back gives the number.\<close>

lemma ParseUint_show [simp]: "ParseUint (show_u64 w) = Some w"
  using unsigned_less [of w]
  by (simp add: ParseUint_def show_u64_def show_nat_digits nat_less_numeral_power_cancel_iff)

lemma digit_neq_slash: "is_digit c \<Longrightarrow> c \<noteq> CHR ''/''"
  by (auto simp: is_digit_def)

lemma slash_notin_show_u64 [simp]: "CHR ''/'' \<notin> set (show_u64 w)"
  using show_nat_digits [of "unat w"] digit_neq_slash
  by (auto simp: show_u64_def list_all_iff)

lemma show_u64_not_Nil [simp]: "show_u64 r \<noteq> []"
  by (simp add: show_u64_def)

lemma show_u64_punct:
  "CHR '','' \<notin> set (show_u64 n)" "CHR '';'' \<notin> set (show_u64 n)" "CHR ''='' \<notin> set (show_u64 n)"
  "CHR '':'' \<notin> set (show_u64 n)"
  using show_nat_digits [of "unat n"] by (auto simp: show_u64_def list_all_iff is_digit_def)

section \<open>The ordering interface: stable sorting and scanning for the best\<close>

text \<open>
  Every order the program sorts or scans by is a strict weak order: the routing order of Select,
  the ranking of simulate limits, the order of paths, rounds in descending order, ranks of answers.
  The facts about sorting and scanning are proved once, for any of them.
\<close>

locale strict_weak_order =
  fixes lt :: "'a \<Rightarrow> 'a \<Rightarrow> bool"
  assumes asym: "lt x y \<Longrightarrow> \<not> lt y x"
    and neg_trans: "\<not> lt x y \<Longrightarrow> \<not> lt y z \<Longrightarrow> \<not> lt x z"
begin

lemma irrefl [simp]: "\<not> lt x x"
  using asym by blast

lemma order_trans: "lt x y \<Longrightarrow> lt y z \<Longrightarrow> lt x z"
  using asym neg_trans by blast

lemma mset_insert_stable: "mset (insert_stable lt x xs) = add_mset x (mset xs)"
  by (induction xs) auto

lemma mset_SliceStable: "mset (SliceStable lt xs) = mset xs"
  by (induction xs) (simp_all add: SliceStable_def mset_insert_stable)

lemma set_SliceStable: "set (SliceStable lt xs) = set xs"
  using mset_SliceStable by (metis set_mset_mset)

lemma length_SliceStable: "length (SliceStable lt xs) = length xs"
  using mset_SliceStable by (metis size_mset)

lemma sorted_insert_stable:
  "sorted_wrt (\<lambda>a b. \<not> lt b a) xs \<Longrightarrow> sorted_wrt (\<lambda>a b. \<not> lt b a) (insert_stable lt x xs)"
proof (induction xs)
  case (Cons y ys)
  have "set (insert_stable lt x ys) = insert x (set ys)"
    using mset_insert_stable [of x ys] by (metis set_mset_add_mset_insert set_mset_mset)
  moreover have "\<not> lt z x" if "z \<in> set ys" "\<not> lt y x" for z
    using that Cons.prems neg_trans [of z y x] by auto
  ultimately show ?case using Cons by (auto dest: asym)
qed simp

text \<open>The sorted list is ordered: nothing later is less than anything earlier.\<close>

lemma sorted_SliceStable: "sorted_wrt (\<lambda>a b. \<not> lt b a) (SliceStable lt xs)"
  by (induction xs) (simp_all add: SliceStable_def sorted_insert_stable)

lemma hd_SliceStable:
  assumes "SliceStable lt xs = y # ys" and "x \<in> set xs"
  shows "\<not> lt x y"
proof -
  have "x \<in> set (y # ys)" using assms set_SliceStable by metis
  moreover have "sorted_wrt (\<lambda>a b. \<not> lt b a) (y # ys)"
    using sorted_SliceStable [of xs] assms(1) by simp
  ultimately show ?thesis by auto
qed

lemma filter_insert_stable:
  assumes "\<And>a b. P a \<Longrightarrow> P b \<Longrightarrow> \<not> lt a b"
  shows "filter P (insert_stable lt x xs) = filter P (x # xs)"
  using assms by (induction xs) auto

text \<open>Stability: elements none of which is less than another keep their order.\<close>

lemma filter_SliceStable:
  assumes "\<And>a b. P a \<Longrightarrow> P b \<Longrightarrow> \<not> lt a b"
  shows "filter P (SliceStable lt xs) = filter P xs"
  by (induction xs) (simp_all add: SliceStable_def filter_insert_stable [OF assms])

lemma scan_from_spec:
  "\<exists>m. scan_from lt (Some b) xs = Some m \<and> m \<in> set (b # xs) \<and> (\<forall>x \<in> set (b # xs). \<not> lt x m)"
proof (induction xs arbitrary: b)
  case (Cons y ys)
  from Cons [of "if lt y b then y else b"] obtain m where
    m: "scan_from lt (Some (if lt y b then y else b)) ys = Some m"
    and mem: "m \<in> set ((if lt y b then y else b) # ys)"
    and least: "\<forall>x \<in> set ((if lt y b then y else b) # ys). \<not> lt x m"
    by (elim exE conjE) blast
  have "\<not> lt b m"
    using least asym [of y b] neg_trans [of b y m] by (cases "lt y b") auto
  moreover have "\<not> lt y m"
    using least neg_trans [of y b m] by (cases "lt y b") auto
  ultimately show ?case using m mem least by (auto split: if_splits)
qed simp

text \<open>The scan returns an element nothing in the list is better than.\<close>

lemma scan_best_Some:
  assumes "scan_best lt xs = Some m"
  shows "m \<in> set xs" and "x \<in> set xs \<Longrightarrow> \<not> lt x m"
proof -
  from assms obtain y ys where xs: "xs = y # ys"
    by (cases xs) (auto simp: scan_best_def)
  then have "scan_from lt (Some y) ys = Some m" using assms by (simp add: scan_best_def)
  with scan_from_spec [of y ys] xs
  show "m \<in> set xs" and "x \<in> set xs \<Longrightarrow> \<not> lt x m" by auto
qed

lemma scan_best_None: "scan_best lt xs = None \<longleftrightarrow> xs = []"
proof (cases xs)
  case (Cons y ys)
  then show ?thesis using scan_from_spec [of y ys] by (auto simp: scan_best_def)
qed (simp add: scan_best_def)

text \<open>On elements the order tells apart, the sorted list depends on the multiset only.\<close>

lemma sorted_unique:
  assumes "sorted_wrt (\<lambda>a b. \<not> lt b a) xs" and "sorted_wrt (\<lambda>a b. \<not> lt b a) ys"
    and "mset xs = mset ys"
    and "\<And>a b. a \<in> set xs \<Longrightarrow> b \<in> set xs \<Longrightarrow> a \<noteq> b \<Longrightarrow> lt a b \<or> lt b a"
  shows "xs = ys"
  using assms
proof (induction xs arbitrary: ys)
  case (Cons x xs)
  then obtain y ys' where ys: "ys = y # ys'" by (cases ys) auto
  have sets: "set (x # xs) = set ys" using Cons.prems(3) by (metis set_mset_mset)
  then have "y \<in> insert x (set xs)" and "x \<in> insert y (set ys')" using ys by auto
  then have "\<not> lt y x" and "\<not> lt x y" using Cons.prems(1,2) ys by auto
  with Cons.prems(4) [of x y] \<open>y \<in> insert x (set xs)\<close> have "x = y" by auto
  moreover have "xs = ys'"
    using Cons.prems Cons.IH [of ys'] ys \<open>x = y\<close> by auto
  ultimately show ?case using ys by simp
qed simp

lemma SliceStable_permutation:
  assumes "mset xs = mset ys"
    and "\<And>a b. a \<in> set xs \<Longrightarrow> b \<in> set xs \<Longrightarrow> a \<noteq> b \<Longrightarrow> lt a b \<or> lt b a"
  shows "SliceStable lt xs = SliceStable lt ys"
proof (rule sorted_unique [OF sorted_SliceStable sorted_SliceStable])
  show "mset (SliceStable lt xs) = mset (SliceStable lt ys)"
    using assms(1) by (simp add: mset_SliceStable)
qed (use assms(2) set_SliceStable in auto)

end

text \<open>How the orders of the program are built: by a key, ascending or descending, then another order.\<close>

lemma strict_weak_order_key: "strict_weak_order (\<lambda>a b. f a < (f b :: 'k :: linorder))"
  by unfold_locales auto

lemma strict_weak_order_lex:
  assumes "strict_weak_order l"
  shows "strict_weak_order (\<lambda>a b. if f a \<noteq> (f b :: 'k :: linorder) then f a < f b else l a b)"
proof -
  note asym = strict_weak_order.asym [OF assms] and neg = strict_weak_order.neg_trans [OF assms]
  show ?thesis
  proof (unfold_locales, goal_cases)
    case (1 x y)
    then show ?case by (cases "f x = f y") (auto dest: asym)
  next
    case (2 x y z)
    then show ?case
      by (cases "f x = f y"; cases "f y = f z") (auto dest: neg [of x y z] split: if_splits)
  qed
qed

lemma strict_weak_order_lex_desc:
  assumes "strict_weak_order l"
  shows "strict_weak_order (\<lambda>a b. if f a \<noteq> (f b :: 'k :: linorder) then f a > f b else l a b)"
proof -
  note asym = strict_weak_order.asym [OF assms] and neg = strict_weak_order.neg_trans [OF assms]
  show ?thesis
  proof (unfold_locales, goal_cases)
    case (1 x y)
    then show ?case by (cases "f x = f y") (auto dest: asym)
  next
    case (2 x y z)
    then show ?case
      by (cases "f x = f y"; cases "f y = f z") (auto dest: neg [of x y z] split: if_splits)
  qed
qed

end
