(* ===== verification/Types.thy ===== *)
theory Types
  imports Prelude
begin

text \<open>
  The value types of the domain package (src/internal/domain/types.go): archival windows,
  capabilities and their overrides, simulate limits, node records and their validation, health,
  heartbeats, statistics and upstreams. A Go pointer that may be nil is an option; a Go string
  type with named constants stays a string, since JSON and YAML can bring any text.
\<close>

section \<open>Archival windows\<close>

type_synonym ArchivalKind = string

abbreviation ArchivalFull :: ArchivalKind where "ArchivalFull \<equiv> ''full''"
abbreviation ArchivalTrailing :: ArchivalKind where "ArchivalTrailing \<equiv> ''trailing''"
abbreviation ArchivalSince :: ArchivalKind where "ArchivalSince \<equiv> ''since''"
abbreviation ArchivalNone :: ArchivalKind where "ArchivalNone \<equiv> ''none''"

record Archival =
  ar_Kind :: ArchivalKind
  ar_N :: u64

definition DefaultNonArchivalWindow :: u64 where
  "DefaultNonArchivalWindow = 1000"

definition OldestRoundFor :: "Archival \<Rightarrow> u64 \<Rightarrow> u64" where
  "OldestRoundFor a lastRound =
     (if ar_Kind a = ArchivalFull then 0
      else if ar_Kind a = ArchivalTrailing then
        (if lastRound \<le> ar_N a then 0 else lastRound - ar_N a)
      else if ar_Kind a = ArchivalSince then ar_N a
      else (if lastRound \<le> DefaultNonArchivalWindow then 0
            else lastRound - DefaultNonArchivalWindow))"

section \<open>Simulate limits and capabilities\<close>

record SimulateLimits =
  MaxTxnGroups :: u64
  MaxRounds :: u64
  MaxExtraOpcodeBudget :: u64
  ResourceLimitMultiplier :: u64
  MaxExecTraceBytes :: u64
  TimeLimitSeconds :: u64

record Capabilities =
  caps_OldestRound :: u64
  caps_Archival :: Archival
  caps_DeveloperAPI :: bool
  caps_FollowMode :: bool
  caps_ExperimentalAPI :: bool
  caps_TimeTravel :: bool
  caps_Simulate :: "SimulateLimits option"
  caps_AlgodVersion :: string
  caps_GenesisID :: string
  caps_StorageEngine :: string
  caps_MaxAcctLookback :: u64

text \<open>The zero value of Capabilities.\<close>

definition zero_caps :: Capabilities where
  "zero_caps = \<lparr>caps_OldestRound = 0, caps_Archival = \<lparr>ar_Kind = [], ar_N = 0\<rparr>,
     caps_DeveloperAPI = False, caps_FollowMode = False, caps_ExperimentalAPI = False,
     caps_TimeTravel = False, caps_Simulate = None, caps_AlgodVersion = [], caps_GenesisID = [],
     caps_StorageEngine = [], caps_MaxAcctLookback = 0\<rparr>"

record CapabilityOverrides =
  ov_Archival :: "Archival option"
  ov_DeveloperAPI :: "bool option"
  ov_FollowMode :: "bool option"
  ov_TimeTravel :: "bool option"
  ov_Simulate :: "SimulateLimits option"

text \<open>CapabilityOverrides.Apply; a nil receiver has no opinion.\<close>

definition Apply :: "CapabilityOverrides option \<Rightarrow> Capabilities \<Rightarrow> u64 \<Rightarrow> Capabilities" where
  "Apply ov c0 lastRound =
     (case ov of None \<Rightarrow> c0
      | Some o' \<Rightarrow>
        let c = (case ov_Archival o' of None \<Rightarrow> c0
                 | Some a \<Rightarrow> c0\<lparr>caps_Archival := a, caps_OldestRound := OldestRoundFor a lastRound\<rparr>);
            c = (case ov_DeveloperAPI o' of None \<Rightarrow> c | Some b \<Rightarrow> c\<lparr>caps_DeveloperAPI := b\<rparr>);
            c = (case ov_FollowMode o' of None \<Rightarrow> c | Some b \<Rightarrow> c\<lparr>caps_FollowMode := b\<rparr>);
            c = (case ov_TimeTravel o' of None \<Rightarrow> c | Some b \<Rightarrow> c\<lparr>caps_TimeTravel := b\<rparr>)
        in (case ov_Simulate o' of None \<Rightarrow> c | Some l \<Rightarrow> c\<lparr>caps_Simulate := Some l\<rparr>))"

definition StockMaxExtraOpcodeBudget :: u64 where
  "StockMaxExtraOpcodeBudget = 320000"

definition StockSimulateLimits :: SimulateLimits where
  "StockSimulateLimits = \<lparr>MaxTxnGroups = 1, MaxRounds = 0,
     MaxExtraOpcodeBudget = StockMaxExtraOpcodeBudget, ResourceLimitMultiplier = 1,
     MaxExecTraceBytes = 0, TimeLimitSeconds = 0\<rparr>"

definition maxSimulateGroups :: u64 where "maxSimulateGroups = 256"
definition maxSimulateRounds :: u64 where "maxSimulateRounds = 256"
definition maxExtraOpcodeBudget :: u64 where
  "maxExtraOpcodeBudget = 1000 * StockMaxExtraOpcodeBudget"
definition maxResourceLimitMultiplier :: u64 where "maxResourceLimitMultiplier = 1024"

text \<open>Capabilities.SimulateLimits: what the node allows, read as dtalgorand reads its config.\<close>

definition SimulateLimitsOf :: "Capabilities \<Rightarrow> SimulateLimits" where
  "SimulateLimitsOf c =
     (case caps_Simulate c of None \<Rightarrow> StockSimulateLimits
      | Some l \<Rightarrow>
        let b = (if MaxExtraOpcodeBudget l = 0 then StockMaxExtraOpcodeBudget
                 else MaxExtraOpcodeBudget l)
        in l\<lparr>MaxTxnGroups := min (max (MaxTxnGroups l) 1) maxSimulateGroups,
             MaxRounds := min (MaxRounds l) maxSimulateRounds,
             MaxExtraOpcodeBudget := min b maxExtraOpcodeBudget,
             ResourceLimitMultiplier :=
               min (max (ResourceLimitMultiplier l) 1) maxResourceLimitMultiplier\<rparr>)"

section \<open>Agents, roles and node records\<close>

record AgentInfo =
  ai_Addrs :: "string list"
  ai_Addr :: string
  ai_PubKey :: "8 word list"

definition GossipAddrs :: "AgentInfo \<Rightarrow> string list" where
  "GossipAddrs a =
     (if ai_Addr a \<noteq> [] then
        (if list_ex (\<lambda>s. s = ai_Addr a) (ai_Addrs a) then ai_Addrs a
         else ai_Addrs a @ [ai_Addr a])
      else ai_Addrs a)"

type_synonym Role = string

abbreviation RoleNode :: Role where "RoleNode \<equiv> ''node''"
abbreviation RoleBalancer :: Role where "RoleBalancer \<equiv> ''balancer''"

text \<open>The errors of the parsers and of Validate, one constructor per message.\<close>

datatype DomainError =
    UnknownRole string
  | UnknownMode string
  | UnknownHealth string
  | UnknownKind string
  | EmptyId
  | IdTooLong string
  | EmptyNetwork string
  | BadRecordRole string DomainError
  | NoEndpoints string
  | NoAgentAddress string
  | NegativeTier string

definition ParseRole :: "string \<Rightarrow> DomainError + Role" where
  "ParseRole s =
     (if s = [] \<or> s = RoleNode then Inr RoleNode
      else if s = RoleBalancer then Inr RoleBalancer
      else Inl (UnknownRole s))"

record NodeRecord =
  rec_ID :: string
  rec_Role :: Role
  rec_Network :: string
  rec_Endpoints :: "string list"
  rec_Token :: string
  rec_Agent :: AgentInfo
  rec_Tier :: int
  rec_Tags :: "string list"
  rec_Declared :: "CapabilityOverrides option"
  rec_Version :: int
  rec_UpdatedAt :: u64

text \<open>NodeRecord.Validate: the first violated invariant, or none.\<close>

definition Validate :: "NodeRecord \<Rightarrow> DomainError option" where
  "Validate r =
     (if rec_ID r = [] then Some EmptyId
      else if length (rec_ID r) > 48 then Some (IdTooLong (rec_ID r))
      else if rec_Network r = [] then Some (EmptyNetwork (rec_ID r))
      else case ParseRole (rec_Role r) of
        Inl e \<Rightarrow> Some (BadRecordRole (rec_ID r) e)
      | Inr role \<Rightarrow>
          if role = RoleNode \<and> length (rec_Endpoints r) = 0 then Some (NoEndpoints (rec_ID r))
          else if role = RoleBalancer \<and> length (GossipAddrs (rec_Agent r)) = 0
          then Some (NoAgentAddress (rec_ID r))
          else if rec_Tier r < 0 then Some (NegativeTier (rec_ID r))
          else None)"

definition IsBalancer :: "NodeRecord \<Rightarrow> bool" where
  "IsBalancer r = (rec_Role r = RoleBalancer)"

fun equalStrings :: "string list \<Rightarrow> string list \<Rightarrow> bool" where
  "equalStrings [] [] = True"
| "equalStrings (a # as) (b # bs) = (a = b \<and> equalStrings as bs)"
| "equalStrings _ _ = False"

text \<open>Two pointers compare equal when both are nil or both point at equal values.\<close>

definition equalPtr :: "'a option \<Rightarrow> 'a option \<Rightarrow> bool" where
  "equalPtr a b = ((a = None \<and> b = None) \<or> (a \<noteq> None \<and> b \<noteq> None \<and> the a = the b))"

definition equalOverrides :: "CapabilityOverrides option \<Rightarrow> CapabilityOverrides option \<Rightarrow> bool" where
  "equalOverrides a b =
     (case (a, b) of
        (Some x, Some y) \<Rightarrow>
          equalPtr (ov_Archival x) (ov_Archival y) \<and> equalPtr (ov_DeveloperAPI x) (ov_DeveloperAPI y)
          \<and> equalPtr (ov_FollowMode x) (ov_FollowMode y) \<and> equalPtr (ov_TimeTravel x) (ov_TimeTravel y)
          \<and> equalPtr (ov_Simulate x) (ov_Simulate y)
      | (None, None) \<Rightarrow> True
      | _ \<Rightarrow> False)"

definition StaticEqual :: "NodeRecord \<Rightarrow> NodeRecord \<Rightarrow> bool" where
  "StaticEqual r s =
     (if rec_ID r \<noteq> rec_ID s \<or> IsBalancer r \<noteq> IsBalancer s \<or> rec_Network r \<noteq> rec_Network s
         \<or> rec_Token r \<noteq> rec_Token s \<or> rec_Tier r \<noteq> rec_Tier s then False
      else if \<not> equalStrings (GossipAddrs (rec_Agent r)) (GossipAddrs (rec_Agent s))
         \<or> ai_PubKey (rec_Agent r) \<noteq> ai_PubKey (rec_Agent s) then False
      else if \<not> equalStrings (rec_Endpoints r) (rec_Endpoints s)
         \<or> \<not> equalStrings (rec_Tags r) (rec_Tags s) then False
      else equalOverrides (rec_Declared r) (rec_Declared s))"

section \<open>Health, heartbeats, statistics, upstreams\<close>

datatype Health = HealthStarting | HealthOffline | HealthOnline | HealthLagging | HealthSynced

fun Health_String :: "Health \<Rightarrow> string" where
  "Health_String HealthStarting = ''starting''"
| "Health_String HealthOffline = ''offline''"
| "Health_String HealthOnline = ''online''"
| "Health_String HealthLagging = ''lagging''"
| "Health_String HealthSynced = ''synced''"

text \<open>The text parsers walk the list of values and compare each one's String.\<close>

definition Health_UnmarshalText :: "string \<Rightarrow> DomainError + Health" where
  "Health_UnmarshalText b =
     (case find (\<lambda>c. Health_String c = b)
        [HealthStarting, HealthOffline, HealthOnline, HealthLagging, HealthSynced] of
      Some c \<Rightarrow> Inr c | None \<Rightarrow> Inl (UnknownHealth b))"

definition Reachable :: "Health \<Rightarrow> bool" where
  "Reachable h = (h = HealthOnline \<or> h = HealthLagging \<or> h = HealthSynced)"

record Heartbeat =
  hb_NodeID :: string
  hb_Seq :: u64
  hb_LastRound :: u64
  hb_Online :: bool
  hb_Caps :: Capabilities
  hb_Draining :: bool

datatype UpstreamKind = KindLocal | KindPeer | KindExternal

fun Kind_String :: "UpstreamKind \<Rightarrow> string" where
  "Kind_String KindLocal = ''local''"
| "Kind_String KindPeer = ''peer''"
| "Kind_String KindExternal = ''external''"

definition Kind_UnmarshalText :: "string \<Rightarrow> DomainError + UpstreamKind" where
  "Kind_UnmarshalText b =
     (case find (\<lambda>c. Kind_String c = b) [KindLocal, KindPeer, KindExternal] of
      Some c \<Rightarrow> Inr c | None \<Rightarrow> Inl (UnknownKind b))"

record Stats =
  LatencyMS :: "string \<rightharpoonup> f64"
  ErrorRate :: f64
  Inflight :: int
  BreakerOpen :: bool
  Throttled :: bool
  Busy :: bool

definition zero_stats :: Stats where
  "zero_stats = \<lparr>LatencyMS = Map.empty, ErrorRate = 0, Inflight = 0, BreakerOpen = False,
     Throttled = False, Busy = False\<rparr>"

record Upstream =
  u_ID :: string
  u_Kind :: UpstreamKind
  u_Tier :: int
  u_BaseURL :: string
  u_Token :: string
  u_Health :: Health
  u_LastRound :: u64
  u_Caps :: Capabilities
  u_Draining :: bool
  u_Excluded :: bool
  u_Stats :: Stats
  u_Source :: string
  u_Score :: f64

type_synonym Mode = string

abbreviation ModeFallback :: Mode where "ModeFallback \<equiv> ''fallback''"
abbreviation ModeLoadBalancer :: Mode where "ModeLoadBalancer \<equiv> ''loadbalancer''"

definition ParseMode :: "string \<Rightarrow> DomainError + Mode" where
  "ParseMode s =
     (if s = ModeFallback \<or> s = ModeLoadBalancer then Inr s
      else if s = [] then Inr ModeFallback
      else Inl (UnknownMode s))"

text \<open>Two upstreams the theorems are tried on: a stock algod and a dtalgorand node.\<close>

definition sample_algod :: Upstream where
  "sample_algod = \<lparr>u_ID = ''n1'', u_Kind = KindPeer, u_Tier = 0, u_BaseURL = ''http://n1:8080'',
     u_Token = ''t1'', u_Health = HealthSynced, u_LastRound = 1000,
     u_Caps = zero_caps\<lparr>caps_OldestRound := 500, caps_MaxAcctLookback := 4\<rparr>, u_Draining = False,
     u_Excluded = False, u_Stats = zero_stats, u_Source = ''gossip'', u_Score = 0\<rparr>"

definition sample_dtalgorand :: Upstream where
  "sample_dtalgorand = sample_algod\<lparr>u_ID := ''n2'',
     u_Caps := zero_caps\<lparr>caps_TimeTravel := True, caps_DeveloperAPI := True,
       caps_Simulate := Some \<lparr>MaxTxnGroups = 16, MaxRounds = 8, MaxExtraOpcodeBudget = 0,
         ResourceLimitMultiplier = 4, MaxExecTraceBytes = 0, TimeLimitSeconds = 0\<rparr>\<rparr>\<rparr>"

section \<open>Lemmas\<close>

text \<open>The window of a node that keeps recent rounds never starts past its last round.\<close>

lemma OldestRoundFor_le:
  assumes "ar_Kind a \<noteq> ArchivalSince"
  shows "OldestRoundFor a r \<le> r"
  using assms
  by (auto simp: OldestRoundFor_def word_le_nat_alt unat_sub not_le)

lemma OldestRoundFor_trailing:
  assumes "ar_Kind a = ArchivalTrailing"
  shows "unat (OldestRoundFor a r) = unat r - unat (ar_N a)"
  using assms by (auto simp: OldestRoundFor_def unat_sub word_le_nat_alt not_le)

lemma equalStrings_iff [simp]: "equalStrings xs ys \<longleftrightarrow> xs = ys"
  by (induction xs ys rule: equalStrings.induct) auto

lemma equalPtr_iff [simp]: "equalPtr a b \<longleftrightarrow> a = b"
  by (auto simp: equalPtr_def)

lemma equalOverrides_iff [simp]: "equalOverrides a b \<longleftrightarrow> a = b"
  by (cases a; cases b) (auto simp: equalOverrides_def CapabilityOverrides.equality)

lemma Health_UnmarshalText_String [simp]: "Health_UnmarshalText (Health_String h) = Inr h"
  by (cases h) (simp_all add: Health_UnmarshalText_def)

lemma Kind_UnmarshalText_String [simp]: "Kind_UnmarshalText (Kind_String k) = Inr k"
  by (cases k) (simp_all add: Kind_UnmarshalText_def)

lemma SimulateLimitsOf_Simulate [simp]:
  "caps_Simulate c = None \<Longrightarrow> SimulateLimitsOf c = StockSimulateLimits"
  by (simp add: SimulateLimitsOf_def)

text \<open>The limits a node reports are read within dtalgorand's own bounds.\<close>

lemmas simulate_caps = StockMaxExtraOpcodeBudget_def maxSimulateGroups_def maxSimulateRounds_def
  maxExtraOpcodeBudget_def maxResourceLimitMultiplier_def

lemma SimulateLimitsOf_bounds:
  "MaxTxnGroups (SimulateLimitsOf c) \<in> {1..256}"
   "MaxRounds (SimulateLimitsOf c) \<le> 256"
   "MaxExtraOpcodeBudget (SimulateLimitsOf c) \<in> {1..320000000}"
   "ResourceLimitMultiplier (SimulateLimitsOf c) \<in> {1..1024}"
  by (auto simp: SimulateLimitsOf_def StockSimulateLimits_def Let_def simulate_caps min_word_eq_0
      max_def split: option.splits)

lemma SimulateLimitsOf_idem:
  assumes "caps_Simulate c' = Some (SimulateLimitsOf c)"
  shows "SimulateLimitsOf c' = SimulateLimitsOf c"
  using SimulateLimitsOf_bounds [of c]
  by (simp add: SimulateLimitsOf_def [of c'] assms Let_def simulate_caps max_absorb1 min_absorb1)

section \<open>Properties\<close>

text \<open>
  Whatever a node reports, its simulate limits are read within the bounds dtalgorand enforces
  (at least one group and a multiplier of one, at most 256 groups, 256 rounds, a thousand times
  the stock opcode budget and a multiplier of 1024), and reading limits already read changes
  nothing.
\<close>

theorem simulate_limits_normalised:
  "MaxTxnGroups (SimulateLimitsOf c) \<in> {1..256} \<and> MaxRounds (SimulateLimitsOf c) \<le> 256
   \<and> MaxExtraOpcodeBudget (SimulateLimitsOf c) \<in> {1..320000000}
   \<and> ResourceLimitMultiplier (SimulateLimitsOf c) \<in> {1..1024}
   \<and> SimulateLimitsOf (c\<lparr>caps_Simulate := Some (SimulateLimitsOf c)\<rparr>) = SimulateLimitsOf c"
  using SimulateLimitsOf_bounds [of c]
    SimulateLimitsOf_idem [of "c\<lparr>caps_Simulate := Some (SimulateLimitsOf c)\<rparr>" c] by simp

end
