(* ===== verification/Classify.thy ===== *)
theory Classify
  imports Types
begin

text \<open>
  Request classification (src/internal/domain/classify.go): what routing needs to know about a
  client request, from its method, path and raw query, refined for a simulate request by its
  body. The piece of package net/url that reads the query (ParseQuery, QueryUnescape, Get) is
  modelled with it; its cap on the number of parameters is not.
\<close>

section \<open>Request classes\<close>

datatype RoundWindow = WindowBlock | WindowState | WindowDelta

record Reply =
  rep_Status :: int
  rep_Message :: string

record SimulateNeeds =
  sn_Groups :: nat
  sn_Rounds :: nat
  sn_ExtraOpcodeBudget :: u64
  sn_Fork :: bool
  sn_DeveloperAPI :: bool
  sn_RoundsSpan :: bool
  sn_Latest :: bool
  sn_ExecTrace :: bool
  sn_UnnamedResources :: bool

record RequestClass =
  rc_Round :: "u64 option"
  rc_Ahead :: Reply
  rc_NeedsDev :: bool
  rc_Broadcast :: bool
  rc_PendingID :: string
  rc_WaitAfter :: "u64 option"
  rc_LocalOnly :: bool
  rc_Agent :: bool
  rc_Idempotent :: bool
  rc_TimeTravel :: bool
  rc_RoundWindow :: RoundWindow
  rc_HistoryAnyRound :: bool
  rc_Simulate :: bool
  rc_SimNeeds :: "SimulateNeeds option"
  rc_RoundHigh :: u64
  rc_SimulateLimits :: bool
  rc_Versions :: bool
  rc_Deltas :: bool

definition zero_class :: RequestClass where
  "zero_class = \<lparr>rc_Round = None, rc_Ahead = \<lparr>rep_Status = 0, rep_Message = []\<rparr>, rc_NeedsDev = False,
     rc_Broadcast = False, rc_PendingID = [], rc_WaitAfter = None, rc_LocalOnly = False,
     rc_Agent = False, rc_Idempotent = False, rc_TimeTravel = False, rc_RoundWindow = WindowBlock,
     rc_HistoryAnyRound = False, rc_Simulate = False, rc_SimNeeds = None, rc_RoundHigh = 0,
     rc_SimulateLimits = False, rc_Versions = False, rc_Deltas = False\<rparr>"

definition Heavy :: "RequestClass \<Rightarrow> bool" where
  "Heavy c = (rc_Simulate c \<or> rc_Deltas c)"

text \<open>SimulateNeeds.Fits: whether a node with capabilities c accepts the request.\<close>

definition Fits :: "SimulateNeeds \<Rightarrow> Capabilities \<Rightarrow> bool" where
  "Fits n c =
     (if sn_Fork n \<and> caps_Simulate c = None then False
      else if sn_DeveloperAPI n \<and> \<not> caps_DeveloperAPI c then False
      else let l = SimulateLimitsOf c in
        (of_nat (sn_Groups n) :: u64) \<le> MaxTxnGroups l \<and> of_nat (sn_Rounds n) \<le> MaxRounds l
        \<and> sn_ExtraOpcodeBudget n \<le> MaxExtraOpcodeBudget l)"

section \<open>Simulate bodies\<close>

text \<open>
  The part of a simulate body routing reads. The transaction groups are counted only, so the
  model keeps their number; ExtraOpcodeBudget is an int64.
\<close>

record SimulateBody =
  sb_TxnGroups :: nat
  sb_Round :: u64
  sb_Rounds :: "u64 list"
  sb_ExtraOpcodeBudget :: int
  sb_ExecTraceEnable :: bool
  sb_AllowUnnamedResources :: bool
  sb_ParallelGroups :: bool
  sb_SkipValidityWindow :: bool
  sb_RewriteValidityWindow :: bool
  sb_Protocol :: string

abbreviation protocolFuture :: string where "protocolFuture \<equiv> ''future''"

text \<open>The loop over a rounds list: the earliest and the latest round, and whether 0 occurs.\<close>

fun rounds_span :: "u64 list \<Rightarrow> u64 \<Rightarrow> u64 \<Rightarrow> bool \<Rightarrow> u64 \<times> u64 \<times> bool" where
  "rounds_span [] lo hi latest = (lo, hi, latest)"
| "rounds_span (r # rs) lo hi latest =
     (if r = 0 then rounds_span rs lo hi True
      else rounds_span rs (if lo = 0 \<or> r < lo then r else lo) (max hi r) latest)"

definition setRound :: "u64 \<Rightarrow> RequestClass \<Rightarrow> RequestClass" where
  "setRound r c = c\<lparr>rc_Round := Some r, rc_RoundWindow := WindowState, rc_HistoryAnyRound := True\<rparr>"

definition ApplySimulate :: "RequestClass \<Rightarrow> SimulateBody \<Rightarrow> RequestClass" where
  "ApplySimulate c b =
     (let n = \<lparr>sn_Groups = sb_TxnGroups b, sn_Rounds = length (sb_Rounds b),
               sn_ExtraOpcodeBudget =
                 (if sb_ExtraOpcodeBudget b > 0 then of_int (sb_ExtraOpcodeBudget b) else 0),
               sn_Fork = (sb_ParallelGroups b \<or> sb_SkipValidityWindow b \<or> sb_RewriteValidityWindow b
                          \<or> sb_Protocol b \<noteq> []),
               sn_DeveloperAPI = (sb_ExecTraceEnable b \<or> sb_Protocol b = protocolFuture),
               sn_RoundsSpan = False, sn_Latest = False, sn_ExecTrace = sb_ExecTraceEnable b,
               sn_UnnamedResources = sb_AllowUnnamedResources b\<rparr>
      in if sb_Round b \<noteq> 0 then (setRound (sb_Round b) c)\<lparr>rc_SimNeeds := Some n\<rparr>
         else if length (sb_Rounds b) > 0 then
           (case rounds_span (sb_Rounds b) 0 0 False of (lo, hi, latest) \<Rightarrow>
              let n = n\<lparr>sn_Latest := latest\<rparr> in
              if hi > 0
              then (setRound lo c)\<lparr>rc_RoundHigh := hi, rc_SimNeeds := Some (n\<lparr>sn_RoundsSpan := True\<rparr>)\<rparr>
              else c\<lparr>rc_SimNeeds := Some n\<rparr>)
         else c\<lparr>rc_SimNeeds := Some n\<rparr>)"

text \<open>RequestClass.Relaxed: the classes selection falls back to, in order.\<close>

definition Relaxed :: "RequestClass \<Rightarrow> RequestClass list" where
  "Relaxed c =
     (case rc_SimNeeds c of None \<Rightarrow> []
      | Some n \<Rightarrow>
        if sn_RoundsSpan n then
          (let c' = c\<lparr>rc_Round := None, rc_RoundHigh := 0, rc_RoundWindow := WindowBlock,
                      rc_HistoryAnyRound := False\<rparr>
           in [c', c'\<lparr>rc_SimNeeds := None\<rparr>])
        else [c\<lparr>rc_SimNeeds := None\<rparr>])"

text \<open>RequestClass.StatKey: the bucket of per-class latency tracking.\<close>

definition StatKey :: "RequestClass \<Rightarrow> string" where
  "StatKey c =
     (if rc_TimeTravel c then ''timetravel''
      else if rc_Simulate c then ''simulate''
      else if rc_Round c \<noteq> None then ''round''
      else if rc_Broadcast c then ''broadcast''
      else if rc_PendingID c \<noteq> [] then ''pending''
      else if rc_WaitAfter c \<noteq> None then ''wait''
      else if rc_NeedsDev c then ''teal''
      else ''default'')"

text \<open>RequestClass.String: the parts of the log rendering, joined with commas.\<close>

definition RequestClass_String :: "RequestClass \<Rightarrow> string" where
  "RequestClass_String c = Join
     ((case rc_Round c of None \<Rightarrow> [] | Some r \<Rightarrow> [''round='' @ show_u64 r])
      @ (if rc_RoundHigh c \<noteq> 0 then [''round_high='' @ show_u64 (rc_RoundHigh c)] else [])
      @ (case rc_WaitAfter c of None \<Rightarrow> [] | Some r \<Rightarrow> [''wait_after='' @ show_u64 r])
      @ (if rc_NeedsDev c then [''dev''] else [])
      @ (if rc_Broadcast c then [''broadcast''] else [])
      @ (if rc_PendingID c \<noteq> [] then [''pending='' @ rc_PendingID c] else [])
      @ (if rc_TimeTravel c then [''time_travel''] else [])
      @ (if rc_Versions c then [''versions''] else [])
      @ (if rc_Deltas c then [''deltas''] else [])
      @ (if rc_Round c \<noteq> None then
           (case rc_RoundWindow c of WindowState \<Rightarrow> [''state_window'']
            | WindowDelta \<Rightarrow> [''delta_window''] | WindowBlock \<Rightarrow> [])
         else [])
      @ (if rc_HistoryAnyRound c then [''history_any_round''] else [])
      @ (case rc_SimNeeds c of None \<Rightarrow> []
         | Some n \<Rightarrow>
           (if sn_Groups n > 1 then [''sim_groups='' @ show_nat (sn_Groups n)] else [])
           @ (if sn_Rounds n > 0 then [''sim_rounds='' @ show_nat (sn_Rounds n)] else [])
           @ (if sn_ExtraOpcodeBudget n > StockMaxExtraOpcodeBudget
              then [''sim_budget='' @ show_u64 (sn_ExtraOpcodeBudget n)] else [])
           @ (if sn_Fork n then [''sim_fork''] else [])
           @ (if sn_DeveloperAPI n then [''sim_dev''] else []))
      @ (if rc_LocalOnly c then [''local_only''] else [])
      @ (if rc_Idempotent c then [''idempotent''] else [])) '',''"

section \<open>The query\<close>

definition unhex :: "char \<Rightarrow> int option" where
  "unhex c = (let n = of_char c :: int in
     if 48 \<le> n \<and> n \<le> 57 then Some (n - 48)
     else if 97 \<le> n \<and> n \<le> 102 then Some (n - 87)
     else if 65 \<le> n \<and> n \<le> 70 then Some (n - 55)
     else None)"

text \<open>url.QueryUnescape: percent escapes and plus signs; None for a malformed escape.\<close>

fun QueryUnescape :: "string \<Rightarrow> string option" where
  "QueryUnescape [] = Some []"
| "QueryUnescape (c # cs) =
     (if c = CHR ''%'' then
        (case cs of
           a # b # rest \<Rightarrow>
             (case (unhex a, unhex b) of
                (Some x, Some y) \<Rightarrow> map_option (\<lambda>s. char_of (16 * x + y) # s) (QueryUnescape rest)
              | _ \<Rightarrow> None)
         | _ \<Rightarrow> None)
      else map_option (\<lambda>s. (if c = CHR ''+'' then CHR '' '' else c) # s) (QueryUnescape cs))"

text \<open>
  url.ParseQuery keeps every valid pair and drops the malformed ones: those with a semicolon or
  with a bad escape.
\<close>

definition parse_pair :: "string \<Rightarrow> (string \<times> string) list" where
  "parse_pair p =
     (if CHR '';'' \<in> set p then []
      else if p = [] then []
      else case Cut p (CHR ''='') of (k, v, _) \<Rightarrow>
        (case (QueryUnescape k, QueryUnescape v) of
           (Some k', Some v') \<Rightarrow> [(k', v')]
         | _ \<Rightarrow> []))"

definition queryValues :: "string \<Rightarrow> (string \<times> string) list" where
  "queryValues rawQuery =
     (if rawQuery = [] then [] else concat (map parse_pair (Split rawQuery (CHR ''&''))))"

text \<open>Values.Get: the first value of a key, empty when there is none.\<close>

definition query_Get :: "(string \<times> string) list \<Rightarrow> string \<Rightarrow> string" where
  "query_Get q k = (case map_of q k of None \<Rightarrow> [] | Some v \<Rightarrow> v)"

definition parseRound :: "string \<Rightarrow> u64 option" where
  "parseRound s = (if s = [] then None else ParseUint s)"

definition roundParam :: "(string \<times> string) list \<Rightarrow> u64 option" where
  "roundParam q = (let s = query_Get q ''round'' in if s = [] then None else parseRound s)"

section \<open>Classify\<close>

definition seg_at :: "string list \<Rightarrow> nat \<Rightarrow> string" where
  "seg_at segs i = (if i < length segs then segs ! i else [])"

abbreviation ledger_error :: string where
  "ledger_error \<equiv> ''failed to retrieve information from the ledger''"

text \<open>The case of blocks, deltas and state proofs.\<close>

definition classify_blocks ::
  "string \<Rightarrow> string list \<Rightarrow> (string \<times> string) list \<Rightarrow> RequestClass \<Rightarrow> RequestClass" where
  "classify_blocks mth segs q c0 =
     (let seg = seg_at segs;
          c1 = (case parseRound (seg 2) of None \<Rightarrow> c0
            | Some r \<Rightarrow>
              let sub = Join (drop 3 segs) ''/'';
                  c = c0\<lparr>rc_Round := Some r\<rparr>;
                  c = (if mth \<noteq> ''GET'' then c
                       else if seg 1 = ''stateproofs'' \<and> sub = []
                          \<or> seg 1 = ''blocks'' \<and> sub = ''lightheader/proof''
                       then c\<lparr>rc_Ahead := \<lparr>rep_Status = 500,
                              rep_Message = ''given round is greater than the latest round''\<rparr>\<rparr>
                       else if seg 1 = ''blocks'' \<and> length segs = 6 \<and> seg 3 = ''transactions''
                          \<and> seg 5 = ''proof''
                       then c\<lparr>rc_Ahead := \<lparr>rep_Status = 500, rep_Message = ledger_error\<rparr>\<rparr>
                       else if seg 1 = ''blocks''
                            \<and> (sub = [] \<or> sub = ''hash'' \<or> sub = ''txids'' \<or> sub = ''logs'')
                          \<or> seg 1 = ''deltas'' \<and> sub = []
                       then c\<lparr>rc_Ahead := \<lparr>rep_Status = 404, rep_Message = ledger_error\<rparr>\<rparr>
                       else c)
              in (if seg 1 = ''deltas'' \<and> sub = []
                  then c\<lparr>rc_RoundWindow := WindowDelta, rc_Deltas := (mth = ''GET'')\<rparr> else c));
          c2 = (if seg 1 = ''blocks'' \<and> query_Get q ''header-only'' = ''true''
                then c1\<lparr>rc_HistoryAnyRound := True\<rparr> else c1)
      in (if seg 1 = ''deltas'' \<and> seg 2 = ''txn'' then c2\<lparr>rc_Round := None\<rparr> else c2))"

text \<open>The case of accounts, assets, applications and the ledger group.\<close>

definition classify_state ::
  "string list \<Rightarrow> (string \<times> string) list \<Rightarrow> RequestClass \<Rightarrow> RequestClass" where
  "classify_state segs q c =
     (let seg = seg_at segs in
      if seg 1 = ''ledger'' \<and> seg 2 \<noteq> ''supply'' then c\<lparr>rc_LocalOnly := True\<rparr>
      else
        let rp = roundParam q;
            c' = (case rp of None \<Rightarrow> c
                  | Some r \<Rightarrow>
                    if seg 1 = ''applications'' \<and> seg 3 = ''boxes'' then setRound r c
                    else if seg 1 = ''applications'' \<and> seg 3 = ''box''
                    then (setRound r c)\<lparr>rc_TimeTravel := True\<rparr>
                    else (setRound r c)\<lparr>rc_TimeTravel := True\<rparr>)
        in (if seg 1 = ''ledger'' \<and> rp = None then c'\<lparr>rc_LocalOnly := True\<rparr> else c'))"

text \<open>The case of transactions.\<close>

definition classify_transactions :: "string \<Rightarrow> string list \<Rightarrow> RequestClass \<Rightarrow> RequestClass" where
  "classify_transactions mth segs c =
     (let seg = seg_at segs in
      if seg 2 = [] \<and> mth = ''POST'' then c\<lparr>rc_Broadcast := True, rc_Idempotent := False\<rparr>
      else if seg 2 = ''pending'' \<and> seg 3 \<noteq> [] then c\<lparr>rc_PendingID := seg 3\<rparr>
      else if seg 2 = ''pending'' then c\<lparr>rc_LocalOnly := True\<rparr>
      else if seg 2 = ''simulate'' \<and> seg 3 = ''limits''
      then c\<lparr>rc_SimulateLimits := (mth = ''GET'')\<rparr>
      else if seg 2 = ''simulate'' then c\<lparr>rc_Idempotent := True, rc_Simulate := True\<rparr>
      else c)"

text \<open>The switch on the second segment of a /v2 path.\<close>

definition classify_v2 ::
  "string \<Rightarrow> string list \<Rightarrow> (string \<times> string) list \<Rightarrow> RequestClass \<Rightarrow> RequestClass" where
  "classify_v2 mth segs q c =
     (let seg = seg_at segs in
      if seg 1 \<in> {''blocks'', ''deltas'', ''stateproofs''} then classify_blocks mth segs q c
      else if seg 1 \<in> {''accounts'', ''assets'', ''applications'', ''ledger''}
      then classify_state segs q c
      else if seg 1 = ''status'' then
        (if seg 2 = ''wait-for-block-after'' then
           (case parseRound (seg 3) of None \<Rightarrow> c | Some r \<Rightarrow> c\<lparr>rc_WaitAfter := Some r\<rparr>)
         else c)
      else if seg 1 = ''teal'' then c\<lparr>rc_NeedsDev := True, rc_Idempotent := True\<rparr>
      else if seg 1 = ''transactions'' then classify_transactions mth segs c
      else if seg 1 \<in> {''participation'', ''shutdown'', ''catchup'', ''devmode''}
      then c\<lparr>rc_LocalOnly := True\<rparr>
      else c)"

definition Classify :: "string \<Rightarrow> string \<Rightarrow> string \<Rightarrow> RequestClass" where
  "Classify mth0 path rawQuery =
     (let mth = ToUpper mth0;
          c = zero_class\<lparr>rc_Idempotent := (mth = ''GET'' \<or> mth = ''HEAD'')\<rparr>;
          p = TrimSuffix path ''/'';
          segs = Split (TrimPrefix p ''/'') (CHR ''/'');
          seg = seg_at segs
      in if seg 0 = ''mesh'' then c\<lparr>rc_Agent := True, rc_LocalOnly := True\<rparr>
         else if p \<in> {''/health'', ''/ready'', ''/metrics'', ''/swagger.json'', ''/versions'', ''/genesis''}
         then c\<lparr>rc_LocalOnly := True\<rparr>
         else if seg 0 \<noteq> ''v2'' then c\<lparr>rc_LocalOnly := True\<rparr>
         else if seg (length segs - 1) = ''versions''
         then c\<lparr>rc_TimeTravel := True, rc_Versions := True\<rparr>
         else classify_v2 mth segs (queryValues rawQuery) c)"

text \<open>The segments Classify reads off a path.\<close>

definition path_segs :: "string \<Rightarrow> string list" where
  "path_segs path = Split (TrimPrefix (TrimSuffix path ''/'') ''/'') (CHR ''/'')"

section \<open>Lemmas\<close>

text \<open>The fields each case of the switch leaves alone.\<close>

lemma setRound_frame [simp]:
  "rc_Idempotent (setRound r c) = rc_Idempotent c" "rc_Broadcast (setRound r c) = rc_Broadcast c"
  "rc_LocalOnly (setRound r c) = rc_LocalOnly c" "rc_Agent (setRound r c) = rc_Agent c"
  by (simp_all add: setRound_def)

lemma classify_blocks_frame [simp]:
  "rc_Idempotent (classify_blocks m segs q c) = rc_Idempotent c"
  "rc_Broadcast (classify_blocks m segs q c) = rc_Broadcast c"
  "rc_Agent (classify_blocks m segs q c) = rc_Agent c"
  by (cases "parseRound (seg_at segs 2)";
      simp add: classify_blocks_def Let_def if_distrib [of rc_Idempotent] if_distrib [of rc_Broadcast]
        if_distrib [of rc_Agent] cong del: if_weak_cong)+

lemma classify_state_frame [simp]:
  "rc_Idempotent (classify_state segs q c) = rc_Idempotent c"
  "rc_Broadcast (classify_state segs q c) = rc_Broadcast c"
  "rc_Agent (classify_state segs q c) = rc_Agent c"
  by (simp_all add: classify_state_def Let_def split: option.splits)

lemma classify_v2_retry:
  assumes "\<not> rc_Broadcast c"
  shows "rc_Idempotent (classify_v2 m segs q c) \<Longrightarrow> rc_Idempotent c \<or> seg_at segs 1 = ''teal''
     \<or> (seg_at segs 1 = ''transactions'' \<and> seg_at segs 2 = ''simulate'' \<and> seg_at segs 3 \<noteq> ''limits'')"
    and "rc_Broadcast (classify_v2 m segs q c) \<Longrightarrow>
      m = ''POST'' \<and> seg_at segs 1 = ''transactions'' \<and> seg_at segs 2 = [] \<and> \<not> rc_Idempotent (classify_v2 m segs q c)"
  using assms
  by (auto simp: classify_v2_def classify_transactions_def Let_def split: if_splits option.splits)

lemma not_versions: "show_u64 r \<noteq> ''versions''"
proof
  assume "show_u64 r = ''versions''"
  moreover have "ParseUint ''versions'' = None" by code_simp
  ultimately show False by (metis ParseUint_show option.distinct(1))
qed

lemma TrimSuffix_notin: "c \<notin> set s \<Longrightarrow> TrimSuffix (p @ s) [c] = p @ s" if "s \<noteq> []"
  using that by (cases s rule: rev_cases) (auto simp: append_assoc [symmetric] simp del: append_assoc)

lemma path_segs_two:
  assumes "CHR ''/'' \<notin> set a" "CHR ''/'' \<notin> set b" "CHR ''/'' \<notin> set s" "s \<noteq> []"
  shows "path_segs (''/'' @ a @ ''/'' @ b @ ''/'' @ s) = [a, b, s]"
    and "path_segs (''/'' @ a @ ''/'' @ b @ ''/'' @ s @ ''/'') = [a, b, s]"
proof -
  have 1: "TrimSuffix (''/'' @ a @ ''/'' @ b @ ''/'' @ s) ''/'' = ''/'' @ a @ ''/'' @ b @ ''/'' @ s"
    using TrimSuffix_notin [of s "CHR ''/''" "''/'' @ a @ ''/'' @ b @ ''/''"] assms by simp
  have 2: "TrimSuffix (''/'' @ a @ ''/'' @ b @ ''/'' @ s @ ''/'') ''/'' = ''/'' @ a @ ''/'' @ b @ ''/'' @ s"
    using TrimSuffix_append [of "''/'' @ a @ ''/'' @ b @ ''/'' @ s" "''/''"] by simp
  have "Split (a @ CHR ''/'' # b @ CHR ''/'' # s) (CHR ''/'') = [a, b, s]" using assms by simp
  moreover have "TrimPrefix (''/'' @ x) ''/'' = x" for x by (rule TrimPrefix_append)
  ultimately show "path_segs (''/'' @ a @ ''/'' @ b @ ''/'' @ s) = [a, b, s]"
     "path_segs (''/'' @ a @ ''/'' @ b @ ''/'' @ s @ ''/'') = [a, b, s]"
    unfolding path_segs_def 1 2 by simp_all
qed

lemma parseRound_show [simp]: "parseRound (show_u64 r) = Some r"
  by (simp add: parseRound_def)

text \<open>The span of a rounds list holds every round of it but 0, which means the latest.\<close>

lemma rounds_span_covers:
  assumes "rounds_span rs lo hi l = (lo', hi', l')" and "lo \<le> hi"
  shows "hi \<le> hi' \<and> (lo \<noteq> 0 \<longrightarrow> lo' \<noteq> 0 \<and> lo' \<le> lo) \<and> (l' \<longleftrightarrow> l \<or> 0 \<in> set rs)
    \<and> (\<forall>r \<in> set rs. r \<noteq> 0 \<longrightarrow> lo' \<noteq> 0 \<and> lo' \<le> r \<and> r \<le> hi')"
  using assms
proof (induction rs arbitrary: lo hi l)
  case (Cons r rs)
  show ?case
  proof (cases "r = 0")
    case True
    then show ?thesis using Cons by auto
  next
    case False
    define m where "m = (if lo = 0 \<or> r < lo then r else lo)"
    have m: "m \<le> r" "m \<noteq> 0" "lo \<noteq> 0 \<Longrightarrow> m \<le> lo" using False by (auto simp: m_def)
    have "rounds_span rs m (max hi r) l = (lo', hi', l')" using Cons.prems False by (simp add: m_def)
    moreover have "m \<le> max hi r" using m(1) by (simp add: le_max_iff_disj)
    ultimately have ih: "max hi r \<le> hi'" "lo' \<noteq> 0" "lo' \<le> m" "l' \<longleftrightarrow> l \<or> 0 \<in> set rs"
      "\<forall>x \<in> set rs. x \<noteq> 0 \<longrightarrow> lo' \<le> x \<and> x \<le> hi'"
      using Cons.IH [of m "max hi r" l] m(2) by auto
    have "lo' \<le> r" "lo \<noteq> 0 \<longrightarrow> lo' \<le> lo" using ih(3) m(1,3) by (blast intro: order_trans)+
    then show ?thesis using ih False by simp
  qed
qed simp

lemma ApplySimulate_span:
  assumes "sb_Round b = 0" and "r \<in> set (sb_Rounds b)" and "r \<noteq> 0"
  obtains lo hi n where "rc_Round (ApplySimulate c b) = Some lo" "rc_RoundHigh (ApplySimulate c b) = hi"
    "rc_RoundWindow (ApplySimulate c b) = WindowState"
    "rc_HistoryAnyRound (ApplySimulate c b)" "rc_SimNeeds (ApplySimulate c b) = Some n"
    "sn_Latest n \<longleftrightarrow> 0 \<in> set (sb_Rounds b)" "lo \<le> r" "r \<le> hi"
proof -
  obtain lo hi l where rs: "rounds_span (sb_Rounds b) 0 0 False = (lo, hi, l)"
    by (metis prod_cases3)
  note cov = rounds_span_covers [OF this]
  then have "lo \<le> r" "r \<le> hi" "l \<longleftrightarrow> 0 \<in> set (sb_Rounds b)" using assms by auto
  moreover from this assms(3) have "0 < hi" by (metis word_gt_0 word_le_0_iff)
  moreover have "sb_Rounds b \<noteq> []" using assms(2) by auto
  ultimately show thesis using that rs assms(1)
    by (simp add: ApplySimulate_def setRound_def Let_def)
qed

section \<open>Properties\<close>

text \<open>
  Retrying is safe: a request is classified as idempotent only if it is a GET or a HEAD, or a
  teal or simulate call, which change nothing; a transaction submission is a POST to
  /v2/transactions and never idempotent.
\<close>

theorem classify_retry_safe:
  fixes mth path q
  defines "c \<equiv> Classify mth path q" and "seg \<equiv> seg_at (path_segs path)"
  shows "(rc_Idempotent c \<longrightarrow> ToUpper mth \<in> {''GET'', ''HEAD''}
      \<or> seg 0 = ''v2'' \<and> (seg 1 = ''teal''
          \<or> seg 1 = ''transactions'' \<and> seg 2 = ''simulate'' \<and> seg 3 \<noteq> ''limits''))
    \<and> (rc_Broadcast c \<longrightarrow> \<not> rc_Idempotent c \<and> ToUpper mth = ''POST''
        \<and> seg 0 = ''v2'' \<and> seg 1 = ''transactions'' \<and> seg 2 = [])"
proof -
  let ?m = "ToUpper mth"
  let ?c0 = "zero_class\<lparr>rc_Idempotent := (?m = ''GET'' \<or> ?m = ''HEAD'')\<rparr>"
  have "\<not> rc_Broadcast ?c0" by (simp add: zero_class_def)
  note v2 = classify_v2_retry [OF this, of ?m "path_segs path" "queryValues q"]
  show ?thesis unfolding c_def seg_def Classify_def Let_def path_segs_def [symmetric]
    using v2 by (auto simp: zero_class_def)
qed

theorem classify_retry_safe_witness:
  "rc_Broadcast (Classify ''post'' ''/v2/transactions'' [])
   \<and> \<not> rc_Idempotent (Classify ''post'' ''/v2/transactions'' [])"
proof -
  have "rc_Broadcast (Classify ''post'' ''/v2/transactions'' [])" by code_simp
  then show ?thesis using classify_retry_safe [of "''post''" "''/v2/transactions''" "[]"] by simp
qed

text \<open>
  A block request and its classification agree: the round printed in the path, with or without
  a trailing slash, is the round of the class, for every 64-bit round and every query; the answer
  for a round ahead of the fleet is algod's 404, and only header-only=true widens the window.
\<close>

theorem classify_block_round:
  assumes "path = ''/v2/blocks/'' @ show_u64 r \<or> path = ''/v2/blocks/'' @ show_u64 r @ ''/''"
  shows "Classify ''GET'' path q = zero_class\<lparr>rc_Idempotent := True, rc_Round := Some r,
    rc_Ahead := \<lparr>rep_Status = 404, rep_Message = ledger_error\<rparr>,
    rc_HistoryAnyRound := (query_Get (queryValues q) ''header-only'' = ''true'')\<rparr>"
proof -
  have s: "path_segs path = [''v2'', ''blocks'', show_u64 r]"
    using assms path_segs_two [of "''v2''" "''blocks''" "show_u64 r"] by auto
  have "TrimSuffix path ''/'' = ''/v2/blocks/'' @ show_u64 r" 
    using assms TrimSuffix_notin [of "show_u64 r" "CHR ''/''" "''/v2/blocks/''"]  
      TrimSuffix_append [of "''/v2/blocks/'' @ show_u64 r" "''/''"] by auto
  then have p: "TrimSuffix path ''/'' \<notin> {''/health'', ''/ready'', ''/metrics'', ''/swagger.json'', ''/versions'', ''/genesis''}"
    by simp
  have g: "ToUpper ''GET'' = ''GET''" by code_simp
  show ?thesis
    unfolding Classify_def Let_def path_segs_def [symmetric] s g using p
    by (simp add: seg_at_def not_versions classify_v2_def classify_blocks_def zero_class_def Let_def)
qed

theorem classify_block_round_witness:
  "rc_Round (Classify ''GET'' ''/v2/blocks/18446744073709551615/'' ''a=%zz&header-only=true'')
     = Some 18446744073709551615"
proof -
  have "show_u64 18446744073709551615 = ''18446744073709551615''"
    by (simp add: show_u64_def show_nat.simps digit_char_def char_of_def)
  then show ?thesis
    using classify_block_round [of "''/v2/blocks/18446744073709551615/''" 18446744073709551615
        "''a=%zz&header-only=true''"] by (simp add: zero_class_def)
qed

end
