(* ===== verification/Eligible.thy ===== *)
theory Eligible
  imports Classify
begin

text \<open>
  Eligibility (src/internal/domain/eligible.go): whether an upstream may serve a request, the
  fleet's best round, whether some upstream could serve a request once it is back, and the
  simulate limits the fleet answers with. Rounds are 64-bit words, as in the source.
\<close>

section \<open>Definitions\<close>

definition synced :: "u64 \<Rightarrow> u64 \<Rightarrow> u64 \<Rightarrow> bool" where
  "synced rd best tol = (rd + tol \<ge> best)"

definition inSync :: "Upstream \<Rightarrow> u64 \<Rightarrow> u64 \<Rightarrow> bool" where
  "inSync u best tol =
     (case u_Health u of HealthSynced \<Rightarrow> True | HealthLagging \<Rightarrow> False
      | _ \<Rightarrow> synced (u_LastRound u) best tol)"

text \<open>The oldest round a plain node answers in a state window; None when the lookback is unknown.\<close>

definition stateOldest :: "Upstream \<Rightarrow> RoundWindow \<Rightarrow> u64 option" where
  "stateOldest u w =
     (let lb = caps_MaxAcctLookback (u_Caps u) in
      if lb = 0 then None
      else let oldest = (if u_LastRound u > lb then u_LastRound u - lb else 0)
        in Some (if w = WindowDelta then oldest + 1 else oldest))"

definition stateWindowCovers :: "Upstream \<Rightarrow> u64 \<Rightarrow> RoundWindow \<Rightarrow> bool" where
  "stateWindowCovers u r w =
     (case stateOldest u w of None \<Rightarrow> r \<ge> caps_OldestRound (u_Caps u) | Some oldest \<Rightarrow> r \<ge> oldest)"

text \<open>The switch on how an upstream must hold a requested round.\<close>

definition round_in_window :: "Upstream \<Rightarrow> RequestClass \<Rightarrow> u64 \<Rightarrow> bool" where
  "round_in_window u c r =
     (if caps_TimeTravel (u_Caps u) \<and> rc_HistoryAnyRound c then True
      else if caps_TimeTravel (u_Caps u) then \<not> r < caps_OldestRound (u_Caps u)
      else if rc_RoundWindow c \<noteq> WindowBlock then stateWindowCovers u r (rc_RoundWindow c)
      else \<not> r < caps_OldestRound (u_Caps u))"

definition Eligible :: "Upstream \<Rightarrow> RequestClass \<Rightarrow> u64 \<Rightarrow> u64 \<Rightarrow> bool" where
  "Eligible u c bestRound tolerance =
     (if u_Excluded u \<or> \<not> Reachable (u_Health u) \<or> u_Draining u then False
      else if BreakerOpen (u_Stats u) \<or> Throttled (u_Stats u) \<or> Busy (u_Stats u) \<and> Heavy c then False
      else if rc_LocalOnly c \<and> u_Kind u \<noteq> KindLocal then False
      else if rc_TimeTravel c \<and> \<not> caps_TimeTravel (u_Caps u) then False
      else if (case rc_Round c of
           Some r \<Rightarrow>
             (r > u_LastRound u \<or> rc_RoundHigh c > u_LastRound u)
             \<or> \<not> round_in_window u c r
             \<or> (case rc_SimNeeds c of None \<Rightarrow> False
                | Some n \<Rightarrow> sn_Latest n \<and> \<not> inSync u bestRound tolerance)
         | None \<Rightarrow> \<not> rc_LocalOnly c \<and> \<not> inSync u bestRound tolerance) then False
      else if (case rc_WaitAfter c of None \<Rightarrow> False | Some w \<Rightarrow> w > u_LastRound u + 1) then False
      else if rc_NeedsDev c \<and> \<not> caps_DeveloperAPI (u_Caps u) then False
      else if (case rc_SimNeeds c of None \<Rightarrow> False | Some n \<Rightarrow> \<not> Fits n (u_Caps u)) then False
      else if rc_Broadcast c \<and> caps_FollowMode (u_Caps u) then False
      else True)"

definition SyncHealth :: "Health \<Rightarrow> u64 \<Rightarrow> u64 \<Rightarrow> u64 \<Rightarrow> Health" where
  "SyncHealth h rd best tol =
     (if \<not> Reachable h then h
      else if synced rd best tol then HealthSynced else HealthLagging)"

fun best_round_from :: "u64 \<Rightarrow> Upstream list \<Rightarrow> u64" where
  "best_round_from best [] = best"
| "best_round_from best (u # us) =
     best_round_from (if Reachable (u_Health u) \<and> \<not> u_Excluded u \<and> u_LastRound u > best
                      then u_LastRound u else best) us"

definition BestRound :: "Upstream list \<Rightarrow> u64" where
  "BestRound us = best_round_from 0 us"

definition CouldServe :: "Upstream list \<Rightarrow> RequestClass \<Rightarrow> bool" where
  "CouldServe us c = list_ex (\<lambda>u.
     let u' = u\<lparr>u_Health := HealthSynced, u_Draining := False, u_Stats := zero_stats\<rparr>
     in Eligible u' c (u_LastRound u') 0) us"

record FleetSimulateLimitsReply =
  fl_DeveloperAPI :: bool
  fl_MaxExtraOpcodeBudget :: u64
  fl_MaxRounds :: u64
  fl_MaxTxnGroups :: u64
  fl_ResourceLimitMultiplier :: u64
  fl_TimeTravel :: bool
  fl_MaxExecTraceBytes :: u64
  fl_TimeLimitSeconds :: u64

definition simulateLimitsAbove :: "Upstream \<Rightarrow> Upstream \<Rightarrow> bool" where
  "simulateLimitsAbove a b =
     (let la = SimulateLimitsOf (u_Caps a); lb = SimulateLimitsOf (u_Caps b) in
      if MaxTxnGroups la \<noteq> MaxTxnGroups lb then MaxTxnGroups la > MaxTxnGroups lb
      else if MaxRounds la \<noteq> MaxRounds lb then MaxRounds la > MaxRounds lb
      else if MaxExtraOpcodeBudget la \<noteq> MaxExtraOpcodeBudget lb
      then MaxExtraOpcodeBudget la > MaxExtraOpcodeBudget lb
      else if caps_TimeTravel (u_Caps a) \<noteq> caps_TimeTravel (u_Caps b) then caps_TimeTravel (u_Caps a)
      else if caps_DeveloperAPI (u_Caps a) \<noteq> caps_DeveloperAPI (u_Caps b)
      then caps_DeveloperAPI (u_Caps a)
      else u_ID a < u_ID b)"

text \<open>The class the fleet's limits are judged for, and the loop over the upstreams.\<close>

definition plain_simulate :: RequestClass where
  "plain_simulate = zero_class\<lparr>rc_Simulate := True, rc_Idempotent := True\<rparr>"

definition multiplierOf :: "Upstream \<Rightarrow> u64" where
  "multiplierOf u = ResourceLimitMultiplier (SimulateLimitsOf (u_Caps u))"

fun fleet_scan ::
  "u64 \<Rightarrow> u64 \<Rightarrow> Upstream option \<Rightarrow> u64 \<Rightarrow> Upstream list \<Rightarrow> Upstream option \<times> u64" where
  "fleet_scan bestRound tol best multiplier [] = (best, multiplier)"
| "fleet_scan bestRound tol best multiplier (u # us) =
     (if \<not> Eligible u plain_simulate bestRound tol then fleet_scan bestRound tol best multiplier us
      else fleet_scan bestRound tol
        (if caps_Simulate (u_Caps u) \<noteq> None
            \<and> (case best of None \<Rightarrow> True | Some b \<Rightarrow> simulateLimitsAbove u b)
         then Some u else best)
        (if multiplier = 0 \<or> multiplierOf u < multiplier then multiplierOf u else multiplier) us)"

definition FleetSimulateLimits ::
  "Upstream list \<Rightarrow> u64 \<Rightarrow> u64 \<Rightarrow> FleetSimulateLimitsReply option" where
  "FleetSimulateLimits us bestRound tol =
     (case fleet_scan bestRound tol None 0 us of
        (None, _) \<Rightarrow> None
      | (Some b, multiplier) \<Rightarrow>
        let l = SimulateLimitsOf (u_Caps b) in
        Some \<lparr>fl_DeveloperAPI = caps_DeveloperAPI (u_Caps b),
              fl_MaxExtraOpcodeBudget = MaxExtraOpcodeBudget l, fl_MaxRounds = MaxRounds l,
              fl_MaxTxnGroups = MaxTxnGroups l, fl_ResourceLimitMultiplier = multiplier,
              fl_TimeTravel = caps_TimeTravel (u_Caps b),
              fl_MaxExecTraceBytes = MaxExecTraceBytes l, fl_TimeLimitSeconds = TimeLimitSeconds l\<rparr>)"

text \<open>What a simulate request may ask for, to try the theorems on.\<close>

definition sample_needs :: SimulateNeeds where
  "sample_needs = \<lparr>sn_Groups = 10, sn_Rounds = 5, sn_ExtraOpcodeBudget = 0, sn_Fork = True,
     sn_DeveloperAPI = True, sn_RoundsSpan = False, sn_Latest = False, sn_ExecTrace = False,
     sn_UnnamedResources = False\<rparr>"

section \<open>Lemmas\<close>

text \<open>What eligibility guarantees, one fact per guard.\<close>

lemma eligible_blocked:
  assumes "Eligible u c b t"
  shows "\<not> u_Excluded u" "Reachable (u_Health u)" "\<not> u_Draining u" "\<not> BreakerOpen (u_Stats u)"
    "\<not> Throttled (u_Stats u)" "Busy (u_Stats u) \<Longrightarrow> \<not> Heavy c"
    "rc_LocalOnly c \<Longrightarrow> u_Kind u = KindLocal"
    "rc_TimeTravel c \<Longrightarrow> caps_TimeTravel (u_Caps u)"
    "rc_NeedsDev c \<Longrightarrow> caps_DeveloperAPI (u_Caps u)"
    "rc_SimNeeds c = Some n \<Longrightarrow> Fits n (u_Caps u)"
    "rc_Broadcast c \<Longrightarrow> \<not> caps_FollowMode (u_Caps u)"
    "rc_WaitAfter c = Some w \<Longrightarrow> w \<le> u_LastRound u + 1"
    "rc_Round c = Some r \<Longrightarrow> r \<le> u_LastRound u \<and>
        rc_RoundHigh c \<le> u_LastRound u \<and> round_in_window u c r"
    "rc_Round c = None \<Longrightarrow> \<not> rc_LocalOnly c \<Longrightarrow> inSync u b t"
  using assms unfolding Eligible_def by (auto split: if_splits option.splits simp: not_less)

lemma Eligible_resets:
  assumes "Eligible u c b t"
    and "u' = u\<lparr>u_Health := HealthSynced, u_Draining := False, u_Stats := st\<rparr>"
    and "\<not> BreakerOpen st" "\<not> Throttled st" "\<not> Busy st"
  shows "Eligible u' c b' t'"
proof -
  have win: "round_in_window u' c r = round_in_window u c r" for r
    by (simp add: assms(2) round_in_window_def stateWindowCovers_def stateOldest_def Let_def)
  have u': "u_Excluded u' = u_Excluded u" "u_Kind u' = u_Kind u" "u_Caps u' = u_Caps u"
    "u_LastRound u' = u_LastRound u" "u_Health u' = HealthSynced" "\<not> u_Draining u'" "u_Stats u' = st"
    by (simp_all add: assms(2))
  show ?thesis using assms(1) unfolding Eligible_def
    by (auto simp: u' assms(3-) Reachable_def inSync_def win split: option.splits if_splits)
qed

lemma Eligible_CouldServe:
  "Eligible u c b t \<Longrightarrow> u \<in> set us \<Longrightarrow> CouldServe us c"
  using Eligible_resets [of u c b t _ zero_stats "u_LastRound u" 0, OF _ refl]
  by (auto simp: CouldServe_def list_ex_iff zero_stats_def)

text \<open>The edge of the state window, in natural numbers: no subtraction or increment wraps.\<close>

lemma unat_stateOldest:
  assumes "stateOldest u w = Some old"
  shows "unat old = unat (u_LastRound u) - unat (caps_MaxAcctLookback (u_Caps u)) + (if w = WindowDelta then 1 else 0)"
proof -
  let ?o = "if u_LastRound u > caps_MaxAcctLookback (u_Caps u)
     then u_LastRound u - caps_MaxAcctLookback (u_Caps u) else 0"
  have lb: "caps_MaxAcctLookback (u_Caps u) \<noteq> 0" and
    old: "old = (if w = WindowDelta then ?o + 1 else ?o)"
    using assms by (auto simp: stateOldest_def Let_def split: if_splits)
  have o: "unat ?o = unat (u_LastRound u) - unat (caps_MaxAcctLookback (u_Caps u))"
    by (auto simp: unat_sub word_less_nat_alt word_le_nat_alt)
  have "unat (u_LastRound u) < 2 ^ 64" using unsigned_less [of "u_LastRound u"] by simp
  moreover have "0 < unat (caps_MaxAcctLookback (u_Caps u))" using lb by (simp add: unat_gt_0)
  ultimately have "unat ?o + 1 < 2 ^ 64" unfolding o by simp
  then have "unat (?o + 1) = unat ?o + 1" using unat_plus_bounded [of ?o 1] by simp
  then show ?thesis using old o by simp
qed

text \<open>The ranking of simulate limits is a strict weak order, so the scan finds a maximum.\<close>

interpretation sim: strict_weak_order simulateLimitsAbove
proof -
  have *: "simulateLimitsAbove = (\<lambda>a b.
      if MaxTxnGroups (SimulateLimitsOf (u_Caps a)) \<noteq> MaxTxnGroups (SimulateLimitsOf (u_Caps b))
      then MaxTxnGroups (SimulateLimitsOf (u_Caps a)) > MaxTxnGroups (SimulateLimitsOf (u_Caps b))
      else if MaxRounds (SimulateLimitsOf (u_Caps a)) \<noteq> MaxRounds (SimulateLimitsOf (u_Caps b))
      then MaxRounds (SimulateLimitsOf (u_Caps a)) > MaxRounds (SimulateLimitsOf (u_Caps b))
      else if MaxExtraOpcodeBudget (SimulateLimitsOf (u_Caps a)) \<noteq> MaxExtraOpcodeBudget (SimulateLimitsOf (u_Caps b))
      then MaxExtraOpcodeBudget (SimulateLimitsOf (u_Caps a)) > MaxExtraOpcodeBudget (SimulateLimitsOf (u_Caps b))
      else if caps_TimeTravel (u_Caps a) \<noteq> caps_TimeTravel (u_Caps b)
      then caps_TimeTravel (u_Caps a) > caps_TimeTravel (u_Caps b)
      else if caps_DeveloperAPI (u_Caps a) \<noteq> caps_DeveloperAPI (u_Caps b)
      then caps_DeveloperAPI (u_Caps a) > caps_DeveloperAPI (u_Caps b)
      else u_ID a < u_ID b)"
    by (intro ext) (auto simp: simulateLimitsAbove_def Let_def)
  show "strict_weak_order simulateLimitsAbove"
    unfolding * by (intro strict_weak_order_lex_desc strict_weak_order_key)
qed

lemma fleet_scan_best:
  "fst (fleet_scan b t best m us) = scan_from simulateLimitsAbove best
     (filter (\<lambda>u. Eligible u plain_simulate b t \<and> caps_Simulate (u_Caps u) \<noteq> None) us)"
proof (induction us arbitrary: best m)
  case (Cons u us)
  then show ?case by (cases best) auto
qed simp


lemma multiplierOf_nonzero [simp]: "multiplierOf u \<noteq> 0"
  using SimulateLimitsOf_bounds(4) [of "u_Caps u"] by (auto simp: multiplierOf_def)

lemma fleet_scan_multiplier:
  fixes us b t defines "E \<equiv> {u \<in> set us. Eligible u plain_simulate b t}"
  assumes "r = snd (fleet_scan b t best m us)"
  shows "(m \<noteq> 0 \<longrightarrow> r \<le> m) \<and> (r = m \<or> r \<in> multiplierOf ` E) \<and> (\<forall>u \<in> E. r \<noteq> 0 \<and> r \<le> multiplierOf u)"
  using assms(2) unfolding E_def
proof (induction us arbitrary: best m)
  case (Cons u us)
  show ?case
  proof (cases "Eligible u plain_simulate b t")
    case True
    define m' where "m' = (if m = 0 \<or> multiplierOf u < m then multiplierOf u else m)"
    have m': "m' \<noteq> 0" "m' \<le> multiplierOf u" "m' = m \<or> m' = multiplierOf u" "m \<noteq> 0 \<Longrightarrow> m' \<le> m" by (auto simp: m'_def)
    have "r = snd (fleet_scan b t (if caps_Simulate (u_Caps u) \<noteq> None
            \<and> (case best of None \<Rightarrow> True | Some b \<Rightarrow> simulateLimitsAbove u b)
         then Some u else best) m' us)" using Cons.prems True by (simp add: m'_def)
    note ih = Cons.IH [OF this]
    have "r \<noteq> 0" using ih m'(1) by auto
    then show ?thesis using ih m' True by (auto intro: order_trans)
  next
    case False
    then show ?thesis using Cons.IH [of best m] Cons.prems by auto
  qed
qed simp

lemma FleetSimulateLimits_Some:
  assumes "FleetSimulateLimits us b t = Some l"
  obtains u where "u \<in> set us" "Eligible u plain_simulate b t" "caps_Simulate (u_Caps u) \<noteq> None"
    "fl_MaxTxnGroups l = MaxTxnGroups (SimulateLimitsOf (u_Caps u))"
    "fl_MaxRounds l = MaxRounds (SimulateLimitsOf (u_Caps u))"
    "fl_MaxExtraOpcodeBudget l = MaxExtraOpcodeBudget (SimulateLimitsOf (u_Caps u))"
    "fl_TimeTravel l = caps_TimeTravel (u_Caps u)"
    "fl_DeveloperAPI l = caps_DeveloperAPI (u_Caps u)"
    "fl_ResourceLimitMultiplier l = snd (fleet_scan b t None 0 us)"
    "\<And>v. v \<in> set us \<Longrightarrow> Eligible v plain_simulate b t \<Longrightarrow> caps_Simulate (u_Caps v) \<noteq> None
       \<Longrightarrow> \<not> simulateLimitsAbove v u"
proof -
  obtain u m where s: "fleet_scan b t None 0 us = (Some u, m)"
    using assms by (auto simp: FleetSimulateLimits_def split: prod.splits option.splits)
  let ?xs = "filter (\<lambda>u. Eligible u plain_simulate b t \<and> caps_Simulate (u_Caps u) \<noteq> None) us"
  have "scan_best simulateLimitsAbove ?xs = Some u"
    using fleet_scan_best [of b t None 0 us] s by (simp add: scan_best_def)
  from sim.scan_best_Some [OF this] have "u \<in> set ?xs" "\<forall>v \<in> set ?xs. \<not> simulateLimitsAbove v u"
    by auto
  then show thesis using assms s that [of u] by (auto simp: FleetSimulateLimits_def Let_def)
qed

lemma Eligible_with_needs:
  assumes "Eligible u plain_simulate b t" "Fits n (u_Caps u)"
  shows "Eligible u (plain_simulate\<lparr>rc_SimNeeds := Some n\<rparr>) b t"
  using assms by (simp add: Eligible_def plain_simulate_def zero_class_def Heavy_def split: if_splits)

section \<open>Properties\<close>

text \<open>
  C16. An upstream eligible for a request at a round has reached that round and the last of the
  span, and still holds it: a node with historical state answers any round or its own block
  window; a plain node covers a block round from its oldest round on, and a state question
  within its lookback, one round less for a delta, counted without wrap-around.
\<close>

theorem eligible_holds_round:
  assumes "Eligible u c b t" and "rc_Round c = Some r"
  shows "r \<le> u_LastRound u \<and> rc_RoundHigh c \<le> u_LastRound u
    \<and> (if caps_TimeTravel (u_Caps u) then rc_HistoryAnyRound c \<or> caps_OldestRound (u_Caps u) \<le> r
       else if rc_RoundWindow c = WindowBlock \<or> caps_MaxAcctLookback (u_Caps u) = 0
       then caps_OldestRound (u_Caps u) \<le> r
       else unat (u_LastRound u) - unat (caps_MaxAcctLookback (u_Caps u))
              + (if rc_RoundWindow c = WindowDelta then 1 else 0) \<le> unat r)"
proof -
  note e = eligible_blocked(13) [OF assms]
  show ?thesis
  proof (cases "stateOldest u (rc_RoundWindow c)")
    case None
    then have "caps_MaxAcctLookback (u_Caps u) = 0"
      by (auto simp: stateOldest_def Let_def split: if_splits)
    with None e show ?thesis
      by (auto simp: round_in_window_def stateWindowCovers_def not_less split: if_splits)
  next
    case (Some old)
    then have "caps_MaxAcctLookback (u_Caps u) \<noteq> 0"
      by (auto simp: stateOldest_def Let_def split: if_splits)
    moreover have "old \<le> r \<longleftrightarrow> unat (u_LastRound u) - unat (caps_MaxAcctLookback (u_Caps u))
              + (if rc_RoundWindow c = WindowDelta then 1 else 0) \<le> unat r"
      using unat_stateOldest [OF Some] by (simp add: word_le_nat_alt)
    ultimately show ?thesis using Some e
      by (auto simp: round_in_window_def stateWindowCovers_def not_less split: if_splits)
  qed
qed

theorem eligible_holds_round_witness:
  "unat (1000 :: u64) - unat (4 :: u64) + 1 \<le> unat (997 :: u64)"
proof -
  have "Eligible sample_algod (zero_class\<lparr>rc_Round := Some 997, rc_RoundWindow := WindowDelta\<rparr>) 1000 0"
    by code_simp
  from eligible_holds_round [OF this, of 997] show ?thesis
    by (simp add: sample_algod_def zero_caps_def zero_class_def)
qed

text \<open>
  While an upstream of the fleet is eligible for a request, CouldServe is true for it: the
  router cannot conclude that nothing could ever serve a request that something serves now.
\<close>

theorem eligible_could_serve:
  assumes "Eligible u c b t" and "u \<in> set us"
  shows "CouldServe us c"
  using Eligible_CouldServe [OF assms] .

theorem eligible_could_serve_witness:
  "CouldServe [sample_algod] (zero_class\<lparr>rc_Round := Some 997\<rparr>)"
proof -
  have "Eligible sample_algod (zero_class\<lparr>rc_Round := Some 997\<rparr>) 1000 0" by code_simp
  then show ?thesis by (rule eligible_could_serve) simp
qed

text \<open>
  The fleet's simulate limits are a promise: a request within them, whatever it combines of
  groups, rounds, opcode budget and (where reported) the developer API, fits one eligible node,
  which has historical state when the answer says so.
\<close>

theorem fleet_limits_honoured:
  assumes "FleetSimulateLimits us b t = Some l"
    and "of_nat (sn_Groups n) \<le> fl_MaxTxnGroups l" and "of_nat (sn_Rounds n) \<le> fl_MaxRounds l"
    and "sn_ExtraOpcodeBudget n \<le> fl_MaxExtraOpcodeBudget l"
    and "sn_DeveloperAPI n \<longrightarrow> fl_DeveloperAPI l"
  shows "\<exists>u \<in> set us. Eligible u (plain_simulate\<lparr>rc_SimNeeds := Some n\<rparr>) b t
    \<and> caps_TimeTravel (u_Caps u) = fl_TimeTravel l"
proof -
  from FleetSimulateLimits_Some [OF assms(1)] obtain u where
    "u \<in> set us" "Eligible u plain_simulate b t" "caps_Simulate (u_Caps u) \<noteq> None"
    "fl_MaxTxnGroups l = MaxTxnGroups (SimulateLimitsOf (u_Caps u))"
    "fl_MaxRounds l = MaxRounds (SimulateLimitsOf (u_Caps u))"
    "fl_MaxExtraOpcodeBudget l = MaxExtraOpcodeBudget (SimulateLimitsOf (u_Caps u))"
    "fl_TimeTravel l = caps_TimeTravel (u_Caps u)"
    "fl_DeveloperAPI l = caps_DeveloperAPI (u_Caps u)" by metis
  moreover from this assms have "Fits n (u_Caps u)" by (simp add: Fits_def Let_def)
  ultimately show ?thesis using Eligible_with_needs [of u] by (intro bexI [of _ u]) auto
qed

theorem fleet_limits_honoured_witness:
  "\<exists>u \<in> set [sample_algod, sample_dtalgorand].
     Eligible u (plain_simulate\<lparr>rc_SimNeeds := Some sample_needs\<rparr>) 1000 0
     \<and> caps_TimeTravel (u_Caps u) = True"
proof -
  have *: "FleetSimulateLimits [sample_algod, sample_dtalgorand] 1000 0
      = Some \<lparr>fl_DeveloperAPI = True, fl_MaxExtraOpcodeBudget = 320000, fl_MaxRounds = 8,
          fl_MaxTxnGroups = 16, fl_ResourceLimitMultiplier = 1, fl_TimeTravel = True,
          fl_MaxExecTraceBytes = 0, fl_TimeLimitSeconds = 0\<rparr>" by code_simp
  show ?thesis
    using fleet_limits_honoured [OF *, of sample_needs] by (simp add: sample_needs_def)
qed

text \<open>
  The limits reported are the largest: no eligible node that reports limits is above them in
  the order groups, rounds, opcode budget; and the resource limit multiplier is the smallest of
  all eligible nodes, stock ones included.
\<close>

theorem fleet_limits_largest:
  assumes "FleetSimulateLimits us b t = Some l" and "v \<in> set us" "Eligible v plain_simulate b t"
  shows "fl_ResourceLimitMultiplier l \<le> multiplierOf v
    \<and> (\<exists>w \<in> set us. Eligible w plain_simulate b t \<and> multiplierOf w = fl_ResourceLimitMultiplier l)
    \<and> (caps_Simulate (u_Caps v) \<noteq> None \<longrightarrow>
       (let g = MaxTxnGroups (SimulateLimitsOf (u_Caps v)); r = MaxRounds (SimulateLimitsOf (u_Caps v));
            o' = MaxExtraOpcodeBudget (SimulateLimitsOf (u_Caps v))
        in g < fl_MaxTxnGroups l \<or> (g = fl_MaxTxnGroups l \<and> (r < fl_MaxRounds l
           \<or> (r = fl_MaxRounds l \<and> o' \<le> fl_MaxExtraOpcodeBudget l)))))"
proof -
  from FleetSimulateLimits_Some [OF assms(1)] obtain u where u:
    "fl_MaxTxnGroups l = MaxTxnGroups (SimulateLimitsOf (u_Caps u))"
    "fl_MaxRounds l = MaxRounds (SimulateLimitsOf (u_Caps u))"
    "fl_MaxExtraOpcodeBudget l = MaxExtraOpcodeBudget (SimulateLimitsOf (u_Caps u))"
    "fl_ResourceLimitMultiplier l = snd (fleet_scan b t None 0 us)"
    "\<And>v. v \<in> set us \<Longrightarrow> Eligible v plain_simulate b t \<Longrightarrow> caps_Simulate (u_Caps v) \<noteq> None
       \<Longrightarrow> \<not> simulateLimitsAbove v u" by metis
  note m = fleet_scan_multiplier [of _ b t None 0 us, OF refl]
  from u(5) [OF assms(2,3)] show ?thesis using m assms(2,3) unfolding u(1-4)
    by (auto simp: simulateLimitsAbove_def Let_def split: if_splits)
qed

theorem fleet_limits_largest_witness:
  "\<exists>w \<in> set [sample_algod, sample_dtalgorand]. Eligible w plain_simulate 1000 0 \<and> multiplierOf w = 1"
proof -
  have *: "FleetSimulateLimits [sample_algod, sample_dtalgorand] 1000 0
      = Some \<lparr>fl_DeveloperAPI = True, fl_MaxExtraOpcodeBudget = 320000, fl_MaxRounds = 8,
          fl_MaxTxnGroups = 16, fl_ResourceLimitMultiplier = 1, fl_TimeTravel = True,
          fl_MaxExecTraceBytes = 0, fl_TimeLimitSeconds = 0\<rparr>" by code_simp
  have "Eligible sample_dtalgorand plain_simulate 1000 0" by code_simp
  then show ?thesis using fleet_limits_largest [OF *, of sample_dtalgorand] by simp
qed

text \<open>
  A simulate request over a list of rounds goes only to a node that has reached every round of
  the list; a plain node's lookback reaches the earliest of them, and a list that names the latest
  round (0) goes only to a node in sync.
\<close>

theorem simulate_rounds_covered:
  assumes "Eligible u (ApplySimulate c body) b t" and "sb_Round body = 0"
    and "r \<in> set (sb_Rounds body)" and "r \<noteq> 0"
  shows "r \<le> u_LastRound u
    \<and> (\<not> caps_TimeTravel (u_Caps u) \<and> caps_MaxAcctLookback (u_Caps u) \<noteq> 0 \<longrightarrow>
         unat (u_LastRound u) \<le> unat r + unat (caps_MaxAcctLookback (u_Caps u)))
    \<and> (0 \<in> set (sb_Rounds body) \<longrightarrow> inSync u b t)"
proof -
  obtain lo hi n where c: "rc_Round (ApplySimulate c body) = Some lo" "rc_RoundHigh (ApplySimulate c body) = hi"
    "rc_RoundWindow (ApplySimulate c body) = WindowState" "rc_HistoryAnyRound (ApplySimulate c body)"
    "rc_SimNeeds (ApplySimulate c body) = Some n" "sn_Latest n \<longleftrightarrow> 0 \<in> set (sb_Rounds body)" "lo \<le> r" "r \<le> hi"
    by (rule ApplySimulate_span [OF assms(2-4)])
  note e = eligible_blocked(13) [OF assms(1) c(1)]
  then have "r \<le> u_LastRound u" using c(2,8) by (auto intro: order_trans)
  moreover have "unat (u_LastRound u) \<le> unat r + unat (caps_MaxAcctLookback (u_Caps u))"
    if nt: "\<not> caps_TimeTravel (u_Caps u)" and lb: "caps_MaxAcctLookback (u_Caps u) \<noteq> 0"
  proof -
    obtain old where old: "stateOldest u WindowState = Some old" using lb by (simp add: stateOldest_def Let_def)
    have "old \<le> lo" using e nt old c(3) by (simp add: round_in_window_def stateWindowCovers_def)
    then show ?thesis using unat_stateOldest [OF old] c(7) by (simp add: word_le_nat_alt)
  qed
  moreover have "inSync u b t" if "0 \<in> set (sb_Rounds body)"
    using assms(1) that c(1,5,6) unfolding Eligible_def by (auto split: if_splits option.splits)
  ultimately show ?thesis by blast
qed

theorem simulate_rounds_covered_witness:
  "(998 :: u64) \<le> u_LastRound sample_dtalgorand"
proof -
  let ?body = "\<lparr>sb_TxnGroups = 1, sb_Round = 0, sb_Rounds = [998, 0, 3], sb_ExtraOpcodeBudget = 0,
    sb_ExecTraceEnable = False, sb_AllowUnnamedResources = False, sb_ParallelGroups = False,
    sb_SkipValidityWindow = False, sb_RewriteValidityWindow = False, sb_Protocol = []\<rparr>"
  have "Eligible sample_dtalgorand (ApplySimulate plain_simulate ?body) 1000 0" by code_simp
  from simulate_rounds_covered [OF this, of 998] show ?thesis by simp
qed

end
