(* ===== verification/Selection.thy ===== *)
theory Selection
  imports Eligible
begin

text \<open>
  Selection (src/internal/domain/select.go): the score of an upstream, the routing order and the
  choice of an upstream with its alternates. The random numbers of power-of-two-choices are an
  argument: \<open>rnd k n\<close> is the result of the k-th call IntN(n) of one selection, None stands for
  a nil Rand.
\<close>

section \<open>Definitions\<close>

record Weights =
  ErrorPenaltyMS :: f64
  LagPenaltyMS :: f64
  InflightMS :: f64
  LocalBonusMS :: f64
  UnknownLatMS :: f64
  ExternalPenalty :: f64

definition zero_weights :: Weights where
  "zero_weights = \<lparr>ErrorPenaltyMS = 0, LagPenaltyMS = 0, InflightMS = 0, LocalBonusMS = 0,
     UnknownLatMS = 0, ExternalPenalty = 0\<rparr>"

definition DefaultWeights :: Weights where
  "DefaultWeights = \<lparr>ErrorPenaltyMS = 2000, LagPenaltyMS = 50, InflightMS = 5, LocalBonusMS = 2,
     UnknownLatMS = 20, ExternalPenalty = 100\<rparr>"

definition Score :: "Upstream \<Rightarrow> RequestClass \<Rightarrow> u64 \<Rightarrow> Weights \<Rightarrow> f64" where
  "Score u c bestRound w0 =
     (let w = (if w0 = zero_weights then DefaultWeights else w0);
          lat = (case LatencyMS (u_Stats u) (StatKey c) of Some l \<Rightarrow> l
                 | None \<Rightarrow> (case LatencyMS (u_Stats u) ''default'' of Some l \<Rightarrow> l
                            | None \<Rightarrow> UnknownLatMS w));
          s = lat + ErrorPenaltyMS w * ErrorRate (u_Stats u);
          s = (if bestRound > u_LastRound u
               then s + LagPenaltyMS w * of_nat (unat (bestRound - u_LastRound u)) else s);
          s = s + InflightMS w * of_int (Inflight (u_Stats u));
          s = (if u_Kind u = KindLocal then s - LocalBonusMS w else s)
      in (if u_Kind u = KindExternal then s + ExternalPenalty w else s))"

record Selection =
  sel_Chosen :: Upstream
  sel_Alternates :: "Upstream list"
  sel_Tier :: int

definition effectiveTier :: "Mode \<Rightarrow> Upstream \<Rightarrow> int" where
  "effectiveTier mode u =
     (case u_Kind u of
        KindLocal \<Rightarrow> if mode = ModeFallback then - (2 ^ 31) else u_Tier u
      | KindExternal \<Rightarrow> (2 ^ 31 - 1) div 2 + u_Tier u
      | KindPeer \<Rightarrow> u_Tier u)"

definition stateWindowEdge :: "Upstream \<Rightarrow> RequestClass \<Rightarrow> bool" where
  "stateWindowEdge u c =
     (case rc_Round c of None \<Rightarrow> False
      | Some r \<Rightarrow>
        if rc_RoundWindow c = WindowBlock \<or> caps_TimeTravel (u_Caps u) \<or> u_Kind u = KindLocal then False
        else if u_LastRound u < caps_MaxAcctLookback (u_Caps u) then False
        else (case stateOldest u (rc_RoundWindow c) of None \<Rightarrow> False | Some oldest \<Rightarrow> r = oldest))"

text \<open>The comparison Select sorts by.\<close>

definition select_lt :: "Mode \<Rightarrow> bool \<Rightarrow> RequestClass \<Rightarrow> Upstream \<Rightarrow> Upstream \<Rightarrow> bool" where
  "select_lt mode hasTT c a b =
     (if effectiveTier mode a \<noteq> effectiveTier mode b then effectiveTier mode a < effectiveTier mode b
      else if hasTT \<and> stateWindowEdge a c \<noteq> stateWindowEdge b c then stateWindowEdge b c
      else if u_Score a \<noteq> u_Score b then u_Score a < u_Score b
      else u_ID a < u_ID b)"

text \<open>The eligible candidates with their scores, in the order of the candidates.\<close>

definition eligible_scored ::
  "Upstream list \<Rightarrow> RequestClass \<Rightarrow> u64 \<Rightarrow> u64 \<Rightarrow> Weights \<Rightarrow> Upstream list" where
  "eligible_scored cands c bestRound tol w =
     map (\<lambda>u. u\<lparr>u_Score := Score u c bestRound w\<rparr>) (filter (\<lambda>u. Eligible u c bestRound tol) cands)"

text \<open>The position power-of-two-choices picks among the first n of the sorted candidates.\<close>

definition pool_of :: "bool \<Rightarrow> RequestClass \<Rightarrow> Upstream list \<Rightarrow> nat \<Rightarrow> nat list" where
  "pool_of hasTT c elig n =
     (let pool = filter (\<lambda>i. \<not> (hasTT \<and> stateWindowEdge (elig ! i) c)) [0..<n]
      in if pool = [] then [0..<n] else pool)"

definition two_choices :: "bool \<Rightarrow> RequestClass \<Rightarrow> Upstream list \<Rightarrow> nat \<Rightarrow> (nat \<Rightarrow> nat \<Rightarrow> nat) \<Rightarrow> nat" where
  "two_choices hasTT c elig n rnd =
     (let pool = pool_of hasTT c elig n;
          a = pool ! rnd 0 (length pool);
          b = pool ! rnd 1 (length pool)
      in if u_Score (elig ! b) < u_Score (elig ! a) then b else a)"

definition Select ::
  "Mode \<Rightarrow> Upstream list \<Rightarrow> RequestClass \<Rightarrow> u64 \<Rightarrow> u64 \<Rightarrow> Weights \<Rightarrow> (nat \<Rightarrow> nat \<Rightarrow> nat) option
   \<Rightarrow> Selection option" where
  "Select mode cands c bestRound tol w rnd =
     (let elig0 = eligible_scored cands c bestRound tol w in
      if length elig0 = 0 then None
      else
        let hasTT = list_ex (\<lambda>u. caps_TimeTravel (u_Caps u)) elig0;
            elig = SliceStable (select_lt mode hasTT c) elig0;
            top = effectiveTier mode (elig ! 0);
            n = length (takeWhile (\<lambda>u. effectiveTier mode u = top) elig);
            idx = (case rnd of
                     Some r \<Rightarrow> if mode = ModeLoadBalancer \<and> n > 1 then two_choices hasTT c elig n r else 0
                   | None \<Rightarrow> 0);
            chosen = elig ! idx
        in Some \<lparr>sel_Chosen = chosen, sel_Alternates = take idx elig @ drop (idx + 1) elig,
                 sel_Tier = u_Tier chosen\<rparr>)"

text \<open>What the documentation of rand.IntN promises: a number below its argument.\<close>

definition rand_ok :: "(nat \<Rightarrow> nat \<Rightarrow> nat) option \<Rightarrow> bool" where
  "rand_ok rnd = (case rnd of None \<Rightarrow> True | Some r \<Rightarrow> \<forall>k n. 0 < n \<longrightarrow> r k n < n)"

text \<open>Tiers in use: Validate rejects negative ones, and effectiveTier leaves room for 2^30 of them.\<close>

definition tiers_ok :: "Upstream list \<Rightarrow> bool" where
  "tiers_ok us = list_all (\<lambda>u. 0 \<le> u_Tier u \<and> u_Tier u < 2 ^ 30 - 1) us"

section \<open>Lemmas\<close>

text \<open>The routing order is a strict weak order, total on upstreams with different ids.\<close>

interpretation sel: strict_weak_order "select_lt mode hasTT c" for mode hasTT c
proof -
  have *: "select_lt mode hasTT c = (\<lambda>a b.
     if effectiveTier mode a \<noteq> effectiveTier mode b then effectiveTier mode a < effectiveTier mode b
     else if (hasTT \<and> stateWindowEdge a c) \<noteq> (hasTT \<and> stateWindowEdge b c)
     then (hasTT \<and> stateWindowEdge a c) < (hasTT \<and> stateWindowEdge b c)
     else if u_Score a \<noteq> u_Score b then u_Score a < u_Score b
     else u_ID a < u_ID b)"
    by (intro ext) (auto simp: select_lt_def)
  show "strict_weak_order (select_lt mode hasTT c)"
    unfolding * by (intro strict_weak_order_lex strict_weak_order_key)
qed

lemma select_lt_total:
  "u_ID a \<noteq> u_ID b \<Longrightarrow> select_lt mode tt c a b \<or> select_lt mode tt c b a"
  by (auto simp: select_lt_def)

lemma pool_of_range: "n > 0 \<Longrightarrow> pool_of tt c elig n \<noteq> [] \<and> (\<forall>i \<in> set (pool_of tt c elig n). i < n)"
  by (auto simp: pool_of_def Let_def)

lemma pool_nth:
  assumes "n > 0" "rand_ok (Some r)"
  shows "pool_of tt c elig n ! r k (length (pool_of tt c elig n)) \<in> set (pool_of tt c elig n)"
  using assms pool_of_range [OF assms(1), of tt c elig] by (auto simp: rand_ok_def)

lemma two_choices_in_pool:
  assumes "n > 0" "rand_ok (Some r)"
  shows "two_choices tt c elig n r \<in> set (pool_of tt c elig n)"
  using pool_nth [OF assms] by (auto simp: two_choices_def Let_def)

text \<open>The parts of a selection: the sorted candidates, the size of the top tier, the index chosen.\<close>

lemma Select_cases:
  assumes "Select mode cands c b t w rnd = Some s" and "rand_ok rnd"
  obtains elig n idx where
    "elig = SliceStable (select_lt mode (list_ex (\<lambda>u. caps_TimeTravel (u_Caps u)) (eligible_scored cands c b t w)) c)
       (eligible_scored cands c b t w)"
    "n = length (takeWhile (\<lambda>u. effectiveTier mode u = effectiveTier mode (elig ! 0)) elig)"
    "elig \<noteq> []" "0 < n" "n \<le> length elig" "idx < n"
    "idx = 0 \<or> mode = ModeLoadBalancer \<and> 
       idx \<in> set (pool_of (list_ex (\<lambda>u. caps_TimeTravel (u_Caps u)) (eligible_scored cands c b t w)) c elig n)"
    "rnd \<noteq> None \<Longrightarrow> mode = ModeLoadBalancer \<Longrightarrow> 
       idx \<in> set (pool_of (list_ex (\<lambda>u. caps_TimeTravel (u_Caps u)) (eligible_scored cands c b t w)) c elig n)"
    "s = \<lparr>sel_Chosen = elig ! idx, sel_Alternates = take idx elig @ drop (idx + 1) elig,
        sel_Tier = u_Tier (elig ! idx)\<rparr>"
proof -
  let ?e0 = "eligible_scored cands c b t w"
  let ?tt = "list_ex (\<lambda>u. caps_TimeTravel (u_Caps u)) ?e0"
  define elig where "elig = SliceStable (select_lt mode ?tt c) ?e0"
  define n where "n = length (takeWhile (\<lambda>u. effectiveTier mode u = effectiveTier mode (elig ! 0)) elig)"
  define idx where "idx = (case rnd of
                     Some r \<Rightarrow> if mode = ModeLoadBalancer \<and> n > 1 then two_choices ?tt c elig n r else 0
                   | None \<Rightarrow> 0)"
  have ne: "?e0 \<noteq> []" and s: "s = \<lparr>sel_Chosen = elig ! idx, sel_Alternates = take idx elig @ drop (idx + 1) elig,
        sel_Tier = u_Tier (elig ! idx)\<rparr>"
    using assms(1) unfolding Select_def Let_def elig_def [symmetric] n_def [symmetric] idx_def [symmetric]
    by (auto split: if_splits)
  have elig: "elig \<noteq> []" using ne sel.length_SliceStable unfolding elig_def by (metis length_0_conv)
  then have n: "0 < n" "n \<le> length elig" by (auto simp: n_def length_takeWhile_le neq_Nil_conv)
  have "idx \<in> set (pool_of ?tt c elig n)" if "rnd \<noteq> None" "mode = ModeLoadBalancer"
  proof (cases "n > 1")
    case True
    then show ?thesis using that assms(2) two_choices_in_pool [of n] by (auto simp: idx_def)
  next
    case False
    with n have "n = 1" by simp
    then show ?thesis using that by (auto simp: idx_def pool_of_def Let_def)
  qed
  moreover have "idx = 0 \<or> rnd \<noteq> None \<and> mode = ModeLoadBalancer"
    by (auto simp: idx_def split: option.splits)
  moreover have "idx < n" using calculation n pool_of_range by blast
  ultimately show thesis using that [OF elig_def n_def elig n] s by blast
qed

lemma eligible_scored_props:
  "x \<in> set (eligible_scored cands c b t w) \<longleftrightarrow>
     (\<exists>u \<in> set cands. Eligible u c b t \<and> x = u\<lparr>u_Score := Score u c b w\<rparr>)"
  by (auto simp: eligible_scored_def)

lemma effectiveTier_Score [simp]: "effectiveTier mode (u\<lparr>u_Score := x\<rparr>) = effectiveTier mode u"
  by (cases "u_Kind u") (simp_all add: effectiveTier_def)

lemma stateOldest_Score [simp]: "stateOldest (u\<lparr>u_Score := x\<rparr>) w = stateOldest u w"
  by (simp add: stateOldest_def Let_def)

lemma stateWindowEdge_Score [simp]: "stateWindowEdge (u\<lparr>u_Score := x\<rparr>) c = stateWindowEdge u c"
  by (cases "rc_Round c") (simp_all add: stateWindowEdge_def)

lemma list_at_front:
  assumes "i < length xs"
  shows "mset (xs ! i # take i xs @ drop (i + 1) xs) = mset xs"
  using id_take_nth_drop [OF assms] by (metis union_mset_add_mset_right mset.simps(2) mset_append Suc_eq_plus1)

lemma map_at_front:
  assumes "i < length xs" "\<And>j. j \<le> i \<Longrightarrow> f (xs ! j) = a"
  shows "map f (xs ! i # take i xs @ drop (i + 1) xs) = map f xs"
proof -
  have t: "map f (take i xs) = replicate i a" 
    using assms by (intro nth_equalityI) auto
  have "map f xs = map f (take i xs) @ f (xs ! i) # map f (drop (i + 1) xs)"
    using id_take_nth_drop [OF assms(1)] by (metis Suc_eq_plus1 list.simps(9) map_append)
  also have "\<dots> = f (xs ! i) # map f (take i xs) @ map f (drop (i + 1) xs)"
    unfolding t using assms(2) [of i] by (simp add: replicate_app_Cons_same)
  finally show ?thesis by simp
qed

lemma Select_None_iff: "Select mode cands c b t w rnd = None \<longleftrightarrow> \<not> (\<exists>u \<in> set cands. Eligible u c b t)"
  by (auto simp: Select_def eligible_scored_def filter_empty_conv Let_def)

lemma Select_mset:
  assumes "Select mode cands c b t w rnd = Some s" and "rand_ok rnd"
  shows "mset (sel_Chosen s # sel_Alternates s) = mset (eligible_scored cands c b t w)"
  using assms
proof (cases rule: Select_cases)
  case (1 elig n idx)
  have "mset elig = mset (eligible_scored cands c b t w)"
    unfolding 1(1) by (rule sel.mset_SliceStable)
  then show ?thesis using list_at_front [of idx elig] 1(5,6,9) by simp
qed

lemma takeWhile_prefix_nth: "j < length (takeWhile P xs) \<Longrightarrow> P (xs ! j)"
  by (metis nth_mem set_takeWhileD takeWhile_nth)

lemma Select_tier_order:
  assumes "Select mode cands c b t w rnd = Some s" and "rand_ok rnd"
  shows "sorted (map (effectiveTier mode) (sel_Chosen s # sel_Alternates s))"
proof -
  from assms show ?thesis
  proof (cases rule: Select_cases)
    case (1 elig n idx)
    let ?tt = "list_ex (\<lambda>u. caps_TimeTravel (u_Caps u)) (eligible_scored cands c b t w)"
    have "sorted_wrt (\<lambda>a b. \<not> select_lt mode ?tt c b a) elig"
      unfolding 1(1) by (rule sel.sorted_SliceStable)
    then have "sorted (map (effectiveTier mode) elig)"
      by (auto simp: sorted_map select_lt_def elim!: sorted_wrt_mono_rel [rotated] split: if_splits)
    moreover have "map (effectiveTier mode) (elig ! idx # take idx elig @ drop (idx + 1) elig)
        = map (effectiveTier mode) elig"
      using 1(2,5,6) takeWhile_prefix_nth [of _ "\<lambda>u. effectiveTier mode u = effectiveTier mode (elig ! 0)" elig]
      by (intro map_at_front [where a = "effectiveTier mode (elig ! 0)"]) auto
    ultimately show ?thesis using 1(9) by simp
  qed
qed


lemma Select_mem:
  assumes "Select mode cands c b t w rnd = Some s" and "rand_ok rnd"
  shows "set (sel_Chosen s # sel_Alternates s) = set (eligible_scored cands c b t w)"
  using Select_mset [OF assms] by (metis set_mset_mset)

lemma Select_top_tier:
  assumes "Select mode cands c b t w rnd = Some s" and "rand_ok rnd"
    and "v \<in> set cands" "Eligible v c b t"
  shows "effectiveTier mode (sel_Chosen s) \<le> effectiveTier mode v"
proof -
  have "v\<lparr>u_Score := Score v c b w\<rparr> \<in> set (sel_Chosen s # sel_Alternates s)"
    unfolding Select_mem [OF assms(1,2)] eligible_scored_props using assms(3,4) by blast
  then have "effectiveTier mode (sel_Chosen s) \<le> effectiveTier mode (v\<lparr>u_Score := Score v c b w\<rparr>)"
    using Select_tier_order [OF assms(1,2)] by (auto simp del: effectiveTier_Score)
  then show ?thesis by simp
qed

section \<open>Properties\<close>

text \<open>
  C8. Select finds an upstream exactly when one is eligible, and what it returns, the choice and
  the alternates a retry walks, are the eligible candidates, each once: none is lost, none is
  tried twice, none is ineligible.
\<close>

theorem select_complete:
  assumes "rand_ok rnd"
  shows "(Select mode cands c b t w rnd = None \<longleftrightarrow> \<not> (\<exists>u \<in> set cands. Eligible u c b t))
    \<and> (\<forall>s. Select mode cands c b t w rnd = Some s \<longrightarrow>
         mset (sel_Chosen s # sel_Alternates s) = mset (eligible_scored cands c b t w))"
  using Select_None_iff Select_mset [OF _ assms] by blast

theorem select_complete_witness:
  "\<exists>s. Select ModeLoadBalancer [sample_algod, sample_dtalgorand] zero_class 1000 0 zero_weights
        (Some (\<lambda>k n. k mod n)) = Some s
     \<and> mset (sel_Chosen s # sel_Alternates s)
       = mset (eligible_scored [sample_algod, sample_dtalgorand] zero_class 1000 0 zero_weights)"
proof -
  have "Eligible sample_algod zero_class 1000 0" by code_simp
  moreover have "rand_ok (Some (\<lambda>k n. k mod n))" by (simp add: rand_ok_def)
  ultimately show ?thesis
    using select_complete [of "Some (\<lambda>k n. k mod n)" ModeLoadBalancer
        "[sample_algod, sample_dtalgorand]" zero_class 1000 0 zero_weights]
    by (metis list.set_intros(1) not_None_eq)
qed

text \<open>
  The order of a selection respects the tiers of the mesh: in either mode no external comes
  before a mesh node, and in fallback mode the local node comes before everything else.
\<close>

theorem select_kind_order:
  assumes "Select mode cands c b t w rnd = Some s" and "rand_ok rnd" and "tiers_ok cands"
  shows "sorted_wrt (\<lambda>x y. (u_Kind x = KindExternal \<longrightarrow> u_Kind y = KindExternal)
           \<and> (mode = ModeFallback \<longrightarrow> u_Kind y = KindLocal \<longrightarrow> u_Kind x = KindLocal))
     (sel_Chosen s # sel_Alternates s)"
proof -
  have ok: "0 \<le> u_Tier x \<and> u_Tier x < 2 ^ 30 - 1" if "x \<in> set (sel_Chosen s # sel_Alternates s)" for x
    using that assms(3) unfolding Select_mem [OF assms(1,2)] eligible_scored_props
    by (auto simp: tiers_ok_def list_all_iff)
  have "sorted_wrt (\<lambda>x y. effectiveTier mode x \<le> effectiveTier mode y) (sel_Chosen s # sel_Alternates s)"
    using Select_tier_order [OF assms(1,2)] by (simp only: sorted_map)
  then show ?thesis
  proof (rule sorted_wrt_mono_rel [rotated])
    fix x y assume "x \<in> set (sel_Chosen s # sel_Alternates s)" "y \<in> set (sel_Chosen s # sel_Alternates s)"
      and "effectiveTier mode x \<le> effectiveTier mode y"
    with ok [of x] ok [of y] show "(u_Kind x = KindExternal \<longrightarrow> u_Kind y = KindExternal)
           \<and> (mode = ModeFallback \<longrightarrow> u_Kind y = KindLocal \<longrightarrow> u_Kind x = KindLocal)"
      by (cases "u_Kind x"; cases "u_Kind y") (auto simp: effectiveTier_def split: if_splits)
  qed
qed

theorem select_kind_order_witness:
  "\<exists>s. Select ModeFallback [sample_algod, sample_algod\<lparr>u_ID := ''me'', u_Kind := KindLocal\<rparr>] zero_class 1000 0
         zero_weights None = Some s
     \<and> sorted_wrt (\<lambda>x y. (u_Kind x = KindExternal \<longrightarrow> u_Kind y = KindExternal)
         \<and> (ModeFallback = ModeFallback \<longrightarrow> u_Kind y = KindLocal \<longrightarrow> u_Kind x = KindLocal))
       (sel_Chosen s # sel_Alternates s)"
proof -
  let ?us = "[sample_algod, sample_algod\<lparr>u_ID := ''me'', u_Kind := KindLocal\<rparr>]"
  have "Eligible sample_algod zero_class 1000 0" by code_simp
  then obtain s where "Select ModeFallback ?us zero_class 1000 0 zero_weights None = Some s"
    using Select_None_iff [of ModeFallback ?us] by fastforce
  moreover have "tiers_ok ?us" by code_simp
  ultimately show ?thesis using select_kind_order [of ModeFallback ?us] by (fastforce simp: rand_ok_def)
qed

text \<open>
  While a node with historical state is eligible, the upstream chosen is not a peer on the
  edge of its state window unless the whole top tier is: neither the order nor power-of-two-choices
  falls on the peer that may have dropped the round already.
\<close>

theorem select_avoids_edge:
  assumes "Select mode cands c b t w rnd = Some s" and "rand_ok rnd"
    and "v \<in> set cands" "Eligible v c b t" "effectiveTier mode v = effectiveTier mode (sel_Chosen s)"
    and "\<not> stateWindowEdge v c"
    and "h \<in> set cands" "Eligible h c b t" "caps_TimeTravel (u_Caps h)"
  shows "\<not> stateWindowEdge (sel_Chosen s) c"
  using assms(1,2)
proof (cases rule: Select_cases)
  case (1 elig n idx)
  let ?e0 = "eligible_scored cands c b t w"
  let ?tt = "list_ex (\<lambda>u. caps_TimeTravel (u_Caps u)) ?e0"
  have tt: "?tt" using assms(7-9) by (auto simp: list_ex_iff eligible_scored_def)
  let ?v = "v\<lparr>u_Score := Score v c b w\<rparr>"
  have "?v \<in> set elig"
    unfolding 1(1) sel.set_SliceStable eligible_scored_props using assms(3,4) by blast
  then obtain j where j: "j < length elig" "elig ! j = ?v" by (metis in_set_conv_nth)
  have srt: "sorted_wrt (\<lambda>a b. \<not> select_lt mode ?tt c b a) elig"
    unfolding 1(1) by (rule sel.sorted_SliceStable)
  have top: "effectiveTier mode (elig ! 0) = effectiveTier mode (sel_Chosen s)"
    using takeWhile_prefix_nth [of idx] 1(2,6,9) by force
  have "j < n"
  proof (rule ccontr)
    assume "\<not> j < n"
    then have "n < length elig" using j by simp
    have "effectiveTier mode (elig ! n) \<noteq> effectiveTier mode (elig ! 0)"
      using nth_length_takeWhile [of "\<lambda>u. effectiveTier mode u = effectiveTier mode (elig ! 0)" elig] \<open>n < length elig\<close> 1(2) by simp
    moreover have "effectiveTier mode (elig ! 0) \<le> effectiveTier mode (elig ! n)"
      using sorted_wrt_nth_less [OF srt, of 0 n] 1(4) \<open>n < length elig\<close> by (auto simp: select_lt_def split: if_splits)
    moreover have "effectiveTier mode (elig ! n) \<le> effectiveTier mode (elig ! j)"
      using sorted_wrt_nth_less [OF srt, of n j] j \<open>\<not> j < n\<close> by (cases "j = n") (auto simp: select_lt_def split: if_splits)
    ultimately show False using top assms(5) j by simp
  qed
  then have "j \<in> set (filter (\<lambda>i. \<not> (?tt \<and> stateWindowEdge (elig ! i) c)) [0..<n])" using j assms(6) by simp
  then have pool: "i \<in> set (pool_of ?tt c elig n) \<Longrightarrow> \<not> stateWindowEdge (elig ! i) c" for i
    using tt by (auto simp: pool_of_def Let_def filter_empty_conv split: if_splits)
  have "\<not> stateWindowEdge (elig ! 0) c"
  proof (cases "j = 0")
    case False
    then have "\<not> select_lt mode ?tt c (elig ! j) (elig ! 0)" using sorted_wrt_nth_less [OF srt, of 0 j] j by simp
    then show ?thesis using top j assms(5,6) tt by (auto simp: select_lt_def split: if_splits)
  qed (use j assms(6) in auto)
  then show ?thesis using 1(7,9) pool by auto
qed

theorem select_avoids_edge_witness:
  "\<exists>s. Select ModeLoadBalancer [sample_algod, sample_dtalgorand]
        (zero_class\<lparr>rc_Round := Some 996, rc_RoundWindow := WindowState\<rparr>) 1000 0 zero_weights
        (Some (\<lambda>k n. k mod n)) = Some s
     \<and> stateWindowEdge sample_algod (zero_class\<lparr>rc_Round := Some 996, rc_RoundWindow := WindowState\<rparr>)
     \<and> \<not> stateWindowEdge (sel_Chosen s) (zero_class\<lparr>rc_Round := Some 996, rc_RoundWindow := WindowState\<rparr>)"
proof -
  let ?c = "zero_class\<lparr>rc_Round := Some 996, rc_RoundWindow := WindowState\<rparr>"
  let ?us = "[sample_algod, sample_dtalgorand]" and ?r = "Some (\<lambda>k n. k mod n) :: (nat \<Rightarrow> nat \<Rightarrow> nat) option"
  have e: "Eligible sample_dtalgorand ?c 1000 0" by code_simp
  then obtain s where s: "Select ModeLoadBalancer ?us ?c 1000 0 zero_weights ?r = Some s"
    using Select_None_iff [of ModeLoadBalancer ?us] by fastforce
  have r: "rand_ok ?r" by (simp add: rand_ok_def)
  have tier: "effectiveTier ModeLoadBalancer u = 0" if "u \<in> set ?us" for u
    using that by (auto simp: effectiveTier_def sample_algod_def sample_dtalgorand_def)
  have "sel_Chosen s \<in> set (eligible_scored ?us ?c 1000 0 zero_weights)"
    using Select_mem [OF s r] by auto
  then have t: "effectiveTier ModeLoadBalancer (sel_Chosen s) = 0"
    unfolding eligible_scored_props using tier by auto
  have h: "caps_TimeTravel (u_Caps sample_dtalgorand)" "\<not> stateWindowEdge sample_dtalgorand ?c"
    "stateWindowEdge sample_algod ?c" by code_simp+
  have m: "sample_dtalgorand \<in> set ?us" by simp
  from select_avoids_edge [OF s r m e _ h(2) m e h(1)] t tier [OF m] s h(3) show ?thesis by auto
qed

text \<open>
  Fallback selection is deterministic: with distinct ids the order the directory lists the
  candidates in does not matter, whatever the random source.
\<close>

theorem select_deterministic:
  assumes "mode = ModeFallback \<or> rnd = None" and "distinct (map u_ID cands)" and "mset cands = mset cands'"
  shows "Select mode cands c b t w rnd = Select mode cands' c b t w rnd"
proof -
  let ?e = "eligible_scored cands c b t w" and ?e' = "eligible_scored cands' c b t w"
  have m: "mset ?e = mset ?e'" using assms(3) by (simp add: eligible_scored_def mset_map mset_filter)
  then have len: "length ?e = length ?e'" and st: "set ?e = set ?e'" by (metis size_mset, metis set_mset_mset)
  let ?tt = "list_ex (\<lambda>u. caps_TimeTravel (u_Caps u))"
  have "?tt ?e = ?tt ?e'" using st by (simp add: list_ex_iff)
  moreover have "inj_on u_ID (set cands)" using assms(2) by (simp add: distinct_map)
  then have "u_ID x \<noteq> u_ID y" if "x \<in> set ?e" "y \<in> set ?e" "x \<noteq> y" for x y
    using that unfolding eligible_scored_props by (auto dest: inj_onD)
  then have "SliceStable (select_lt mode (?tt ?e) c) ?e = SliceStable (select_lt mode (?tt ?e) c) ?e'"
    using m select_lt_total by (intro sel.SliceStable_permutation) blast+
  ultimately show ?thesis using assms(1) len by (auto simp: Select_def Let_def split: option.splits)
qed

theorem select_deterministic_witness:
  "Select ModeFallback [sample_algod, sample_dtalgorand] zero_class 1000 0 zero_weights None
   = Select ModeFallback [sample_dtalgorand, sample_algod] zero_class 1000 0 zero_weights None"
proof (rule select_deterministic)
  show "distinct (map u_ID [sample_algod, sample_dtalgorand])"
    by (simp add: sample_algod_def sample_dtalgorand_def)
qed simp_all

text \<open>
  In fallback mode the chosen upstream has the best score of its tier: no eligible upstream of
  the same tier and the same standing towards the state window scores lower.
\<close>

theorem select_fallback_best:
  assumes "Select ModeFallback cands c b t w rnd = Some s"
    and "v \<in> set cands" "Eligible v c b t" "effectiveTier ModeFallback v = effectiveTier ModeFallback (sel_Chosen s)"
    and "stateWindowEdge v c = stateWindowEdge (sel_Chosen s) c"
  shows "u_Score (sel_Chosen s) \<le> Score v c b w"
proof -
  let ?e0 = "eligible_scored cands c b t w"
  let ?tt = "list_ex (\<lambda>u. caps_TimeTravel (u_Caps u)) ?e0"
  let ?el = "SliceStable (select_lt ModeFallback ?tt c) ?e0"
  let ?v = "v\<lparr>u_Score := Score v c b w\<rparr>"
  have v: "?v \<in> set ?e0" unfolding eligible_scored_props using assms(2,3) by blast
  have ch: "sel_Chosen s = ?el ! 0" 
    using assms(1) by (auto simp: Select_def Let_def split: if_splits option.splits)
  obtain y ys where el: "?el = y # ys" using v sel.set_SliceStable [of ModeFallback ?tt c ?e0] by (cases ?el) auto
  have "\<not> select_lt ModeFallback ?tt c ?v y" using sel.hd_SliceStable [OF el v] .
  then show ?thesis using ch el assms(4,5) by (auto simp: select_lt_def split: if_splits)
qed

theorem select_fallback_best_witness:
  "\<exists>s. Select ModeFallback [sample_algod] zero_class 1000 0 zero_weights None = Some s
     \<and> u_Score (sel_Chosen s) \<le> Score sample_algod zero_class 1000 zero_weights"
proof -
  have e: "Eligible sample_algod zero_class 1000 0" by code_simp
  then obtain s where s: "Select ModeFallback [sample_algod] zero_class 1000 0 zero_weights None = Some s"
    using Select_None_iff [of ModeFallback "[sample_algod]"] by fastforce
  have "sel_Chosen s \<in> set (eligible_scored [sample_algod] zero_class 1000 0 zero_weights)"
    using Select_mem [OF s] by (auto simp: rand_ok_def)
  then show ?thesis using select_fallback_best [OF s _ e] s
    unfolding eligible_scored_props by auto
qed

end
