(* ===== verification/RateLimit.thy ===== *)
theory RateLimit
  imports Classify
begin

text \<open>
  The arithmetic of rate limiting (src/internal/domain/ratelimit.go): allowances that refill
  steadily, simulate caps of a plan and what a request costs; and the effort a node reports
  (src/internal/domain/effort.go). Credits are rational numbers; a Go map of cost weights is a
  map, whose missing keys read as 0.
\<close>

section \<open>Windows and buckets\<close>

record Window =
  w_Capacity :: f64
  w_Period :: Duration

definition Limited :: "Window \<Rightarrow> bool" where
  "Limited w = (w_Capacity w > 0 \<and> w_Period w > 0)"

definition rate :: "Window \<Rightarrow> f64" where
  "rate w = w_Capacity w / Seconds (w_Period w)"

record Bucket =
  bk_Level :: f64
  bk_At :: Time

definition Refill :: "Window \<Rightarrow> Bucket \<Rightarrow> Time \<Rightarrow> Bucket" where
  "Refill w b now =
     (if \<not> Limited w then \<lparr>bk_Level = 0, bk_At = now\<rparr>
      else if IsZero (bk_At b) then \<lparr>bk_Level = w_Capacity w, bk_At = now\<rparr>
      else
        let dt = time_Sub now (bk_At b);
            b = (if dt > 0 then b\<lparr>bk_Level := bk_Level b + Seconds dt * rate w, bk_At := now\<rparr> else b)
        in b\<lparr>bk_Level := min (bk_Level b) (w_Capacity w)\<rparr>)"

definition Wait :: "Window \<Rightarrow> f64 \<Rightarrow> f64 \<Rightarrow> Duration" where
  "Wait w level cost =
     (if \<not> Limited w \<or> level \<ge> cost then 0
      else \<lceil>(cost - level) / rate w * of_int Second\<rceil>)"

definition UntilFull :: "Window \<Rightarrow> f64 \<Rightarrow> Duration" where
  "UntilFull w level = Wait w level (w_Capacity w)"

definition Full :: "Window \<Rightarrow> Bucket \<Rightarrow> bool" where
  "Full w b = (\<not> Limited w \<or> bk_Level b \<ge> w_Capacity w)"

text \<open>Spending from a bucket, as limitKey.charge does: an unlimited window keeps no account.\<close>

definition spend_level_of :: "Window \<Rightarrow> Bucket \<Rightarrow> f64 \<Rightarrow> Bucket" where
  "spend_level_of w b x = (if Limited w then b\<lparr>bk_Level := bk_Level b - x\<rparr> else b)"

section \<open>Plans, caps and costs\<close>

record SimulateCaps =
  sc_MaxGroups :: int
  sc_MaxRounds :: int
  sc_MaxExtraOpcodeBudget :: u64
  sc_DenyUnnamedResources :: bool
  sc_DenyExecTrace :: bool

record Plan =
  plan_Name :: string
  plan_Minute :: Window
  plan_Day :: Window
  plan_Simulate :: SimulateCaps

text \<open>SimulateCaps.Check: why a request is beyond the caps, empty when it is within them.\<close>

definition Check :: "SimulateCaps \<Rightarrow> SimulateNeeds \<Rightarrow> string" where
  "Check c n =
     (if sc_MaxGroups c > 0 \<and> int (sn_Groups n) > sc_MaxGroups c
      then ''this plan allows at most '' @ show_int (sc_MaxGroups c)
           @ '' transaction groups in one simulate request''
      else if sc_MaxRounds c > 0 \<and> int (sn_Rounds n) > sc_MaxRounds c
      then ''this plan allows at most '' @ show_int (sc_MaxRounds c) @ '' rounds in one simulate request''
      else if sc_MaxExtraOpcodeBudget c > 0 \<and> sn_ExtraOpcodeBudget n > sc_MaxExtraOpcodeBudget c
      then ''this plan allows an extra-opcode-budget of at most '' @ show_u64 (sc_MaxExtraOpcodeBudget c)
      else if sc_DenyUnnamedResources c \<and> sn_UnnamedResources n
      then ''this plan does not allow allow-unnamed-resources''
      else if sc_DenyExecTrace c \<and> sn_ExecTrace n
      then ''this plan does not allow exec-trace-config''
      else [])"

abbreviation CostVersions :: string where "CostVersions \<equiv> ''versions''"
abbreviation CostDeltasHistory :: string where "CostDeltasHistory \<equiv> ''deltas_history''"

definition CostKeys :: "string list" where
  "CostKeys = [''default'', ''round'', ''timetravel'', ''simulate'', ''broadcast'', ''pending'',
     ''wait'', ''teal'', CostVersions, CostDeltasHistory]"

type_synonym CostWeights = "string \<rightharpoonup> f64"

definition DefaultCostWeights :: CostWeights where
  "DefaultCostWeights = map_of [(''default'', 1), (''round'', 1), (''timetravel'', 2), (''simulate'', 5),
     (''broadcast'', 1), (''pending'', 1), (''wait'', 1), (''teal'', 1), (CostVersions, 10),
     (CostDeltasHistory, 50)]"

definition recentDeltaRounds :: u64 where "recentDeltaRounds = 8"

definition CostKey :: "RequestClass \<Rightarrow> u64 \<Rightarrow> string" where
  "CostKey c best =
     (if rc_Versions c then CostVersions
      else if rc_Deltas c \<and> (case rc_Round c of None \<Rightarrow> False | Some r \<Rightarrow> r + recentDeltaRounds < best)
      then CostDeltasHistory
      else StatKey c)"

definition weight_of :: "CostWeights \<Rightarrow> string \<Rightarrow> f64" where
  "weight_of w k = (case w k of None \<Rightarrow> 0 | Some v \<Rightarrow> v)"

definition Base :: "CostWeights \<Rightarrow> RequestClass \<Rightarrow> u64 \<Rightarrow> f64" where
  "Base w c best =
     (let v = weight_of w (CostKey c best) in
      case rc_SimNeeds c of
        Some n \<Rightarrow> if rc_Simulate c then v * of_nat (max (sn_Groups n) 1 * max (sn_Rounds n) 1) else v
      | None \<Rightarrow> v)"

section \<open>Effort\<close>

record Effort =
  ef_Opcodes :: u64
  ef_Lookups :: u64
  ef_History :: u64
  ef_Scanned :: u64
  ef_TraceBytes :: u64
  ef_EvalUS :: u64

definition zero_effort :: Effort where
  "zero_effort = \<lparr>ef_Opcodes = 0, ef_Lookups = 0, ef_History = 0, ef_Scanned = 0, ef_TraceBytes = 0,
     ef_EvalUS = 0\<rparr>"

text \<open>Effort.field with the assignment through the pointer it returns; None for an unknown key.\<close>

definition set_field :: "Effort \<Rightarrow> string \<Rightarrow> (u64 \<Rightarrow> Effort) option" where
  "set_field e key =
     (if key = ''opcodes'' then Some (\<lambda>n. e\<lparr>ef_Opcodes := n\<rparr>)
      else if key = ''lookups'' then Some (\<lambda>n. e\<lparr>ef_Lookups := n\<rparr>)
      else if key = ''history'' then Some (\<lambda>n. e\<lparr>ef_History := n\<rparr>)
      else if key = ''scanned'' then Some (\<lambda>n. e\<lparr>ef_Scanned := n\<rparr>)
      else if key = ''trace-bytes'' then Some (\<lambda>n. e\<lparr>ef_TraceBytes := n\<rparr>)
      else if key = ''eval-us'' then Some (\<lambda>n. e\<lparr>ef_EvalUS := n\<rparr>)
      else None)"

definition billedEffortKeys :: "string list" where
  "billedEffortKeys = [''opcodes'', ''lookups'', ''history'', ''scanned'', ''trace-bytes'']"

text \<open>The loop over the members: the effort read so far and the keys seen; None ends it.\<close>

definition effort_member :: "Effort \<times> string list \<Rightarrow> string \<Rightarrow> (Effort \<times> string list) option" where
  "effort_member st mb =
     (case (st, Cut (TrimSpace (fst (Cut mb (CHR '';'')))) (CHR ''='')) of
        ((e, seen), (key, val, ok)) \<Rightarrow>
          (case set_field e key of
             None \<Rightarrow> Some (e, seen)
           | Some put \<Rightarrow>
             if \<not> ok \<or> key \<in> set seen then None
             else (case ParseUint val of None \<Rightarrow> None | Some n \<Rightarrow> Some (put n, key # seen))))"

fun effort_members :: "Effort \<times> string list \<Rightarrow> string list \<Rightarrow> (Effort \<times> string list) option" where
  "effort_members st [] = Some st"
| "effort_members st (m # ms) =
     (case effort_member st m of None \<Rightarrow> None | Some st' \<Rightarrow> effort_members st' ms)"

definition ParseEffort :: "string \<Rightarrow> Effort option" where
  "ParseEffort v =
     (case effort_members (zero_effort, []) (Split v (CHR '','')) of
        None \<Rightarrow> None
      | Some (e, seen) \<Rightarrow> if list_all (\<lambda>k. k \<in> set seen) billedEffortKeys then Some e else None)"

definition Add :: "Effort \<Rightarrow> Effort \<Rightarrow> Effort" where
  "Add e o' = \<lparr>ef_Opcodes = ef_Opcodes e + ef_Opcodes o', ef_Lookups = ef_Lookups e + ef_Lookups o',
     ef_History = ef_History e + ef_History o', ef_Scanned = ef_Scanned e + ef_Scanned o',
     ef_TraceBytes = ef_TraceBytes e + ef_TraceBytes o', ef_EvalUS = ef_EvalUS e + ef_EvalUS o'\<rparr>"

record EffortRates =
  OpcodesPerCredit :: f64
  LookupsPerCredit :: f64
  HistoryPerCredit :: f64
  ScannedPerCredit :: f64
  TraceKBPerCredit :: f64

definition DefaultEffortRates :: EffortRates where
  "DefaultEffortRates = \<lparr>OpcodesPerCredit = 330000, LookupsPerCredit = 10000, HistoryPerCredit = 1000,
     ScannedPerCredit = 10000, TraceKBPerCredit = 1024\<rparr>"

definition per :: "u64 \<Rightarrow> f64 \<Rightarrow> f64" where
  "per n r = (if r \<le> 0 then 0 else of_nat (unat n) / r)"

definition Credits :: "EffortRates \<Rightarrow> Effort \<Rightarrow> f64" where
  "Credits r e = per (ef_Opcodes e) (OpcodesPerCredit r) + per (ef_Lookups e) (LookupsPerCredit r)
     + per (ef_History e) (HistoryPerCredit r) + per (ef_Scanned e) (ScannedPerCredit r)
     + per (ef_TraceBytes e) (TraceKBPerCredit r * 1024)"

text \<open>The header a node sends for an effort: the fields as a dictionary of integers.\<close>

definition effort_header :: "Effort \<Rightarrow> string" where
  "effort_header e = Join [''opcodes='' @ show_u64 (ef_Opcodes e), ''lookups='' @ show_u64 (ef_Lookups e),
     ''history='' @ show_u64 (ef_History e), ''scanned='' @ show_u64 (ef_Scanned e),
     ''trace-bytes='' @ show_u64 (ef_TraceBytes e), ''eval-us='' @ show_u64 (ef_EvalUS e)] '', ''"

section \<open>Lemmas\<close>

lemma rate_pos [simp]: "Limited w \<Longrightarrow> rate w > 0"
  by (simp add: Limited_def rate_def Seconds_def)

text \<open>The level of a bucket some time after it was brought up to date.\<close>

lemma Refill_level:
  assumes "Limited w" "bk_At b \<noteq> 0" "bk_At b \<le> now" "now - bk_At b \<le> max_duration"
  shows "Refill w b now = \<lparr>bk_Level = min (bk_Level b + of_int (now - bk_At b) / 1000000000 * rate w) (w_Capacity w),
     bk_At = now\<rparr>"
proof -
  have "time_Sub now (bk_At b) = now - bk_At b"
    using assms(3,4) by (intro time_Sub_exact) (auto simp: min_duration_def)
  then show ?thesis using assms by (auto simp: Refill_def IsZero_def Let_def Seconds_def)
qed

lemma Refill_le_Capacity: "Limited w \<Longrightarrow> bk_Level (Refill w b now) \<le> w_Capacity w"
  by (simp add: Refill_def Let_def)

lemma Refill_At: "bk_At b \<le> now \<Longrightarrow> bk_At (Refill w b now) = now"
  by (auto simp: Refill_def Let_def IsZero_def time_Sub_def min_duration_def max_duration_def
      split: if_splits)

text \<open>A refill never gives more than the rate over the time that has passed.\<close>

lemma Refill_gain:
  assumes "Limited w" "bk_At b \<noteq> 0" "bk_At b \<le> now"
  shows "bk_Level (Refill w b now) \<le> bk_Level b + of_int (now - bk_At b) / 1000000000 * rate w"
proof -
  have "of_int (time_Sub now (bk_At b)) / 1000000000 * rate w \<le> of_int (now - bk_At b) / 1000000000 * rate w"
    using assms by (intro mult_right_mono divide_right_mono)
      (auto simp: time_Sub_def min_duration_def max_duration_def less_imp_le)
  moreover have "0 \<le> of_int (now - bk_At b) / 1000000000 * rate w"
    using assms by (simp add: less_imp_le)
  ultimately show ?thesis using assms
    by (auto simp: Refill_def Let_def IsZero_def Seconds_def min_le_iff_disj)
qed

lemma CostKey_listed: "CostKey c best \<in> set CostKeys"
  by (simp add: CostKey_def CostKeys_def StatKey_def)

text \<open>Reading one member of an effort dictionary.\<close>

lemma effort_member_show:
  assumes "key \<noteq> []" "\<not> is_space (hd key)" "CHR ''='' \<notin> set key" "CHR '';'' \<notin> set key"
    and "sp = [] \<or> sp = '' ''"
  shows "effort_member (e, seen) (sp @ key @ CHR ''='' # show_u64 n) =
    (case set_field e key of None \<Rightarrow> Some (e, seen)
     | Some put \<Rightarrow> if key \<in> set seen then None else Some (put n, key # seen))"
proof -
  let ?m = "key @ CHR ''='' # show_u64 n"
  have "CHR '';'' \<notin> set (sp @ ?m)" using assms(4,5) show_u64_punct [of n] by auto
  then have c: "Cut (sp @ ?m) (CHR '';'') = (sp @ ?m, [], False)" by (rule Cut_absent)
  have sp: "dropWhile is_space (sp @ ?m) = ?m"
    using assms(1,2,5) by (cases key) (auto simp: is_space_def)
  obtain d ds where d: "rev (show_u64 n) = d # ds" by (cases "rev (show_u64 n)") auto
  have "is_digit d" using d show_nat_digits [of "unat n"]
    by (metis list.set_intros(1) list_all_iff set_rev show_u64_def)
  then have "\<not> is_space d" by (auto simp: is_digit_def is_space_def)
  then have "dropWhile is_space (rev ?m) = rev ?m" using d by simp
  then have t: "TrimSpace (sp @ ?m) = ?m" unfolding TrimSpace_def sp by simp
  show ?thesis unfolding effort_member_def c fst_conv t
    using assms(3) by (auto simp: Cut_present split: option.splits)
qed

lemma Refill_mono:
  assumes "bk_At b \<le> t" "t \<le> t'"
  shows "bk_Level (Refill w b t) \<le> bk_Level (Refill w b t')"
proof (cases "Limited w \<and> bk_At b \<noteq> 0")
  case True
  let ?g = "\<lambda>t. Seconds (time_Sub t (bk_At b)) * rate w"
  have lvl: "bk_Level (Refill w b u) = min (bk_Level b + ?g u) (w_Capacity w)" if "bk_At b \<le> u" for u
    using that True by (auto simp: Refill_def Let_def IsZero_def Seconds_def time_Sub_def min_duration_def max_duration_def)
  have "?g t \<le> ?g t'" using True assms
    by (intro mult_right_mono) (auto simp: Seconds_def time_Sub_def less_imp_le min_duration_def max_duration_def)
  then show ?thesis using lvl assms by (auto simp: min_def)
qed (auto simp: Refill_def IsZero_def)

lemma Wait_nonneg [simp]: "0 \<le> Wait w level cost"
proof (cases "\<not> Limited w \<or> level \<ge> cost")
  case False
  then have "0 < (cost - level) / rate w * of_int Second" by (simp add: Second_def)
  then have "0 < \<lceil>(cost - level) / rate w * of_int Second\<rceil>" by (simp only: zero_less_ceiling)
  then show ?thesis using False by (simp add: Wait_def)
qed (auto simp: Wait_def)

text \<open>Waiting at least as long as Wait says is enough.\<close>

lemma Wait_sufficient:
  assumes "Limited w" "bk_At b \<noteq> 0" "cost \<le> w_Capacity w" "Wait w (bk_Level b) cost \<le> d" "0 \<le> d" "d \<le> max_duration"
  shows "cost \<le> bk_Level (Refill w b (bk_At b + d))"
proof -
  have r: "rate w > 0" using assms(1) by simp
  have "cost \<le> bk_Level b + of_int d / 1000000000 * rate w"
  proof (cases "cost \<le> bk_Level b")
    case True
    moreover have "0 \<le> of_int d / 1000000000 * rate w" using r assms(5) by (simp add: less_imp_le)
    ultimately show ?thesis by simp
  next
    case False
    then have "(cost - bk_Level b) / rate w * of_int Second \<le> of_int d"
      using assms(1,4) by (simp add: Wait_def ceiling_le_iff)
    then show ?thesis using r by (simp add: Second_def field_simps)
  qed
  then show ?thesis using assms by (subst Refill_level) auto
qed

section \<open>The allowance interface\<close>

text \<open>
  What the limiter relies on: an allowance never holds more than its capacity, gains no more than
  its rate over time, and loses what is spent. The credit of an allowance at an instant is its
  level with the gain since its stamp, not cut off at the capacity: it bounds what can be spent
  from then on, and no operation of the interface raises it.
\<close>

locale allowance =
  fixes limited :: bool and level :: "'b \<Rightarrow> f64" and stamp :: "'b \<Rightarrow> Time"
    and top_up :: "'b \<Rightarrow> Time \<Rightarrow> 'b" and spend :: "'b \<Rightarrow> f64 \<Rightarrow> 'b"
    and capacity :: f64 and per_ns :: f64
  assumes top_up_capacity: "limited \<Longrightarrow> level (top_up b now) \<le> capacity"
    and top_up_gain: "limited \<Longrightarrow> stamp b \<noteq> 0 \<Longrightarrow> stamp b \<le> now
      \<Longrightarrow> level (top_up b now) \<le> level b + of_int (now - stamp b) * per_ns"
    and top_up_stamp: "stamp b \<le> now \<Longrightarrow> stamp (top_up b now) = now"
    and spend_level: "limited \<Longrightarrow> level (spend b x) = level b - x"
    and spend_stamp: "stamp (spend b x) = stamp b"
begin

definition credit :: "'b \<Rightarrow> Time \<Rightarrow> f64" where
  "credit b t = level b + of_int (t - stamp b) * per_ns"

lemma credit_later: "credit b t' = credit b t + of_int (t' - t) * per_ns"
  by (simp add: credit_def algebra_simps)

lemma credit_spend: "limited \<Longrightarrow> credit (spend b x) t = credit b t - x"
  by (simp add: credit_def spend_level spend_stamp)

lemma credit_top_up:
  assumes "limited" "stamp b \<noteq> 0" "stamp b \<le> now"
  shows "credit (top_up b now) t \<le> credit b t"
  using top_up_gain [OF assms] top_up_stamp [OF assms(3)] by (simp add: credit_def algebra_simps)

lemma credit_top_up_capacity:
  assumes "limited" "stamp b \<le> now"
  shows "credit (top_up b now) now \<le> capacity"
  using top_up_capacity [OF assms(1)] top_up_stamp [OF assms(2)] by (simp add: credit_def)

end

text \<open>The windows of the plans keep the interface, spending as limitKey.charge does.\<close>

interpretation win: allowance "Limited w" bk_Level bk_At "Refill w" "spend_level_of w" "w_Capacity w"
  "rate w / 1000000000" for w
proof unfold_locales
  fix b :: Bucket and now :: Time
  assume "Limited w" "bk_At b \<noteq> 0" "bk_At b \<le> now"
  then show "bk_Level (Refill w b now) \<le> bk_Level b + of_int (now - bk_At b) * (rate w / 1000000000)"
    using Refill_gain [of w b now] by simp
qed (simp_all add: Refill_le_Capacity Refill_At spend_level_of_def)

section \<open>Properties\<close>

text \<open>
  Bringing a bucket up to date in two steps is the same as in one: how often a client's bucket
  is looked at does not change what it holds.
\<close>

theorem refill_composes:
  assumes "0 < bk_At b" "bk_At b \<le> t1" "t1 \<le> t2" "t2 - bk_At b \<le> max_duration"
  shows "Refill w (Refill w b t1) t2 = Refill w b t2"
proof (cases "Limited w")
  case True
  let ?r = "rate w / 1000000000"
  have 1: "Refill w b t1 = \<lparr>bk_Level = min (bk_Level b + of_int (t1 - bk_At b) / 1000000000 * rate w) (w_Capacity w),
     bk_At = t1\<rparr>" using assms True by (intro Refill_level) auto
  have 2: "Refill w b t2 = \<lparr>bk_Level = min (bk_Level b + of_int (t2 - bk_At b) / 1000000000 * rate w) (w_Capacity w),
     bk_At = t2\<rparr>" using assms True by (intro Refill_level) auto
  have 3: "Refill w (Refill w b t1) t2 = \<lparr>bk_Level = min (min (bk_Level b + of_int (t1 - bk_At b) / 1000000000 * rate w)
        (w_Capacity w) + of_int (t2 - t1) / 1000000000 * rate w) (w_Capacity w), bk_At = t2\<rparr>"
    unfolding 1 using assms True by (subst Refill_level) auto
  have g: "0 \<le> of_int (t2 - t1) / 1000000000 * rate w" using assms True by (simp add: less_imp_le)
  have sum: "of_int (t1 - bk_At b) / 1000000000 * rate w + of_int (t2 - t1) / 1000000000 * rate w
      = of_int (t2 - bk_At b) / 1000000000 * rate w"
    by (simp add: field_simps)
  have clip: "min (min x c + y) c = min (x + y) c" if "0 \<le> y" for x y c :: f64
    using that by (auto simp: min_def)
  show ?thesis unfolding 2 3 clip [OF g] using sum by (simp add: add.assoc)
qed (simp add: Refill_def)

theorem refill_composes_witness:
  "Refill \<lparr>w_Capacity = 60, w_Period = 60000000000\<rparr> (Refill \<lparr>w_Capacity = 60, w_Period = 60000000000\<rparr>
     \<lparr>bk_Level = 3, bk_At = 5\<rparr> 7) 2000000005
   = Refill \<lparr>w_Capacity = 60, w_Period = 60000000000\<rparr> \<lparr>bk_Level = 3, bk_At = 5\<rparr> 2000000005"
  using refill_composes [of "\<lparr>bk_Level = 3, bk_At = 5\<rparr>" 7 2000000005
      "\<lparr>w_Capacity = 60, w_Period = 60000000000\<rparr>"] by (simp add: max_duration_def)

text \<open>
  Wait is exact: a client told to come back after it finds the cost in the bucket, and at no
  earlier nanosecond would it have been there.
\<close>

theorem wait_exact:
  assumes "Limited w" "0 < bk_At b" "cost \<le> w_Capacity w" "bk_Level b < cost" "Wait w (bk_Level b) cost \<le> max_duration"
  shows "cost \<le> bk_Level (Refill w b (bk_At b + Wait w (bk_Level b) cost))
    \<and> (\<forall>d. 0 \<le> d \<and> d < Wait w (bk_Level b) cost \<longrightarrow> bk_Level (Refill w b (bk_At b + d)) < cost)"
proof -
  define q where "q = (cost - bk_Level b) / rate w * of_int Second"
  have wait: "Wait w (bk_Level b) cost = \<lceil>q\<rceil>" using assms by (simp add: Wait_def q_def)
  have r: "rate w > 0" using assms(1) by simp
  have q: "0 < q" using assms(4) r by (simp add: q_def Second_def)
  then have pos: "0 < \<lceil>q\<rceil>" by simp
  have gain: "of_int d / 1000000000 * rate w \<ge> cost - bk_Level b \<longleftrightarrow> q \<le> of_int d" for d
    using r by (simp add: q_def Second_def field_simps)
  have lvl: "bk_Level (Refill w b (bk_At b + d))
      = min (bk_Level b + of_int d / 1000000000 * rate w) (w_Capacity w)" if "0 \<le> d" "d \<le> \<lceil>q\<rceil>" for d
    using that assms wait by (subst Refill_level) auto
  have "cost \<le> bk_Level b + of_int \<lceil>q\<rceil> / 1000000000 * rate w" using gain [of "\<lceil>q\<rceil>"] by (simp add: algebra_simps)
  moreover have "bk_Level b + of_int d / 1000000000 * rate w < cost" if "0 \<le> d" "d < \<lceil>q\<rceil>" for d
    using gain [of d] that by (simp add: less_ceiling_iff not_le algebra_simps)
  ultimately show ?thesis using lvl pos assms(3) unfolding wait by (auto simp: min_less_iff_disj)
qed

theorem wait_exact_witness:
  "2 \<le> bk_Level (Refill \<lparr>w_Capacity = 60, w_Period = 60000000000\<rparr> \<lparr>bk_Level = 1 / 3, bk_At = 5\<rparr> (5 + 1666666667))
   \<and> bk_Level (Refill \<lparr>w_Capacity = 60, w_Period = 60000000000\<rparr> \<lparr>bk_Level = 1 / 3, bk_At = 5\<rparr> (5 + 1666666666)) < 2"
proof -
  have "\<lceil>5000000000 / 3 :: f64\<rceil> = 1666666667" by (rule ceiling_unique) simp_all
  then have "Wait \<lparr>w_Capacity = 60, w_Period = 60000000000\<rparr> (1 / 3) 2 = 1666666667"
    by (simp add: Wait_def Limited_def rate_def Seconds_def Second_def)
  then show ?thesis
    using wait_exact [of "\<lparr>w_Capacity = 60, w_Period = 60000000000\<rparr>" "\<lparr>bk_Level = 1 / 3, bk_At = 5\<rparr>" 2]
    by (auto simp: Limited_def max_duration_def dest: spec [of _ 1666666666])
qed

text \<open>
  An effort header and its reading agree: the dictionary a node sends, members separated by a
  comma and a space, reads back as the effort, for all 64-bit counts.
\<close>

theorem effort_roundtrip:
  "ParseEffort (effort_header e) = Some e"
proof -
  have "Split (effort_header e) (CHR '','') = [''opcodes='' @ show_u64 (ef_Opcodes e),
     '' lookups='' @ show_u64 (ef_Lookups e), '' history='' @ show_u64 (ef_History e),
     '' scanned='' @ show_u64 (ef_Scanned e), '' trace-bytes='' @ show_u64 (ef_TraceBytes e),
     '' eval-us='' @ show_u64 (ef_EvalUS e)]"
    by (simp add: effort_header_def show_u64_punct)
  then show ?thesis
    using effort_member_show [of "''opcodes''" "[]"] effort_member_show [of "''lookups''" "'' ''"]
      effort_member_show [of "''history''" "'' ''"] effort_member_show [of "''scanned''" "'' ''"]
      effort_member_show [of "''trace-bytes''" "'' ''"] effort_member_show [of "''eval-us''" "'' ''"]
    by (simp add: ParseEffort_def set_field_def zero_effort_def billedEffortKeys_def is_space_def)
qed

text \<open>
  No request is free by default: every request has one of the listed cost keys, and with the
  default weights it costs at least one credit, a simulation at least one per group and round.
\<close>

theorem default_cost_positive:
  "CostKey c best \<in> set CostKeys \<and>
   (case rc_SimNeeds c of
      Some n \<Rightarrow> if rc_Simulate c then of_nat (max (sn_Groups n) 1 * max (sn_Rounds n) 1) else 1
    | None \<Rightarrow> 1) \<le> Base DefaultCostWeights c best"
proof -
  have w: "1 \<le> weight_of DefaultCostWeights k" if "k \<in> set CostKeys" for k
    using that by (auto simp: CostKeys_def weight_of_def DefaultCostWeights_def)
  let ?w = "weight_of DefaultCostWeights (CostKey c best)"
  have 1: "1 \<le> ?w" using w CostKey_listed by blast
  have "of_nat (max (sn_Groups n) 1 * max (sn_Rounds n) 1) \<le> ?w * of_nat (max (sn_Groups n) 1 * max (sn_Rounds n) 1)"
    for n using mult_right_mono [OF 1, of "of_nat (max (sn_Groups n) 1 * max (sn_Rounds n) 1)"] by simp
  then show ?thesis using 1 CostKey_listed by (auto simp: Base_def Let_def split: option.splits)
qed

end
