(* ===== verification/Paths.thy ===== *)
theory Paths
  imports Prelude
begin

text \<open>
  Paths of a gossip link (src/internal/domain/path.go) and the endpoint that goes with a path
  (src/internal/domain/endpoint.go): which of a link's addresses carries the heartbeats, and which
  advertised endpoint requests use. net.SplitHostPort is modelled as the standard library has it.
\<close>

section \<open>Definitions\<close>

record PathStat =
  ps_Addr :: string
  ps_RTT :: Duration
  ps_Alive :: bool
  ps_Deaf :: bool

definition PathFailures :: int where "PathFailures = 3"

definition pathSwitchMargin :: f64 where "pathSwitchMargin = 1 / 4"

record PathPolicy =
  pp_ProbeInterval :: Duration

definition better :: "PathStat \<Rightarrow> PathStat \<Rightarrow> bool" where
  "better a b =
     (if ps_RTT a > 0 \<and> ps_RTT b > 0 then ps_RTT a < ps_RTT b
      else if ps_RTT a > 0 then True
      else False)"

text \<open>The loop over the alive paths: the index of the best one, None for the source's -1.\<close>

definition best_path :: "PathStat list \<Rightarrow> nat option" where
  "best_path stats =
     scan_best (\<lambda>i j. better (stats ! i) (stats ! j)) (filter (\<lambda>i. ps_Alive (stats ! i)) [0..<length stats])"

definition index_of :: "nat option \<Rightarrow> int" where
  "index_of i = (case i of None \<Rightarrow> - 1 | Some k \<Rightarrow> int k)"

definition Choose ::
  "PathPolicy \<Rightarrow> Time \<Rightarrow> PathStat list \<Rightarrow> int \<Rightarrow> Time \<Rightarrow> int \<times> string" where
  "Choose p now stats cur since =
     (let best = index_of (best_path stats) in
      if cur < 0 \<or> cur \<ge> int (length stats) then
        (if best < 0 then (- 1, ''none'') else (best, ''initial''))
      else let c = stats ! nat cur in
        if \<not> ps_Alive c then (best, if ps_Deaf c then ''deaf'' else ''dead'')
        else if best < 0 \<or> best = cur then (cur, ''keep'')
        else let b = stats ! nat best in
          if ps_RTT c > 0 \<and> ps_RTT b > 0
             \<and> (of_int (ps_RTT b) :: f64) < of_int (ps_RTT c) * (1 - pathSwitchMargin)
             \<and> time_Sub now since \<ge> 2 * pp_ProbeInterval p
          then (best, ''faster'') else (cur, ''keep''))"

text \<open>net.SplitHostPort; the errors are not told apart by the callers.\<close>

fun last_colon :: "string \<Rightarrow> (string \<times> string) option" where
  "last_colon [] = None"
| "last_colon (c # cs) =
     (case last_colon cs of
        Some (a, b) \<Rightarrow> Some (c # a, b)
      | None \<Rightarrow> if c = CHR '':'' then Some ([], cs) else None)"

definition SplitHostPort :: "string \<Rightarrow> (string \<times> string) option" where
  "SplitHostPort hostport =
     (case last_colon hostport of
        None \<Rightarrow> None
      | Some (before, port) \<Rightarrow>
        if hd hostport = CHR ''['' then
          (case Cut hostport (CHR '']'') of (h, rest, found) \<Rightarrow>
             if \<not> found then None
             else if rest \<noteq> CHR '':'' # port then None
             else if CHR ''['' \<in> set (tl hostport) \<or> CHR '']'' \<in> set rest then None
             else Some (tl h, port))
        else if CHR '':'' \<in> set before \<or> CHR ''['' \<in> set hostport \<or> CHR '']'' \<in> set hostport
        then None
        else Some (before, port))"

text \<open>net.JoinHostPort.\<close>

definition JoinHostPort :: "string \<Rightarrow> string \<Rightarrow> string" where
  "JoinHostPort host port =
     (if CHR '':'' \<in> set host then ''['' @ host @ '']:'' @ port else host @ '':'' @ port)"

text \<open>The loop of EndpointFor: the first endpoint whose host matches, within the endpoints.\<close>

fun endpoint_scan :: "string list \<Rightarrow> string list \<Rightarrow> string \<Rightarrow> string option" where
  "endpoint_scan (e # es) (h # hs) host = (if h = host then Some e else endpoint_scan es hs host)"
| "endpoint_scan _ _ host = None"

definition EndpointFor :: "string list \<Rightarrow> string list \<Rightarrow> string \<Rightarrow> string" where
  "EndpointFor endpoints hosts pathAddr =
     (case endpoints of [] \<Rightarrow> []
      | e # es \<Rightarrow>
        (case SplitHostPort pathAddr of
           None \<Rightarrow> e
         | Some (host, _) \<Rightarrow>
           if host = [] then e
           else (case endpoint_scan endpoints hosts host of None \<Rightarrow> e | Some x \<Rightarrow> x)))"

section \<open>Lemmas\<close>

text \<open>Paths are ordered by whether they are measured, then by round-trip time.\<close>

interpretation path: strict_weak_order "\<lambda>i j. better (stats ! i) (stats ! j)" for stats
proof -
  have *: "(\<lambda>i j. better (stats ! i) (stats ! j)) = (\<lambda>i j.
     if (ps_RTT (stats ! i) \<le> 0) \<noteq> (ps_RTT (stats ! j) \<le> 0)
     then (ps_RTT (stats ! i) \<le> 0) < (ps_RTT (stats ! j) \<le> 0)
     else max 0 (ps_RTT (stats ! i)) < max 0 (ps_RTT (stats ! j)))"
    by (intro ext) (auto simp: better_def)
  show "strict_weak_order (\<lambda>i j. better (stats ! i) (stats ! j))"
    unfolding * by (intro strict_weak_order_lex strict_weak_order_key)
qed

lemma best_path_Some:
  assumes "best_path stats = Some i"
  shows "i < length stats" "ps_Alive (stats ! i)"
    and "\<And>k. k < length stats \<Longrightarrow> ps_Alive (stats ! k) \<Longrightarrow> \<not> better (stats ! k) (stats ! i)"
  using path.scan_best_Some [OF assms [unfolded best_path_def]] by auto

lemma best_path_None: "best_path stats = None \<longleftrightarrow> \<not> (\<exists>s \<in> set stats. ps_Alive s)"
  unfolding best_path_def path.scan_best_None by (auto simp: filter_empty_conv all_set_conv_all_nth)

lemma last_colon_eq: "last_colon s = Some (a, b) \<Longrightarrow> s = a @ CHR '':'' # b \<and> CHR '':'' \<notin> set b"
proof (induction s arbitrary: a)
  case (Cons c cs)
  have none: "last_colon cs = None \<Longrightarrow> CHR '':'' \<notin> set cs" for cs
    by (induction cs) (auto split: option.splits if_splits)
  show ?case using Cons none by (auto split: option.splits if_splits)
qed simp

lemma endpoint_scan_nth:
  "endpoint_scan es hs host = Some e \<longleftrightarrow>
     (\<exists>i. i < length es \<and> i < length hs \<and> hs ! i = host \<and> es ! i = e \<and> (\<forall>k < i. hs ! k \<noteq> host))"
proof (induction es hs host rule: endpoint_scan.induct)
  case (1 e' es h hs host)
  show ?case
  proof (cases "h = host")
    case True
    then show ?thesis by (auto intro: exI [of _ 0] simp: nth_Cons' split: if_splits)
  next
    case False
    have "(\<exists>i. i < length (e' # es) \<and> i < length (h # hs) \<and> (h # hs) ! i = host \<and> (e' # es) ! i = e
         \<and> (\<forall>k < i. (h # hs) ! k \<noteq> host))
      \<longleftrightarrow> (\<exists>i. i < length es \<and> i < length hs \<and> hs ! i = host \<and> es ! i = e \<and> (\<forall>k < i. hs ! k \<noteq> host))"
      (is "?l \<longleftrightarrow> ?r")
    proof
      assume ?l
      then obtain i where "i < length (e' # es)" "i < length (h # hs)" "(h # hs) ! i = host"
        "(e' # es) ! i = e" "\<forall>k < i. (h # hs) ! k \<noteq> host" by blast
      with False show ?r by (cases i) (auto intro!: exI [of _ "i - 1"] dest: spec [of _ "Suc _"])
    next
      assume ?r
      then obtain i where "i < length es" "i < length hs" "hs ! i = host" "es ! i = e" "\<forall>k < i. hs ! k \<noteq> host"
        by blast
      with False show ?l by (intro exI [of _ "Suc i"]) (auto simp: nth_Cons split: nat.splits)
    qed
    with False 1 show ?thesis by simp
  qed
qed simp_all

section \<open>Properties\<close>

text \<open>
  The path policy: it returns a path exactly when one is alive, and then an alive one; when it
  moves, no alive path is better than the one it moves to; and it leaves a working path only for a
  measured one faster by a quarter, and not before two probe intervals have passed since the last
  switch.
\<close>

theorem choose_policy:
  fixes p now stats cur since
  defines "i \<equiv> fst (Choose p now stats cur since)" and "why \<equiv> snd (Choose p now stats cur since)"
  shows "(0 \<le> i \<longleftrightarrow> (\<exists>s \<in> set stats. ps_Alive s))
    \<and> (0 \<le> i \<longrightarrow> i < int (length stats) \<and> ps_Alive (stats ! nat i))
    \<and> (0 \<le> i \<and> i \<noteq> cur \<longrightarrow>
         (\<forall>k < length stats. ps_Alive (stats ! k) \<longrightarrow> \<not> better (stats ! k) (stats ! nat i)))
    \<and> (0 \<le> cur \<and> cur < int (length stats) \<and> ps_Alive (stats ! nat cur) \<and> i \<noteq> cur \<longrightarrow>
         why = ''faster'' \<and> 0 < ps_RTT (stats ! nat i) \<and> 4 * ps_RTT (stats ! nat i) < 3 * ps_RTT (stats ! nat cur)
         \<and> 2 * pp_ProbeInterval p \<le> time_Sub now since)"
proof -
  have margin: "of_int b < (of_int c :: f64) * (1 - pathSwitchMargin) \<longleftrightarrow> 4 * b < 3 * c" for b c
  proof -
    have "of_int b < (of_int c :: f64) * (1 - pathSwitchMargin) \<longleftrightarrow> (of_int (4 * b) :: f64) < of_int (3 * c)"
      by (simp add: pathSwitchMargin_def field_simps)
    then show ?thesis by (simp only: of_int_less_iff)
  qed
  have cur: "\<exists>s \<in> set stats. ps_Alive s" if "0 \<le> cur" "cur < int (length stats)" "ps_Alive (stats ! nat cur)"
    using that nth_mem [of "nat cur" stats] by auto
  show ?thesis
  proof (cases "best_path stats")
    case None
    then have "\<not> (\<exists>s \<in> set stats. ps_Alive s)" using best_path_None by blast
    moreover from this have "\<not> (0 \<le> cur \<and> cur < int (length stats) \<and> ps_Alive (stats ! nat cur))"
      using cur by blast
    ultimately show ?thesis using None
      by (auto simp: i_def why_def Choose_def index_of_def Let_def not_less)
  next
    case (Some b)
    have ex: "\<exists>s \<in> set stats. ps_Alive s" using Some best_path_None by force
    note b = best_path_Some [OF Some]
    have best: "index_of (best_path stats) = int b" using Some by (simp add: index_of_def)
    consider (out) "cur < 0 \<or> cur \<ge> int (length stats)"
      | (gone) "0 \<le> cur" "cur < int (length stats)" "\<not> ps_Alive (stats ! nat cur)"
      | (up) "0 \<le> cur" "cur < int (length stats)" "ps_Alive (stats ! nat cur)" by linarith
    then show ?thesis
    proof cases
      case up
      then show ?thesis using ex b margin [of "ps_RTT (stats ! b)" "ps_RTT (stats ! nat cur)"]
        by (auto simp: i_def why_def Choose_def best Let_def)
    qed (use ex b in \<open>auto simp: i_def why_def Choose_def best Let_def\<close>)
  qed
qed

theorem choose_policy_witness:
  "4 * (40 :: int) < 3 * 100 \<and> 2 * 5 \<le> time_Sub 30 10
   \<and> fst (Choose \<lparr>pp_ProbeInterval = 5\<rparr> 30
       [\<lparr>ps_Addr = ''a:1'', ps_RTT = 100, ps_Alive = True, ps_Deaf = False\<rparr>,
        \<lparr>ps_Addr = ''b:1'', ps_RTT = 40, ps_Alive = True, ps_Deaf = False\<rparr>] 0 10) = 1"
proof -
  let ?st = "[\<lparr>ps_Addr = ''a:1'', ps_RTT = 100, ps_Alive = True, ps_Deaf = False\<rparr>,
        \<lparr>ps_Addr = ''b:1'', ps_RTT = 40, ps_Alive = True, ps_Deaf = False\<rparr>]"
  have "fst (Choose \<lparr>pp_ProbeInterval = 5\<rparr> 30 ?st 0 10) = 1" by code_simp
  then show ?thesis using choose_policy [where p = "\<lparr>pp_ProbeInterval = 5\<rparr>" and now = 30 and stats = ?st
        and cur = 0 and since = 10] by simp
qed

text \<open>
  The endpoint follows the path: with a path on a host that one of the endpoints has, the first
  such endpoint is used; otherwise the first endpoint is, so a node that advertises endpoints
  always has one.
\<close>

theorem endpoint_follows_path:
  assumes "endpoints \<noteq> []" and "length hosts = length endpoints"
  shows "EndpointFor endpoints hosts pathAddr =
    (if \<exists>host port. SplitHostPort pathAddr = Some (host, port) \<and> host \<noteq> [] \<and> host \<in> set hosts
     then endpoints ! (LEAST i. hosts ! i = fst (the (SplitHostPort pathAddr)))
     else endpoints ! 0)"
proof -
  obtain e es where E: "endpoints = e # es" using assms(1) by (cases endpoints) auto
  show ?thesis
  proof (cases "\<exists>host port. SplitHostPort pathAddr = Some (host, port) \<and> host \<noteq> [] \<and> host \<in> set hosts")
    case True
    then obtain host port where h: "SplitHostPort pathAddr = Some (host, port)" "host \<noteq> []" "host \<in> set hosts"
      by blast
    define i where "i = (LEAST i. hosts ! i = host)"
    obtain k where k: "k < length hosts" "hosts ! k = host" using h(3) by (auto simp: in_set_conv_nth)
    have i: "hosts ! i = host" "i \<le> k" "\<forall>k < i. hosts ! k \<noteq> host"
      using LeastI [of "\<lambda>i. hosts ! i = host" k] Least_le [of "\<lambda>i. hosts ! i = host" k] k(2)
      by (auto simp: i_def dest: not_less_Least)
    then have "endpoint_scan endpoints hosts host = Some (endpoints ! i)"
      unfolding endpoint_scan_nth using k(1) assms(2) by (intro exI [of _ i]) auto
    then show ?thesis using True h E by (simp add: EndpointFor_def i_def)
  next
    case False
    have "endpoint_scan endpoints hosts host = None" if "host \<notin> set hosts" for host
      using that endpoint_scan_nth [of endpoints hosts host] by (metis not_None_eq nth_mem)
    then show ?thesis using False E by (auto simp: EndpointFor_def split: option.splits)
  qed
qed

theorem endpoint_follows_path_witness:
  "EndpointFor [''http://n1:8080'', ''http://10.0.0.7:8080''] [[], ''10.0.0.7''] ''10.0.0.8:4190'' = ''http://n1:8080''"
proof -
  have "SplitHostPort ''10.0.0.8:4190'' = Some (''10.0.0.8'', ''4190'')" by code_simp
  then show ?thesis
    using endpoint_follows_path [of "[''http://n1:8080'', ''http://10.0.0.7:8080'']" "[[], ''10.0.0.7'']"
        "''10.0.0.8:4190''"] by simp
qed

end
