(* ===== verification/Limiter.thy ===== *)
theory Limiter
  imports RateLimit Paths "HOL-Library.AList"
begin

text \<open>
  The per-client rate limiter (src/internal/app/ratelimit.go). The limiter's maps are association
  lists; a pointer to a client's allowance is a \<open>keyref\<close> (an entry of the map of clients, or the
  shared overflow allowance), and a pointer to a ticket is its index in the list of tickets
  issued. Each method runs under the limiter's mutex, so it is one step, and takes the time its
  clock shows as an argument. The hash of tokens (crypto/sha256) and the parsing and rendering of
  client addresses (net/netip) are arguments. Metrics and logs are not modelled; the state file is
  the list of allowances it holds.
\<close>

section \<open>Configuration and state\<close>

record LimitToken =
  lt_Name :: string
  lt_Token :: string
  lt_Plan :: string

record LimiterOptions =
  lo_Plans :: "(string \<times> Plan) list"
  lo_Tokens :: "LimitToken list"
  lo_AnonymousPlan :: string
  lo_Weights :: "CostWeights option"
  lo_SimulatePerSecond :: f64
  lo_Effort :: "EffortRates option"
  lo_IPv6Prefix :: int
  lo_MaxKeys :: int
  lo_StateFile :: string
  lo_Tick :: Duration
  lo_SaveEvery :: Duration

definition defaults :: "LimiterOptions \<Rightarrow> LimiterOptions" where
  "defaults o' =
     (let o1 = (if lo_Weights o' = None then o'\<lparr>lo_Weights := Some DefaultCostWeights\<rparr> else o');
          o2 = (if lo_Effort o1 = None then o1\<lparr>lo_Effort := Some DefaultEffortRates\<rparr> else o1);
          o3 = (if lo_IPv6Prefix o2 = 0 then o2\<lparr>lo_IPv6Prefix := 64\<rparr> else o2);
          o4 = (if lo_MaxKeys o3 = 0 then o3\<lparr>lo_MaxKeys := 200000\<rparr> else o3);
          o5 = (if lo_Tick o4 = 0 then o4\<lparr>lo_Tick := 250 * Millisecond\<rparr> else o4)
      in (if lo_SaveEvery o5 = 0 then o5\<lparr>lo_SaveEvery := 60 * Second\<rparr> else o5))"

record Identity =
  idn_Exempt :: bool
  idn_Key :: string
  idn_Plan :: string

datatype keyref = Key string | Overflow

record limitKey =
  lk_id :: string
  lk_plan :: Plan
  lk_minute :: Bucket
  lk_day :: Bucket
  lk_flights :: "nat list"

record Ticket =
  tk_key :: keyref
  tk_costKey :: string
  tk_base :: f64
  tk_metered :: bool
  tk_start :: Time
  tk_extra :: f64
  tk_frozen :: bool
  tk_effort :: Effort
  tk_reported :: bool
  tk_refunded :: bool
  tk_cancel :: bool
  tk_cancelled :: bool
  tk_done :: bool

record Limiter =
  lim_opts :: LimiterOptions
  lim_plans :: "(string \<times> Plan) list"
  lim_tokens :: "(8 word list \<times> LimitToken) list"
  lim_byName :: "(string \<times> LimitToken) list"
  lim_keys :: "(string \<times> limitKey) list"
  lim_active :: "keyref list"
  lim_overflow :: "limitKey option"
  lim_tickets :: "Ticket list"

definition NewLimiter :: "(string \<Rightarrow> 8 word list) \<Rightarrow> LimiterOptions \<Rightarrow> Limiter" where
  "NewLimiter sha o0 =
     (let o' = defaults o0 in
      \<lparr>lim_opts = o',
       lim_plans = fold (\<lambda>(name, p). AList.update name (p\<lparr>plan_Name := name\<rparr>)) (lo_Plans o') [],
       lim_tokens = fold (\<lambda>t. AList.update (sha (lt_Token t)) t) (lo_Tokens o') [],
       lim_byName = fold (\<lambda>t. AList.update (lt_Name t) t) (lo_Tokens o') [],
       lim_keys = [], lim_active = [], lim_overflow = None, lim_tickets = []\<rparr>)"

section \<open>Who a request is billed to\<close>

text \<open>
  clientKey: the walk over X-Forwarded-For from the right, behind trusted proxies only. The
  address type, its parser (parseAddr), the trusted prefixes and the rendering of the key are
  arguments.
\<close>

fun walk_hops :: "(string \<Rightarrow> 'a option) \<Rightarrow> ('a \<Rightarrow> bool) \<Rightarrow> 'a \<Rightarrow> string list \<Rightarrow> 'a" where
  "walk_hops parse trusted addr [] = addr"
| "walk_hops parse trusted addr (h # hs) =
     (case parse (TrimSpace h) of
        None \<Rightarrow> addr
      | Some hop \<Rightarrow> if \<not> trusted hop then hop else walk_hops parse trusted hop hs)"

definition clientKey ::
  "(string \<Rightarrow> 'a option) \<Rightarrow> ('a \<Rightarrow> bool) \<Rightarrow> ('a \<Rightarrow> string) \<Rightarrow> string \<Rightarrow> string list \<Rightarrow> string" where
  "clientKey parse trusted render remoteAddr forwardedFor =
     (case parse remoteAddr of
        None \<Rightarrow> remoteAddr
      | Some addr \<Rightarrow>
        render (if trusted addr
                then walk_hops parse trusted addr (rev (Split (Join forwardedFor '','') (CHR '','')))
                else addr))"

abbreviation loopbackAddr :: string where "loopbackAddr \<equiv> ''loopback''"

text \<open>Identify; the client's key is only computed for a request without a token.\<close>

definition Identify :: "Limiter \<Rightarrow> (string \<Rightarrow> 8 word list) \<Rightarrow> string \<Rightarrow> string \<Rightarrow> string \<Rightarrow> Identity option" where
  "Identify l sha remoteAddr ckey token =
     (if remoteAddr = loopbackAddr then Some \<lparr>idn_Exempt = True, idn_Key = [], idn_Plan = []\<rparr>
      else if token = [] then
        (if lo_AnonymousPlan (lim_opts l) = [] then None
         else Some \<lparr>idn_Exempt = False, idn_Key = ''ip:'' @ ckey, idn_Plan = lo_AnonymousPlan (lim_opts l)\<rparr>)
      else (case map_of (lim_tokens l) (sha token) of
              None \<Rightarrow> None
            | Some t \<Rightarrow> Some \<lparr>idn_Exempt = False, idn_Key = ''token:'' @ lt_Name t, idn_Plan = lt_Plan t\<rparr>))"

section \<open>One client's allowance\<close>

definition newLimitKey :: "string \<Rightarrow> Plan \<Rightarrow> limitKey" where
  "newLimitKey i plan = \<lparr>lk_id = i, lk_plan = plan, lk_minute = \<lparr>bk_Level = 0, bk_At = 0\<rparr>,
     lk_day = \<lparr>bk_Level = 0, bk_At = 0\<rparr>, lk_flights = []\<rparr>"

definition key_refill :: "Time \<Rightarrow> limitKey \<Rightarrow> limitKey" where
  "key_refill now k = k\<lparr>lk_minute := Refill (plan_Minute (lk_plan k)) (lk_minute k) now,
     lk_day := Refill (plan_Day (lk_plan k)) (lk_day k) now\<rparr>"

definition charge :: "f64 \<Rightarrow> limitKey \<Rightarrow> limitKey" where
  "charge c k = k\<lparr>lk_minute := spend_level_of (plan_Minute (lk_plan k)) (lk_minute k) c,
     lk_day := spend_level_of (plan_Day (lk_plan k)) (lk_day k) c\<rparr>"

definition owed :: "Ticket list \<Rightarrow> limitKey \<Rightarrow> f64" where
  "owed ts k = sum_list (map (\<lambda>t. tk_extra (ts ! t)) (lk_flights k))"

definition metering :: "Ticket list \<Rightarrow> limitKey \<Rightarrow> bool" where
  "metering ts k = list_ex (\<lambda>t. tk_metered (ts ! t)) (lk_flights k)"

definition shortfall :: "Ticket list \<Rightarrow> limitKey \<Rightarrow> f64 \<Rightarrow> Duration \<times> string" where
  "shortfall ts k cost =
     (if cost \<le> 0 then (0, [])
      else
        let owe = owed ts k;
            d1 = Wait (plan_Minute (lk_plan k)) (bk_Level (lk_minute k) - owe) cost;
            (wait, window) = (if d1 > 0 then (d1, ''minute'') else (0, []));
            d2 = Wait (plan_Day (lk_plan k)) (bk_Level (lk_day k) - owe) cost;
            (wait, window) = (if d2 > wait then (d2, ''day'') else (wait, window));
            wait = (if window \<noteq> [] \<and> wait < Second then Second else wait)
        in (wait, window))"

definition overdrawn :: "Ticket list \<Rightarrow> limitKey \<Rightarrow> bool" where
  "overdrawn ts k =
     (let owe = owed ts k in
      Limited (plan_Minute (lk_plan k)) \<and> bk_Level (lk_minute k) - owe < 0
      \<or> Limited (plan_Day (lk_plan k)) \<and> bk_Level (lk_day k) - owe < 0)"

definition ceilSeconds :: "Duration \<Rightarrow> int" where
  "ceilSeconds d = \<lceil>Seconds d\<rceil>"

text \<open>limitKey.header: RateLimit-Policy and RateLimit, for the limited windows.\<close>

definition window_policy :: "string \<Rightarrow> Window \<Rightarrow> string" where
  "window_policy name w = CHR 0x22 # name @ CHR 0x22 # '';q='' @ show_int \<lfloor>w_Capacity w\<rfloor>
     @ '';w='' @ show_int \<lfloor>Seconds (w_Period w)\<rfloor>"

definition window_state :: "string \<Rightarrow> Window \<Rightarrow> f64 \<Rightarrow> string" where
  "window_state name w left = CHR 0x22 # name @ CHR 0x22 # '';r='' @ show_int (max \<lfloor>left\<rfloor> 0)
     @ '';t='' @ show_int (ceilSeconds (UntilFull w left))"

definition key_header :: "Ticket list \<Rightarrow> limitKey \<Rightarrow> (string \<times> string) list" where
  "key_header ts k =
     (let owe = owed ts k;
          ws = filter (\<lambda>(_, w, _). Limited w)
            [(''minute'', plan_Minute (lk_plan k), lk_minute k), (''day'', plan_Day (lk_plan k), lk_day k)]
      in if ws = [] then []
         else [(''RateLimit-Policy'', Join (map (\<lambda>(n, w, b). window_policy n w) ws) '', ''),
               (''RateLimit'', Join (map (\<lambda>(n, w, b). window_state n w (bk_Level b - owe)) ws) '', '')])"

text \<open>credits: two decimals at most, rounded half away from zero.\<close>

definition round_half_away :: "f64 \<Rightarrow> int" where
  "round_half_away x = (if x < 0 then - \<lfloor>- x + 1 / 2\<rfloor> else \<lfloor>x + 1 / 2\<rfloor>)"

definition credits :: "f64 \<Rightarrow> string" where
  "credits v =
     (let n = round_half_away (v * 100); m = \<bar>n\<bar> in
      (if n < 0 then ''-'' else []) @ show_nat (nat (m div 100))
      @ (if m mod 100 = 0 then []
         else if m mod 10 = 0 then ''.'' @ show_nat (nat (m mod 100 div 10))
         else ''.'' @ show_nat (nat (m mod 100 div 10)) @ show_nat (nat (m mod 10))))"

definition perWindow :: "string \<Rightarrow> string" where
  "perWindow window = (if window = ''day'' then ''24-hour'' else ''per-minute'')"

section \<open>The limiter's operations\<close>

text \<open>Following a pointer to an allowance, and writing through it.\<close>

definition get_key :: "Limiter \<Rightarrow> keyref \<Rightarrow> limitKey option" where
  "get_key l r = (case r of Key i \<Rightarrow> map_of (lim_keys l) i | Overflow \<Rightarrow> lim_overflow l)"

definition put_key :: "keyref \<Rightarrow> limitKey \<Rightarrow> Limiter \<Rightarrow> Limiter" where
  "put_key r k l =
     (case r of Key i \<Rightarrow> l\<lparr>lim_keys := AList.update i k (lim_keys l)\<rparr>
      | Overflow \<Rightarrow> l\<lparr>lim_overflow := Some k\<rparr>)"

definition upd_key :: "keyref \<Rightarrow> (limitKey \<Rightarrow> limitKey) \<Rightarrow> Limiter \<Rightarrow> Limiter" where
  "upd_key r f l = (case get_key l r of None \<Rightarrow> l | Some k \<Rightarrow> put_key r (f k) l)"

definition upd_ticket :: "nat \<Rightarrow> (Ticket \<Rightarrow> Ticket) \<Rightarrow> Limiter \<Rightarrow> Limiter" where
  "upd_ticket t f l = l\<lparr>lim_tickets := (lim_tickets l)[t := f (lim_tickets l ! t)]\<rparr>"

definition weights :: "Limiter \<Rightarrow> CostWeights" where
  "weights l = (case lo_Weights (lim_opts l) of None \<Rightarrow> Map.empty | Some w \<Rightarrow> w)"

definition effort_rates :: "Limiter \<Rightarrow> EffortRates" where
  "effort_rates l = (case lo_Effort (lim_opts l) of None \<Rightarrow> DefaultEffortRates | Some r \<Rightarrow> r)"

text \<open>Limiter.key: find or make the client's allowance.\<close>

definition lim_key :: "Limiter \<Rightarrow> Identity \<Rightarrow> Plan \<Rightarrow> keyref \<times> Limiter" where
  "lim_key l i plan =
     (case map_of (lim_keys l) (idn_Key i) of
        Some _ \<Rightarrow> (Key (idn_Key i), l)
      | None \<Rightarrow>
        if HasPrefix (idn_Key i) ''ip:'' \<and> int (length (lim_keys l)) \<ge> lo_MaxKeys (lim_opts l) then
          (Overflow, if lim_overflow l = None
                     then l\<lparr>lim_overflow := Some (newLimitKey ''ip:overflow'' plan)\<rparr> else l)
        else (Key (idn_Key i), l\<lparr>lim_keys := AList.update (idn_Key i) (newLimitKey (idn_Key i) plan) (lim_keys l)\<rparr>))"

record Denial =
  dn_Status :: int
  dn_Message :: string
  dn_RetryAfter :: Duration
  dn_Header :: "(string \<times> string) list"

text \<open>The first of the plan's limited windows a cost can never fit.\<close>

definition beyond_plan :: "Plan \<Rightarrow> f64 \<Rightarrow> (string \<times> Window) option" where
  "beyond_plan plan cost =
     find (\<lambda>(_, w). Limited w \<and> cost > w_Capacity w) [(''minute'', plan_Minute plan), (''day'', plan_Day plan)]"

definition zero_simcaps :: SimulateCaps where
  "zero_simcaps = \<lparr>sc_MaxGroups = 0, sc_MaxRounds = 0, sc_MaxExtraOpcodeBudget = 0,
     sc_DenyUnnamedResources = False, sc_DenyExecTrace = False\<rparr>"

text \<open>Why the plan never allows a simulate request, empty when it may; and a body that was not read.\<close>

definition simulate_refusal :: "Plan \<Rightarrow> RequestClass \<Rightarrow> string" where
  "simulate_refusal plan c =
     (case rc_SimNeeds c of Some n \<Rightarrow> if rc_Simulate c then Check (plan_Simulate plan) n else []
      | None \<Rightarrow> [])"

definition simulate_unreadable :: "Plan \<Rightarrow> RequestClass \<Rightarrow> bool" where
  "simulate_unreadable plan c = (rc_Simulate c \<and> rc_SimNeeds c = None \<and> plan_Simulate plan \<noteq> zero_simcaps)"

text \<open>The ticket of an admitted request.\<close>

definition new_ticket :: "keyref \<Rightarrow> string \<Rightarrow> f64 \<Rightarrow> bool \<Rightarrow> Time \<Rightarrow> Ticket" where
  "new_ticket r costKey cost metered now =
     \<lparr>tk_key = r, tk_costKey = costKey, tk_base = cost, tk_metered = metered, tk_start = now, tk_extra = 0,
      tk_frozen = False, tk_effort = zero_effort, tk_reported = False, tk_refunded = False,
      tk_cancel = False, tk_cancelled = False, tk_done = False\<rparr>"

text \<open>The part of Admit under the mutex, on the client's allowance r, found and refilled.\<close>

definition admit_key ::
  "Limiter \<Rightarrow> keyref \<Rightarrow> Time \<Rightarrow> bool \<Rightarrow> RequestClass \<Rightarrow> string \<Rightarrow> f64 \<Rightarrow> (Denial + nat) \<times> Limiter" where
  "admit_key l r now unreadable c costKey cost =
     (let k = the (get_key l r);
          (wait, window) = shortfall (lim_tickets l) k cost
      in if window \<noteq> [] then
           (Inl \<lparr>dn_Status = 429, dn_Message = ''algod-mesh: rate limit exceeded: this plan's ''
              @ perWindow window @ '' allowance is used up'', dn_RetryAfter = wait,
              dn_Header = key_header (lim_tickets l) k\<rparr>, l)
         else
           let l1 = upd_key r (charge cost) l in
           if unreadable then
             (Inl \<lparr>dn_Status = 400, dn_Message = ''algod-mesh: cannot read the simulate request'',
                dn_RetryAfter = 0, dn_Header = key_header (lim_tickets l1) (the (get_key l1 r))\<rparr>, l1)
           else
             let t = length (lim_tickets l1);
                 tk = new_ticket r costKey cost (rc_Simulate c) now;
                 l2 = upd_key r (\<lambda>k. k\<lparr>lk_flights := List.insert t (lk_flights k)\<rparr>)
                        (l1\<lparr>lim_tickets := lim_tickets l1 @ [tk]\<rparr>)
             in (Inr t, if tk_metered tk then l2\<lparr>lim_active := List.insert r (lim_active l2)\<rparr> else l2))"

text \<open>Admit with the plan the identity names: a denial, or the new ticket.\<close>

definition admit_plan ::
  "Limiter \<Rightarrow> Time \<Rightarrow> Plan \<Rightarrow> Identity \<Rightarrow> RequestClass \<Rightarrow> u64 \<Rightarrow> (Denial + nat) \<times> Limiter" where
  "admit_plan l now plan i c best =
     (if simulate_refusal plan c \<noteq> [] then
        (Inl \<lparr>dn_Status = 403, dn_Message = ''algod-mesh: '' @ simulate_refusal plan c,
           dn_RetryAfter = 0, dn_Header = []\<rparr>, l)
      else
        let cost = Base (weights l) c best in
        case beyond_plan plan cost of
          Some (name, w) \<Rightarrow>
            (Inl \<lparr>dn_Status = 403, dn_Message = ''algod-mesh: this request costs '' @ credits cost
               @ '' credits, more than this plan allows per '' @ name @ '' ('' @ credits (w_Capacity w) @ '')'',
               dn_RetryAfter = 0, dn_Header = []\<rparr>, l)
        | None \<Rightarrow>
            (case lim_key l i plan of (r, l1) \<Rightarrow>
               admit_key (upd_key r (key_refill now) l1) r now (simulate_unreadable plan c) c (CostKey c best) cost))"

text \<open>Admit; None stands for the nil dereference on a plan that is not configured.\<close>

definition Admit ::
  "Limiter \<Rightarrow> Time \<Rightarrow> Identity \<Rightarrow> RequestClass \<Rightarrow> u64 \<Rightarrow> ((Denial + nat) \<times> Limiter) option" where
  "Admit l now i c best =
     (case map_of (lim_plans l) (idn_Plan i) of None \<Rightarrow> None
      | Some plan \<Rightarrow> Some (admit_plan l now plan i c best))"

definition Reported :: "nat \<Rightarrow> Effort \<Rightarrow> Limiter \<Rightarrow> Limiter" where
  "Reported t e l = upd_ticket t (\<lambda>tk. tk\<lparr>tk_effort := Add (tk_effort tk) e, tk_reported := True\<rparr>) l"

definition meter :: "Limiter \<Rightarrow> Time \<Rightarrow> Ticket \<Rightarrow> f64" where
  "meter l now tk = max (Seconds (time_Sub now (tk_start tk))) 0 * lo_SimulatePerSecond (lim_opts l)"

definition settle :: "Limiter \<Rightarrow> Time \<Rightarrow> Ticket \<Rightarrow> Ticket" where
  "settle l now tk =
     (if tk_frozen tk then tk
      else if tk_reported tk then tk\<lparr>tk_extra := Credits (effort_rates l) (tk_effort tk)\<rparr>
      else if tk_metered tk then tk\<lparr>tk_extra := meter l now tk\<rparr>
      else tk)"

definition Track :: "nat \<Rightarrow> Limiter \<Rightarrow> Limiter" where
  "Track t l = upd_ticket t (\<lambda>tk. tk\<lparr>tk_cancel := True\<rparr>) l"

definition refund :: "nat \<Rightarrow> Limiter \<Rightarrow> Limiter" where
  "refund t l =
     (let tk = lim_tickets l ! t;
          floor' = weight_of (weights l) ''default'';
          back = tk_base tk - floor';
          l1 = (if back > 0
                then upd_ticket t (\<lambda>tk. tk\<lparr>tk_base := floor'\<rparr>) (upd_key (tk_key tk) (charge (- back)) l)
                else l)
      in upd_ticket t (\<lambda>tk. tk\<lparr>tk_extra := 0, tk_frozen := True, tk_refunded := True\<rparr>) l1)"

text \<open>
  Responding; \<open>retryAfter\<close> is the Retry-After header of the response. The result is what is added
  to the response's headers.
\<close>

definition Responding :: "Limiter \<Rightarrow> Time \<Rightarrow> nat \<Rightarrow> int \<Rightarrow> string \<Rightarrow> (string \<times> string) list \<times> Limiter" where
  "Responding l now t status retryAfter =
     (let tk = lim_tickets l ! t;
          l1 = (if status = 503 \<and> retryAfter \<noteq> [] \<and> \<not> tk_reported tk \<and> \<not> tk_refunded tk
                then refund t l else l);
          l2 = upd_ticket t (\<lambda>tk. (settle l1 now tk)\<lparr>tk_frozen := True\<rparr>) l1;
          l3 = upd_key (tk_key tk) (key_refill now) l2;
          tk' = lim_tickets l3 ! t
      in (key_header (lim_tickets l3) (the (get_key l3 (tk_key tk)))
          @ [(''X-Algod-Mesh-Cost'', credits (tk_base tk' + tk_extra tk'))], l3))"

definition Done :: "nat \<Rightarrow> Time \<Rightarrow> Limiter \<Rightarrow> Limiter" where
  "Done t now l =
     (let tk = lim_tickets l ! t in
      if tk_done tk then l
      else
        let l1 = upd_ticket t (\<lambda>tk. settle l now (tk\<lparr>tk_done := True\<rparr>)) l;
            l2 = upd_key (tk_key tk) (\<lambda>k. k\<lparr>lk_flights := removeAll t (lk_flights k)\<rparr>) l1;
            l3 = (if \<not> metering (lim_tickets l2) (the (get_key l2 (tk_key tk)))
                  then l2\<lparr>lim_active := removeAll (tk_key tk) (lim_active l2)\<rparr> else l2)
        in upd_key (tk_key tk) (charge (tk_extra (lim_tickets l3 ! t))) l3)"

definition Exhausted :: "Limiter \<Rightarrow> Time \<Rightarrow> nat \<Rightarrow> Denial \<times> Limiter" where
  "Exhausted l now t =
     (let tk = lim_tickets l ! t;
          l1 = upd_key (tk_key tk) (key_refill now) l;
          k = the (get_key l1 (tk_key tk));
          wait = fst (shortfall (lim_tickets l1) k (tk_base tk))
      in (\<lparr>dn_Status = 429, dn_Message = ''algod-mesh: rate limit exceeded: the allowance ran out during the simulation'',
           dn_RetryAfter = max wait Second, dn_Header = key_header (lim_tickets l1) k\<rparr>, l1))"

text \<open>tick, for one key with a metered request in flight, then for all of them.\<close>

definition tick_key :: "Time \<Rightarrow> keyref \<Rightarrow> Limiter \<Rightarrow> Limiter" where
  "tick_key now r l =
     (case get_key l r of None \<Rightarrow> l
      | Some k \<Rightarrow>
        let l1 = fold (\<lambda>t l. if tk_metered (lim_tickets l ! t) \<and> \<not> tk_frozen (lim_tickets l ! t)
                            then upd_ticket t (\<lambda>tk. tk\<lparr>tk_extra := meter l now tk\<rparr>) l else l)
                      (lk_flights k) l;
            l2 = upd_key r (key_refill now) l1
        in if \<not> overdrawn (lim_tickets l2) (the (get_key l2 r)) then l2
           else fold (\<lambda>t l. if tk_frozen (lim_tickets l ! t) \<or> \<not> tk_cancel (lim_tickets l ! t) then l
                          else upd_ticket t (\<lambda>tk. tk\<lparr>tk_frozen := True, tk_cancelled := True\<rparr>) l)
                     (lk_flights k) l2)"

definition tick :: "Time \<Rightarrow> Limiter \<Rightarrow> Limiter" where
  "tick now l = fold (tick_key now) (lim_active l) l"

definition key_full :: "limitKey \<Rightarrow> bool" where
  "key_full k = (Full (plan_Minute (lk_plan k)) (lk_minute k) \<and> Full (plan_Day (lk_plan k)) (lk_day k))"

text \<open>One client in the sweep: kept as it is in flight, else refilled and kept unless full.\<close>

definition sweep_key :: "Time \<Rightarrow> string \<times> limitKey \<Rightarrow> (string \<times> limitKey) option" where
  "sweep_key now e =
     (case e of (i, k) \<Rightarrow>
        if length (lk_flights k) > 0 then Some (i, k)
        else let k' = key_refill now k in if key_full k' then None else Some (i, k'))"

definition sweep :: "Time \<Rightarrow> Limiter \<Rightarrow> Limiter" where
  "sweep now l =
     (let l1 = l\<lparr>lim_keys := List.map_filter (sweep_key now) (lim_keys l)\<rparr> in
      case lim_overflow l1 of None \<Rightarrow> l1
      | Some k \<Rightarrow>
        if length (lk_flights k) = 0 \<and> int (length (lim_keys l1)) < lo_MaxKeys (lim_opts l1) then
          (let k' = key_refill now k in l1\<lparr>lim_overflow := if key_full k' then None else Some k'\<rparr>)
        else l1)"

record limiterBucket =
  lb_Minute :: Bucket
  lb_Day :: Bucket

text \<open>The keys of the state file, and the refilled limiter; nothing without a state file.\<close>

definition saved_bucket :: "Ticket list \<Rightarrow> limitKey \<Rightarrow> limiterBucket option" where
  "saved_bucket ts k =
     (let owe = owed ts k;
          m = spend_level_of (plan_Minute (lk_plan k)) (lk_minute k) owe;
          d = spend_level_of (plan_Day (lk_plan k)) (lk_day k) owe
      in if \<not> Full (plan_Minute (lk_plan k)) m \<or> \<not> Full (plan_Day (lk_plan k)) d
         then Some \<lparr>lb_Minute = m, lb_Day = d\<rparr> else None)"

definition save :: "Time \<Rightarrow> Limiter \<Rightarrow> (string \<times> limiterBucket) list option \<times> Limiter" where
  "save now l =
     (if lo_StateFile (lim_opts l) = [] then (None, l)
      else
        let ks = map (\<lambda>(i, k). (i, key_refill now k)) (lim_keys l)
        in (Some (List.map_filter (\<lambda>(i, k). map_option (Pair i) (saved_bucket (lim_tickets l) k)) ks),
            l\<lparr>lim_keys := ks\<rparr>))"

definition planOf :: "Limiter \<Rightarrow> string \<Rightarrow> Plan option" where
  "planOf l i =
     (if HasPrefix i ''token:'' then
        (case map_of (lim_byName l) (TrimPrefix i ''token:'') of
           Some t \<Rightarrow> map_of (lim_plans l) (lt_Plan t) | None \<Rightarrow> None)
      else if HasPrefix i ''ip:'' \<and> i \<noteq> ''ip:overflow''
      then map_of (lim_plans l) (lo_AnonymousPlan (lim_opts l))
      else None)"

definition load_key :: "Time \<Rightarrow> string \<times> limiterBucket \<Rightarrow> Limiter \<Rightarrow> Limiter" where
  "load_key now e l =
     (case e of (i, b) \<Rightarrow>
        (case planOf l i of None \<Rightarrow> l
         | Some plan \<Rightarrow>
           let saved = key_refill now ((newLimitKey [] plan)\<lparr>lk_minute := lb_Minute b, lk_day := lb_Day b\<rparr>) in
           (case map_of (lim_keys l) i of
              Some k \<Rightarrow>
                let k' = key_refill now k
                in put_key (Key i) (k'\<lparr>
                     lk_minute := (lk_minute k')\<lparr>bk_Level := min (bk_Level (lk_minute k')) (bk_Level (lk_minute saved))\<rparr>,
                     lk_day := (lk_day k')\<lparr>bk_Level := min (bk_Level (lk_day k')) (bk_Level (lk_day saved))\<rparr>\<rparr>) l
            | None \<Rightarrow>
                put_key (Key i) ((newLimitKey i plan)\<lparr>lk_minute := lk_minute saved, lk_day := lk_day saved\<rparr>) l)))"

definition load :: "Time \<Rightarrow> (string \<times> limiterBucket) list \<Rightarrow> Limiter \<Rightarrow> Limiter" where
  "load now st l = (if lo_StateFile (lim_opts l) = [] then l else fold (load_key now) st l)"

section \<open>Lemmas\<close>

lemma get_put_key [simp]: "get_key (put_key r k l) r' = (if r' = r then Some k else get_key l r')"
  by (cases r; cases r') (auto simp: get_key_def put_key_def update_conv)

lemma put_key_frame [simp]:
  "lim_tickets (put_key r k l) = lim_tickets l" "lim_opts (put_key r k l) = lim_opts l"
  "lim_active (put_key r k l) = lim_active l" "lim_plans (put_key r k l) = lim_plans l"
  by (simp_all add: put_key_def split: keyref.splits)

lemma get_upd_key [simp]:
  "get_key (upd_key r f l) r' = (if r' = r then map_option f (get_key l r) else get_key l r')"
  by (simp add: upd_key_def split: option.splits)

lemma upd_key_frame [simp]:
  "lim_tickets (upd_key r f l) = lim_tickets l" "lim_opts (upd_key r f l) = lim_opts l"
  "lim_active (upd_key r f l) = lim_active l" "lim_plans (upd_key r f l) = lim_plans l"
  by (simp_all add: upd_key_def split: option.splits)

lemma upd_ticket_frame [simp]:
  "get_key (upd_ticket t f l) r = get_key l r" "lim_opts (upd_ticket t f l) = lim_opts l"
  "lim_tickets (upd_ticket t f l) = (lim_tickets l)[t := f (lim_tickets l ! t)]"
  by (simp_all add: upd_ticket_def get_key_def split: keyref.splits)

lemma get_key_more [simp]:
  "get_key (l\<lparr>lim_tickets := ts\<rparr>) r = get_key l r" "get_key (l\<lparr>lim_active := a\<rparr>) r = get_key l r"
  by (simp_all add: get_key_def split: keyref.splits)

lemma key_fields [simp]:
  "lk_plan (key_refill now k) = lk_plan k" "lk_flights (key_refill now k) = lk_flights k"
  "lk_plan (charge c k) = lk_plan k" "lk_flights (charge c k) = lk_flights k"
  by (simp_all add: key_refill_def charge_def)

lemma owed_key [simp]: "owed ts (key_refill now k) = owed ts k" "owed ts (charge c k) = owed ts k"
  by (simp_all add: owed_def)

end
