(* ===== verification/LimiterRate.thy ===== *)
theory LimiterRate
  imports Limiter
begin

text \<open>
  The rate limit itself: along any interleaving of the limiter's operations, what is charged to one
  client stays within its allowance. The operations are the steps of a relation that also says what
  each step charges the client; the proof follows the client's credit, the interface of theory
  RateLimit, in each of the two windows of its plan.
\<close>

section \<open>Definitions\<close>

definition window_of :: "bool \<Rightarrow> Plan \<Rightarrow> Window" where
  "window_of day p = (if day then plan_Day p else plan_Minute p)"

definition bucket_of :: "bool \<Rightarrow> limitKey \<Rightarrow> Bucket" where
  "bucket_of day k = (if day then lk_day k else lk_minute k)"

text \<open>What an admission charges the client: its cost, also when the body cannot be read (400).\<close>

definition admit_charges :: "Limiter \<Rightarrow> Time \<Rightarrow> Plan \<Rightarrow> Identity \<Rightarrow> RequestClass \<Rightarrow> u64 \<Rightarrow> string \<Rightarrow> f64" where
  "admit_charges l now plan idn c best i =
     (if fst (lim_key l idn plan) = Key i
         \<and> (case fst (admit_plan l now plan idn c best) of Inr _ \<Rightarrow> True | Inl d \<Rightarrow> dn_Status d = 400)
      then Base (weights l) c best else 0)"

text \<open>What a busy answer gives back.\<close>

definition refunded_amount :: "Limiter \<Rightarrow> nat \<Rightarrow> int \<Rightarrow> string \<Rightarrow> f64" where
  "refunded_amount l t status retryAfter =
     (let tk = lim_tickets l ! t in
      if status = 503 \<and> retryAfter \<noteq> [] \<and> \<not> tk_reported tk \<and> \<not> tk_refunded tk
      then max 0 (tk_base tk - weight_of (weights l) ''default'') else 0)"

text \<open>
  One operation of the limiter at a time, with what it charges the client i of plan p. Tickets are
  used only until they are done, as the router uses them.
\<close>

inductive lim_step :: "string \<Rightarrow> Plan \<Rightarrow> Limiter \<Rightarrow> Time \<Rightarrow> f64 \<Rightarrow> Limiter \<Rightarrow> bool" for i p where
  admit: "Admit l now idn c best = Some (res, l') \<Longrightarrow> map_of (lim_plans l) (idn_Plan idn) = Some q
    \<Longrightarrow> (idn_Key idn = i \<longrightarrow> q = p) \<Longrightarrow> lim_step i p l now (admit_charges l now q idn c best i) l'"
| responding: "t < length (lim_tickets l) \<Longrightarrow> \<not> tk_done (lim_tickets l ! t)
    \<Longrightarrow> lim_step i p l now (if tk_key (lim_tickets l ! t) = Key i then - refunded_amount l t status ra else 0)
          (snd (Responding l now t status ra))"
| exhausted: "t < length (lim_tickets l) \<Longrightarrow> \<not> tk_done (lim_tickets l ! t)
    \<Longrightarrow> lim_step i p l now 0 (snd (Exhausted l now t))"
| reported: "lim_step i p l now 0 (Reported t e l)"
| track: "lim_step i p l now 0 (Track t l)"
| finish: "t < length (lim_tickets l) \<Longrightarrow> \<not> tk_done (lim_tickets l ! t)
    \<Longrightarrow> lim_step i p l now (if tk_key (lim_tickets l ! t) = Key i
          then tk_extra (settle l now (lim_tickets l ! t)) else 0) (Done t now l)"
| tick: "lim_step i p l now 0 (tick now l)"
| sweep: "lim_step i p l now 0 (sweep now l)"
| save: "lim_step i p l now 0 (snd (save now l))"

text \<open>A run: operations at times that do not go back, with the total charged.\<close>

inductive lim_run :: "string \<Rightarrow> Plan \<Rightarrow> Limiter \<Rightarrow> Time \<Rightarrow> f64 \<Rightarrow> Limiter \<Rightarrow> Time \<Rightarrow> bool" for i p l0 t0 where
  start: "lim_run i p l0 t0 0 l0 t0"
| more: "lim_run i p l0 t0 tot l t \<Longrightarrow> t \<le> now \<Longrightarrow> lim_step i p l now x l'
    \<Longrightarrow> lim_run i p l0 t0 (tot + x) l' now"

text \<open>
  What the limiter keeps of the client: its plan, stamps that are not in the future, and that a
  ticket not done is among the flights of its allowance, which is therefore still tracked.
\<close>

definition ticket_states :: "Limiter \<Rightarrow> (keyref \<times> bool) list" where
  "ticket_states l = map (\<lambda>tk. (tk_key tk, tk_done tk)) (lim_tickets l)"

definition flights_ok :: "string \<Rightarrow> Limiter \<Rightarrow> bool" where
  "flights_ok i l = (\<forall>t < length (ticket_states l). ticket_states l ! t = (Key i, False)
     \<longrightarrow> (case get_key l (Key i) of None \<Rightarrow> False | Some k \<Rightarrow> t \<in> set (lk_flights k)))"

definition client_ok :: "string \<Rightarrow> Plan \<Rightarrow> Time \<Rightarrow> Limiter \<Rightarrow> bool" where
  "client_ok i p now l =
     (distinct (map fst (lim_keys l)) \<and> flights_ok i l \<and>
      (case get_key l (Key i) of None \<Rightarrow> True
       | Some k \<Rightarrow> lk_plan k = p \<and> (\<forall>day. 0 < bk_At (bucket_of day k) \<and> bk_At (bucket_of day k) \<le> now)))"

text \<open>The client's credit in a window; a client not tracked has the whole allowance.\<close>

definition client_credit :: "bool \<Rightarrow> Plan \<Rightarrow> string \<Rightarrow> Limiter \<Rightarrow> Time \<Rightarrow> f64" where
  "client_credit day p i l t =
     (case get_key l (Key i) of None \<Rightarrow> w_Capacity (window_of day p)
      | Some k \<Rightarrow> win.credit (window_of day p) (bucket_of day k) t)"

text \<open>The states an admission goes through: the allowance found, charged, the ticket issued.\<close>

definition found :: "Limiter \<Rightarrow> Time \<Rightarrow> Plan \<Rightarrow> Identity \<Rightarrow> Limiter" where
  "found l now q idn = upd_key (fst (lim_key l idn q)) (key_refill now) (snd (lim_key l idn q))"

definition charged :: "Limiter \<Rightarrow> Time \<Rightarrow> Plan \<Rightarrow> Identity \<Rightarrow> f64 \<Rightarrow> Limiter" where
  "charged l now q idn cost = upd_key (fst (lim_key l idn q)) (charge cost) (found l now q idn)"

definition issued :: "Limiter \<Rightarrow> keyref \<Rightarrow> Ticket \<Rightarrow> Limiter" where
  "issued l r tk = upd_key r (\<lambda>k. k\<lparr>lk_flights := List.insert (length (lim_tickets l)) (lk_flights k)\<rparr>)
     (l\<lparr>lim_tickets := lim_tickets l @ [tk]\<rparr>)"

text \<open>The client is not tracked, or its bucket was brought up to date at t.\<close>

definition up_to_date :: "bool \<Rightarrow> Plan \<Rightarrow> string \<Rightarrow> Limiter \<Rightarrow> Time \<Rightarrow> bool" where
  "up_to_date day p i l t =
     (case get_key l (Key i) of None \<Rightarrow> True
      | Some k \<Rightarrow> bk_At (bucket_of day k) = t \<and> bk_Level (bucket_of day k) \<le> w_Capacity (window_of day p))"

text \<open>A limiter with one plan, to try the theorems on: 10 credits a minute, no daily limit.\<close>

definition sample_plan :: Plan where
  "sample_plan = \<lparr>plan_Name = ''free'', plan_Minute = \<lparr>w_Capacity = 10, w_Period = 60 * Second\<rparr>,
     plan_Day = \<lparr>w_Capacity = 0, w_Period = 0\<rparr>, plan_Simulate = zero_simcaps\<rparr>"

definition sample_limiter :: Limiter where
  "sample_limiter = NewLimiter (\<lambda>_. []) \<lparr>lo_Plans = [(''free'', sample_plan)], lo_Tokens = [],
     lo_AnonymousPlan = ''free'', lo_Weights = None, lo_SimulatePerSecond = 20, lo_Effort = None,
     lo_IPv6Prefix = 0, lo_MaxKeys = 0, lo_StateFile = [], lo_Tick = 0, lo_SaveEvery = 0\<rparr>"

definition sample_client :: Identity where
  "sample_client = \<lparr>idn_Exempt = False, idn_Key = ''ip:192.0.2.7'', idn_Plan = ''free''\<rparr>"

text \<open>
  Every operation does to the client's allowance one of a few things: nothing, a refill, a charge,
  the two combined, or the removal of a full allowance. A step is sound when the credit loses what
  is charged and the client stays in order.
\<close>

definition sound_step :: "string \<Rightarrow> Plan \<Rightarrow> Time \<Rightarrow> f64 \<Rightarrow> Limiter \<Rightarrow> Limiter \<Rightarrow> bool" where
  "sound_step i p now x l l' = (client_ok i p now l \<longrightarrow> client_ok i p now l'
     \<and> (\<forall>day. Limited (window_of day p) \<longrightarrow> client_credit day p i l' now \<le> client_credit day p i l now - x))"

section \<open>Lemmas\<close>

lemma bucket_of_refill: "bucket_of day (key_refill now k) = Refill (window_of day (lk_plan k)) (bucket_of day k) now"
  by (simp add: bucket_of_def window_of_def key_refill_def)

lemma bucket_of_charge: "bucket_of day (charge x k) = spend_level_of (window_of day (lk_plan k)) (bucket_of day k) x"
  by (simp add: bucket_of_def window_of_def charge_def)

lemma bucket_of_flights [simp]: "bucket_of day (k\<lparr>lk_flights := fs\<rparr>) = bucket_of day k"
  by (simp add: bucket_of_def)

lemma sound_stepI:
  assumes "client_ok i p now l \<Longrightarrow> client_ok i p now l'"
    and "\<And>day. client_ok i p now l \<Longrightarrow> Limited (window_of day p) \<Longrightarrow>
      client_credit day p i l' now \<le> client_credit day p i l now - x"
  shows "sound_step i p now x l l'"
  using assms by (auto simp: sound_step_def)

lemma sound_step_trans:
  assumes "sound_step i p now x l l1" "sound_step i p now y l1 l2"
  shows "sound_step i p now (x + y) l l2"
proof (rule sound_stepI)
  assume ok: "client_ok i p now l"
  then show "client_ok i p now l2" using assms by (simp add: sound_step_def)
  fix day assume "Limited (window_of day p)"
  then have "client_credit day p i l1 now \<le> client_credit day p i l now - x"
    "client_credit day p i l2 now \<le> client_credit day p i l1 now - y"
    using assms ok by (simp_all add: sound_step_def)
  then show "client_credit day p i l2 now \<le> client_credit day p i l now - (x + y)" by linarith
qed

text \<open>Operations that leave the client's allowance and the tickets' states alone.\<close>

lemma sound_same:
  assumes "get_key l' (Key i) = get_key l (Key i)" "ticket_states l' = ticket_states l"
    and "distinct (map fst (lim_keys l)) \<Longrightarrow> distinct (map fst (lim_keys l'))"
  shows "sound_step i p now 0 l l'"
  using assms by (auto simp: sound_step_def client_ok_def client_credit_def flights_ok_def)

lemma ticket_states_put [simp]:
  "ticket_states (put_key r k l) = ticket_states l" "ticket_states (upd_key r f l) = ticket_states l"
  "ticket_states (l\<lparr>lim_active := a\<rparr>) = ticket_states l"
  by (simp_all add: ticket_states_def)

lemma distinct_put_key [simp]:
  "distinct (map fst (lim_keys l)) \<Longrightarrow> distinct (map fst (lim_keys (put_key r k l)))"
  by (simp add: put_key_def distinct_update split: keyref.splits)

lemma distinct_upd_key [simp]:
  "distinct (map fst (lim_keys l)) \<Longrightarrow> distinct (map fst (lim_keys (upd_key r f l)))"
  by (simp add: upd_key_def split: option.splits)

text \<open>A change of one allowance that keeps its plan and flights.\<close>

lemma sound_upd:
  assumes "\<And>k. lk_plan (f k) = lk_plan k" "\<And>k. set (lk_flights k) - T \<subseteq> set (lk_flights (f k))"
    and "\<And>t. t \<in> T \<Longrightarrow> t < length (lim_tickets l) \<Longrightarrow> tk_done (lim_tickets l ! t)"
    and "\<And>k day. r = Key i \<Longrightarrow> get_key l (Key i) = Some k \<Longrightarrow> lk_plan k = p \<Longrightarrow>
       0 < bk_At (bucket_of day k) \<Longrightarrow> bk_At (bucket_of day k) \<le> now \<Longrightarrow>
       0 < bk_At (bucket_of day (f k)) \<and> bk_At (bucket_of day (f k)) \<le> now
       \<and> (Limited (window_of day p) \<longrightarrow>
           win.credit (window_of day p) (bucket_of day (f k)) now \<le> win.credit (window_of day p) (bucket_of day k) now - x)"
    and "r \<noteq> Key i \<Longrightarrow> x = 0" and "r = Key i \<Longrightarrow> get_key l (Key i) = None \<Longrightarrow> x = 0"
  shows "sound_step i p now x l (upd_key r f l)"
proof (cases "r = Key i \<and> get_key l (Key i) \<noteq> None")
  case True
  then obtain k where k: "r = Key i" "get_key l (Key i) = Some k" by auto
  show ?thesis
  proof (rule sound_stepI)
    assume ok: "client_ok i p now l"
    then have pk: "lk_plan k = p" "\<And>day. 0 < bk_At (bucket_of day k) \<and> bk_At (bucket_of day k) \<le> now"
      using k by (auto simp: client_ok_def)
    have "flights_ok i (upd_key r f l)"
      unfolding flights_ok_def
    proof (intro allI impI)
      fix t assume t: "t < length (ticket_states (upd_key r f l))" "ticket_states (upd_key r f l) ! t = (Key i, False)"
      then have "t \<in> set (lk_flights k)" using ok k by (auto simp: client_ok_def flights_ok_def)
      moreover have "t \<notin> T" using t assms(3) by (auto simp: ticket_states_def)
      ultimately show "case get_key (upd_key r f l) (Key i) of None \<Rightarrow> False | Some k \<Rightarrow> t \<in> set (lk_flights k)"
        using k assms(2) by auto
    qed
    then show "client_ok i p now (upd_key r f l)"
      using ok k pk assms(1) assms(4) [OF k pk(1)] by (auto simp: client_ok_def)
    fix day assume "Limited (window_of day p)"
    then show "client_credit day p i (upd_key r f l) now \<le> client_credit day p i l now - x"
      using k assms(4) [OF k pk(1)] pk(2) by (simp add: client_credit_def)
  qed
next
  case False
  then have "x = 0" using assms(5,6) by blast
  then show ?thesis using False by (auto intro!: sound_same)
qed

lemma sound_refill:
  assumes "0 < now"
  shows "sound_step i p now 0 l (upd_key r (key_refill now) l)"
proof (rule sound_upd [where T = "{}"])
  fix k day
  assume "lk_plan k = p" "0 < bk_At (bucket_of day k)" "bk_At (bucket_of day k) \<le> now"
  then show "0 < bk_At (bucket_of day (key_refill now k)) \<and> bk_At (bucket_of day (key_refill now k)) \<le> now
       \<and> (Limited (window_of day p) \<longrightarrow>
           win.credit (window_of day p) (bucket_of day (key_refill now k)) now
             \<le> win.credit (window_of day p) (bucket_of day k) now - 0)"
    using assms by (simp add: bucket_of_refill Refill_At win.credit_top_up)
qed simp_all

lemma sound_charge:
  assumes "r \<noteq> Key i \<Longrightarrow> y = 0" "r = Key i \<Longrightarrow> y = x" "r = Key i \<Longrightarrow> get_key l (Key i) \<noteq> None"
  shows "sound_step i p now y l (upd_key r (charge x) l)"
proof (rule sound_upd [where T = "{}"])
  fix k day
  assume "r = Key i" "lk_plan k = p" "0 < bk_At (bucket_of day k)" "bk_At (bucket_of day k) \<le> now"
  then show "0 < bk_At (bucket_of day (charge x k)) \<and> bk_At (bucket_of day (charge x k)) \<le> now
       \<and> (Limited (window_of day p) \<longrightarrow>
           win.credit (window_of day p) (bucket_of day (charge x k)) now
             \<le> win.credit (window_of day p) (bucket_of day k) now - y)"
    using assms by (simp add: bucket_of_charge win.credit_spend win.spend_stamp)
qed (use assms in auto)

text \<open>Finding or making the client's allowance, and refilling it.\<close>

lemma lim_key_frame [simp]:
  "lim_tickets (snd (lim_key l idn q)) = lim_tickets l" "lim_plans (snd (lim_key l idn q)) = lim_plans l"
  "lim_opts (snd (lim_key l idn q)) = lim_opts l"
  "ticket_states (snd (lim_key l idn q)) = ticket_states l"
  by (simp_all add: lim_key_def ticket_states_def split: option.splits)

lemma lim_key_get:
  "get_key (snd (lim_key l idn q)) (fst (lim_key l idn q)) \<noteq> None"
  by (auto simp: lim_key_def get_key_def update_conv split: option.splits)

lemma get_key_overflow [simp]: "get_key (l\<lparr>lim_overflow := x\<rparr>) (Key i) = get_key l (Key i)"
  by (simp add: get_key_def)

lemma get_key_update:
  "get_key (l\<lparr>lim_keys := AList.update j k (lim_keys l)\<rparr>) (Key i) = (if i = j then Some k else get_key l (Key i))"
  by (simp add: get_key_def update_conv)

lemma lim_key_client:
  "get_key (snd (lim_key l idn q)) (Key i) = get_key l (Key i)
   \<or> fst (lim_key l idn q) = Key i \<and> i = idn_Key idn \<and> get_key l (Key i) = None
     \<and> get_key (snd (lim_key l idn q)) (Key i) = Some (newLimitKey i q)"
  by (auto simp: lim_key_def get_key_update split: option.splits) (auto simp: get_key_def)

lemma lim_key_distinct:
  "distinct (map fst (lim_keys l)) \<Longrightarrow> distinct (map fst (lim_keys (snd (lim_key l idn q))))"
  by (simp add: lim_key_def distinct_update split: option.splits)

lemma sound_find_refill:
  assumes "0 < now" "idn_Key idn = i \<longrightarrow> q = p"
  shows "sound_step i p now 0 l (upd_key (fst (lim_key l idn q)) (key_refill now) (snd (lim_key l idn q)))"
    (is "sound_step i p now 0 l (upd_key ?r _ ?l1)")
proof (cases "get_key ?l1 (Key i) = get_key l (Key i)")
  case True
  then have "sound_step i p now 0 l ?l1" using lim_key_distinct by (intro sound_same) auto
  from sound_step_trans [OF this sound_refill [OF assms(1), of i p ?l1 ?r]] show ?thesis by simp
next
  case False
  then have new: "?r = Key i" "i = idn_Key idn" "get_key l (Key i) = None"
    "get_key ?l1 (Key i) = Some (newLimitKey i q)" using lim_key_client [of l idn q i] by auto
  then have q: "q = p" using assms(2) by simp
  have b: "bucket_of day (newLimitKey i p) = \<lparr>bk_Level = 0, bk_At = 0\<rparr>" "lk_plan (newLimitKey i p) = p" for day
    by (simp_all add: bucket_of_def newLimitKey_def)
  show ?thesis
  proof (rule sound_stepI)
    assume ok: "client_ok i p now l"
    then have "flights_ok i (upd_key ?r (key_refill now) ?l1)"
      using new by (auto simp: client_ok_def flights_ok_def)
    then show "client_ok i p now (upd_key ?r (key_refill now) ?l1)"
      using ok new q b assms(1) lim_key_distinct [of l idn q]
      by (simp add: client_ok_def bucket_of_refill Refill_At)
    fix day assume lim: "Limited (window_of day p)"
    then show "client_credit day p i (upd_key ?r (key_refill now) ?l1) now \<le> client_credit day p i l now - 0"
      using new q b assms(1) win.credit_top_up_capacity [OF lim, of "\<lparr>bk_Level = 0, bk_At = 0\<rparr>" now]
      by (simp add: client_credit_def bucket_of_refill)
  qed
qed

text \<open>Issuing a ticket.\<close>

lemma sound_issue:
  assumes "tk_key tk = r" "\<not> tk_done tk" "get_key l r \<noteq> None"
  shows "sound_step i p now 0 l (upd_key r (\<lambda>k. k\<lparr>lk_flights := List.insert (length (lim_tickets l)) (lk_flights k)\<rparr>)
      (l\<lparr>lim_tickets := lim_tickets l @ [tk]\<rparr>))" (is "sound_step i p now 0 l ?l'")
proof -
  have st: "ticket_states ?l' = ticket_states l @ [(r, False)]"
    using assms(1,2) by (simp add: ticket_states_def)
  have len: "length (ticket_states l) = length (lim_tickets l)" by (simp add: ticket_states_def)
  have key: "get_key ?l' (Key i) = (if r = Key i then map_option (\<lambda>k. k\<lparr>lk_flights := List.insert (length (lim_tickets l)) (lk_flights k)\<rparr>)
      (get_key l (Key i)) else get_key l (Key i))" by simp
  have dist: "distinct (map fst (lim_keys l)) \<Longrightarrow> distinct (map fst (lim_keys ?l'))"
    by (intro distinct_upd_key) simp
  show ?thesis
  proof (rule sound_stepI)
    assume ok: "client_ok i p now l"
    then have "flights_ok i ?l'" using assms(3) unfolding flights_ok_def st key client_ok_def
      by (auto simp: nth_append len less_Suc_eq split: if_splits option.splits)
    with ok show "client_ok i p now ?l'" using dist unfolding client_ok_def key
      by (auto split: option.splits)
    show "client_credit day p i ?l' now \<le> client_credit day p i l now - 0" for day
      unfolding client_credit_def key by (auto split: option.splits)
  qed
qed

lemma admit_key_cases:
  assumes "admit_key l r now u c ck cost = (res, l')"
  obtains
    (short) d where "res = Inl d" "dn_Status d = 429" "l' = l"
      "dn_RetryAfter d = fst (shortfall (lim_tickets l) (the (get_key l r)) cost)"
      "snd (shortfall (lim_tickets l) (the (get_key l r)) cost) \<noteq> []"
  | (unreadable) d where "res = Inl d" "dn_Status d = 400" "l' = upd_key r (charge cost) l" "u"
      "snd (shortfall (lim_tickets l) (the (get_key l r)) cost) = []"
  | (ticket) tk l5 where "tk = new_ticket r ck cost (rc_Simulate c) now" "res = Inr (length (lim_tickets l))"
      "l5 = issued (upd_key r (charge cost) l) r tk" "\<not> u"
      "l' = (if rc_Simulate c then l5\<lparr>lim_active := List.insert r (lim_active l5)\<rparr> else l5)"
      "snd (shortfall (lim_tickets l) (the (get_key l r)) cost) = []"
proof -
  obtain wt wn where sh: "shortfall (lim_tickets l) (the (get_key l r)) cost = (wt, wn)" by force
  note eq = assms [unfolded admit_key_def Let_def sh prod.case]
  show thesis
  proof (cases "wn = []")
    case False
    then show ?thesis using eq short sh by auto
  next
    case True
    show ?thesis
    proof (cases u)
      case True
      then show ?thesis using eq \<open>wn = []\<close> unreadable sh by auto
    next
      case False
      let ?l5 = "issued (upd_key r (charge cost) l) r (new_ticket r ck cost (rc_Simulate c) now)"
      have m: "tk_metered (new_ticket r ck cost b now) = b" for b by (simp add: new_ticket_def)
      have "res = Inr (length (lim_tickets l))"
        "l' = (if rc_Simulate c then ?l5\<lparr>lim_active := List.insert r (lim_active ?l5)\<rparr> else ?l5)"
        using eq \<open>wn = []\<close> False unfolding issued_def m by auto
      then show ?thesis using ticket [OF refl _ refl] False \<open>wn = []\<close> sh by simp
    qed
  qed
qed

text \<open>An admission is a refusal that changes nothing, or the locked part on the allowance found.\<close>

lemma admit_plan_cases:
  assumes "admit_plan l now q idn c best = (res, l')"
  obtains
    (refused) d where "res = Inl d" "dn_Status d = 403" "l' = l"
  | (locked) "beyond_plan q (Base (weights l) c best) = None"
      "admit_key (found l now q idn) (fst (lim_key l idn q)) now (simulate_unreadable q c) c (CostKey c best)
         (Base (weights l) c best) = (res, l')"
proof -
  note eq = assms [unfolded admit_plan_def Let_def]
  show thesis
  proof (cases "simulate_refusal q c \<noteq> []")
    case True
    then show ?thesis using eq refused by auto
  next
    case False
    show ?thesis
    proof (cases "beyond_plan q (Base (weights l) c best)")
      case None
      then show ?thesis using eq False locked by (simp add: found_def split: prod.splits)
    next
      case (Some b)
      then show ?thesis using eq False refused by (cases b) auto
    qed
  qed
qed

lemma found_tickets [simp]: "lim_tickets (found l now q idn) = lim_tickets l"
  by (simp add: found_def)

lemma found_key: "get_key (found l now q idn) (fst (lim_key l idn q)) \<noteq> None"
  using lim_key_get [of l idn q] by (auto simp: found_def)

lemma sound_admit:
  assumes "0 < now" "idn_Key idn = i \<longrightarrow> q = p" and eq: "admit_plan l now q idn c best = (res, l')"
  shows "sound_step i p now (admit_charges l now q idn c best i) l l'"
proof -
  let ?r = "fst (lim_key l idn q)" and ?cost = "Base (weights l) c best"
  let ?f = "found l now q idn"
  let ?x = "if ?r = Key i then ?cost else 0"
  have f: "sound_step i p now 0 l ?f" unfolding found_def by (rule sound_find_refill [OF assms(1,2)])
  have c: "sound_step i p now ?x ?f (upd_key ?r (charge ?cost) ?f)"
    using found_key [of l now q idn] by (intro sound_charge) auto
  note fc = sound_step_trans [OF f c, simplified]
  from eq show ?thesis
  proof (cases rule: admit_plan_cases)
    case (refused d)
    then show ?thesis using eq by (auto simp: admit_charges_def intro: sound_same)
  next
    case locked
    from locked(2) show ?thesis
    proof (cases rule: admit_key_cases)
      case (short d)
      then show ?thesis using eq f by (simp add: admit_charges_def)
    next
      case (unreadable d)
      then show ?thesis using eq fc by (simp add: admit_charges_def)
    next
      case (ticket tk l5)
      have "sound_step i p now 0 (upd_key ?r (charge ?cost) ?f) l5"
        unfolding ticket(3) issued_def using ticket(1) found_key [of l now q idn]
        by (intro sound_issue) (auto simp: new_ticket_def)
      from sound_step_trans [OF fc this] have "sound_step i p now ?x l l5" by simp
      moreover have "sound_step i p now 0 l5 l'" using ticket(5) by (intro sound_same) auto
      ultimately have "sound_step i p now ?x l l'" using sound_step_trans by fastforce
      then show ?thesis using eq ticket(2) by (simp add: admit_charges_def)
    qed
  qed
qed

text \<open>Changes of a ticket that leave its allowance and whether it is done.\<close>

lemma ticket_states_upd:
  assumes "\<And>tk. tk_key (f tk) = tk_key tk \<and> tk_done (f tk) = tk_done tk"
  shows "ticket_states (upd_ticket t f l) = ticket_states l"
proof (cases "t < length (lim_tickets l)")
  case True
  then show ?thesis
    unfolding ticket_states_def by (intro nth_equalityI) (auto simp: nth_list_update assms)
next
  case False
  then show ?thesis by (simp add: ticket_states_def list_update_beyond)
qed

lemma lim_keys_upd_ticket [simp]: "lim_keys (upd_ticket t f l) = lim_keys l"
  by (simp add: upd_ticket_def)

lemma sound_upd_ticket:
  assumes "\<And>tk. tk_key (f tk) = tk_key tk \<and> tk_done (f tk) = tk_done tk"
  shows "sound_step i p now 0 l (upd_ticket t f l)"
  using ticket_states_upd [OF assms] by (intro sound_same) auto

lemma settle_frame [simp]: "tk_key (settle l now tk) = tk_key tk" "tk_done (settle l now tk) = tk_done tk"
  by (simp_all add: settle_def)

lemma client_ok_ticket:
  assumes "client_ok i p now l" "t < length (lim_tickets l)" "\<not> tk_done (lim_tickets l ! t)"
    "tk_key (lim_tickets l ! t) = Key i"
  shows "get_key l (Key i) \<noteq> None"
  using assms by (auto simp: client_ok_def flights_ok_def ticket_states_def split: option.splits)

text \<open>A step may rely on the client being in order.\<close>

lemma sound_stepI_ok: "(client_ok i p now l \<Longrightarrow> sound_step i p now x l l') \<Longrightarrow> sound_step i p now x l l'"
  by (auto simp: sound_step_def)

lemma sound_refund:
  assumes "t < length (lim_tickets l)" "\<not> tk_done (lim_tickets l ! t)"
  shows "sound_step i p now (if tk_key (lim_tickets l ! t) = Key i
      then - max 0 (tk_base (lim_tickets l ! t) - weight_of (weights l) ''default'') else 0) l (refund t l)"
proof (rule sound_stepI_ok)
  assume ok: "client_ok i p now l"
  let ?r = "tk_key (lim_tickets l ! t)" and ?b = "tk_base (lim_tickets l ! t) - weight_of (weights l) ''default''"
  let ?x = "if ?r = Key i then - max 0 ?b else 0"
  define l1 where "l1 = (if ?b > 0 then upd_ticket t (\<lambda>tk. tk\<lparr>tk_base := weight_of (weights l) ''default''\<rparr>)
      (upd_key ?r (charge (- ?b)) l) else l)"
  have "sound_step i p now ?x l l1"
  proof (cases "?b > 0")
    case True
    have "sound_step i p now ?x l (upd_key ?r (charge (- ?b)) l)"
      using client_ok_ticket [OF ok assms] True by (intro sound_charge) auto
    moreover have "sound_step i p now 0 (upd_key ?r (charge (- ?b)) l) l1"
      using True sound_upd_ticket unfolding l1_def by simp
    ultimately show ?thesis using sound_step_trans by fastforce
  next
    case False
    then have "?x = 0" by auto
    then show ?thesis using False by (simp add: l1_def sound_same)
  qed
  moreover have "sound_step i p now 0 l1 (refund t l)"
    unfolding refund_def Let_def l1_def [symmetric] by (intro sound_upd_ticket) simp
  ultimately show "sound_step i p now ?x l (refund t l)" using sound_step_trans by fastforce
qed

lemma sound_responding:
  assumes "0 < now" "t < length (lim_tickets l)" "\<not> tk_done (lim_tickets l ! t)"
  shows "sound_step i p now (if tk_key (lim_tickets l ! t) = Key i then - refunded_amount l t st ra else 0) l
    (snd (Responding l now t st ra))"
proof -
  let ?tk = "lim_tickets l ! t"
  let ?c = "st = 503 \<and> ra \<noteq> [] \<and> \<not> tk_reported ?tk \<and> \<not> tk_refunded ?tk"
  let ?x = "if tk_key ?tk = Key i then - refunded_amount l t st ra else 0"
  define l1 where "l1 = (if ?c then refund t l else l)"
  have "sound_step i p now ?x l l1"
  proof (cases ?c)
    case True
    then have "refunded_amount l t st ra = max 0 (tk_base ?tk - weight_of (weights l) ''default'')"
      by (simp add: refunded_amount_def)
    moreover have "l1 = refund t l" using True by (simp add: l1_def)
    ultimately show ?thesis using sound_refund [OF assms(2,3), of i p now] by (simp only:)
  next
    case False
    then show ?thesis by (auto simp: l1_def refunded_amount_def sound_same)
  qed
  moreover have "sound_step i p now 0 l1 (upd_ticket t (\<lambda>tk. (settle l1 now tk)\<lparr>tk_frozen := True\<rparr>) l1)"
    by (intro sound_upd_ticket) simp
  moreover have "snd (Responding l now t st ra) = upd_key (tk_key ?tk) (key_refill now)
      (upd_ticket t (\<lambda>tk. (settle l1 now tk)\<lparr>tk_frozen := True\<rparr>) l1)"
    by (simp add: Responding_def Let_def l1_def)
  ultimately show ?thesis using sound_refill [OF assms(1)] sound_step_trans by (metis add.right_neutral)
qed

lemma sound_done:
  assumes "t < length (lim_tickets l)" "\<not> tk_done (lim_tickets l ! t)"
  shows "sound_step i p now (if tk_key (lim_tickets l ! t) = Key i
      then tk_extra (settle l now (lim_tickets l ! t)) else 0) l (Done t now l)"
proof (rule sound_stepI_ok)
  assume ok: "client_ok i p now l"
  let ?tk = "lim_tickets l ! t" and ?r = "tk_key (lim_tickets l ! t)"
  let ?e = "tk_extra (settle l now ?tk)"
  define l1 where "l1 = upd_ticket t (\<lambda>tk. settle l now (tk\<lparr>tk_done := True\<rparr>)) l"
  define l2 where "l2 = upd_key ?r (\<lambda>k. k\<lparr>lk_flights := removeAll t (lk_flights k)\<rparr>) l1"
  define l3 where "l3 = (if \<not> metering (lim_tickets l2) (the (get_key l2 ?r))
      then l2\<lparr>lim_active := removeAll ?r (lim_active l2)\<rparr> else l2)"
  have tk: "lim_tickets l3 ! t = settle l now (?tk\<lparr>tk_done := True\<rparr>)" "lim_tickets l2 = lim_tickets l1"
    using assms(1) by (simp_all add: l3_def l2_def l1_def)
  have e: "tk_extra (settle l now (?tk\<lparr>tk_done := True\<rparr>)) = ?e" by (simp add: settle_def meter_def)
  have keys: "get_key l3 (Key i) = None \<longleftrightarrow> get_key l (Key i) = None" by (simp add: l3_def l2_def l1_def)
  have "sound_step i p now 0 l l1"
  proof (rule sound_stepI)
    have st: "ticket_states l1 = (ticket_states l)[t := (?r, True)]"
      by (simp add: ticket_states_def l1_def map_update)
    have "flights_ok i l1" unfolding flights_ok_def
    proof (intro allI impI)
      fix t' assume t': "t' < length (ticket_states l1)" "ticket_states l1 ! t' = (Key i, False)"
      then have "t' \<noteq> t" "t' < length (ticket_states l)" using st by auto
      with t' st ok show "case get_key l1 (Key i) of None \<Rightarrow> False | Some k \<Rightarrow> t' \<in> set (lk_flights k)"
        by (simp add: client_ok_def flights_ok_def l1_def)
    qed
    then show "client_ok i p now l1" using ok by (simp add: client_ok_def l1_def)
    show "client_credit day p i l1 now \<le> client_credit day p i l now - 0" for day
      by (simp add: client_credit_def l1_def)
  qed
  moreover have "sound_step i p now 0 l1 l2" unfolding l2_def
  proof (rule sound_upd [where T = "{t}"])
    show "tk_done (lim_tickets l1 ! x)" if "x \<in> {t}" "x < length (lim_tickets l1)" for x
      using that by (simp add: l1_def)
  qed auto
  moreover have "sound_step i p now 0 l2 l3" by (intro sound_same) (auto simp: l3_def)
  moreover have "sound_step i p now (if ?r = Key i then ?e else 0) l3 (upd_key ?r (charge ?e) l3)"
    using client_ok_ticket [OF ok assms] keys by (intro sound_charge) auto
  moreover have "Done t now l = upd_key ?r (charge ?e) l3"
    unfolding Done_def Let_def l1_def [symmetric] l2_def [symmetric] l3_def [symmetric] tk(1) e
    using assms(2) by simp
  ultimately show "sound_step i p now (if ?r = Key i then ?e else 0) l (Done t now l)"
    using sound_step_trans by (metis add.left_neutral)
qed

lemma sound_fold:
  assumes "\<And>y l. y \<in> set ys \<Longrightarrow> sound_step i p now 0 l (f y l)"
  shows "sound_step i p now 0 l (fold f ys l)"
  using assms
proof (induction ys arbitrary: l)
  case (Cons y ys)
  have "sound_step i p now 0 l (f y l)" "sound_step i p now 0 (f y l) (fold f ys (f y l))"
    using Cons by auto
  then show ?case using sound_step_trans by fastforce
qed (simp add: sound_same)

lemma sound_tick_key:
  assumes "0 < now"
  shows "sound_step i p now 0 l (tick_key now r l)"
proof (cases "get_key l r")
  case None
  then show ?thesis by (simp add: tick_key_def sound_same)
next
  case (Some k)
  let ?f = "\<lambda>t l. if tk_metered (lim_tickets l ! t) \<and> \<not> tk_frozen (lim_tickets l ! t)
      then upd_ticket t (\<lambda>tk. tk\<lparr>tk_extra := meter l now tk\<rparr>) l else l"
  let ?g = "\<lambda>t l. if tk_frozen (lim_tickets l ! t) \<or> \<not> tk_cancel (lim_tickets l ! t) then l
      else upd_ticket t (\<lambda>tk. tk\<lparr>tk_frozen := True, tk_cancelled := True\<rparr>) l"
  define l1 where "l1 = fold ?f (lk_flights k) l"
  define l2 where "l2 = upd_key r (key_refill now) l1"
  have "sound_step i p now 0 l l1" unfolding l1_def
    by (intro sound_fold) (auto intro: sound_upd_ticket sound_same)
  moreover have "sound_step i p now 0 l1 l2" unfolding l2_def by (rule sound_refill [OF assms])
  ultimately have l2: "sound_step i p now 0 l l2" using sound_step_trans by fastforce
  have "sound_step i p now 0 l2 (fold ?g (lk_flights k) l2)"
    by (intro sound_fold) (auto intro: sound_upd_ticket sound_same)
  then have "sound_step i p now 0 l (fold ?g (lk_flights k) l2)" using l2 sound_step_trans by fastforce
  then show ?thesis using l2 Some
    by (simp add: tick_key_def Let_def l1_def [symmetric] l2_def [symmetric])
qed

lemma sweep_key_fst: "sweep_key now (i, k) = Some e \<Longrightarrow> fst e = i"
  by (auto simp: sweep_key_def Let_def split: if_splits)

lemma sweep_frame:
  "ticket_states (sweep now l) = ticket_states l"
  "lim_keys (sweep now l) = List.map_filter (sweep_key now) (lim_keys l)"
  by (simp_all add: sweep_def ticket_states_def Let_def split: option.splits)

lemma sound_sweep:
  assumes "0 < now"
  shows "sound_step i p now 0 l (sweep now l)"
proof (rule sound_stepI)
  assume ok: "client_ok i p now l"
  then have d: "distinct (map fst (lim_keys l))" by (simp add: client_ok_def)
  have mf: "map_of (List.map_filter (sweep_key now) (lim_keys l)) i
      = (case map_of (lim_keys l) i of None \<Rightarrow> None | Some k \<Rightarrow> map_option snd (sweep_key now (i, k)))"
    "distinct (map fst (List.map_filter (sweep_key now) (lim_keys l)))"
    using map_filter_entries [OF d, of "sweep_key now" i] sweep_key_fst by blast+
  have get: "get_key (sweep now l) (Key i) = (case get_key l (Key i) of None \<Rightarrow> None
      | Some k \<Rightarrow> map_option snd (sweep_key now (i, k)))"
    using mf(1) by (simp add: get_key_def sweep_frame)
  consider (absent) "get_key l (Key i) = None"
    | (flying) k where "get_key l (Key i) = Some k" "lk_flights k \<noteq> []"
    | (full) k where "get_key l (Key i) = Some k" "lk_flights k = []" "key_full (key_refill now k)"
    | (kept) k where "get_key l (Key i) = Some k" "lk_flights k = []" "\<not> key_full (key_refill now k)"
    by (cases "get_key l (Key i)") auto
  then have "client_ok i p now (sweep now l) \<and>
      (\<forall>day. Limited (window_of day p) \<longrightarrow> client_credit day p i (sweep now l) now \<le> client_credit day p i l now)"
  proof cases
    case absent
    then show ?thesis using ok get mf(2) by (auto simp: client_ok_def flights_ok_def client_credit_def sweep_frame)
  next
    case (flying k)
    then show ?thesis using ok get mf(2)
      by (auto simp: client_ok_def flights_ok_def client_credit_def sweep_frame sweep_key_def)
  next
    case (full k)
    have pk: "lk_plan k = p" "0 < bk_At (bucket_of day k)" "bk_At (bucket_of day k) \<le> now" for day
      using ok full by (auto simp: client_ok_def)
    have "w_Capacity (window_of day p) \<le> win.credit (window_of day p) (bucket_of day k) now"
      if lim: "Limited (window_of day p)" for day
    proof -
      have "Full (window_of day p) (Refill (window_of day p) (bucket_of day k) now)"
        using full(3) pk(1) by (cases day) (auto simp: key_full_def key_refill_def window_of_def bucket_of_def)
      then have "w_Capacity (window_of day p) \<le> win.credit (window_of day p) (Refill (window_of day p) (bucket_of day k) now) now"
        using lim Refill_At [OF pk(3)] by (simp add: Full_def win.credit_def)
      also have "\<dots> \<le> win.credit (window_of day p) (bucket_of day k) now"
        using lim pk(2) [of day] pk(3) by (intro win.credit_top_up) auto
      finally show ?thesis .
    qed
    then show ?thesis using ok full get mf(2)
      by (auto simp: client_ok_def flights_ok_def client_credit_def sweep_frame sweep_key_def Let_def)
  next
    case (kept k)
    have pk: "lk_plan k = p" "0 < bk_At (bucket_of day k)" "bk_At (bucket_of day k) \<le> now" for day
      using ok kept by (auto simp: client_ok_def)
    moreover have "bk_At (bucket_of day k) \<noteq> 0" for day using pk(2) [of day] by simp
    ultimately show ?thesis using ok kept get mf(2) assms
      by (auto simp: client_ok_def flights_ok_def client_credit_def sweep_frame sweep_key_def Let_def
          bucket_of_refill Refill_At intro!: win.credit_top_up)
  qed
  then show "client_ok i p now (sweep now l)"
    and "\<And>day. Limited (window_of day p) \<Longrightarrow> client_credit day p i (sweep now l) now \<le> client_credit day p i l now - 0"
    by auto
qed

lemma sound_save:
  assumes "0 < now"
  shows "sound_step i p now 0 l (snd (save now l))"
proof -
  let ?l1 = "upd_key (Key i) (key_refill now) l"
  have mapped: "map_of (map (\<lambda>(i, k). (i, f k)) xs) j = map_option f (map_of xs j)" for f :: "limitKey \<Rightarrow> limitKey" and xs j
    by (induction xs) auto
  have fsts: "map fst (map (\<lambda>(i, k). (i, f k)) xs) = map fst xs" for f :: "limitKey \<Rightarrow> limitKey" and xs :: "(string \<times> limitKey) list"
    by (induction xs) auto
  show ?thesis
  proof (cases "lo_StateFile (lim_opts l) = []")
    case True
    then show ?thesis by (simp add: save_def sound_same)
  next
    case False
    let ?ks = "map (\<lambda>(i, k). (i, key_refill now k)) (lim_keys l)"
    have l': "snd (save now l) = l\<lparr>lim_keys := ?ks\<rparr>" using False by (simp add: save_def Let_def)
    show ?thesis
    proof (rule sound_stepI)
      assume ok: "client_ok i p now l"
      have eq: "get_key (snd (save now l)) (Key i) = get_key ?l1 (Key i)"
        unfolding l' by (simp add: get_key_def mapped upd_key_def put_key_def update_conv split: option.splits)
      have ts: "ticket_states (snd (save now l)) = ticket_states ?l1" unfolding l' by (simp add: ticket_states_def)
      have d: "distinct (map fst (lim_keys (snd (save now l))))" unfolding l'
        using ok by (simp add: client_ok_def fsts del: map_map)
      have "client_ok i p now ?l1 \<and> (\<forall>day. Limited (window_of day p) \<longrightarrow>
          client_credit day p i ?l1 now \<le> client_credit day p i l now - 0)"
        using sound_refill [OF assms, of i p l "Key i"] ok by (simp add: sound_step_def)
      then show "client_ok i p now (snd (save now l))"
        and "\<And>day. Limited (window_of day p) \<Longrightarrow> client_credit day p i (snd (save now l)) now \<le> client_credit day p i l now - 0"
        using eq ts d by (auto simp: client_ok_def flights_ok_def client_credit_def)
    qed
  qed
qed

text \<open>Every operation is sound.\<close>

lemma sound_lim_step:
  assumes "lim_step i p l now x l'" "0 < now"
  shows "sound_step i p now x l l'"
  using assms
proof (cases rule: lim_step.cases)
  case (admit idn c best res q)
  then show ?thesis using sound_admit [of now idn i q p l c best res l'] assms(2) by (simp add: Admit_def)
next
  case (responding t st ra)
  then show ?thesis using sound_responding assms(2) by simp
next
  case (exhausted t)
  have "snd (Exhausted l now t) = upd_key (tk_key (lim_tickets l ! t)) (key_refill now) l"
    by (simp add: Exhausted_def Let_def)
  then show ?thesis using exhausted sound_refill [OF assms(2)] by simp
next
  case (reported t e)
  then show ?thesis by (auto simp: Reported_def intro: sound_upd_ticket)
next
  case (track t)
  then show ?thesis by (auto simp: Track_def intro: sound_upd_ticket)
next
  case (finish t)
  then show ?thesis using sound_done by simp
next
  case tick
  then show ?thesis using sound_fold [of "lim_active l"] sound_tick_key [OF assms(2)] by (simp add: tick_def)
next
  case sweep
  then show ?thesis using sound_sweep [OF assms(2)] by simp
next
  case save
  then show ?thesis using sound_save [OF assms(2)] by simp
qed

lemma client_ok_later: "client_ok i p t l \<Longrightarrow> t \<le> t' \<Longrightarrow> client_ok i p t' l"
  by (auto simp: client_ok_def intro: order_trans split: option.splits)

lemma client_credit_later:
  assumes "Limited (window_of day p)" "t \<le> t'"
  shows "client_credit day p i l t' \<le> client_credit day p i l t
    + of_int (t' - t) * (rate (window_of day p) / 1000000000)"
proof (cases "get_key l (Key i)")
  case None
  have "0 \<le> of_int (t' - t) * (rate (window_of day p) / 1000000000)"
    using assms(2) rate_pos [OF assms(1)] by (intro mult_nonneg_nonneg) (auto simp: less_imp_le)
  with None show ?thesis by (simp add: client_credit_def)
next
  case (Some k)
  then show ?thesis using win.credit_later [of "window_of day p" "bucket_of day k" t' t]
    by (simp add: client_credit_def)
qed

text \<open>Along a run the credit pays for what is charged.\<close>

lemma lim_run_credit:
  assumes "lim_run i p l0 t0 tot l t" "0 < t0" "client_ok i p t0 l0" "Limited (window_of day p)"
  shows "t0 \<le> t \<and> client_ok i p t l
    \<and> tot + client_credit day p i l t \<le> client_credit day p i l0 t0
        + of_int (t - t0) * (rate (window_of day p) / 1000000000)"
  using assms(1)
proof (induction rule: lim_run.induct)
  case start
  then show ?case using assms by simp
next
  case (more tot l t now x l')
  have now: "0 < now" using more assms(2) by simp
  have ok: "client_ok i p now l" using more client_ok_later by blast
  then have "client_ok i p now l'" "client_credit day p i l' now \<le> client_credit day p i l now - x"
    using sound_lim_step [OF more(3) now] assms(4) by (auto simp: sound_step_def)
  moreover have "client_credit day p i l now \<le> client_credit day p i l t
      + of_int (now - t) * (rate (window_of day p) / 1000000000)"
    using client_credit_later [OF assms(4) more(2)] .
  moreover have "of_int (now - t) * (rate (window_of day p) / 1000000000)
      + of_int (t - t0) * (rate (window_of day p) / 1000000000)
      = of_int (now - t0) * (rate (window_of day p) / 1000000000)"
    by (simp only: distrib_right [symmetric] of_int_add [symmetric]) simp
  ultimately show ?case using more by auto
qed

lemma shortfall_none:
  assumes "snd (shortfall ts k cost) = []" "0 < cost" "Limited (window_of day (lk_plan k))"
  shows "cost \<le> bk_Level (bucket_of day k) - owed ts k"
proof (rule ccontr)
  assume less: "\<not> cost \<le> bk_Level (bucket_of day k) - owed ts k"
  then have "0 < (cost - (bk_Level (bucket_of day k) - owed ts k)) / rate (window_of day (lk_plan k)) * of_int Second"
    using assms(3) by (simp add: Second_def)
  then have "0 < Wait (window_of day (lk_plan k)) (bk_Level (bucket_of day k) - owed ts k) cost"
    using less assms(3) by (simp add: Wait_def)
  then show False using assms(1,2)
    by (cases day) (auto simp: shortfall_def Let_def window_of_def bucket_of_def split: if_splits)
qed

text \<open>A client found once is found again.\<close>

lemma lim_key_found: "lim_key (found l now q idn) idn q = (fst (lim_key l idn q), found l now q idn)"
proof -
  let ?r = "fst (lim_key l idn q)" and ?f = "found l now q idn"
  have "?r = Key (idn_Key idn) \<or> ?r = Overflow \<and> map_of (lim_keys l) (idn_Key idn) = None
      \<and> HasPrefix (idn_Key idn) ''ip:'' \<and> int (length (lim_keys l)) \<ge> lo_MaxKeys (lim_opts l)"
    by (cases "map_of (lim_keys l) (idn_Key idn)") (auto simp: lim_key_def)
  then consider (key) "?r = Key (idn_Key idn)"
    | (over) "?r = Overflow" "map_of (lim_keys l) (idn_Key idn) = None"
      "HasPrefix (idn_Key idn) ''ip:'' \<and> int (length (lim_keys l)) \<ge> lo_MaxKeys (lim_opts l)"
    by (elim disjE conjE) simp_all
  then show ?thesis
  proof cases
    case key
    then have "map_of (lim_keys ?f) (idn_Key idn) \<noteq> None"
      using found_key [of l now q idn] by (simp add: get_key_def)
    with key show ?thesis by (auto simp: lim_key_def)
  next
    case over
    then have "lim_keys ?f = lim_keys l" "lim_opts ?f = lim_opts l"
      by (auto simp: found_def upd_key_def put_key_def lim_key_def get_key_def split: option.splits)
    moreover have "lim_overflow ?f \<noteq> None" using found_key [of l now q idn] over by (simp add: get_key_def)
    ultimately show ?thesis using over by (simp add: lim_key_def)
  qed
qed

lemma found_again: "found (found l now q idn) t q idn = upd_key (fst (lim_key l idn q)) (key_refill t) (found l now q idn)"
  by (simp add: found_def [of "found l now q idn"] lim_key_found)

lemma shortfall_wait:
  assumes "0 < cost"
  shows "Wait (window_of day (lk_plan k)) (bk_Level (bucket_of day k) - owed ts k) cost \<le> fst (shortfall ts k cost)"
  using assms by (cases day) (auto simp: shortfall_def Let_def window_of_def bucket_of_def Second_def)

lemma shortfall_enough:
  assumes "\<And>day. Limited (window_of day (lk_plan k)) \<Longrightarrow> cost \<le> bk_Level (bucket_of day k) - owed ts k"
  shows "snd (shortfall ts k cost) = []"
proof -
  have "Wait (window_of day (lk_plan k)) (bk_Level (bucket_of day k) - owed ts k) cost = 0" for day
    using assms [of day] by (auto simp: Wait_def)
  from this [of True] this [of False] show ?thesis
    by (simp add: shortfall_def Let_def window_of_def bucket_of_def)
qed

lemma beyond_plan_None: "beyond_plan q cost = None \<Longrightarrow> Limited (window_of day q) \<Longrightarrow> cost \<le> w_Capacity (window_of day q)"
  by (cases day) (auto simp: beyond_plan_def window_of_def not_less split: if_splits)

text \<open>What a refund leaves of the ticket.\<close>

lemma refund_ticket:
  shows "length (lim_tickets (refund t l)) = length (lim_tickets l)"
    and "t < length (lim_tickets l) \<Longrightarrow> tk_frozen (lim_tickets (refund t l) ! t)"
    and "t < length (lim_tickets l) \<Longrightarrow> tk_extra (lim_tickets (refund t l) ! t) = 0"
    and "t < length (lim_tickets l) \<Longrightarrow> tk_base (lim_tickets (refund t l) ! t)
      = min (tk_base (lim_tickets l ! t)) (weight_of (weights l) ''default'')"
  by (simp_all add: refund_def Let_def min_def)

section \<open>Properties\<close>





text \<open>
  Forgetting a client loses nothing: a client the sweep drops has nothing in flight, and at any
  later time a fresh allowance for it holds exactly what the dropped one would have held.
\<close>

theorem sweep_forgets_nothing:
  assumes "distinct (map fst (lim_keys l))" and "map_of (lim_keys l) i = Some k"
    and "map_of (lim_keys (sweep now l)) i = None"
    and "bk_At (bucket_of day k) \<le> now" and "now \<le> t" and "Limited (window_of day (lk_plan k))"
  shows "lk_flights k = [] \<and> bk_Level (bucket_of day (key_refill t k))
    = bk_Level (bucket_of day (key_refill t (newLimitKey i (lk_plan k))))"
proof -
  let ?w = "window_of day (lk_plan k)" and ?b = "bucket_of day k"
  have none: "sweep_key now (i, k) = None"
    using assms(1-3) map_filter_entries [OF assms(1), of "sweep_key now" i] sweep_key_fst by (auto simp: sweep_frame)
  then have "lk_flights k = []" and full: "key_full (key_refill now k)"
    by (auto simp: sweep_key_def Let_def split: if_splits)
  have "Full ?w (Refill ?w ?b now)"
    using full by (cases day) (auto simp: key_full_def key_refill_def window_of_def bucket_of_def)
  then have "w_Capacity ?w \<le> bk_Level (Refill ?w ?b now)" using assms(6) by (simp add: Full_def)
  also have "\<dots> \<le> bk_Level (Refill ?w ?b t)" using assms(4,5) by (intro Refill_mono) auto
  finally have "bk_Level (Refill ?w ?b t) = w_Capacity ?w"
    using Refill_le_Capacity [OF assms(6), of ?b t] by simp
  moreover have "bk_Level (Refill ?w (bucket_of day (newLimitKey i (lk_plan k))) t) = w_Capacity ?w"
    using assms(6) by (simp add: Refill_def newLimitKey_def bucket_of_def IsZero_def)
  ultimately show ?thesis using \<open>lk_flights k = []\<close>
    by (simp add: bucket_of_refill) (simp add: newLimitKey_def)
qed

theorem sweep_forgets_nothing_witness:
  "bk_Level (bucket_of False (key_refill 90000000000 ((newLimitKey ''a'' sample_plan)\<lparr>lk_minute := \<lparr>bk_Level = 4, bk_At = 7\<rparr>\<rparr>)))
   = bk_Level (bucket_of False (key_refill 90000000000 (newLimitKey ''a'' sample_plan)))"
proof -
  let ?k = "(newLimitKey ''a'' sample_plan)\<lparr>lk_minute := \<lparr>bk_Level = 4, bk_At = 7\<rparr>\<rparr>"
  let ?l = "sample_limiter\<lparr>lim_keys := [(''a'', ?k)]\<rparr>"
  have "map_of (lim_keys (sweep 80000000000 ?l)) ''a'' = None" by code_simp
  then show ?thesis
    using sweep_forgets_nothing [of ?l "''a''" ?k 80000000000 False 90000000000]
    by (simp add: bucket_of_def newLimitKey_def window_of_def sample_plan_def Limited_def Second_def)
qed

text \<open>
  A request is billed once: ending it again changes nothing. A busy answer for which no node
  reported work costs no more than the cheapest request, whatever its base cost and meter were.
\<close>

theorem billed_once:
  assumes "t < length (lim_tickets l)"
  shows "Done t now' (Done t now l) = Done t now l
    \<and> (let l' = snd (Responding l now t 503 ''1''); tk = lim_tickets l ! t; tk' = lim_tickets l' ! t
       in \<not> tk_reported tk \<and> \<not> tk_refunded tk \<longrightarrow>
          tk_base tk' + tk_extra tk' = min (tk_base tk) (weight_of (weights l) ''default'') \<and> tk_frozen tk')"
proof -
  have "tk_done (lim_tickets (Done t now l) ! t)"
  proof (cases "tk_done (lim_tickets l ! t)")
    case False
    then show ?thesis using assms by (auto simp: Done_def Let_def)
  qed (simp add: Done_def)
  then have once: "Done t now' (Done t now l) = Done t now l" by (simp add: Done_def [of t now'])
  have busy: "tk_base tk' + tk_extra tk' = min (tk_base tk) (weight_of (weights l) ''default'') \<and> tk_frozen tk'"
    if "tk = lim_tickets l ! t" "tk' = lim_tickets (snd (Responding l now t 503 ''1'')) ! t"
      "\<not> tk_reported tk" "\<not> tk_refunded tk" for tk tk'
  proof -
    have "tk' = (settle (refund t l) now (lim_tickets (refund t l) ! t))\<lparr>tk_frozen := True\<rparr>"
      using that assms refund_ticket(1) [of t l] by (simp add: Responding_def Let_def)
    then show ?thesis using refund_ticket(2-) [OF assms] that(1) by (simp add: settle_def)
  qed
  show ?thesis unfolding Let_def using once busy [OF refl refl] by simp
qed

theorem billed_once_witness:
  "Done 0 9 (Done 0 8 (sample_limiter\<lparr>lim_tickets := [new_ticket (Key ''a'') ''default'' 5 True 3]\<rparr>))
   = Done 0 8 (sample_limiter\<lparr>lim_tickets := [new_ticket (Key ''a'') ''default'' 5 True 3]\<rparr>)"
  using billed_once [of 0 "sample_limiter\<lparr>lim_tickets := [new_ticket (Key ''a'') ''default'' 5 True 3]\<rparr>" 9 8] by simp

text \<open>
  C29. A client cannot choose whom it is billed as: behind trusted proxies, the last entry of
  X-Forwarded-For that none of them is, is the client, whatever the client itself put in front of
  it.
\<close>

theorem client_key_unspoofable:
  assumes "parse remote = Some a" and "trusted a"
    and "Split (Join forwarded '','') (CHR '','') = forged @ h # proxies"
    and "parse (TrimSpace h) = Some c" and "\<not> trusted c"
    and "\<forall>x \<in> set proxies. \<exists>b. parse (TrimSpace x) = Some b \<and> trusted b"
  shows "clientKey parse trusted render remote forwarded = render c"
proof -
  have "walk_hops parse trusted x (ps @ h # fs) = c"
    if "\<forall>x \<in> set ps. \<exists>b. parse (TrimSpace x) = Some b \<and> trusted b" for x ps fs
    using that by (induction ps arbitrary: x) (auto simp: assms(4,5))
  then show ?thesis using assms(1-3,6) by (simp add: clientKey_def)
qed

theorem client_key_unspoofable_witness:
  "clientKey Some (\<lambda>s. s = ''10.0.0.1'') id ''10.0.0.1'' [''6.6.6.6, 192.0.2.7'', ''10.0.0.1''] = ''192.0.2.7''"
proof -
  have "Split (Join [''6.6.6.6, 192.0.2.7'', ''10.0.0.1''] '','') (CHR '','')
      = [''6.6.6.6''] @ '' 192.0.2.7'' # [''10.0.0.1'']" by code_simp
  moreover have "TrimSpace '' 192.0.2.7'' = ''192.0.2.7''" "TrimSpace ''10.0.0.1'' = ''10.0.0.1''" by code_simp+
  ultimately show ?thesis
    using client_key_unspoofable [of Some "''10.0.0.1''" "''10.0.0.1''" "\<lambda>s. s = ''10.0.0.1''"
        "[''6.6.6.6, 192.0.2.7'', ''10.0.0.1'']" "[''6.6.6.6'']" "'' 192.0.2.7''" "[''10.0.0.1'']" "''192.0.2.7''" id]
    by simp
qed

end
