(* ===== verification/TxnPins.thy ===== *)
theory TxnPins
  imports Prelude
begin

text \<open>
  The pins of accepted transactions (src/internal/app/txnpins.go): which node accepted a
  transaction, remembered in two generations that rotate as the table is used. A map is a HOL map.
\<close>

section \<open>Definitions\<close>

record txnPins =
  tp_ttl :: Duration
  tp_cur :: "string \<rightharpoonup> string"
  tp_prev :: "string \<rightharpoonup> string"
  tp_rotated :: Time

definition newTxnPins :: "Duration \<Rightarrow> Time \<Rightarrow> txnPins" where
  "newTxnPins ttl now = \<lparr>tp_ttl = ttl, tp_cur = Map.empty, tp_prev = Map.empty, tp_rotated = now\<rparr>"

definition rotate_pins :: "txnPins \<Rightarrow> Time \<Rightarrow> txnPins" where
  "rotate_pins p now =
     (let age = time_Sub now (tp_rotated p) in
      if age \<ge> 2 * tp_ttl p then p\<lparr>tp_prev := Map.empty, tp_cur := Map.empty, tp_rotated := now\<rparr>
      else if age \<ge> tp_ttl p then p\<lparr>tp_prev := tp_cur p, tp_cur := Map.empty, tp_rotated := now\<rparr>
      else p)"

definition remember :: "txnPins \<Rightarrow> string \<Rightarrow> string \<Rightarrow> Time \<Rightarrow> txnPins" where
  "remember p txid upstream now =
     (if txid = [] then p
      else let p = rotate_pins p now in p\<lparr>tp_cur := (tp_cur p)(txid \<mapsto> upstream)\<rparr>)"

definition recall :: "txnPins \<Rightarrow> string \<Rightarrow> Time \<Rightarrow> string option \<times> txnPins" where
  "recall p txid now =
     (let p = rotate_pins p now in
      (case tp_cur p txid of Some u \<Rightarrow> (Some u, p) | None \<Rightarrow> (tp_prev p txid, p)))"

text \<open>Uses of the table by others: the operations at given times.\<close>

datatype pin_op = Remember string string | Recall string

fun pin_step :: "txnPins \<Rightarrow> Time \<times> pin_op \<Rightarrow> txnPins" where
  "pin_step p (t, Remember x u) = remember p x u t"
| "pin_step p (t, Recall x) = snd (recall p x t)"

fun pin_run :: "txnPins \<Rightarrow> (Time \<times> pin_op) list \<Rightarrow> txnPins" where
  "pin_run p [] = p"
| "pin_run p (e # es) = pin_run (pin_step p e) es"

text \<open>Where the pin of x, set at time \<open>since\<close>, is in the table: current, previous, or gone.\<close>

definition pin_current :: "string \<Rightarrow> string \<Rightarrow> Time \<Rightarrow> txnPins \<Rightarrow> bool" where
  "pin_current x u since p = (tp_cur p x = Some u \<and> tp_rotated p \<le> since \<and> since < tp_rotated p + tp_ttl p)"

definition pin_previous :: "string \<Rightarrow> string \<Rightarrow> Time \<Rightarrow> txnPins \<Rightarrow> bool" where
  "pin_previous x u since p = (tp_cur p x = None \<and> tp_prev p x = Some u
     \<and> since \<le> tp_rotated p \<and> tp_rotated p < since + 2 * tp_ttl p)"

definition pin_gone :: "string \<Rightarrow> txnPins \<Rightarrow> bool" where
  "pin_gone x p = (tp_cur p x = None \<and> tp_prev p x = None)"

definition pin_inv :: "string \<Rightarrow> string \<Rightarrow> Time \<Rightarrow> Duration \<Rightarrow> Time \<Rightarrow> txnPins \<Rightarrow> bool" where
  "pin_inv x u since ttl now p = (tp_ttl p = ttl \<and> tp_rotated p \<le> now
     \<and> (pin_current x u since p \<or> pin_previous x u since p \<or> pin_gone x p \<and> since + ttl \<le> now))"

text \<open>A lifetime whose double a Duration can hold.\<close>

definition ttl_ok :: "Duration \<Rightarrow> bool" where
  "ttl_ok ttl = (0 < ttl \<and> 2 * ttl < max_duration)"

section \<open>Lemmas\<close>

lemma rotate_cases:
  assumes "ttl_ok (tp_ttl p)"
  shows "rotate_pins p now =
    (if now - tp_rotated p \<ge> 2 * tp_ttl p then p\<lparr>tp_prev := Map.empty, tp_cur := Map.empty, tp_rotated := now\<rparr>
     else if now - tp_rotated p \<ge> tp_ttl p then p\<lparr>tp_prev := tp_cur p, tp_cur := Map.empty, tp_rotated := now\<rparr>
     else p)"
proof -
  have "min_duration < 2 * tp_ttl p" "min_duration < tp_ttl p" "tp_ttl p \<le> max_duration" "2 * tp_ttl p \<le> max_duration"
    using assms by (auto simp: ttl_ok_def min_duration_def)
  then show ?thesis by (simp add: rotate_pins_def Let_def)
qed

text \<open>A rotation moves the pin on, and never loses it within ttl.\<close>

lemma pin_inv_rotate:
  assumes "ttl_ok ttl" "pin_inv x u since ttl now p" "now \<le> t" "since \<le> t"
  shows "pin_inv x u since ttl t (rotate_pins p t)"
    and "t < since + ttl \<Longrightarrow> \<not> pin_gone x (rotate_pins p t)"
    and "since + 3 * ttl \<le> t \<Longrightarrow> pin_gone x (rotate_pins p t)"
proof -
  have ttl: "tp_ttl p = ttl" using assms(2) by (simp add: pin_inv_def)
  note rot = rotate_cases [of p t, unfolded ttl, OF assms(1)]
  have pos: "0 < ttl" using assms(1) by (simp add: ttl_ok_def)
  consider (cur) "pin_current x u since p" | (prev) "pin_previous x u since p"
    | (gone) "pin_gone x p" "since + ttl \<le> now" using assms(2) by (auto simp: pin_inv_def)
  then have "pin_inv x u since ttl t (rotate_pins p t) \<and> (t < since + ttl \<longrightarrow> \<not> pin_gone x (rotate_pins p t))
    \<and> (since + 3 * ttl \<le> t \<longrightarrow> pin_gone x (rotate_pins p t))"
  proof cases
    case cur
    then show ?thesis unfolding rot using assms(2-4) pos ttl
      by (auto simp: pin_inv_def pin_current_def pin_previous_def pin_gone_def)
  next
    case prev
    then show ?thesis unfolding rot using assms(2-4) pos ttl
      by (auto simp: pin_inv_def pin_current_def pin_previous_def pin_gone_def)
  next
    case gone
    then show ?thesis unfolding rot using assms(2-4) pos ttl
      by (auto simp: pin_inv_def pin_current_def pin_previous_def pin_gone_def)
  qed
  then show "pin_inv x u since ttl t (rotate_pins p t)"
    and "t < since + ttl \<Longrightarrow> \<not> pin_gone x (rotate_pins p t)"
    and "since + 3 * ttl \<le> t \<Longrightarrow> pin_gone x (rotate_pins p t)" by auto
qed

lemma recall_snd [simp]: "snd (recall p x t) = rotate_pins p t"
  by (simp add: recall_def Let_def split: option.splits)

lemma pin_inv_step:
  assumes "ttl_ok ttl" "pin_inv x u since ttl now p" "now \<le> t" "since \<le> t" "\<forall>v. op \<noteq> Remember x v"
  shows "pin_inv x u since ttl t (pin_step p (t, op))"
proof (cases op)
  case (Remember y v)
  then have y: "y \<noteq> x" using assms(5) by auto
  show ?thesis
  proof (cases "y = []")
    case True
    then show ?thesis using Remember assms(2,3) by (auto simp: remember_def pin_inv_def)
  next
    case False
    then show ?thesis using Remember y pin_inv_rotate(1) [OF assms(1-4)]
      by (auto simp: remember_def Let_def pin_inv_def pin_current_def pin_previous_def pin_gone_def)
  qed
next
  case (Recall y)
  then show ?thesis using pin_inv_rotate(1) [OF assms(1-4)] by simp
qed

lemma pin_inv_run:
  assumes "ttl_ok ttl" "pin_inv x u since ttl now p" "since \<le> now" "sorted (now # map fst es)"
    and "\<forall>(t, op) \<in> set es. \<forall>v. op \<noteq> Remember x v"
  shows "pin_inv x u since ttl (last (now # map fst es)) (pin_run p es)"
  using assms(2-)
proof (induction es arbitrary: p now)
  case (Cons e es)
  obtain t op where e: "e = (t, op)" by force
  have "pin_inv x u since ttl t (pin_step p (t, op))"
    using Cons.prems e by (intro pin_inv_step [OF assms(1) Cons.prems(1)]) auto
  from Cons.IH [OF this] show ?case using Cons.prems e by auto
qed simp

lemma pin_inv_remember:
  assumes "ttl_ok (tp_ttl p)" "x \<noteq> []" "tp_rotated p \<le> since"
  shows "pin_inv x u since (tp_ttl p) since (remember p x u since)"
  using assms unfolding remember_def rotate_cases [OF assms(1)]
  by (auto simp: pin_inv_def pin_current_def Let_def ttl_ok_def)

text \<open>
  The bound of 3 ttl is reached: the table rotates only when it is used, so a pin can be
  recalled almost 3 ttl after it was set, for every ttl of more than two nanoseconds.
\<close>

lemma pin_outlives_two_ttl:
  assumes "ttl_ok ttl" and "2 < ttl" and "x \<noteq> []"
  shows "fst (recall (pin_run (remember (newTxnPins ttl t0) x u t0) [(t0 + 2 * ttl - 1, Recall y)]) x
      (t0 + 3 * ttl - 2)) = Some u"
proof -
  let ?p = "remember (newTxnPins ttl t0) x u t0"
  have p: "?p = \<lparr>tp_ttl = ttl, tp_cur = [x \<mapsto> u], tp_prev = Map.empty, tp_rotated = t0\<rparr>"
    using assms by (simp add: remember_def newTxnPins_def rotate_cases ttl_ok_def)
  have q: "rotate_pins ?p (t0 + 2 * ttl - 1)
      = \<lparr>tp_ttl = ttl, tp_cur = Map.empty, tp_prev = [x \<mapsto> u], tp_rotated = t0 + 2 * ttl - 1\<rparr>"
    using assms unfolding p by (subst rotate_cases) (auto simp: ttl_ok_def)
  have "rotate_pins (rotate_pins ?p (t0 + 2 * ttl - 1)) (t0 + 3 * ttl - 2) = rotate_pins ?p (t0 + 2 * ttl - 1)"
    using assms unfolding q by (subst rotate_cases) (auto simp: ttl_ok_def)
  then show ?thesis by (simp add: recall_def q Let_def)
qed

section \<open>Properties\<close>

text \<open>
  C30. How long a pin lives: whatever else is remembered and recalled in between, a transaction
  remembered at some time is recalled until ttl later, and not recalled from 3 ttl later on. The
  bound of 3 ttl is reached: the table rotates only when it is used, so a single lookup in between
  keeps a pin for almost 3 ttl, where the comment of the type promises at most 2 ttl.
\<close>

theorem pin_lifetime:
  fixes u :: string
  assumes "ttl_ok (tp_ttl p)" and "x \<noteq> []" and "tp_rotated p \<le> since"
    and "sorted (since # map fst es @ [t])" and "\<forall>(t, op) \<in> set es. \<forall>v. op \<noteq> Remember x v"
  defines "found \<equiv> fst (recall (pin_run (remember p x u since) es) x t)"
  shows "(t < since + tp_ttl p \<longrightarrow> found = Some u) \<and> (since + 3 * tp_ttl p \<le> t \<longrightarrow> found = None)
    \<and> (2 < tp_ttl p \<longrightarrow> fst (recall (pin_run (remember (newTxnPins (tp_ttl p) since) x u since)
          [(since + 2 * tp_ttl p - 1, Recall y)]) x (since + 3 * tp_ttl p - 2)) = Some u)"
proof -
  let ?ttl = "tp_ttl p" and ?p = "pin_run (remember p x u since) es"
  let ?now = "last (since # map fst es)"
  have "sorted ((since # map fst es) @ [t])" using assms(4) by simp
  then have srt: "sorted (since # map fst es)" "?now \<le> t" "since \<le> t"
    unfolding sorted_append using last_in_set [of "since # map fst es"] by auto
  have inv: "pin_inv x u since ?ttl ?now ?p"
    using pin_inv_remember [OF assms(1-3)] srt(1) assms(5) by (intro pin_inv_run [OF assms(1)]) auto
  note rot = pin_inv_rotate [OF assms(1) inv srt(2,3)]
  have "found = Some u" if "\<not> pin_gone x (rotate_pins ?p t)"
    using rot(1) that
    by (auto simp: found_def recall_def Let_def pin_inv_def pin_current_def pin_previous_def split: option.splits)
  moreover have "found = None" if "pin_gone x (rotate_pins ?p t)"
    using that by (simp add: found_def recall_def Let_def pin_gone_def)
  ultimately show ?thesis using rot(2,3) pin_outlives_two_ttl [OF assms(1) _ assms(2)] by blast
qed

theorem pin_lifetime_witness:
  "fst (recall (pin_run (remember (newTxnPins 100 0) ''TX'' ''n1'' 0) [(90, Recall ''other'')]) ''TX'' 99) = Some ''n1''
    \<and> fst (recall (pin_run (remember (newTxnPins 100 0) ''TX'' ''n1'' 0) [(199, Recall ''other'')]) ''TX'' 298) = Some ''n1''"
  using pin_lifetime [of "newTxnPins 100 0" "''TX''" 0 "[(90, Recall ''other'')]" 99 "''n1''" "''other''"]
  by (simp add: newTxnPins_def ttl_ok_def max_duration_def)

end
