(* ===== verification/StatsBook.thy ===== *)
theory StatsBook
  imports Eligible
begin

text \<open>
  Passive observation of upstreams (src/internal/app/stats.go): requests in flight, the ring of
  recent outcomes, latency averages, the circuit breaker and the busy mark, with the outcome of one
  forwarded request (src/internal/ports/ports.go). Every method runs under the book's mutex and is
  one step; the clock's time is an argument. A method that would index an empty window (a book
  configured with Window 0) panics: its result is None.
\<close>

section \<open>Definitions\<close>

text \<open>The transport errors the router tells apart: a deadline, a withheld status, any other.\<close>

datatype OutErr = ErrDeadline | ErrRejected int | ErrOther string

record Outcome =
  oc_Status :: int
  oc_Err :: "OutErr option"
  oc_HeadersSent :: bool
  oc_Duration :: Duration
  oc_RetryAfter :: Duration

definition Failed :: "Outcome \<Rightarrow> bool" where
  "Failed o' = (oc_Err o' \<noteq> None \<or> oc_Status o' \<ge> 500 \<or> oc_Status o' = 429)"

record BreakerOptions =
  bo_Threshold :: int
  bo_OpenFor :: Duration
  bo_Window :: nat
  bo_Alpha :: f64

definition DefaultBreaker :: BreakerOptions where
  "DefaultBreaker = \<lparr>bo_Threshold = 5, bo_OpenFor = 10 * Second, bo_Window = 50, bo_Alpha = 1 / 5\<rparr>"

record upstreamStats =
  us_latency :: "string \<rightharpoonup> f64"
  us_window :: "bool list"
  us_windowPos :: nat
  us_windowFull :: bool
  us_inflight :: int
  us_failures :: int
  us_probing :: bool
  us_openUntil :: Time
  us_throttledUntil :: Time
  us_busyUntil :: Time

record StatsBook =
  sb_opts :: BreakerOptions
  sb_m :: "string \<rightharpoonup> upstreamStats"

definition NewStatsBook :: "BreakerOptions \<Rightarrow> StatsBook" where
  "NewStatsBook opts = \<lparr>sb_opts = (if bo_Threshold opts = 0 then DefaultBreaker else opts), sb_m = Map.empty\<rparr>"

definition new_stats :: "BreakerOptions \<Rightarrow> upstreamStats" where
  "new_stats opts = \<lparr>us_latency = Map.empty, us_window = replicate (bo_Window opts) False, us_windowPos = 0,
     us_windowFull = False, us_inflight = 0, us_failures = 0, us_probing = False, us_openUntil = 0,
     us_throttledUntil = 0, us_busyUntil = 0\<rparr>"

definition book_get :: "StatsBook \<Rightarrow> string \<Rightarrow> upstreamStats" where
  "book_get b i = (case sb_m b i of Some s \<Rightarrow> s | None \<Rightarrow> new_stats (sb_opts b))"

definition book_put :: "StatsBook \<Rightarrow> string \<Rightarrow> upstreamStats \<Rightarrow> StatsBook" where
  "book_put b i s = b\<lparr>sb_m := (sb_m b)(i \<mapsto> s)\<rparr>"

text \<open>Begin, and the release function it returns, which the caller runs once.\<close>

definition Begin :: "StatsBook \<Rightarrow> string \<Rightarrow> StatsBook" where
  "Begin b i = book_put b i ((book_get b i)\<lparr>us_inflight := us_inflight (book_get b i) + 1\<rparr>)"

definition release :: "StatsBook \<Rightarrow> string \<Rightarrow> StatsBook" where
  "release b i = book_put b i ((book_get b i)\<lparr>us_inflight := us_inflight (book_get b i) - 1\<rparr>)"

definition push_window :: "bool \<Rightarrow> upstreamStats \<Rightarrow> upstreamStats" where
  "push_window failed s =
     (let pos = (us_windowPos s + 1) mod length (us_window s) in
      s\<lparr>us_window := (us_window s)[us_windowPos s := failed], us_windowPos := pos,
        us_windowFull := us_windowFull s \<or> pos = 0\<rparr>)"

definition record_outcome :: "BreakerOptions \<Rightarrow> Time \<Rightarrow> string \<Rightarrow> Outcome \<Rightarrow> upstreamStats \<Rightarrow> upstreamStats" where
  "record_outcome opts now key out s0 =
     (let failed = Failed out; s = push_window failed s0 in
      if failed then
        let s = s\<lparr>us_failures := us_failures s + 1\<rparr>;
            s = (if us_failures s \<ge> bo_Threshold opts \<or> us_probing s
                 then s\<lparr>us_openUntil := now + bo_OpenFor opts, us_probing := True\<rparr> else s)
        in (if oc_Status out = 429 then s\<lparr>us_throttledUntil := now + bo_OpenFor opts\<rparr> else s)
      else
        let ms = of_int (oc_Duration out) / of_int Millisecond :: f64;
            s = s\<lparr>us_failures := 0, us_probing := False\<rparr>
        in s\<lparr>us_latency := (us_latency s)(key \<mapsto>
             (case us_latency s key of Some prev \<Rightarrow> prev + bo_Alpha opts * (ms - prev) | None \<Rightarrow> ms))\<rparr>)"

definition Record :: "StatsBook \<Rightarrow> Time \<Rightarrow> string \<Rightarrow> string \<Rightarrow> Outcome \<Rightarrow> StatsBook option" where
  "Record b now i key out =
     (let s = book_get b i in
      if us_windowPos s < length (us_window s)
      then Some (book_put b i (record_outcome (sb_opts b) now key out s)) else None)"

definition mark_busy :: "StatsBook \<Rightarrow> Time \<Rightarrow> string \<Rightarrow> Duration \<Rightarrow> StatsBook" where
  "mark_busy b now i d =
     (let s = book_get b i in
      if now + d > us_busyUntil s then book_put b i (s\<lparr>us_busyUntil := now + d\<rparr>) else book_put b i s)"

text \<open>The outcomes of the ring that count: all of them once it has wrapped around.\<close>

definition counted :: "upstreamStats \<Rightarrow> bool list" where
  "counted s = take (if us_windowFull s then length (us_window s) else us_windowPos s) (us_window s)"

definition snapshot_of :: "Time \<Rightarrow> upstreamStats \<Rightarrow> Stats" where
  "snapshot_of now s =
     (let n = length (counted s); fails = length (filter id (counted s)) in
      \<lparr>LatencyMS = us_latency s, ErrorRate = (if n > 0 then of_nat fails / of_nat n else 0),
       Inflight = us_inflight s, BreakerOpen = (now < us_openUntil s),
       Throttled = (now < us_throttledUntil s), Busy = (now < us_busyUntil s)\<rparr>)"

definition Snapshot :: "StatsBook \<Rightarrow> Time \<Rightarrow> string \<Rightarrow> Stats" where
  "Snapshot b now i = (case sb_m b i of None \<Rightarrow> zero_stats | Some s \<Rightarrow> snapshot_of now s)"

text \<open>A run of outcomes of one upstream, each with its time and stat key.\<close>

fun record_all :: "BreakerOptions \<Rightarrow> (Time \<times> string \<times> Outcome) list \<Rightarrow> upstreamStats \<Rightarrow> upstreamStats" where
  "record_all opts [] s = s"
| "record_all opts ((now, key, out) # evs) s = record_all opts evs (record_outcome opts now key out s)"

text \<open>What holds of an upstream's figures: a ring of the configured size and a position in it.\<close>

definition stats_ok :: "BreakerOptions \<Rightarrow> upstreamStats \<Rightarrow> bool" where
  "stats_ok opts s = (length (us_window s) = bo_Window opts \<and> 0 < bo_Window opts
     \<and> us_windowPos s < bo_Window opts \<and> 0 \<le> us_failures s)"

text \<open>The ring holds, oldest first, the last outcomes: those behind the position, then those before it.\<close>

definition ring :: "upstreamStats \<Rightarrow> bool list" where
  "ring s = (if us_windowFull s then drop (us_windowPos s) (us_window s) @ take (us_windowPos s) (us_window s)
             else take (us_windowPos s) (us_window s))"

text \<open>The last n elements of a list.\<close>

definition last_n :: "nat \<Rightarrow> 'a list \<Rightarrow> 'a list" where
  "last_n n xs = drop (length xs - n) xs"

section \<open>Lemmas\<close>

lemma stats_ok_new [simp]: "0 < bo_Window opts \<Longrightarrow> stats_ok opts (new_stats opts)"
  by (simp add: stats_ok_def new_stats_def)

lemma stats_ok_record [simp]: "stats_ok opts s \<Longrightarrow> stats_ok opts (record_outcome opts now key out s)"
  by (auto simp: stats_ok_def record_outcome_def push_window_def Let_def)

lemma stats_ok_record_all [simp]: "stats_ok opts s \<Longrightarrow> stats_ok opts (record_all opts evs s)"
  by (induction opts evs s rule: record_all.induct) auto

lemma record_all_append [simp]: "record_all opts (xs @ ys) s = record_all opts ys (record_all opts xs s)"
  by (induction opts xs s rule: record_all.induct) auto

lemma ring_record [simp]:
  "ring (record_outcome opts now key out s) = ring (push_window (Failed out) s)"
  by (simp add: record_outcome_def ring_def Let_def)

text \<open>Pushing an outcome keeps the last outcomes, as many as the ring has room for.\<close>

lemma ring_push:
  assumes "stats_ok opts s"
  shows "ring (push_window f s) = (if length (ring s) < bo_Window opts then ring s @ [f] else tl (ring s) @ [f])"
proof -
  let ?w = "us_window s" and ?p = "us_windowPos s" and ?W = "bo_Window opts"
  have W: "length ?w = ?W" "?p < ?W" using assms by (auto simp: stats_ok_def)
  show ?thesis
  proof (cases "?p + 1 = ?W")
    case True
    have up: "?w[?p := f] = take ?p ?w @ [f]"
      using True W by (simp add: upd_conv_take_nth_drop)
    show ?thesis
    proof (cases "us_windowFull s")
      case full: True
      have "drop ?p ?w = [?w ! ?p]" using True W by (metis Cons_nth_drop_Suc Suc_eq_plus1 drop_all order_refl)
      then show ?thesis using full True W up by (simp add: ring_def push_window_def Let_def)
    next
      case False
      then show ?thesis using True W up by (simp add: ring_def push_window_def Let_def)
    qed
  next
    case False
    then have p: "(?p + 1) mod ?W = ?p + 1" "?p + 1 < ?W" using W by auto
    have take: "take (?p + 1) (?w[?p := f]) = take ?p ?w @ [f]"
      using W by (simp add: take_Suc_conv_app_nth)
    have "drop (?p + 1) (?w[?p := f]) = drop (?p + 1) ?w" by (rule drop_update_cancel) simp
    then have drop: "drop (?p + 1) (?w[?p := f]) = tl (drop ?p ?w)" by (simp add: drop_Suc tl_drop)
    have ne: "drop ?p ?w \<noteq> []" using W by simp
    show ?thesis using p take drop ne W by (simp add: ring_def push_window_def Let_def)
  qed
qed

lemma counted_ring: "length (counted s) = length (ring s)" "mset (counted s) = mset (ring s)"
proof -
  have "mset (us_window s) = mset (drop n (us_window s)) + mset (take n (us_window s))" for n
    by (metis append_take_drop_id mset_append union_commute)
  then show "mset (counted s) = mset (ring s)" by (auto simp: counted_def ring_def)
  then show "length (counted s) = length (ring s)" by (metis size_mset)
qed

text \<open>The ring after a run: the last outcomes of the run.\<close>

lemma last_n_snoc: "0 < n \<Longrightarrow> last_n n (xs @ [x]) = (if length xs < n then xs @ [x] else tl (last_n n xs) @ [x])"
  by (auto simp: last_n_def drop_Suc tl_drop Suc_diff_le not_less)

lemma ring_record_all:
  assumes "0 < bo_Window opts"
  shows "ring (record_all opts evs (new_stats opts)) = last_n (bo_Window opts) (map (\<lambda>(_, _, out). Failed out) evs)"
proof (induction evs rule: rev_induct)
  case Nil
  then show ?case by (simp add: ring_def new_stats_def last_n_def)
next
  case (snoc ev evs)
  obtain now key out where ev: "ev = (now, key, out)" by (metis prod_cases3)
  let ?s = "record_all opts evs (new_stats opts)"
  let ?fs = "map (\<lambda>(_, _, out). Failed out) evs"
  have "stats_ok opts ?s" using assms by simp
  note push = ring_push [OF this, of "Failed out"]
  have "length (ring ?s) < bo_Window opts \<longleftrightarrow> length ?fs < bo_Window opts"
    unfolding snoc.IH by (auto simp: last_n_def)
  moreover have "length ?fs < bo_Window opts \<Longrightarrow> ring ?s = ?fs" unfolding snoc.IH by (simp add: last_n_def)
  ultimately have "ring (push_window (Failed out) ?s) = last_n (bo_Window opts) (?fs @ [Failed out])"
    unfolding push last_n_snoc [OF assms] using snoc.IH by simp
  then show ?case by (simp add: ev)
qed

lemma book_get_put [simp]: "book_get (book_put b i s) j = (if j = i then s else book_get b j)"
  by (simp add: book_get_def book_put_def split: option.splits)

lemma Busy_snapshot_of [simp]: "Busy (snapshot_of t s) \<longleftrightarrow> t < us_busyUntil s"
  by (simp add: snapshot_of_def Let_def)

lemma Busy_Snapshot: "Busy (Snapshot b t j) \<Longrightarrow> t < us_busyUntil (book_get b j)"
  by (auto simp: Snapshot_def book_get_def zero_stats_def split: option.splits)

lemma record_busyUntil [simp]: "us_busyUntil (record_outcome opts now key out s) = us_busyUntil s"
  by (simp add: record_outcome_def push_window_def Let_def)

lemma Snapshot_put [simp]: "Snapshot (book_put b i s) now j = (if j = i then snapshot_of now s else Snapshot b now j)"
  by (simp add: Snapshot_def book_put_def)

lemma mark_busy_until: "us_busyUntil (book_get (mark_busy b now i d) i) = max (now + d) (us_busyUntil (book_get b i))"
  by (auto simp: mark_busy_def Let_def)

text \<open>Consecutive failures: the breaker opens at the threshold and stays open from then on.\<close>

lemma record_failures:
  assumes "1 \<le> bo_Threshold opts" "\<forall>(_, _, out) \<in> set evs. Failed out"
    and "us_failures s = int k" "us_probing s \<longleftrightarrow> int k \<ge> bo_Threshold opts"
  shows "us_failures (record_all opts evs s) = int (k + length evs)
    \<and> (us_probing (record_all opts evs s) \<longleftrightarrow> int (k + length evs) \<ge> bo_Threshold opts)
    \<and> us_openUntil (record_all opts evs s)
      = (if evs \<noteq> [] \<and> int (k + length evs) \<ge> bo_Threshold opts then fst (last evs) + bo_OpenFor opts
         else us_openUntil s)"
  using assms(2)
proof (induction evs rule: rev_induct)
  case Nil
  then show ?case using assms by simp
next
  case (snoc ev evs)
  obtain now key out where ev: "ev = (now, key, out)" by (metis prod_cases3)
  have f: "Failed out" using snoc.prems ev by simp
  show ?case using snoc.IH snoc.prems f
    by (auto simp: ev record_outcome_def push_window_def Let_def)
qed

section \<open>The interface the router relies on\<close>

text \<open>
  A book of observations, as the router uses it: a snapshot per upstream at an instant, a mark that
  an upstream is busy for a while, and the recording of an outcome. The law of the mark is all that
  is needed to know that heavy requests stay away from a busy node.
\<close>

locale observations =
  fixes snap :: "'b \<Rightarrow> Time \<Rightarrow> string \<Rightarrow> Stats" and busy :: "'b \<Rightarrow> Time \<Rightarrow> string \<Rightarrow> Duration \<Rightarrow> 'b"
    and note' :: "'b \<Rightarrow> Time \<Rightarrow> string \<Rightarrow> string \<Rightarrow> Outcome \<Rightarrow> 'b option"
  assumes busy_held: "t < now + d \<Longrightarrow> Busy (snap (busy b now i d) t i)"
    and busy_other: "i \<noteq> j \<Longrightarrow> snap (busy b now i d) t j = snap b t j"
    and note_keeps_busy: "note' b now i key out = Some b' \<Longrightarrow> Busy (snap b t j) \<Longrightarrow> Busy (snap b' t j)"
    and busy_keeps_busy: "Busy (snap b t j) \<Longrightarrow> Busy (snap (busy b now i d) t j)"
begin

lemma busy_blocks_heavy:
  assumes "u_Stats u = snap (busy b now i d) t i" "t < now + d" "Heavy c"
  shows "\<not> Eligible u c best tol"
  using eligible_blocked(6) [of u c best tol] busy_held [OF assms(2)] assms(1,3) by auto

end

interpretation book: observations Snapshot mark_busy Record
proof
  fix t now :: Time and d :: Duration and b i
  assume "t < now + d"
  then show "Busy (Snapshot (mark_busy b now i d) t i)"
    by (auto simp: mark_busy_def Let_def)
next
  fix b now i d t j
  show "i \<noteq> j \<Longrightarrow> Snapshot (mark_busy b now i d) t j = Snapshot b t j" by (auto simp: mark_busy_def Let_def)
  show "Busy (Snapshot b t j) \<Longrightarrow> Busy (Snapshot (mark_busy b now i d) t j)"
    using Busy_Snapshot [of b t j] by (auto simp: mark_busy_def Let_def)
next
  fix b now i key out b' t j
  assume "Record b now i key out = Some b'" "Busy (Snapshot b t j)"
  then show "Busy (Snapshot b' t j)"
    using Busy_Snapshot [of b t j] by (auto simp: Record_def Let_def split: if_splits)
qed

section \<open>Properties\<close>

text \<open>
  The error rate the selector sees is exact: after any run of outcomes of an upstream it is the
  share of failures among the last Window of them, however often the ring has wrapped around, and
  so between 0 and 1.
\<close>

theorem error_rate_exact:
  assumes "0 < bo_Window opts"
  defines "lasts \<equiv> \<lambda>evs. last_n (bo_Window opts) (map (\<lambda>(_, _, out). Failed out) evs)"
  shows "ErrorRate (snapshot_of now (record_all opts evs (new_stats opts)))
      = (if evs = [] then 0 else of_nat (length (filter id (lasts evs))) / of_nat (min (length evs) (bo_Window opts)))"
proof -
  let ?s = "record_all opts evs (new_stats opts)"
  have "filter_mset id (mset (counted ?s)) = filter_mset id (mset (ring ?s))" by (simp add: counted_ring)
  then have "length (filter id (counted ?s)) = length (filter id (ring ?s))"
    by (metis mset_filter size_mset)
  moreover have "length (ring ?s) = min (length evs) (bo_Window opts)"
    unfolding ring_record_all [OF assms(1)] by (simp add: last_n_def min_def)
  ultimately show ?thesis using assms(1) ring_record_all [OF assms(1), of evs]
    by (simp add: snapshot_of_def Let_def counted_ring(1) lasts_def)
qed

theorem error_rate_exact_witness:
  "ErrorRate (snapshot_of 9 (record_all (DefaultBreaker\<lparr>bo_Window := 2\<rparr>)
      [(1, ''default'', \<lparr>oc_Status = 200, oc_Err = None, oc_HeadersSent = True, oc_Duration = 5, oc_RetryAfter = 0\<rparr>),
       (2, ''default'', \<lparr>oc_Status = 502, oc_Err = None, oc_HeadersSent = False, oc_Duration = 5, oc_RetryAfter = 0\<rparr>),
       (3, ''default'', \<lparr>oc_Status = 0, oc_Err = Some ErrDeadline, oc_HeadersSent = False, oc_Duration = 5, oc_RetryAfter = 0\<rparr>)]
      (new_stats (DefaultBreaker\<lparr>bo_Window := 2\<rparr>)))) = 1"
  by (subst error_rate_exact) (simp_all add: last_n_def Failed_def)

text \<open>
  The circuit breaker: from a success on (or from the start) the breaker opens with the
  Threshold-th consecutive failure, not before, and every further failure, such as that of the
  request that probes a half-open upstream, holds it open for OpenFor again; a success resets it.
\<close>

theorem breaker_exact:
  assumes "1 \<le> bo_Threshold opts" and "\<forall>(_, _, out) \<in> set fails. Failed out" and "fails \<noteq> []"
    and "us_failures s = 0" and "\<not> us_probing s" and "us_openUntil s \<le> t" and "\<not> Failed ok"
  defines "s' \<equiv> record_all opts fails s"
  shows "(BreakerOpen (snapshot_of t s') \<longleftrightarrow> int (length fails) \<ge> bo_Threshold opts \<and> t < fst (last fails) + bo_OpenFor opts)
    \<and> us_failures (record_outcome opts t key ok s') = 0 \<and> \<not> us_probing (record_outcome opts t key ok s')"
proof -
  have "us_openUntil s' = (if int (length fails) \<ge> bo_Threshold opts then fst (last fails) + bo_OpenFor opts
      else us_openUntil s)"
    using record_failures [OF assms(1,2), of s 0] assms(1,3,4,5) by (simp add: s'_def)
  then show ?thesis using assms(6,7) by (simp add: snapshot_of_def Let_def record_outcome_def)
qed

theorem breaker_exact_witness:
  "BreakerOpen (snapshot_of 4 (record_all (DefaultBreaker\<lparr>bo_Threshold := 2\<rparr>)
      [(1, ''default'', \<lparr>oc_Status = 502, oc_Err = None, oc_HeadersSent = False, oc_Duration = 5, oc_RetryAfter = 0\<rparr>),
       (3, ''default'', \<lparr>oc_Status = 0, oc_Err = Some ErrDeadline, oc_HeadersSent = False, oc_Duration = 5, oc_RetryAfter = 0\<rparr>)]
      (new_stats DefaultBreaker)))"
proof -
  let ?o = "DefaultBreaker\<lparr>bo_Threshold := 2\<rparr>" and ?ok = "\<lparr>oc_Status = 200, oc_Err = None, oc_HeadersSent = True,
    oc_Duration = 5, oc_RetryAfter = 0\<rparr>"
  show ?thesis
    using breaker_exact [of ?o "[(1, ''default'', \<lparr>oc_Status = 502, oc_Err = None, oc_HeadersSent = False, oc_Duration = 5, oc_RetryAfter = 0\<rparr>),
       (3, ''default'', \<lparr>oc_Status = 0, oc_Err = Some ErrDeadline, oc_HeadersSent = False, oc_Duration = 5, oc_RetryAfter = 0\<rparr>)]"
       "new_stats DefaultBreaker" 4 ?ok "''default''"]
    by (simp add: DefaultBreaker_def new_stats_def Failed_def Second_def)
qed

end
