(* ===== verification/Proxy.thy ===== *)
theory Proxy
  imports StatsBook
begin

text \<open>
  The forwarder (src/internal/adapters/proxy/proxy.go): what becomes of one attempt at one upstream.
  The reverse proxy of net/http/httputil is the standard library's; what it does with an answer is
  modelled by its effect: an answer is streamed to the client unless the hook of the forwarder
  rejects it, and a transport error or a rejection leaves the client's response untouched. An answer
  that breaks off while it is streamed (the reverse proxy aborts the connection) and informational
  (1xx) answers are not modelled.
\<close>

section \<open>Definitions\<close>

text \<open>What the upstream does: the transport fails, or it answers with a status and a Retry-After.\<close>

datatype upstream_reply = Transport OutErr | Replied int string

text \<open>strconv.Atoi.\<close>

definition Atoi :: "string \<Rightarrow> int option" where
  "Atoi s =
     (let (sign, digits) = (case s of [] \<Rightarrow> (1, []) | c # cs \<Rightarrow>
            if c = CHR ''-'' then (- 1, cs) else if c = CHR ''+'' then (1, cs) else (1, s)) in
      if digits = [] \<or> \<not> list_all is_digit digits then None
      else let n = sign * dec_value digits in
        if - (2 ^ 63) \<le> n \<and> n < 2 ^ 63 then Some n else None)"

definition retryAfter :: "string \<Rightarrow> Duration" where
  "retryAfter v =
     (case Atoi (TrimSpace v) of None \<Rightarrow> 0 | Some n \<Rightarrow> if n \<le> 0 then 0 else wrap64 (n * Second))"

text \<open>The statuses New configures as failures of the upstream.\<close>

definition RetryableStatus :: "int \<Rightarrow> bool" where
  "RetryableStatus st = (st = 502 \<or> st = 503 \<or> st = 504)"

record Target =
  tg_BaseURL :: string
  tg_Token :: string
  tg_RetryStatus :: "int list"
  tg_PassStatus :: "int list"

text \<open>ModifyResponse: whether an answer is withheld from the client.\<close>

definition withheld :: "Target \<Rightarrow> int \<Rightarrow> bool" where
  "withheld t st = ((RetryableStatus st \<or> st \<in> set (tg_RetryStatus t)) \<and> st \<notin> set (tg_PassStatus t))"

text \<open>Forward; \<open>url_ok\<close> is whether url.Parse accepts the target's base URL.\<close>

definition Forward :: "(string \<Rightarrow> bool) \<Rightarrow> Target \<Rightarrow> upstream_reply \<Rightarrow> Duration \<Rightarrow> Outcome" where
  "Forward url_ok t reply dur =
     (if \<not> url_ok (tg_BaseURL t) then
        \<lparr>oc_Status = 0, oc_Err = Some (ErrOther ''url''), oc_HeadersSent = False, oc_Duration = dur, oc_RetryAfter = 0\<rparr>
      else case reply of
        Transport e \<Rightarrow>
          \<lparr>oc_Status = 0, oc_Err = Some e, oc_HeadersSent = False, oc_Duration = dur, oc_RetryAfter = 0\<rparr>
      | Replied st ra \<Rightarrow>
          if withheld t st
          then \<lparr>oc_Status = st, oc_Err = Some (ErrRejected st), oc_HeadersSent = False, oc_Duration = dur,
                 oc_RetryAfter = retryAfter ra\<rparr>
          else \<lparr>oc_Status = st, oc_Err = None, oc_HeadersSent = True, oc_Duration = dur,
                 oc_RetryAfter = retryAfter ra\<rparr>)"

section \<open>Lemmas\<close>

text \<open>The contract of the forwarder: an attempt reaches the client exactly when it has no error.\<close>

lemma Forward_HeadersSent: "oc_HeadersSent (Forward url_ok t reply dur) \<longleftrightarrow> oc_Err (Forward url_ok t reply dur) = None"
  by (simp add: Forward_def split: upstream_reply.splits)

lemma Forward_not_Failed: "\<not> Failed (Forward url_ok t reply dur) \<Longrightarrow> oc_HeadersSent (Forward url_ok t reply dur)"
  by (auto simp: Forward_HeadersSent Failed_def)

lemma Forward_withheld:
  "url_ok (tg_BaseURL t) \<Longrightarrow> oc_HeadersSent (Forward url_ok t (Replied st ra) dur) \<longleftrightarrow> \<not> withheld t st"
  by (simp add: Forward_def)

end
