(* ===== verification/Router.thy ===== *)
theory Router
  imports Selection LimiterRate TxnPins Proxy "HOL-Library.Monad_Syntax"
begin

text \<open>
  The router (src/internal/app/router.go): options, authorisation, the choice of an upstream, one
  attempt at one upstream with what it records, the attempts of one request, and the default
  handler. The router's state is a record; a handler returns the answer the client gets, the
  upstreams a request was sent to, in order, and the new state, or None for a panic. What the
  environment decides while a handler runs is an argument: the replies of the upstreams, the
  clock, whether the client has left or its allowance has run out at each point the code looks,
  the result of checking the externals with the snapshot taken next, and the random numbers.
  Metrics, logs and CORS headers are not part of the model.
\<close>

section \<open>Options and state\<close>

record RouterOptions =
  ro_Mode :: Mode
  ro_Balancer :: bool
  ro_ClientToken :: string
  ro_AdminToken :: string
  ro_SyncTolerance :: u64
  ro_UpstreamTimeout :: Duration
  ro_RequestTimeout :: Duration
  ro_StatusTimeout :: Duration
  ro_WaitTimeout :: Duration
  ro_PendingTTL :: Duration
  ro_RetryBudget :: int
  ro_MultiBroadcast :: bool
  ro_Weights :: Weights
  ro_Version :: string
  ro_RateLimit :: "LimiterOptions option"

definition router_defaults :: "RouterOptions \<Rightarrow> RouterOptions" where
  "router_defaults o0 =
     (let o1 = (if ro_Mode o0 = [] then o0\<lparr>ro_Mode := ModeFallback\<rparr> else o0);
          o2 = (if ro_UpstreamTimeout o1 = 0 then o1\<lparr>ro_UpstreamTimeout := 60 * Second\<rparr> else o1);
          o3 = (if ro_RequestTimeout o2 = 0 then o2\<lparr>ro_RequestTimeout := 2 * ro_UpstreamTimeout o2\<rparr> else o2);
          o4 = (if ro_StatusTimeout o3 = 0 then o3\<lparr>ro_StatusTimeout := 10 * Second\<rparr> else o3);
          o5 = (if ro_WaitTimeout o4 = 0 then o4\<lparr>ro_WaitTimeout := 60 * Second\<rparr> else o4)
      in (if ro_PendingTTL o5 = 0 then o5\<lparr>ro_PendingTTL := 10 * Second\<rparr> else o5))"

record Router =
  r_opts :: RouterOptions
  r_stats :: StatsBook
  r_limiter :: "Limiter option"
  r_inflight :: int
  r_draining :: bool
  r_pins :: txnPins

definition NewRouter :: "(string \<Rightarrow> 8 word list) \<Rightarrow> RouterOptions \<Rightarrow> StatsBook \<Rightarrow> Time \<Rightarrow> Router" where
  "NewRouter sha o0 stats now =
     (let o' = router_defaults o0 in
      \<lparr>r_opts = o', r_stats = stats,
       r_limiter = (case ro_RateLimit o' of None \<Rightarrow> None | Some lo \<Rightarrow> Some (NewLimiter sha lo)),
       r_inflight = 0, r_draining = False, r_pins = newTxnPins (ro_PendingTTL o') now\<rparr>)"

text \<open>
  A request. A body is absent, or has a Content-Length and its bytes; None instead of the bytes is
  a body whose read fails.
\<close>

datatype body = NoBody | Body int "8 word list option"

record Request =
  rq_Method :: string
  rq_Path :: string
  rq_RawQuery :: string
  rq_Header :: "string \<Rightarrow> string list"
  rq_RemoteAddr :: string
  rq_Body :: body

text \<open>http.Header.Get.\<close>

definition Header_Get :: "(string \<Rightarrow> string list) \<Rightarrow> string \<Rightarrow> string" where
  "Header_Get h k = (case h k of [] \<Rightarrow> [] | v # _ \<Rightarrow> v)"

text \<open>
  What the client gets: nothing (it has left), an upstream's answer as the forwarder streams it (id
  of the upstream, status, body), a message of the agent itself (status, headers, text), a denial
  of the limiter, an upstream's buffered answer (id, status, headers, body), or a JSON document of
  the agent.
\<close>

datatype answer =
    Silence
  | Streamed string int string
  | Message int "(string \<times> string) list" string
  | Denied Denial
  | Relayed string int "(string \<times> string list) list" string
  | LimitsReply FleetSimulateLimitsReply
  | AgentReply int string

section \<open>Authorisation\<close>

text \<open>tokenEqual compares in constant time; the result is that of comparing the tokens.\<close>

definition tokenEqual :: "string \<Rightarrow> string \<Rightarrow> bool" where
  "tokenEqual got want = (got = want)"

definition isHealth :: "Request \<Rightarrow> RequestClass \<Rightarrow> bool" where
  "isHealth req c = (rc_Agent c \<and> TrimSuffix (rq_Path req) ''/'' = ''/mesh/health'')"

definition clientIP :: "Request \<Rightarrow> string" where
  "clientIP req =
     (let ip = TrimSpace (fst (Cut (Header_Get (rq_Header req) ''X-Forwarded-For'') (CHR '','')));
          ip = (if ip = [] then TrimSpace (Header_Get (rq_Header req) ''X-Real-IP'') else ip);
          ip = (if ip = [] then
                  (case SplitHostPort (rq_RemoteAddr req) of Some (host, _) \<Rightarrow> host
                   | None \<Rightarrow> rq_RemoteAddr req)
                else ip)
      in TrimPrefix ip ''::ffff:'')"

text \<open>
  authorize: the identity a request is billed to, or the status and message it is refused with.
  \<open>sha\<close> is the hash of tokens and \<open>ckey\<close> the key of the client's address (Limiter.clientKey).
\<close>

definition exempt :: Identity where
  "exempt = \<lparr>idn_Exempt = True, idn_Key = [], idn_Plan = []\<rparr>"

definition authorize ::
  "(string \<Rightarrow> 8 word list) \<Rightarrow> (Request \<Rightarrow> string) \<Rightarrow> Router \<Rightarrow> Request \<Rightarrow> RequestClass \<Rightarrow> (int \<times> string) + Identity" where
  "authorize sha ckey r req c =
     (let tok = Header_Get (rq_Header req) ''X-Algo-API-Token'';
          admin = (ro_AdminToken (r_opts r) \<noteq> [] \<and> tokenEqual tok (ro_AdminToken (r_opts r)));
          refused = Inl (401, ''Invalid API Token'')
      in if admin \<or> isHealth req c then Inr exempt
         else if rc_Agent c \<and> ro_AdminToken (r_opts r) = [] \<and> ro_ClientToken (r_opts r) = [] \<and> r_limiter r = None
         then Inr exempt
         else if rc_Agent c \<and> ro_AdminToken (r_opts r) = []
         then Inl (403, ''algod-mesh: /mesh endpoints need an admin token, and none is configured'')
         else if rc_Agent c then refused
         else (case r_limiter r of
                 Some l \<Rightarrow> (case Identify l sha (rq_RemoteAddr req) (ckey req) tok of
                              Some i \<Rightarrow> Inr i | None \<Rightarrow> refused)
               | None \<Rightarrow> if ro_ClientToken (r_opts r) = [] \<or> tokenEqual tok (ro_ClientToken (r_opts r))
                         then Inr exempt else refused))"

section \<open>Selection\<close>

type_synonym rand = "(nat \<Rightarrow> nat \<Rightarrow> nat) option"

definition router_sel :: "RouterOptions \<Rightarrow> rand \<Rightarrow> Upstream list \<Rightarrow> RequestClass \<Rightarrow> u64 \<Rightarrow> Selection option" where
  "router_sel o' rnd cands c best = Select (ro_Mode o') cands c best (ro_SyncTolerance o') (ro_Weights o') rnd"

definition mayUseExternals :: "RequestClass \<Rightarrow> bool" where
  "mayUseExternals c = (\<not> rc_LocalOnly c)"

text \<open>
  pick. \<open>check\<close> is the result of checking the externals: None when none of them answers, else the
  snapshot of the directory taken next. The candidates and best round returned are those the
  caller reports.
\<close>

definition pick ::
  "RouterOptions \<Rightarrow> (nat \<Rightarrow> rand) \<Rightarrow> (Upstream list \<times> u64) option \<Rightarrow> RequestClass \<Rightarrow> Upstream list \<Rightarrow> u64
   \<Rightarrow> Selection option \<times> Upstream list \<times> u64" where
  "pick o' rnd check c cands best =
     (case router_sel o' (rnd 0) cands c best of
        Some s \<Rightarrow> (Some s, cands, best)
      | None \<Rightarrow>
        if \<not> mayUseExternals c then (None, cands, best)
        else (case check of
                None \<Rightarrow> (None, cands, best)
              | Some (cands', best') \<Rightarrow> (router_sel o' (rnd 1) cands' c best', cands', best')))"

section \<open>One attempt at one upstream\<close>

text \<open>
  What happens during one attempt: the time left when it would start, the upstream's reply with the
  values of its effort header and its body, its duration, the clock, and whether the client has
  left or its allowance has run out, as forward, its caller and answerFailure look at it in turn.
\<close>

record attempt =
  at_timeLeft :: bool
  at_reply :: upstream_reply
  at_effort :: "string list"
  at_body :: string
  at_duration :: Duration
  at_now :: Time
  at_gone :: bool
  at_quota :: bool
  at_left :: bool
  at_cut :: bool
  at_late :: bool

definition maxBusy :: Duration where "maxBusy = 10 * Second"

definition timeLimitPass :: "int list" where "timeLimitPass = [504]"

definition timeLimited :: "RequestClass \<Rightarrow> bool" where
  "timeLimited c = (rc_Simulate c \<or> rc_Deltas c \<or> rc_Versions c)"

text \<open>effortReader: what is left of an answer's effort header, and the limiter.\<close>

definition effortReader :: "nat \<Rightarrow> Upstream \<Rightarrow> string list \<Rightarrow> Limiter \<Rightarrow> string list \<times> Limiter" where
  "effortReader t u vs l =
     (if vs = [] then (vs, l)
      else if u_Kind u = KindExternal then ([], l)
      else (case ParseEffort (Join vs '','') of None \<Rightarrow> ([], l) | Some e \<Rightarrow> ([], Reported t e l)))"

text \<open>The target of an attempt, and its outcome.\<close>

definition target_of :: "Upstream \<Rightarrow> RequestClass \<Rightarrow> int list \<Rightarrow> Target" where
  "target_of u c retry = \<lparr>tg_BaseURL = u_BaseURL u, tg_Token = u_Token u, tg_RetryStatus = retry,
     tg_PassStatus = (if timeLimited c then timeLimitPass else [])\<rparr>"

definition outcome_of :: "(string \<Rightarrow> bool) \<Rightarrow> RequestClass \<Rightarrow> int list \<Rightarrow> Upstream \<Rightarrow> attempt \<Rightarrow> Outcome" where
  "outcome_of url_ok c retry u a = Forward url_ok (target_of u c retry) (at_reply a) (at_duration a)"

text \<open>The part of forward that tells the book of observations about an outcome.\<close>

definition account :: "RequestClass \<Rightarrow> Upstream \<Rightarrow> attempt \<Rightarrow> Outcome \<Rightarrow> StatsBook \<Rightarrow> StatsBook option" where
  "account c u a out b =
     (if at_gone a \<or> at_quota a then Some b
      else if timeLimited c \<and> oc_Status out = 504 then Some b
      else if Heavy c \<and> oc_Status out = 503 \<and> oc_RetryAfter out > 0
      then Some (mark_busy b (at_now a) (u_ID u) (min (oc_RetryAfter out) maxBusy))
      else Record b (at_now a) (u_ID u) (StatKey c) out)"

text \<open>What an answer of the upstream makes of the limiter, when the request is billed.\<close>

definition effort_billed ::
  "(string \<Rightarrow> bool) \<Rightarrow> nat option \<Rightarrow> Upstream \<Rightarrow> attempt \<Rightarrow> Limiter option \<Rightarrow> Limiter option" where
  "effort_billed url_ok tid u a l =
     (case (tid, at_reply a) of
        (Some t, Replied _ _) \<Rightarrow>
          if url_ok (u_BaseURL u) then map_option (\<lambda>l. snd (effortReader t u (at_effort a) l)) l else l
      | _ \<Rightarrow> l)"

definition forward ::
  "(string \<Rightarrow> bool) \<Rightarrow> nat option \<Rightarrow> RequestClass \<Rightarrow> int list \<Rightarrow> Upstream \<Rightarrow> attempt \<Rightarrow> Router
   \<Rightarrow> (Outcome \<times> Router) option" where
  "forward url_ok tid c retry u a r =
     (let out = outcome_of url_ok c retry u a;
          b = release (Begin (r_stats r) (u_ID u)) (u_ID u)
      in do {
        b' \<leftarrow> account c u a out b;
        Some (out, r\<lparr>r_stats := b', r_limiter := effort_billed url_ok tid u a (r_limiter r)\<rparr>)
      })"

section \<open>Answers of the agent itself\<close>

definition anySimulateLimits :: "Upstream list \<Rightarrow> bool" where
  "anySimulateLimits us = list_ex (\<lambda>u. caps_Simulate (u_Caps u) \<noteq> None \<and> \<not> u_Excluded u) us"

definition anyBusy :: "Upstream list \<Rightarrow> bool" where
  "anyBusy us = list_ex (\<lambda>u. Busy (u_Stats u) \<and> \<not> u_Excluded u) us"

definition anyTimeTravel :: "Upstream list \<Rightarrow> bool" where
  "anyTimeTravel us = list_ex (\<lambda>u. caps_TimeTravel (u_Caps u) \<and> \<not> u_Excluded u) us"

definition noUpstream :: "RouterOptions \<Rightarrow> RequestClass \<Rightarrow> Upstream list \<Rightarrow> answer" where
  "noUpstream o' c cands =
     (if rc_LocalOnly c \<and> ro_Balancer o' then
        Message 503 [] ''algod-mesh: this agent is a balancer with no local node, and this request is only answered by one''
      else if rc_TimeTravel c \<and> \<not> anyTimeTravel cands then
        Message 503 [] ''algod-mesh: this request needs a time-travel node and the fleet has none''
      else if Heavy c \<and> anyBusy cands then
        Message 503 [(''Retry-After'', ''1'')] ''algod-mesh: every node able to serve this request is busy''
      else Message 503 [] ''algod-mesh: no eligible upstream for this request'')"

definition answerFailure :: "RequestClass \<Rightarrow> bool \<Rightarrow> Outcome \<Rightarrow> answer" where
  "answerFailure c gone out =
     (if oc_HeadersSent out \<or> gone then Silence
      else if oc_Err out = Some ErrDeadline then Message 504 [] ''algod-mesh: upstream timeout''
      else if Heavy c \<and> oc_Status out = 503 \<and> oc_RetryAfter out > 0 then
        Message 503 [(''Retry-After'', show_int (ceilSeconds (oc_RetryAfter out)))]
          ''algod-mesh: every node able to serve this request is busy''
      else if oc_Status out \<ge> 500 \<or> oc_Status out = 429 then
        Message 502 [] (''algod-mesh: upstream answered '' @ show_int (oc_Status out))
      else Message 502 [] ''algod-mesh: upstream unreachable'')"

text \<open>answerQuotaExceeded, for the request's ticket if it has one.\<close>

definition answerQuotaExceeded :: "Time \<Rightarrow> nat option \<Rightarrow> Router \<Rightarrow> answer \<times> Router" where
  "answerQuotaExceeded now tid r =
     (case (tid, r_limiter r) of
        (Some t, Some l) \<Rightarrow> (case Exhausted l now t of (d, l') \<Rightarrow> (Denied d, r\<lparr>r_limiter := Some l'\<rparr>))
      | _ \<Rightarrow> (Message 429 [] ''algod-mesh: rate limit exceeded'', r))"

section \<open>The attempts of one request\<close>

definition maxReplayBody :: int where "maxReplayBody = 4194304"

text \<open>replayable: whether the body can be held and sent again.\<close>

definition replayable :: "body \<Rightarrow> bool" where
  "replayable b =
     (case b of NoBody \<Rightarrow> True
      | Body n bytes \<Rightarrow> n = 0 \<or> (case bytes of None \<Rightarrow> False | Some bs \<Rightarrow> int (length bs) \<le> maxReplayBody))"

text \<open>
  refineSimulate: the class with what the body asks of the node, and the body restored; None when
  the body cannot be read. \<open>msgpack\<close> and \<open>json\<close> are the decoders of a simulate body.
\<close>

definition refineSimulate ::
  "(8 word list \<Rightarrow> SimulateBody option) \<Rightarrow> (8 word list \<Rightarrow> SimulateBody option) \<Rightarrow> body \<Rightarrow> RequestClass
   \<Rightarrow> (body \<times> RequestClass) option" where
  "refineSimulate msgpack json b c =
     (case b of NoBody \<Rightarrow> Some (b, c)
      | Body n None \<Rightarrow> None
      | Body n (Some bs) \<Rightarrow>
        if int (length bs) > maxReplayBody then Some (b, c)
        else Some (Body (int (length bs)) (Some bs),
          (case msgpack bs of Some sb \<Rightarrow> ApplySimulate c sb
           | None \<Rightarrow> (case json bs of Some sb \<Rightarrow> ApplySimulate c sb | None \<Rightarrow> c))))"

text \<open>
  What decides about the attempts of one request: which base URLs parse, the attempts by position,
  whether time is left before and after the check of the externals, that check with the snapshot
  that follows it, the attempt at an external, the clock when an allowance has run out, and what
  the final look finds.
\<close>

record forward_env =
  fe_url_ok :: "string \<Rightarrow> bool"
  fe_try :: "nat \<Rightarrow> attempt"
  fe_timeLeft :: bool
  fe_check :: "(Upstream list \<times> u64) option"
  fe_rnd :: rand
  fe_timeLeft_ext :: bool
  fe_ext :: attempt
  fe_now :: Time
  fe_cut :: bool
  fe_gone :: bool

text \<open>externalFallback.\<close>

definition externalFallback ::
  "RouterOptions \<Rightarrow> rand \<Rightarrow> (Upstream list \<times> u64) option \<Rightarrow> RequestClass \<Rightarrow> Upstream list \<Rightarrow> Upstream option" where
  "externalFallback o' rnd check c tried =
     (if \<not> mayUseExternals c then None
      else if list_ex (\<lambda>u. u_Kind u = KindExternal) tried then None
      else (case check of
              None \<Rightarrow> None
            | Some (cands, best) \<Rightarrow>
              map_option sel_Chosen (router_sel o' rnd (filter (\<lambda>u. u_Kind u = KindExternal) cands) c best)))"

text \<open>The upstreams forwardSelected goes through: the choice and the alternates within the retry budget.\<close>

definition tries_of :: "RouterOptions \<Rightarrow> Selection \<Rightarrow> Upstream list" where
  "tries_of o' s =
     (let tries = sel_Chosen s # sel_Alternates s; b = ro_RetryBudget o' in
      if b \<ge> 0 \<and> int (length tries) > 1 + b then take (nat (1 + b)) tries else tries)"

text \<open>
  The loop of forwardSelected from position i on, after the outcome \<open>prior\<close>: the answer if the
  loop settles one, the last outcome, the upstreams sent to, and the state.
\<close>

fun try_upstreams ::
  "forward_env \<Rightarrow> nat option \<Rightarrow> RequestClass \<Rightarrow> nat \<Rightarrow> Outcome option \<Rightarrow> Upstream list \<Rightarrow> Router
   \<Rightarrow> (answer option \<times> Outcome option \<times> Upstream list \<times> Router) option" where
  "try_upstreams env tid c i prior [] r = Some (None, prior, [], r)"
| "try_upstreams env tid c i prior (u # us) r =
     (let a = fe_try env i in
      if i > 0 \<and> \<not> at_timeLeft a then Some (None, prior, [], r)
      else do {
        (out, r1) \<leftarrow> forward (fe_url_ok env) tid c [] u a r;
        if \<not> Failed out \<or> oc_HeadersSent out \<or> at_left a then
          Some (Some (if oc_HeadersSent out then Streamed (u_ID u) (oc_Status out) (at_body a) else Silence),
                Some out, [u], r1)
        else if at_cut a then
          (case answerQuotaExceeded (fe_now env) tid r1 of (ans, r2) \<Rightarrow> Some (Some ans, Some out, [u], r2))
        else if rc_Simulate c \<and> oc_Err out = Some ErrDeadline then
          Some (Some (answerFailure c (at_late a) out), Some out, [u], r1)
        else do {
          (ans, prior', sent, r2) \<leftarrow> try_upstreams env tid c (Suc i) (Some out) us r1;
          Some (ans, prior', u # sent, r2)
        }
      })"

text \<open>The attempt at an external, the last resort of forwardSelected.\<close>

definition try_external ::
  "forward_env \<Rightarrow> nat option \<Rightarrow> RequestClass \<Rightarrow> bool \<Rightarrow> Upstream list \<Rightarrow> Outcome option \<Rightarrow> Router
   \<Rightarrow> (answer option \<times> Outcome option \<times> Upstream list \<times> Router) option" where
  "try_external env tid c replay tries prior r =
     (if replay \<and> fe_timeLeft env then
        (case externalFallback (r_opts r) (fe_rnd env) (fe_check env) c tries of
           None \<Rightarrow> Some (None, prior, [], r)
         | Some ext \<Rightarrow>
           if \<not> fe_timeLeft_ext env then Some (None, prior, [], r)
           else do {
             (out, r1) \<leftarrow> forward (fe_url_ok env) tid c [] ext (fe_ext env) r;
             if \<not> Failed out \<or> oc_HeadersSent out \<or> at_left (fe_ext env) then
               Some (Some (if oc_HeadersSent out then Streamed (u_ID ext) (oc_Status out) (at_body (fe_ext env))
                           else Silence), Some out, [ext], r1)
             else if at_cut (fe_ext env) then
               (case answerQuotaExceeded (fe_now env) tid r1 of (ans, r2) \<Rightarrow> Some (Some ans, Some out, [ext], r2))
             else Some (None, Some out, [ext], r1)
           })
      else Some (None, prior, [], r))"

text \<open>The zero Outcome, which answerFailure is given when no attempt was made.\<close>

definition zero_outcome :: Outcome where
  "zero_outcome = \<lparr>oc_Status = 0, oc_Err = None, oc_HeadersSent = False, oc_Duration = 0, oc_RetryAfter = 0\<rparr>"

definition forwardSelected ::
  "forward_env \<Rightarrow> nat option \<Rightarrow> RequestClass \<Rightarrow> body \<Rightarrow> Selection \<Rightarrow> Router
   \<Rightarrow> (answer \<times> Upstream list \<times> Router) option" where
  "forwardSelected env tid c b s r =
     (let replay = replayable b;
          tries = (if replay then tries_of (r_opts r) s else take 1 (tries_of (r_opts r) s))
      in do {
        (ans, prior, sent, r1) \<leftarrow> try_upstreams env tid c 0 None tries r;
        (case ans of
           Some x \<Rightarrow> Some (x, sent, r1)
         | None \<Rightarrow> do {
             (ans, prior, sent', r2) \<leftarrow> try_external env tid c replay tries prior r1;
             (case ans of
                Some x \<Rightarrow> Some (x, sent @ sent', r2)
              | None \<Rightarrow>
                if fe_cut env then
                  (case answerQuotaExceeded (fe_now env) tid r2 of (x, r3) \<Rightarrow> Some (x, sent @ sent', r3))
                else Some (answerFailure c (fe_gone env) (case prior of Some out \<Rightarrow> out | None \<Rightarrow> zero_outcome),
                           sent @ sent', r2))
           })
      })"

section \<open>The default handler\<close>

text \<open>
  What decides about one selection: the random numbers (of pick, then of the relaxed classes), the
  check of the externals, whether the allowance ran out meanwhile, and the attempts that follow.
\<close>

record route_env =
  re_rnd :: "nat \<Rightarrow> rand"
  re_check :: "(Upstream list \<times> u64) option"
  re_cut :: bool
  re_fwd :: forward_env

text \<open>The loop over the relaxed classes; \<open>k\<close> counts the selections made.\<close>

fun relax ::
  "RouterOptions \<Rightarrow> (nat \<Rightarrow> rand) \<Rightarrow> nat \<Rightarrow> Upstream list \<Rightarrow> u64 \<Rightarrow> RequestClass \<Rightarrow> RequestClass list
   \<Rightarrow> (Selection \<times> RequestClass) option" where
  "relax o' rnd k cands best prev [] = None"
| "relax o' rnd k cands best prev (rc # rcs) =
     (if CouldServe cands prev then None
      else (case router_sel o' (rnd k) cands rc best of
              Some s \<Rightarrow> Some (s, rc)
            | None \<Rightarrow> relax o' rnd (Suc k) cands best rc rcs))"

definition handleDefault ::
  "route_env \<Rightarrow> nat option \<Rightarrow> RequestClass \<Rightarrow> body \<Rightarrow> Upstream list \<Rightarrow> u64 \<Rightarrow> Router
   \<Rightarrow> (answer \<times> Upstream list \<times> Router) option" where
  "handleDefault env tid c b cands0 best0 r =
     (case pick (r_opts r) (re_rnd env) (re_check env) c cands0 best0 of
        (Some s, cands, best) \<Rightarrow> forwardSelected (re_fwd env) tid c b s r
      | (None, cands, best) \<Rightarrow>
        (case relax (r_opts r) (re_rnd env) 2 cands best c (Relaxed c) of
           Some (s, rc) \<Rightarrow> forwardSelected (re_fwd env) tid rc b s r
         | None \<Rightarrow>
           if re_cut env then
             (case answerQuotaExceeded (fe_now (re_fwd env)) tid r of (x, r') \<Rightarrow> Some (x, [], r'))
           else if rep_Status (rc_Ahead c) \<noteq> 0 \<and> BestRound cands > 0 then
             (case rc_Round c of
                None \<Rightarrow> None
              | Some rd \<Rightarrow>
                if rd > BestRound cands
                then Some (Message (rep_Status (rc_Ahead c)) [] (rep_Message (rc_Ahead c)), [], r)
                else Some (noUpstream (r_opts r) c cands, [], r))
           else Some (noUpstream (r_opts r) c cands, [], r)))"

end
