(* ===== verification/RouterForward.thy ===== *)
theory RouterForward
  imports Router "HOL-Library.Sublist"
begin

text \<open>
  What the router guarantees about the attempts of a request (src/internal/app/router.go): which
  upstreams it is sent to and in which order, that nothing is sent after an answer, that it ends
  with an answer, and what an attempt leaves in the books.
\<close>

section \<open>Specification\<close>

text \<open>An attempt that left the client without an answer, which is what allows another one.\<close>

definition unanswered :: "Outcome \<Rightarrow> bool" where
  "unanswered out = (Failed out \<and> \<not> oc_HeadersSent out)"

text \<open>The outcome of the k-th attempt, made at u.\<close>

definition try_outcome :: "forward_env \<Rightarrow> RequestClass \<Rightarrow> nat \<Rightarrow> Upstream \<Rightarrow> Outcome" where
  "try_outcome env c k u = outcome_of (fe_url_ok env) c [] u (fe_try env k)"

text \<open>A book in which every upstream's figures are sound.\<close>

definition book_ok :: "StatsBook \<Rightarrow> bool" where
  "book_ok b = (0 < bo_Window (sb_opts b) \<and> (\<forall>s \<in> ran (sb_m b). stats_ok (sb_opts b) s))"

text \<open>Nothing ends the attempts early: at position k the client waits and time is left.\<close>

definition goes_on :: "forward_env \<Rightarrow> RequestClass \<Rightarrow> nat \<Rightarrow> Upstream \<Rightarrow> bool" where
  "goes_on env c k u =
     (\<not> at_left (fe_try env k) \<and> \<not> at_cut (fe_try env k)
      \<and> \<not> (rc_Simulate c \<and> oc_Err (try_outcome env c k u) = Some ErrDeadline))"

text \<open>The outcome of an attempt at an external, and whether it is the last attempt a request gets.\<close>

definition ext_outcome :: "forward_env \<Rightarrow> RequestClass \<Rightarrow> Upstream \<Rightarrow> Outcome" where
  "ext_outcome env c u = outcome_of (fe_url_ok env) c [] u (fe_ext env)"

text \<open>The upstreams a request may go to: those of the selection within the budget, one for a body sent once.\<close>

definition allowed_tries :: "RouterOptions \<Rightarrow> body \<Rightarrow> Selection \<Rightarrow> Upstream list" where
  "allowed_tries o' b s = (if replayable b then tries_of o' s else take 1 (tries_of o' s))"

text \<open>The client waits for its answer to the end.\<close>

definition client_waits :: "forward_env \<Rightarrow> bool" where
  "client_waits env = ((\<forall>k. \<not> at_left (fe_try env k) \<and> \<not> at_late (fe_try env k)) \<and> \<not> at_left (fe_ext env) \<and> \<not> fe_gone env)"

text \<open>An answer for a round ahead of the fleet is only given to a request that names a round.\<close>

definition ahead_has_round :: "RequestClass \<Rightarrow> bool" where
  "ahead_has_round c = (rep_Status (rc_Ahead c) = 0 \<or> rc_Round c \<noteq> None)"

text \<open>A router and the attempts of a request, for the theorems to be tried on: the first upstream is
  down, the second answers.\<close>

definition sample_opts :: RouterOptions where
  "sample_opts = router_defaults \<lparr>ro_Mode = [], ro_Balancer = False, ro_ClientToken = ''client'', ro_AdminToken = ''admin'',
     ro_SyncTolerance = 2, ro_UpstreamTimeout = 0, ro_RequestTimeout = 0, ro_StatusTimeout = 0, ro_WaitTimeout = 0,
     ro_PendingTTL = 0, ro_RetryBudget = 1, ro_MultiBroadcast = False, ro_Weights = zero_weights, ro_Version = ''v1'',
     ro_RateLimit = None\<rparr>"

definition sample_router :: Router where
  "sample_router = NewRouter (\<lambda>_. []) sample_opts (NewStatsBook DefaultBreaker) 100"

definition sample_attempt :: attempt where
  "sample_attempt = \<lparr>at_timeLeft = True, at_reply = Transport (ErrOther ''refused''), at_effort = [], at_body = ''{}'',
     at_duration = Millisecond, at_now = 200, at_gone = False, at_quota = False, at_left = False, at_cut = False,
     at_late = False\<rparr>"

definition sample_env :: forward_env where
  "sample_env = \<lparr>fe_url_ok = (\<lambda>_. True),
     fe_try = (\<lambda>k. if k = 0 then sample_attempt else sample_attempt\<lparr>at_reply := Replied 200 []\<rparr>),
     fe_timeLeft = True, fe_check = None, fe_rnd = None, fe_timeLeft_ext = True, fe_ext = sample_attempt,
     fe_now = 300, fe_cut = False, fe_gone = False\<rparr>"

definition sample_selection :: Selection where
  "sample_selection = \<lparr>sel_Chosen = sample_algod, sel_Alternates = [sample_dtalgorand], sel_Tier = 0\<rparr>"

definition sample_request :: Request where
  "sample_request = \<lparr>rq_Method = ''GET'', rq_Path = ''/mesh/status'', rq_RawQuery = [], rq_Header = (\<lambda>_. []),
     rq_RemoteAddr = ''192.0.2.7:5000'', rq_Body = NoBody\<rparr>"

section \<open>The book stays sound\<close>

lemma book_ok_get: "book_ok b \<Longrightarrow> stats_ok (sb_opts b) (book_get b i)"
  by (auto simp: book_ok_def book_get_def ran_def split: option.splits)

lemma book_ok_put [intro]: "book_ok b \<Longrightarrow> stats_ok (sb_opts b) s \<Longrightarrow> book_ok (book_put b i s)"
  by (auto simp: book_ok_def book_put_def ran_def split: if_splits)

lemma book_ok_Begin [intro]: "book_ok b \<Longrightarrow> book_ok (Begin b i)"
  using book_ok_get [of b i] by (auto simp: Begin_def stats_ok_def intro!: book_ok_put)

lemma book_ok_release [intro]: "book_ok b \<Longrightarrow> book_ok (release b i)"
  using book_ok_get [of b i] by (auto simp: release_def stats_ok_def intro!: book_ok_put)

lemma book_ok_busy [intro]: "book_ok b \<Longrightarrow> book_ok (mark_busy b now i d)"
  using book_ok_get [of b i] by (auto simp: mark_busy_def stats_ok_def Let_def intro!: book_ok_put)

lemma book_ok_Record:
  assumes "book_ok b"
  obtains b' where "Record b now i key out = Some b'" "book_ok b'"
proof
  have "stats_ok (sb_opts b) (book_get b i)" using assms by (rule book_ok_get)
  then show "Record b now i key out = Some (book_put b i (record_outcome (sb_opts b) now key out (book_get b i)))"
    by (simp add: Record_def Let_def stats_ok_def)
  show "book_ok (book_put b i (record_outcome (sb_opts b) now key out (book_get b i)))"
    using assms book_ok_get [OF assms] by auto
qed

lemma book_ok_account:
  assumes "book_ok b"
  obtains b' where "account c u a out b = Some b'" "book_ok b'"
  using assms book_ok_busy [OF assms] book_ok_Record [OF assms, of "at_now a" "u_ID u" "StatKey c" out]
  unfolding account_def by (cases "at_gone a \<or> at_quota a";
      cases "timeLimited c \<and> oc_Status out = 504"; cases "Heavy c \<and> oc_Status out = 503 \<and> oc_RetryAfter out > 0") auto

lemma forward_total:
  assumes "book_ok (r_stats r)"
  obtains r' where "forward url_ok tid c retry u a r = Some (outcome_of url_ok c retry u a, r')"
    "book_ok (r_stats r')" "r_opts r' = r_opts r"
proof -
  have "book_ok (release (Begin (r_stats r) (u_ID u)) (u_ID u))" using assms by auto
  then obtain b' where "account c u a (outcome_of url_ok c retry u a) (release (Begin (r_stats r) (u_ID u)) (u_ID u)) = Some b'"
    "book_ok b'" by (rule book_ok_account)
  then show thesis using that by (simp add: forward_def Let_def)
qed

lemma forward_Some:
  assumes "forward url_ok tid c retry u a r = Some (out, r')"
  shows "out = outcome_of url_ok c retry u a \<and> r_opts r' = r_opts r"
  using assms by (auto simp: forward_def Let_def split: bind_splits)

lemma outcome_HeadersSent: "oc_HeadersSent (outcome_of url_ok c retry u a) \<longleftrightarrow> oc_Err (outcome_of url_ok c retry u a) = None"
  by (simp add: outcome_of_def Forward_HeadersSent)

lemma outcome_settled: "\<not> Failed (outcome_of url_ok c retry u a) \<Longrightarrow> oc_HeadersSent (outcome_of url_ok c retry u a)"
  by (simp add: outcome_of_def Forward_not_Failed)

lemma answerQuotaExceeded_state:
  "answerQuotaExceeded now tid r = (x, r') \<Longrightarrow>
     r_opts r' = r_opts r \<and> r_stats r' = r_stats r \<and> x \<noteq> Silence \<and> (\<forall>i s b. x \<noteq> Streamed i s b)"
  by (auto simp: answerQuotaExceeded_def split: option.splits prod.splits)

lemma answerFailure_not_streamed: "answerFailure c g out \<noteq> Streamed i s b"
  by (simp add: answerFailure_def)

lemma answerFailure_answers: "\<not> g \<Longrightarrow> \<not> oc_HeadersSent out \<Longrightarrow> answerFailure c g out \<noteq> Silence"
  by (simp add: answerFailure_def)

section \<open>The loop over the upstreams\<close>

text \<open>One turn of the loop, by what becomes of the attempt.\<close>

lemma try_upstreams_Cons:
  assumes "forward (fe_url_ok env) tid c [] u (fe_try env i) r = Some (out, r1)"
    and "i = 0 \<or> at_timeLeft (fe_try env i)"
  shows "try_upstreams env tid c i prior (u # us) r =
    (if oc_HeadersSent out then Some (Some (Streamed (u_ID u) (oc_Status out) (at_body (fe_try env i))), Some out, [u], r1)
     else if at_left (fe_try env i) then Some (Some Silence, Some out, [u], r1)
     else if at_cut (fe_try env i) then
       (case answerQuotaExceeded (fe_now env) tid r1 of (ans, r2) \<Rightarrow> Some (Some ans, Some out, [u], r2))
     else if rc_Simulate c \<and> oc_Err out = Some ErrDeadline then
       Some (Some (answerFailure c (at_late (fe_try env i)) out), Some out, [u], r1)
     else do {
       (ans, prior', sent, r2) \<leftarrow> try_upstreams env tid c (Suc i) (Some out) us r1;
       Some (ans, prior', u # sent, r2) })"
proof -
  have "\<not> oc_HeadersSent out \<Longrightarrow> Failed out"
    using forward_Some [OF assms(1)] outcome_settled by blast
  then show ?thesis using assms by (auto simp: Let_def)
qed

text \<open>
  The upstreams sent to are the first ones of the list; every attempt but the last left the client
  without an answer, and so did the last one unless its answer was streamed.
\<close>

lemma try_upstreams_spec:
  assumes "try_upstreams env tid c i prior us r = Some (ans, prior', sent, r')"
  shows "prefix sent us \<and> (i = 0 \<and> us \<noteq> [] \<longrightarrow> sent \<noteq> []) \<and> r_opts r' = r_opts r
    \<and> (\<forall>k < length sent. unanswered (try_outcome env c (i + k) (sent ! k))
         \<or> k = length sent - 1 \<and> ans = Some (Streamed (u_ID (sent ! k)) (oc_Status (try_outcome env c (i + k) (sent ! k)))
              (at_body (fe_try env (i + k)))))
    \<and> prior' = (if sent = [] then prior else Some (try_outcome env c (i + length sent - 1) (List.last sent)))
    \<and> ((\<exists>x s b. ans = Some (Streamed x s b)) \<longrightarrow> sent \<noteq> [] \<and> oc_HeadersSent (try_outcome env c (i + length sent - 1) (List.last sent)))"
  using assms
proof (induction us arbitrary: i prior ans prior' sent r r')
  case Nil
  then show ?case by simp
next
  case (Cons u us)
  show ?case
  proof (cases "i > 0 \<and> \<not> at_timeLeft (fe_try env i)")
    case True
    then show ?thesis using Cons.prems by auto
  next
    case False
    then obtain out r1 where f: "forward (fe_url_ok env) tid c [] u (fe_try env i) r = Some (out, r1)"
      using Cons.prems by (auto simp: Let_def split: bind_splits)
    have out: "out = try_outcome env c i u" "r_opts r1 = r_opts r"
      using forward_Some [OF f] by (simp_all add: try_outcome_def)
    have un: "\<not> oc_HeadersSent out \<Longrightarrow> unanswered out"
      using forward_Some [OF f] outcome_settled unfolding unanswered_def by blast
    note step = try_upstreams_Cons [OF f, of prior us]
    consider (sent) "oc_HeadersSent out"
      | (left) "\<not> oc_HeadersSent out" "at_left (fe_try env i)"
      | (cut) "\<not> oc_HeadersSent out" "\<not> at_left (fe_try env i)" "at_cut (fe_try env i)"
      | (late) "\<not> oc_HeadersSent out" "\<not> at_left (fe_try env i)" "\<not> at_cut (fe_try env i)" "rc_Simulate c \<and> oc_Err out = Some ErrDeadline"
      | (next_one) "\<not> oc_HeadersSent out" "\<not> at_left (fe_try env i)" "\<not> at_cut (fe_try env i)" "\<not> (rc_Simulate c \<and> oc_Err out = Some ErrDeadline)"
      by blast
    then show ?thesis
    proof cases
      case sent
      then show ?thesis using Cons.prems step False out by auto
    next
      case left
      then show ?thesis using Cons.prems step False out un by auto
    next
      case cut
      obtain x r2 where q: "answerQuotaExceeded (fe_now env) tid r1 = (x, r2)" by fastforce
      show ?thesis using Cons.prems step False out un cut q answerQuotaExceeded_state [OF q] by auto
    next
      case late
      then show ?thesis using Cons.prems step False out un answerFailure_not_streamed by auto
    next
      case next_one
      then obtain sent0 where rest: "try_upstreams env tid c (Suc i) (Some out) us r1 = Some (ans, prior', sent0, r')"
        and s: "sent = u # sent0"
        using Cons.prems step False by (auto split: bind_splits)
      note IH = Cons.IH [OF rest]
      have "unanswered (try_outcome env c (i + k) (sent ! k))
         \<or> k = length sent - 1 \<and> ans = Some (Streamed (u_ID (sent ! k)) (oc_Status (try_outcome env c (i + k) (sent ! k)))
              (at_body (fe_try env (i + k))))" if "k < length sent" for k
        using that IH s un out next_one by (cases k) auto
      then show ?thesis using IH s out by (auto split: if_splits)
    qed
  qed
qed

section \<open>The external and the whole request\<close>

lemma externalFallback_Some:
  assumes "externalFallback o' rnd check c tried = Some ext" and "rand_ok rnd"
  shows "u_Kind ext = KindExternal \<and> \<not> rc_LocalOnly c \<and> (\<forall>u \<in> set tried. u_Kind u \<noteq> KindExternal)
    \<and> (\<exists>cands best u. check = Some (cands, best) \<and> u \<in> set cands \<and> Eligible u c best (ro_SyncTolerance o')
          \<and> u_ID ext = u_ID u \<and> u_BaseURL ext = u_BaseURL u)"
proof -
  obtain cands best s where *: "\<not> rc_LocalOnly c" "\<forall>u \<in> set tried. u_Kind u \<noteq> KindExternal"
      "check = Some (cands, best)"
      "router_sel o' rnd (filter (\<lambda>u. u_Kind u = KindExternal) cands) c best = Some s" "ext = sel_Chosen s"
    using assms(1) by (auto simp: externalFallback_def mayUseExternals_def list_ex_iff split: if_splits option.splits)
  then have "ext \<in> set (eligible_scored (filter (\<lambda>u. u_Kind u = KindExternal) cands) c best (ro_SyncTolerance o') (ro_Weights o'))"
    using Select_mem [OF _ assms(2)] unfolding router_sel_def by (metis list.set_intros(1))
  with * show ?thesis unfolding eligible_scored_props by auto
qed

lemma try_external_spec:
  assumes "try_external env tid c replay tries prior r = Some (ans, prior', sent, r')"
  shows "(sent = [] \<and> ans = None \<and> prior' = prior \<and> r' = r)
    \<or> (\<exists>ext. sent = [ext] \<and> replay \<and> externalFallback (r_opts r) (fe_rnd env) (fe_check env) c tries = Some ext
         \<and> prior' = Some (ext_outcome env c ext)
         \<and> (oc_HeadersSent (ext_outcome env c ext) \<longrightarrow>
              ans = Some (Streamed (u_ID ext) (oc_Status (ext_outcome env c ext)) (at_body (fe_ext env))))
         \<and> (\<not> oc_HeadersSent (ext_outcome env c ext) \<longrightarrow>
              unanswered (ext_outcome env c ext) \<and> (\<forall>x s b. ans \<noteq> Some (Streamed x s b)) 
              \<and> (ans = Some Silence \<longrightarrow> at_left (fe_ext env))))"
proof (cases "replay \<and> fe_timeLeft env")
  case True
  show ?thesis
  proof (cases "externalFallback (r_opts r) (fe_rnd env) (fe_check env) c tries")
    case None
    then show ?thesis using assms True by (simp add: try_external_def)
  next
    case (Some ext)
    show ?thesis
    proof (cases "fe_timeLeft_ext env")
      case False
      then show ?thesis using assms True Some by (simp add: try_external_def)
    next
      case time: True
      then obtain out r1 where f: "forward (fe_url_ok env) tid c [] ext (fe_ext env) r = Some (out, r1)"
        using assms True Some by (auto simp: try_external_def split: bind_splits)
      have out: "out = ext_outcome env c ext" using forward_Some [OF f] by (simp add: ext_outcome_def)
      have un: "\<not> oc_HeadersSent out \<Longrightarrow> unanswered out"
        using forward_Some [OF f] outcome_settled unfolding unanswered_def by blast
      obtain x r2 where q: "answerQuotaExceeded (fe_now env) tid r1 = (x, r2)" by fastforce
      show ?thesis using assms True Some time f un out answerQuotaExceeded_state [OF q] q
        by (auto simp: try_external_def unanswered_def split: if_splits)
    qed
  qed
next
  case False
  then show ?thesis using assms by (auto simp: try_external_def)
qed

lemma try_external_sent:
  assumes "try_external env tid c replay tries prior r = Some (ans, prior', sent, r')" and "rand_ok (fe_rnd env)"
  shows "sent = [] \<or> (\<exists>e. sent = [e] \<and> replay \<and> u_Kind e = KindExternal \<and> \<not> rc_LocalOnly c
      \<and> (\<forall>u \<in> set tries. u_Kind u \<noteq> KindExternal))"
  using try_external_spec [OF assms(1)]
proof
  assume "\<exists>ext. sent = [ext] \<and> replay \<and> externalFallback (r_opts r) (fe_rnd env) (fe_check env) c tries = Some ext
         \<and> prior' = Some (ext_outcome env c ext)
         \<and> (oc_HeadersSent (ext_outcome env c ext) \<longrightarrow>
              ans = Some (Streamed (u_ID ext) (oc_Status (ext_outcome env c ext)) (at_body (fe_ext env))))
         \<and> (\<not> oc_HeadersSent (ext_outcome env c ext) \<longrightarrow>
              unanswered (ext_outcome env c ext) \<and> (\<forall>x s b. ans \<noteq> Some (Streamed x s b))
              \<and> (ans = Some Silence \<longrightarrow> at_left (fe_ext env)))"
  then obtain ext where "sent = [ext]" "replay" "externalFallback (r_opts r) (fe_rnd env) (fe_check env) c tries = Some ext"
    by blast
  then show ?thesis using externalFallback_Some [of _ _ _ c tries ext] assms(2) by simp
qed simp

text \<open>A request that is answered: by the loop, by the external, or with the last failure.\<close>

lemma forwardSelected_Some:
  assumes "forwardSelected env tid c b s r = Some (x, sent, r')"
  obtains ans prior mesh r1 ext where
    "try_upstreams env tid c 0 None (allowed_tries (r_opts r) b s) r = Some (ans, prior, mesh, r1)" "sent = mesh @ ext"
    "(ans = Some x \<and> ext = []) \<or>
     (ans = None \<and> (\<exists>ans' prior' r2.
        try_external env tid c (replayable b) (allowed_tries (r_opts r) b s) prior r1 = Some (ans', prior', ext, r2)
        \<and> (ans' = Some x \<or> ans' = None \<and>
             (if fe_cut env then answerQuotaExceeded (fe_now env) tid r2 = (x, r')
              else x = answerFailure c (fe_gone env) (case prior' of Some out \<Rightarrow> out | None \<Rightarrow> zero_outcome)))))"
proof -
  let ?tries = "allowed_tries (r_opts r) b s"
  obtain ans prior mesh r1 where t: "try_upstreams env tid c 0 None ?tries r = Some (ans, prior, mesh, r1)"
    using assms by (auto simp: forwardSelected_def allowed_tries_def Let_def split: bind_splits)
  show thesis
  proof (cases ans)
    case (Some y)
    then show thesis using assms t that [OF t, of "[]"]
      by (simp add: forwardSelected_def allowed_tries_def Let_def)
  next
    case None
    then obtain ans' prior' ext r2 where e: "try_external env tid c (replayable b) ?tries prior r1 = Some (ans', prior', ext, r2)"
      using assms t by (auto simp: forwardSelected_def allowed_tries_def Let_def split: bind_splits)
    show thesis
    proof (cases ans')
      case (Some y)
      then show thesis using assms t that [OF t, of ext] e None
        by (simp add: forwardSelected_def allowed_tries_def Let_def)
    next
      case none': None
      obtain y r3 where q: "answerQuotaExceeded (fe_now env) tid r2 = (y, r3)" by fastforce
      then show thesis using assms t that [OF t, of ext] e None none' q
        by (auto simp: forwardSelected_def allowed_tries_def Let_def split: if_splits)
    qed
  qed
qed

lemma allowed_tries_prefix:
  "prefix (allowed_tries o' b s) (sel_Chosen s # sel_Alternates s)"
  "0 \<le> ro_RetryBudget o' \<Longrightarrow> int (length (allowed_tries o' b s)) \<le> 1 + ro_RetryBudget o'"
  "\<not> replayable b \<Longrightarrow> allowed_tries o' b s = [sel_Chosen s]"
  "allowed_tries o' b s \<noteq> []"
proof -
  have n: "nat (1 + n) = Suc (nat n)" if "0 \<le> n" for n using that by simp
  have p: "prefix (take k xs) xs" for k and xs :: "Upstream list" by (simp add: take_is_prefix)
  show "prefix (allowed_tries o' b s) (sel_Chosen s # sel_Alternates s)"
    using p [of _ "sel_Chosen s # sel_Alternates s"]
    by (auto simp: allowed_tries_def tries_of_def Let_def n take_is_prefix)
  show "0 \<le> ro_RetryBudget o' \<Longrightarrow> int (length (allowed_tries o' b s)) \<le> 1 + ro_RetryBudget o'"
    by (auto simp: allowed_tries_def tries_of_def Let_def n)
  show "\<not> replayable b \<Longrightarrow> allowed_tries o' b s = [sel_Chosen s]"
    by (auto simp: allowed_tries_def tries_of_def Let_def n)
  show "allowed_tries o' b s \<noteq> []"
    by (auto simp: allowed_tries_def tries_of_def Let_def n)
qed

text \<open>The loop always ends, and leaves a waiting client without an answer only to go on.\<close>

lemma try_upstreams_total:
  assumes "book_ok (r_stats r)"
  shows "\<exists>ans prior' sent r'. try_upstreams env tid c i prior us r = Some (ans, prior', sent, r')
     \<and> book_ok (r_stats r') \<and> r_opts r' = r_opts r \<and> (client_waits env \<longrightarrow> ans \<noteq> Some Silence)"
  using assms
proof (induction us arbitrary: i prior r)
  case Nil
  then show ?case by simp
next
  case (Cons u us)
  show ?case
  proof (cases "i > 0 \<and> \<not> at_timeLeft (fe_try env i)")
    case True
    then show ?thesis using Cons.prems by simp
  next
    case False
    obtain r1 where f: "forward (fe_url_ok env) tid c [] u (fe_try env i) r = Some (try_outcome env c i u, r1)"
      and r1: "book_ok (r_stats r1)" "r_opts r1 = r_opts r"
      using Cons.prems unfolding try_outcome_def by (rule forward_total)
    obtain x r2 where q: "answerQuotaExceeded (fe_now env) tid r1 = (x, r2)" by fastforce
    obtain ans prior' sent r3 where rest:
      "try_upstreams env tid c (Suc i) (Some (try_outcome env c i u)) us r1 = Some (ans, prior', sent, r3)"
      "book_ok (r_stats r3)" "r_opts r3 = r_opts r1" "client_waits env \<longrightarrow> ans \<noteq> Some Silence"
      using Cons.IH [OF r1(1)] by blast
    have "client_waits env \<Longrightarrow> \<not> at_left (fe_try env i) \<and> \<not> at_late (fe_try env i)"
      by (simp add: client_waits_def)
    then show ?thesis
      using try_upstreams_Cons [OF f, of prior us] False q rest r1 answerQuotaExceeded_state [OF q] answerFailure_answers
      by auto
  qed
qed

lemma try_external_total:
  assumes "book_ok (r_stats r)"
  shows "\<exists>ans prior' sent r'. try_external env tid c replay tries prior r = Some (ans, prior', sent, r')
     \<and> book_ok (r_stats r')"
proof (cases "externalFallback (r_opts r) (fe_rnd env) (fe_check env) c tries")
  case None
  then show ?thesis using assms by (simp add: try_external_def)
next
  case (Some ext)
  obtain r1 where f: "forward (fe_url_ok env) tid c [] ext (fe_ext env) r = Some (ext_outcome env c ext, r1)"
    and r1: "book_ok (r_stats r1)" "r_opts r1 = r_opts r"
    using assms unfolding ext_outcome_def by (rule forward_total)
  obtain x r2 where q: "answerQuotaExceeded (fe_now env) tid r1 = (x, r2)" by fastforce
  show ?thesis using assms f r1 q answerQuotaExceeded_state [OF q] by (simp add: try_external_def Some)
qed

lemma forwardSelected_total:
  assumes "book_ok (r_stats r)"
  shows "\<exists>x sent r'. forwardSelected env tid c b s r = Some (x, sent, r') \<and> book_ok (r_stats r')"
proof -
  let ?tries = "allowed_tries (r_opts r) b s"
  obtain ans prior mesh r1 where t: "try_upstreams env tid c 0 None ?tries r = Some (ans, prior, mesh, r1)" "book_ok (r_stats r1)"
    using try_upstreams_total [OF assms] by blast
  obtain ans' prior' ext r2 where e: "try_external env tid c (replayable b) ?tries prior r1 = Some (ans', prior', ext, r2)"
    "book_ok (r_stats r2)"
    using try_external_total [OF t(2)] by blast
  obtain y r3 where q: "answerQuotaExceeded (fe_now env) tid r2 = (y, r3)" by fastforce
  show ?thesis using t e q answerQuotaExceeded_state [OF q]
    by (cases ans; cases ans') (simp_all add: forwardSelected_def allowed_tries_def Let_def)
qed

lemma forwardSelected_answers:
  assumes "forwardSelected env tid c b s r = Some (x, sent, r')" and "client_waits env" and "book_ok (r_stats r)"
  shows "x \<noteq> Silence"
  using assms(1)
proof (cases rule: forwardSelected_Some)
  case (1 ans prior mesh r1 ext)
  have loop: "ans \<noteq> Some Silence"
    using try_upstreams_total [OF assms(3), of env tid c 0 None "allowed_tries (r_opts r) b s"] 1(1) assms(2) by simp
  note t = try_upstreams_spec [OF 1(1)]
  show ?thesis
  proof (cases ans)
    case (Some y)
    then show ?thesis using 1(3) loop by auto
  next
    case None
    then obtain ans' prior' r2 where e:
      "try_external env tid c (replayable b) (allowed_tries (r_opts r) b s) prior r1 = Some (ans', prior', ext, r2)"
      "ans' = Some x \<or> ans' = None \<and> (if fe_cut env then answerQuotaExceeded (fe_now env) tid r2 = (x, r')
         else x = answerFailure c (fe_gone env) (case prior' of Some out \<Rightarrow> out | None \<Rightarrow> zero_outcome))"
      using 1(3) by auto
    have "mesh \<noteq> []" using t allowed_tries_prefix(4) by blast
    then have "length mesh - 1 < length mesh" by simp
    with t None have "unanswered (try_outcome env c (length mesh - 1) (mesh ! (length mesh - 1)))" by force
    then have prior: "prior = Some out \<Longrightarrow> \<not> oc_HeadersSent out" for out
      using t \<open>mesh \<noteq> []\<close> by (auto simp: unanswered_def last_conv_nth)
    have "ans' = None \<Longrightarrow> prior' = Some out \<Longrightarrow> \<not> oc_HeadersSent out" for out
      using try_external_spec [OF e(1)] prior by (auto simp: unanswered_def)
    then show ?thesis
      using e(2) try_external_spec [OF e(1)] assms(2) answerQuotaExceeded_state [of "fe_now env" tid r2 x r']
        answerFailure_answers [of "fe_gone env" "case prior' of Some out \<Rightarrow> out | None \<Rightarrow> zero_outcome" c]
      by (auto simp: client_waits_def zero_outcome_def split: if_splits option.splits)
  qed
qed

text \<open>The loop stops at the first upstream that answers.\<close>

lemma try_upstreams_first:
  assumes "book_ok (r_stats r)" and "j < length us"
    and "\<And>k. k < j \<Longrightarrow> unanswered (try_outcome env c (i + k) (us ! k)) \<and> goes_on env c (i + k) (us ! k)"
    and "\<And>k. k \<le> j \<Longrightarrow> i + k = 0 \<or> at_timeLeft (fe_try env (i + k))"
    and "oc_HeadersSent (try_outcome env c (i + j) (us ! j))"
  shows "\<exists>r'. try_upstreams env tid c i prior us r
    = Some (Some (Streamed (u_ID (us ! j)) (oc_Status (try_outcome env c (i + j) (us ! j))) (at_body (fe_try env (i + j)))),
        Some (try_outcome env c (i + j) (us ! j)), take (Suc j) us, r')"
  using assms
proof (induction us arbitrary: i prior r j)
  case Nil
  then show ?case by simp
next
  case (Cons u us)
  obtain r1 where f: "forward (fe_url_ok env) tid c [] u (fe_try env i) r = Some (try_outcome env c i u, r1)"
    and r1: "book_ok (r_stats r1)"
    using Cons.prems(1) unfolding try_outcome_def by (rule forward_total)
  have time: "i = 0 \<or> at_timeLeft (fe_try env i)" using Cons.prems(4) [of 0] by simp
  show ?case
  proof (cases j)
    case 0
    then show ?thesis using try_upstreams_Cons [OF f time] Cons.prems(5) by simp
  next
    case (Suc j')
    have "unanswered (try_outcome env c i u)" "goes_on env c i u" using Cons.prems(3) [of 0] Suc by auto
    moreover have "\<exists>r'. try_upstreams env tid c (Suc i) (Some (try_outcome env c i u)) us r1
      = Some (Some (Streamed (u_ID (us ! j')) (oc_Status (try_outcome env c (Suc i + j') (us ! j'))) (at_body (fe_try env (Suc i + j')))),
        Some (try_outcome env c (Suc i + j') (us ! j')), take (Suc j') us, r')"
      using Cons.prems(2-5) Suc
      by (intro Cons.IH [OF r1]) (force dest: Cons.prems(3) [of "Suc k" for k] Cons.prems(4) [of "Suc k" for k])+
    ultimately show ?thesis using try_upstreams_Cons [OF f time, of prior us] Suc
      by (auto simp: unanswered_def goes_on_def)
  qed
qed

section \<open>What an attempt leaves in the book\<close>

lemma Snapshot_get: "0 \<le> t \<Longrightarrow> snapshot_of t (book_get b i) = Snapshot b t i"
  by (auto simp: Snapshot_def book_get_def snapshot_of_def new_stats_def zero_stats_def counted_def Let_def
      split: option.splits)

lemma get_put: "book_get (book_put b i s) j = (if i = j then s else book_get b j)"
  by (simp add: book_get_def book_put_def split: option.splits)

lemma Begin_release: "release (Begin b i) i = book_put b i (book_get b i)"
  by (simp add: release_def Begin_def get_put) (simp add: book_put_def)

lemma Snapshot_Begin_release: "0 \<le> t \<Longrightarrow> Snapshot (release (Begin b i) i) t j = Snapshot b t j"
  by (simp add: Begin_release Snapshot_get)

lemma snapshot_of_busy: "snapshot_of t (s\<lparr>us_busyUntil := w\<rparr>) = (snapshot_of t s)\<lparr>Busy := (t < w)\<rparr>"
  by (simp add: snapshot_of_def counted_def Let_def)

lemma Snapshot_busy_same:
  assumes "0 \<le> t"
  shows "(Snapshot (mark_busy b now i d) t i)\<lparr>Busy := z\<rparr> = (Snapshot b t i)\<lparr>Busy := z\<rparr>"
  using Snapshot_get [OF assms, of b i] by (simp add: mark_busy_def Let_def snapshot_of_busy)

lemma Snapshot_Record_other:
  "Record b now i key out = Some b' \<Longrightarrow> i \<noteq> j \<Longrightarrow> Snapshot b' t j = Snapshot b t j"
  by (auto simp: Record_def Let_def split: if_splits)

lemma Snapshot_Record_inflight:
  assumes "Record b now i key out = Some b'" "0 \<le> t"
  shows "Inflight (Snapshot b' t i) = Inflight (Snapshot b t i)"
proof -
  have "us_inflight (record_outcome (sb_opts b) now key out s) = us_inflight s" for s
    by (simp add: record_outcome_def push_window_def Let_def)
  then have "Inflight (snapshot_of t (record_outcome (sb_opts b) now key out s)) = Inflight (snapshot_of t s)" for s
    by (simp add: snapshot_of_def Let_def)
  then show ?thesis using assms Snapshot_get [OF assms(2), of b i]
    by (auto simp: Record_def Let_def split: if_splits)
qed

lemma account_Some:
  assumes "account c u a out b = Some b'"
  obtains (unblamed) "at_gone a \<or> at_quota a \<or> timeLimited c \<and> oc_Status out = 504" "b' = b"
  | (busy) "\<not> (at_gone a \<or> at_quota a \<or> timeLimited c \<and> oc_Status out = 504)"
      "Heavy c" "oc_Status out = 503" "oc_RetryAfter out > 0"
      "b' = mark_busy b (at_now a) (u_ID u) (min (oc_RetryAfter out) maxBusy)"
  | (recorded) "\<not> (at_gone a \<or> at_quota a \<or> timeLimited c \<and> oc_Status out = 504)"
      "\<not> (Heavy c \<and> oc_Status out = 503 \<and> oc_RetryAfter out > 0)" "Record b (at_now a) (u_ID u) (StatKey c) out = Some b'"
  using assms unfolding account_def by (auto split: if_splits)

lemma sample_router_ok: "book_ok (r_stats sample_router)"
  by (simp add: book_ok_def sample_router_def NewRouter_def NewStatsBook_def DefaultBreaker_def Let_def)

lemmas sample_defs = sample_env_def sample_attempt_def sample_algod_def sample_dtalgorand_def sample_selection_def

lemma sample_tries: "allowed_tries (r_opts sample_router) NoBody sample_selection = [sample_algod, sample_dtalgorand]"
  by (simp add: allowed_tries_def replayable_def tries_of_def sample_router_def NewRouter_def sample_opts_def
      router_defaults_def sample_selection_def Let_def)

section \<open>The default handler\<close>

lemma ahead_blocks:
  assumes "rep_Status (rc_Ahead c) = 0" "rc_Round c = None"
  shows "ahead_has_round (classify_blocks mth segs q c)"
proof -
  have txn: "parseRound ''txn'' = None" by code_simp
  show ?thesis
  proof (cases "parseRound (seg_at segs 2)")
    case None
    then show ?thesis using assms txn by (simp add: classify_blocks_def ahead_has_round_def Let_def)
  next
    case (Some r)
    then have "seg_at segs 2 \<noteq> ''txn''" using txn by auto
    then have "rc_Round (classify_blocks mth segs q c) = Some r"
      using Some unfolding classify_blocks_def Let_def by (simp add: if_distrib [of rc_Round] cong: if_cong)
    then show ?thesis by (simp add: ahead_has_round_def)
  qed
qed

lemma ahead_state:
  "rep_Status (rc_Ahead c) = 0 \<Longrightarrow> ahead_has_round (classify_state segs q c)"
  unfolding classify_state_def ahead_has_round_def Let_def setRound_def by (auto split: option.splits)

lemma ahead_Classify: "ahead_has_round (Classify m p q)"
proof -
  have z: "ahead_has_round c" if "rep_Status (rc_Ahead c) = 0" for c using that by (simp add: ahead_has_round_def)
  have "ahead_has_round (classify_v2 mth segs q' c)"
    if "rep_Status (rc_Ahead c) = 0" "rc_Round c = None" for mth segs q' c
    using ahead_blocks [OF that] ahead_state [OF that(1)] that z
    unfolding classify_v2_def Let_def classify_transactions_def by (auto split: option.splits)
  then show ?thesis unfolding Classify_def Let_def by (auto intro!: z simp: zero_class_def)
qed

lemma ahead_ApplySimulate: "ahead_has_round c \<Longrightarrow> ahead_has_round (ApplySimulate c b)"
  by (auto simp: ahead_has_round_def ApplySimulate_def setRound_def Let_def split: prod.splits)

lemma ahead_refine: "refineSimulate mp js bd c = Some (bd', c') \<Longrightarrow> ahead_has_round c \<Longrightarrow> ahead_has_round c'"
  by (auto simp: refineSimulate_def ahead_ApplySimulate split: body.splits option.splits if_splits)

lemma handleDefault_total:
  assumes "book_ok (r_stats r)" "ahead_has_round c"
  shows "\<exists>x sent r'. handleDefault env tid c b cands best r = Some (x, sent, r') \<and> book_ok (r_stats r')"
proof -
  obtain s cands' best' where p: "pick (r_opts r) (re_rnd env) (re_check env) c cands best = (s, cands', best')"
    by (metis prod_cases3)
  obtain x r1 where q: "answerQuotaExceeded (fe_now (re_fwd env)) tid r = (x, r1)" by fastforce
  note fw = forwardSelected_total [OF assms(1)]
  show ?thesis
  proof (cases s)
    case (Some s')
    then show ?thesis using p fw by (simp add: handleDefault_def)
  next
    case None
    show ?thesis
    proof (cases "relax (r_opts r) (re_rnd env) 2 cands' best' c (Relaxed c)")
      case none': None
      then show ?thesis using assms p q None answerQuotaExceeded_state [OF q]
        by (auto simp: handleDefault_def ahead_has_round_def)
    next
      case (Some sr)
      then show ?thesis using p None fw by (cases sr) (simp add: handleDefault_def)
    qed
  qed
qed

text \<open>A relaxed class is taken only when nothing could serve the ones before it.\<close>

lemma relax_Some:
  assumes "relax o' rnd k cands best prev rcs = Some (s, rc)"
  shows "\<exists>i < length rcs. rc = rcs ! i \<and> (\<forall>j \<le> i. \<not> CouldServe cands ((prev # rcs) ! j))
    \<and> router_sel o' (rnd (k + i)) cands rc best = Some s"
  using assms
proof (induction rcs arbitrary: k prev)
  case (Cons c cs)
  then have n: "\<not> CouldServe cands prev" by (auto split: if_splits)
  show ?case
  proof (cases "router_sel o' (rnd k) cands c best")
    case None
    with Cons.prems n have "relax o' rnd (Suc k) cands best c cs = Some (s, rc)" by simp
    from Cons.IH [OF this] obtain i where "i < length cs" "rc = cs ! i" "\<forall>j \<le> i. \<not> CouldServe cands ((c # cs) ! j)"
      "router_sel o' (rnd (Suc k + i)) cands rc best = Some s" by blast
    then show ?thesis using n
      by (intro exI [of _ "Suc i"]) (auto simp: nth_Cons split: nat.splits)
  next
    case (Some s')
    then show ?thesis using Cons.prems n by (intro exI [of _ 0]) auto
  qed
qed simp

text \<open>Where a request goes.\<close>

lemma forwardSelected_sent:
  assumes "forwardSelected env tid c b s r = Some (x, sent, r')" and "rand_ok (fe_rnd env)"
  shows "\<exists>mesh ext. sent = mesh @ ext \<and> mesh \<noteq> [] \<and> prefix mesh (sel_Chosen s # sel_Alternates s)
    \<and> (0 \<le> ro_RetryBudget (r_opts r) \<longrightarrow> int (length mesh) \<le> 1 + ro_RetryBudget (r_opts r))
    \<and> (\<not> replayable b \<longrightarrow> sent = [sel_Chosen s])
    \<and> (ext = [] \<or> (\<exists>e. ext = [e] \<and> u_Kind e = KindExternal \<and> \<not> rc_LocalOnly c
         \<and> (\<forall>u \<in> set mesh. u_Kind u \<noteq> KindExternal)))"
  using assms(1)
proof (cases rule: forwardSelected_Some)
  case (1 ans prior mesh r1 ext)
  let ?tries = "allowed_tries (r_opts r) b s"
  have m: "prefix mesh ?tries" "mesh \<noteq> []" using try_upstreams_spec [OF 1(1)] allowed_tries_prefix(4) by blast+
  have e: "ext = [] \<or> (\<exists>e. ext = [e] \<and> replayable b \<and> u_Kind e = KindExternal \<and> \<not> rc_LocalOnly c
      \<and> (\<forall>u \<in> set ?tries. u_Kind u \<noteq> KindExternal))"
    using 1(3)
  proof
    assume "ans = None \<and> (\<exists>ans' prior' r2. try_external env tid c (replayable b) ?tries prior r1 = Some (ans', prior', ext, r2)
        \<and> (ans' = Some x \<or> ans' = None \<and> (if fe_cut env then answerQuotaExceeded (fe_now env) tid r2 = (x, r')
              else x = answerFailure c (fe_gone env) (case prior' of Some out \<Rightarrow> out | None \<Rightarrow> zero_outcome))))"
    then obtain ans' prior' r2 where "try_external env tid c (replayable b) ?tries prior r1 = Some (ans', prior', ext, r2)" by blast
    from try_external_sent [OF this assms(2)] show ?thesis .
  qed simp
  have "\<not> replayable b \<Longrightarrow> mesh = [sel_Chosen s]"
    using m allowed_tries_prefix(3) [of b "r_opts r" s] by (simp add: prefix_Cons)
  moreover have "0 \<le> ro_RetryBudget (r_opts r) \<Longrightarrow> int (length mesh) \<le> 1 + ro_RetryBudget (r_opts r)"
    using allowed_tries_prefix(2) [of "r_opts r" b s] prefix_length_le [OF m(1)] by linarith
  moreover have "set mesh \<subseteq> set ?tries" using m(1) by (rule set_mono_prefix)
  moreover have "\<not> replayable b \<Longrightarrow> ext = []" using e by blast
  moreover have "prefix mesh (sel_Chosen s # sel_Alternates s)"
    using m(1) allowed_tries_prefix(1) by (rule prefix_order.trans)
  moreover have "ext = [] \<or> (\<exists>e. ext = [e] \<and> u_Kind e = KindExternal \<and> \<not> rc_LocalOnly c
      \<and> (\<forall>u \<in> set mesh. u_Kind u \<noteq> KindExternal))"
    using e \<open>set mesh \<subseteq> set ?tries\<close> by (elim disjE exE conjE) (auto dest: subsetD)
  ultimately show ?thesis using m(2) 1(2) by (intro exI [of _ mesh] exI [of _ ext]) simp
qed

section \<open>Properties\<close>

text \<open>
  C2. Where a request goes: first to the choice, then to the alternates in their order, within the
  retry budget, and only then, once, to an external, provided none was tried before and the request
  may leave the mesh; a body that cannot be held is sent once and nowhere else.
\<close>

theorem forward_attempts:
  assumes "forwardSelected env tid c b s r = Some (x, sent, r')" and "rand_ok (fe_rnd env)"
  shows "\<exists>mesh ext. sent = mesh @ ext \<and> mesh \<noteq> [] \<and> prefix mesh (sel_Chosen s # sel_Alternates s)
    \<and> (0 \<le> ro_RetryBudget (r_opts r) \<longrightarrow> int (length mesh) \<le> 1 + ro_RetryBudget (r_opts r))
    \<and> (\<not> replayable b \<longrightarrow> sent = [sel_Chosen s])
    \<and> (ext = [] \<or> (\<exists>e. ext = [e] \<and> u_Kind e = KindExternal \<and> \<not> rc_LocalOnly c
         \<and> (\<forall>u \<in> set mesh. u_Kind u \<noteq> KindExternal)))"
  using assms by (rule forwardSelected_sent)

text \<open>
  C3. Nothing is sent after an answer: every attempt before the last left the client without a
  byte, and the client gets an upstream's answer exactly when the last attempt streamed it, from
  the upstream of that attempt.
\<close>

theorem forward_single_answer:
  assumes "forwardSelected env tid c b s r = Some (x, sent, r')"
  shows "\<exists>outs. length outs = length sent \<and> (\<forall>k < length sent. outs ! k \<in> {try_outcome env c k (sent ! k), ext_outcome env c (sent ! k)})
    \<and> (\<forall>out \<in> set (butlast outs). unanswered out)
    \<and> ((\<exists>i st body. x = Streamed i st body) \<longleftrightarrow> oc_HeadersSent (last outs))
    \<and> (oc_HeadersSent (last outs) \<longrightarrow> (\<exists>body. x = Streamed (u_ID (last sent)) (oc_Status (last outs)) body))"
  using assms
proof (cases rule: forwardSelected_Some)
  case (1 ans prior mesh r1 ext)
  define outs where "outs = map (\<lambda>k. if k < length mesh then try_outcome env c k (sent ! k) else ext_outcome env c (sent ! k)) [0..<length sent]"
  note t = try_upstreams_spec [OF 1(1)]
  have ne: "mesh \<noteq> []" using t allowed_tries_prefix(4) by blast
  have len: "length outs = length sent" by (simp add: outs_def)
  have nth: "outs ! k = (if k < length mesh then try_outcome env c k (mesh ! k) else ext_outcome env c (sent ! k))"
    if "k < length sent" for k using that 1(2) by (simp add: outs_def nth_append)
  have last: "last outs = outs ! (length sent - 1)" "last sent = sent ! (length sent - 1)"
    using ne 1(2) len by (simp_all add: last_conv_nth outs_def)
  have mem: "\<forall>k < length sent. outs ! k \<in> {try_outcome env c k (sent ! k), ext_outcome env c (sent ! k)}"
    using 1(2) by (auto simp: outs_def)
  have key: "(\<forall>k < length sent - 1. unanswered (outs ! k))
      \<and> (oc_HeadersSent (last outs) \<longrightarrow> (\<exists>body. x = Streamed (u_ID (last sent)) (oc_Status (last outs)) body))
      \<and> ((\<exists>i st body. x = Streamed i st body) \<longrightarrow> oc_HeadersSent (last outs))"
  proof (cases ans)
    case (Some y)
    then have y: "x = y" "ext = []" "sent = mesh" using 1(2,3) by auto
    have "last outs = try_outcome env c (length mesh - 1) (last mesh)"
      using last ne nth [of "length mesh - 1"] y by (simp add: last_conv_nth)
    moreover have "\<forall>k < length mesh. unanswered (outs ! k) \<or> k = length mesh - 1 \<and> y = Streamed (u_ID (mesh ! k)) (oc_Status (outs ! k)) (at_body (fe_try env k))"
      using t Some nth y by auto
    moreover have "length mesh - 1 < length mesh" using ne by simp
    moreover have "oc_HeadersSent (try_outcome env c (length mesh - 1) (last mesh))" if "\<exists>i st body. y = Streamed i st body"
      using t Some that by auto
    ultimately show ?thesis using y last unfolding unanswered_def
      by (metis less_irrefl order.strict_trans)
  next
    case None
    then have un: "\<forall>k < length mesh. unanswered (outs ! k)" using t nth 1(2) by auto
    obtain ans' prior' r2 where e:
      "try_external env tid c (replayable b) (allowed_tries (r_opts r) b s) prior r1 = Some (ans', prior', ext, r2)"
      "ans' = Some x \<or> ans' = None \<and> (if fe_cut env then answerQuotaExceeded (fe_now env) tid r2 = (x, r')
         else x = answerFailure c (fe_gone env) (case prior' of Some out \<Rightarrow> out | None \<Rightarrow> zero_outcome))"
      using 1(3) None by auto
    have no: "ans' = None \<Longrightarrow> x \<noteq> Streamed i st body" for i st body
      using e(2) answerQuotaExceeded_state answerFailure_not_streamed by (metis option.distinct(1))
    consider "ext = []" "ans' = None" | e where "ext = [e]"
      using try_external_spec [OF e(1)] by auto
    then show ?thesis
    proof cases
      case 1
      then show ?thesis using un no last \<open>sent = mesh @ ext\<close> ne by (auto simp: unanswered_def)
    next
      case (2 w)
      then have "last outs = ext_outcome env c w" "last sent = w" "length sent - 1 = length mesh"
        using last nth [of "length mesh"] \<open>sent = mesh @ ext\<close> by auto
      then show ?thesis using un no try_external_spec [OF e(1)] e(2) 2 by (auto simp: unanswered_def)
    qed
  qed
  moreover have "\<forall>out \<in> set (butlast outs). unanswered out"
    using key len by (auto simp: in_set_conv_nth nth_butlast)
  ultimately show ?thesis using len mem by blast
qed

text \<open>
  C20. The first upstream that answers serves the request: while the client waits and time is left,
  a request walks past the upstreams that fail without a byte, and stops, with that upstream's
  answer and nothing sent to the ones after it, at the first one whose answer is not withheld.
\<close>

theorem forward_first_answer:
  fixes env c r b s
  defines "tries \<equiv> allowed_tries (r_opts r) b s"
  assumes "book_ok (r_stats r)" and "j < length tries"
    and "\<forall>k < j. unanswered (try_outcome env c k (tries ! k)) \<and> goes_on env c k (tries ! k) \<and> at_timeLeft (fe_try env (Suc k))"
    and "oc_HeadersSent (try_outcome env c j (tries ! j))"
  shows "\<exists>r'. forwardSelected env tid c b s r =
    Some (Streamed (u_ID (tries ! j)) (oc_Status (try_outcome env c j (tries ! j))) (at_body (fe_try env j)), take (Suc j) tries, r')"
proof -
  have "0 + k = 0 \<or> at_timeLeft (fe_try env (0 + k))" if "k \<le> j" for k using that assms(4) by (cases k) auto
  then obtain r' where "try_upstreams env tid c 0 None tries r
    = Some (Some (Streamed (u_ID (tries ! j)) (oc_Status (try_outcome env c j (tries ! j))) (at_body (fe_try env j))),
        Some (try_outcome env c j (tries ! j)), take (Suc j) tries, r')"
    using try_upstreams_first [OF assms(2,3), of env c 0 tid None] assms(4,5) by auto
  then show ?thesis by (simp add: forwardSelected_def Let_def tries_def allowed_tries_def)
qed

theorem forward_first_answer_witness:
  "\<exists>r'. forwardSelected sample_env None zero_class NoBody sample_selection sample_router
     = Some (Streamed ''n2'' 200 ''{}'', [sample_algod, sample_dtalgorand], r')"
proof -
  have "unanswered (try_outcome sample_env zero_class 0 sample_algod)" "goes_on sample_env zero_class 0 sample_algod"
    "at_timeLeft (fe_try sample_env 1)" "oc_HeadersSent (try_outcome sample_env zero_class 1 sample_dtalgorand)"
    "oc_Status (try_outcome sample_env zero_class 1 sample_dtalgorand) = 200"
    "u_ID sample_dtalgorand = ''n2''" "at_body (fe_try sample_env 1) = ''{}''"
    by code_simp+
  then show ?thesis
    using forward_first_answer [of sample_router 1 NoBody sample_selection sample_env zero_class None]
    by (simp add: sample_tries sample_router_ok)
qed

theorem forward_attempts_witness:
  "\<exists>x sent r' mesh. forwardSelected sample_env None zero_class NoBody sample_selection sample_router = Some (x, sent, r')
     \<and> prefix mesh sent \<and> mesh \<noteq> [] \<and> int (length mesh) \<le> 2"
proof -
  obtain x sent r' where f: "forwardSelected sample_env None zero_class NoBody sample_selection sample_router = Some (x, sent, r')"
    using forwardSelected_total [OF sample_router_ok] by blast
  have "rand_ok (fe_rnd sample_env)" by (simp add: rand_ok_def sample_env_def)
  moreover have "ro_RetryBudget (r_opts sample_router) = 1"
    by (simp add: sample_router_def NewRouter_def sample_opts_def router_defaults_def Let_def)
  ultimately show ?thesis using forward_attempts [OF f] f by force
qed

theorem forward_single_answer_witness:
  "\<exists>x sent r' outs. forwardSelected sample_env None zero_class NoBody sample_selection sample_router = Some (x, sent, r')
     \<and> length outs = length sent \<and> (\<forall>out \<in> set (butlast outs). unanswered out)"
proof -
  obtain x sent r' where f: "forwardSelected sample_env None zero_class NoBody sample_selection sample_router = Some (x, sent, r')"
    using forwardSelected_total [OF sample_router_ok] by blast
  from forward_single_answer [OF f] show ?thesis using f by blast
qed



text \<open>
  Only an upstream's own failures count against it. An attempt the client left or its allowance
  cut short, and a time limit of the node, leave every figure of every upstream as it was; a node
  without a free slot for heavy requests is passed over by heavy requests until its Retry-After, at
  most ten seconds, and by nothing else, its breaker and error rate unchanged; and no attempt
  changes another upstream's figures or leaves a request in flight.
\<close>

theorem forward_accounting:
  assumes "forward url_ok tid c retry u a r = Some (out, r')" and "0 \<le> t"
  defines "now \<equiv> Snapshot (r_stats r) t" and "later \<equiv> Snapshot (r_stats r') t"
  shows "(at_gone a \<or> at_quota a \<or> timeLimited c \<and> oc_Status out = 504 \<longrightarrow> later = now)
    \<and> (\<not> (at_gone a \<or> at_quota a) \<and> Heavy c \<and> oc_Status out = 503 \<and> oc_RetryAfter out > 0 \<longrightarrow>
         (later (u_ID u))\<lparr>Busy := False\<rparr> = (now (u_ID u))\<lparr>Busy := False\<rparr>
         \<and> (t < at_now a + min (oc_RetryAfter out) maxBusy \<longrightarrow>
              (\<forall>v c' best tol. u_Stats v = later (u_ID u) \<and> Heavy c' \<longrightarrow> \<not> Eligible v c' best tol)))
    \<and> (\<forall>i. Inflight (later i) = Inflight (now i)) \<and> (\<forall>i. i \<noteq> u_ID u \<longrightarrow> later i = now i)"
proof -
  let ?b = "release (Begin (r_stats r) (u_ID u)) (u_ID u)"
  have acc: "account c u a out ?b = Some (r_stats r')"
    using assms(1) by (auto simp: forward_def Let_def split: bind_splits)
  have b: "Snapshot ?b t i = now i" for i using Snapshot_Begin_release [OF assms(2)] by (simp add: now_def)
  from acc show ?thesis
  proof (cases rule: account_Some)
    case unblamed
    then have "later = now" using b by (auto simp: later_def)
    then show ?thesis using unblamed(1) by (auto simp: timeLimited_def Heavy_def)
  next
    case busy
    have other: "i \<noteq> u_ID u \<Longrightarrow> later i = now i" for i
      using book.busy_other [of "u_ID u" i] b busy(5) by (auto simp: later_def)
    have same: "(later (u_ID u))\<lparr>Busy := z\<rparr> = (now (u_ID u))\<lparr>Busy := z\<rparr>" for z
      using Snapshot_busy_same [OF assms(2)] b busy(5) by (simp add: later_def)
    then have "Inflight (later (u_ID u)) = Inflight (now (u_ID u))" using Stats.select_convs(3) by (metis Stats.update_convs(6) Stats.surjective)
    then have "Inflight (later i) = Inflight (now i)" for i using other by (cases "i = u_ID u") auto
    then show ?thesis using other same busy book.busy_blocks_heavy unfolding later_def by auto
  next
    case recorded
    have other: "i \<noteq> u_ID u \<Longrightarrow> later i = now i" for i
      using Snapshot_Record_other [OF recorded(3)] b by (auto simp: later_def)
    moreover have "Inflight (later (u_ID u)) = Inflight (now (u_ID u))"
      using Snapshot_Record_inflight [OF recorded(3) assms(2)] b by (simp add: later_def)
    ultimately have "Inflight (later i) = Inflight (now i)" for i by (cases "i = u_ID u") auto
    then show ?thesis using recorded other by auto
  qed
qed

theorem forward_accounting_witness:
  "\<exists>out r'. forward (\<lambda>_. True) None plain_simulate [] sample_dtalgorand (sample_attempt\<lparr>at_reply := Replied 503 ''3''\<rparr>) sample_router
       = Some (out, r')
     \<and> \<not> Eligible (sample_dtalgorand\<lparr>u_Stats := Snapshot (r_stats r') 250 ''n2''\<rparr>) plain_simulate 1000 2"
proof -
  let ?a = "sample_attempt\<lparr>at_reply := Replied 503 ''3''\<rparr>"
  obtain r' where f: "forward (\<lambda>_. True) None plain_simulate [] sample_dtalgorand ?a sample_router
      = Some (outcome_of (\<lambda>_. True) plain_simulate [] sample_dtalgorand ?a, r')"
    using sample_router_ok by (rule forward_total)
  have "\<not> at_gone ?a \<and> \<not> at_quota ?a" "Heavy plain_simulate" "u_ID sample_dtalgorand = ''n2''"
    "oc_Status (outcome_of (\<lambda>_. True) plain_simulate [] sample_dtalgorand ?a) = 503"
    "oc_RetryAfter (outcome_of (\<lambda>_. True) plain_simulate [] sample_dtalgorand ?a) = 3 * Second"
    "250 < at_now ?a + min (3 * Second) maxBusy" "(0::int) < 3 * Second"
    by code_simp+
  then show ?thesis using forward_accounting [OF f, of 250] f by auto
qed



text \<open>
  The default handler never panics and always decides: for every request the classification
  yields, refined by its body or not, it returns, with the books sound.
\<close>

theorem default_handler_total:
  assumes "book_ok (r_stats r)" and "refineSimulate mp js b (Classify m p q) = Some (b', c)"
  shows "\<exists>x sent r'. handleDefault env tid c b' cands best r = Some (x, sent, r') \<and> book_ok (r_stats r')"
  using assms by (intro handleDefault_total) (auto intro: ahead_refine ahead_Classify)

theorem default_handler_total_witness:
  "\<exists>x sent r'. handleDefault \<lparr>re_rnd = (\<lambda>_. None), re_check = None, re_cut = False, re_fwd = sample_env\<rparr> None
     (Classify ''GET'' ''/v2/blocks/7'' []) NoBody [] 0 sample_router = Some (x, sent, r') \<and> book_ok (r_stats r')"
  using default_handler_total [OF sample_router_ok, of "\<lambda>_. None" "\<lambda>_. None" NoBody "''GET''" "''/v2/blocks/7''" "[]"]
  by (simp add: refineSimulate_def)

text \<open>
  A simulate request is relaxed only when it must be: when pick found nothing and the attempts go
  by a class other than the request's own, no candidate, whatever its health, could ever serve the
  request as it was or any step less relaxed than the one taken.
\<close>

theorem relaxed_only_if_unservable:
  assumes "relax o' rnd k cands best c (Relaxed c) = Some (s, rc)"
  shows "\<exists>i < length (Relaxed c). rc = Relaxed c ! i \<and> (\<forall>j \<le> i. \<not> CouldServe cands ((c # Relaxed c) ! j))
    \<and> (\<exists>u \<in> set cands. Eligible u rc best (ro_SyncTolerance o'))"
proof -
  obtain i where i: "i < length (Relaxed c)" "rc = Relaxed c ! i" "\<forall>j \<le> i. \<not> CouldServe cands ((c # Relaxed c) ! j)"
    "router_sel o' (rnd (k + i)) cands rc best = Some s"
    using relax_Some [OF assms] by blast
  then have "\<exists>u \<in> set cands. Eligible u rc best (ro_SyncTolerance o')"
    using Select_None_iff by (metis option.distinct(1) router_sel_def)
  with i show ?thesis by blast
qed

theorem relaxed_only_if_unservable_witness:
  "\<not> CouldServe [sample_algod] (plain_simulate\<lparr>rc_SimNeeds := Some (sample_needs\<lparr>sn_Groups := 2\<rparr>)\<rparr>)"
proof -
  let ?c = "plain_simulate\<lparr>rc_SimNeeds := Some (sample_needs\<lparr>sn_Groups := 2\<rparr>)\<rparr>"
  have "relax sample_opts (\<lambda>_. None) 2 [sample_algod] 1000 ?c (Relaxed ?c) \<noteq> None"
    by code_simp
  then obtain s rc where "relax sample_opts (\<lambda>_. None) 2 [sample_algod] 1000 ?c (Relaxed ?c) = Some (s, rc)" by auto
  from relaxed_only_if_unservable [OF this] show ?thesis by (metis le0 nth_Cons_0)
qed

end
