(* ===== verification/Broadcast.thy ===== *)
theory Broadcast
  imports RouterForward
begin

text \<open>
  Requests sent to several upstreams at once: the fan-out, the submission of transactions
  (handleBroadcast in src/internal/app/router.go) and the lookup of pending ones
  (src/internal/app/pending.go). The environment says what each upstream does and in which order
  the results arrive; every goroutine of a fan-out ends, since its request is bounded, and the
  state a handler leaves is the one after the last of them. Reading a transaction id or a pending
  lookup out of an answer's body (JSON, msgpack) is an argument.
\<close>

section \<open>The fan-out\<close>

definition withheldStatus :: "int \<Rightarrow> bool" where
  "withheldStatus code = (code = 502 \<or> code = 503 \<or> code = 504)"

definition maxFanBody :: int where "maxFanBody = 16777216"

type_synonym headers = "(string \<times> string list) list"

record fanResult =
  fr_u :: Upstream
  fr_resp :: "(int \<times> headers) option"
  fr_body :: string
  fr_err :: "string option"

text \<open>What an upstream does: no response, a response that breaks off, or one that is read.\<close>

datatype fan_reply = DoFailed string | ReadFailed int headers string string | ReadAll int headers string

text \<open>One goroutine: the reply, when and after how long it ends, and whether its context had ended.\<close>

record fan_event =
  fv_reply :: fan_reply
  fv_now :: Time
  fv_duration :: Duration
  fv_ended :: bool

definition limit_body :: "string \<Rightarrow> string" where
  "limit_body b = (if int (length b) \<le> maxFanBody then b else take (nat maxFanBody) b)"

definition fan_result :: "Upstream \<Rightarrow> fan_event \<Rightarrow> fanResult" where
  "fan_result u ev =
     (case fv_reply ev of
        DoFailed e \<Rightarrow> \<lparr>fr_u = u, fr_resp = None, fr_body = [], fr_err = Some e\<rparr>
      | ReadFailed st h b e \<Rightarrow> \<lparr>fr_u = u, fr_resp = Some (st, h), fr_body = limit_body b, fr_err = Some e\<rparr>
      | ReadAll st h b \<Rightarrow> \<lparr>fr_u = u, fr_resp = Some (st, h), fr_body = limit_body b, fr_err = None\<rparr>)"

definition fan_outcome :: "fanResult \<Rightarrow> Duration \<Rightarrow> Outcome" where
  "fan_outcome res dur =
     \<lparr>oc_Status = (case fr_resp res of Some (st, _) \<Rightarrow> st | None \<Rightarrow> 0), oc_Err = map_option ErrOther (fr_err res),
      oc_HeadersSent = False, oc_Duration = dur, oc_RetryAfter = 0\<rparr>"

text \<open>What one goroutine of the fan-out leaves in the book.\<close>

definition fan_record :: "RequestClass \<Rightarrow> Upstream \<Rightarrow> fan_event \<Rightarrow> StatsBook \<Rightarrow> StatsBook option" where
  "fan_record c u ev b =
     (let b1 = release (Begin b (u_ID u)) (u_ID u) in
      if fv_ended ev then Some b1
      else Record b1 (fv_now ev) (u_ID u) (StatKey c) (fan_outcome (fan_result u ev) (fv_duration ev)))"

fun fan_all :: "RequestClass \<Rightarrow> (Upstream \<Rightarrow> fan_event) \<Rightarrow> Upstream list \<Rightarrow> StatsBook \<Rightarrow> StatsBook option" where
  "fan_all c ev [] b = Some b"
| "fan_all c ev (u # us) b = do { b' \<leftarrow> fan_record c u (ev u) b; fan_all c ev us b' }"

text \<open>fanOut: the results in the order of arrival, and the state once every goroutine has ended.\<close>

definition fanOut ::
  "RequestClass \<Rightarrow> (Upstream \<Rightarrow> fan_event) \<Rightarrow> Upstream list \<Rightarrow> Router \<Rightarrow> (fanResult list \<times> Router) option" where
  "fanOut c ev arriving r = do {
     b \<leftarrow> fan_all c ev arriving (r_stats r);
     Some (map (\<lambda>u. fan_result u (ev u)) arriving, r\<lparr>r_stats := b\<rparr>)
   }"

text \<open>writeFan: the buffered answer with its end-to-end headers; None is the nil response.\<close>

abbreviation EffortHeader :: string where "EffortHeader \<equiv> ''X-Algod-Effort''"

definition hop_by_hop :: "string list" where
  "hop_by_hop = [''Connection'', ''Keep-Alive'', ''Transfer-Encoding'', ''Content-Length'', ''Trailer'', ''Upgrade'', EffortHeader]"

definition writeFan :: "fanResult \<Rightarrow> answer option" where
  "writeFan res =
     (case fr_resp res of None \<Rightarrow> None
      | Some (st, h) \<Rightarrow> Some (Relayed (u_ID (fr_u res)) st (filter (\<lambda>(k, _). k \<notin> set hop_by_hop) h) (fr_body res)))"

section \<open>Submissions\<close>

definition fanRank :: "fanResult \<Rightarrow> int" where
  "fanRank res =
     (if fr_err res \<noteq> None then 0
      else (case fr_resp res of Some (st, _) \<Rightarrow> if withheldStatus st then 1 else 2 | None \<Rightarrow> 0))"

definition meshFirst :: "Upstream list \<Rightarrow> Upstream list" where
  "meshFirst us = (let mesh = filter (\<lambda>u. u_Kind u \<noteq> KindExternal) us in if mesh = [] then us else mesh)"

fun dedupe_from :: "string list \<Rightarrow> Upstream list \<Rightarrow> Upstream list" where
  "dedupe_from seen [] = []"
| "dedupe_from seen (u # us) =
     (if u_BaseURL u \<in> set seen then dedupe_from seen us else u # dedupe_from (u_BaseURL u # seen) us)"

definition dedupeByURL :: "Upstream list \<Rightarrow> Upstream list" where
  "dedupeByURL us = dedupe_from [] us"

definition fan_status :: "fanResult \<Rightarrow> int" where
  "fan_status res = (case fr_resp res of Some (st, _) \<Rightarrow> st | None \<Rightarrow> 0)"

text \<open>
  The loop over the results of a submission: the first success, or the best failure with how many
  of the targets did not answer.
\<close>

fun collect_broadcast :: "fanResult list \<Rightarrow> fanResult option \<Rightarrow> nat \<Rightarrow> fanResult + (fanResult option \<times> nat)" where
  "collect_broadcast [] fallback n = Inr (fallback, n)"
| "collect_broadcast (res # rs) fallback n =
     (if fr_err res = None \<and> fan_status res = 200 then Inl res
      else
        let n' = (if fr_err res \<noteq> None \<or> withheldStatus (fan_status res) then n + 1 else n);
            fallback' = (case fallback of None \<Rightarrow> Some res
                         | Some f \<Rightarrow> if fanRank res > fanRank f then Some res else Some f)
        in collect_broadcast rs fallback' n')"

definition rememberTxn :: "string \<Rightarrow> string \<Rightarrow> Time \<Rightarrow> Router \<Rightarrow> Router" where
  "rememberTxn txid upstream now r = r\<lparr>r_pins := remember (r_pins r) txid upstream now\<rparr>"

definition recallTxn :: "string \<Rightarrow> Time \<Rightarrow> Router \<Rightarrow> string option \<times> Router" where
  "recallTxn txid now r = (case recall (r_pins r) txid now of (u, p) \<Rightarrow> (u, r\<lparr>r_pins := p\<rparr>))"

text \<open>
  What decides about a submission or a pending lookup besides the selection and the attempts: the
  goroutines of the fan-out, the order of arrival, the reader of transaction ids, and the clock.
\<close>

record fan_env =
  ne_route :: route_env
  ne_event :: "Upstream \<Rightarrow> fan_event"
  ne_arrive :: "Upstream list \<Rightarrow> Upstream list"
  ne_txid :: "string \<Rightarrow> string"
  ne_now :: Time

text \<open>captureWriter: the pin a streamed answer of status 200 sets, from the first 8 KB of its body.\<close>

definition captured :: "string \<Rightarrow> string" where
  "captured body = take 8192 body"

definition pin_answer :: "fan_env \<Rightarrow> answer \<Rightarrow> Router \<Rightarrow> Router" where
  "pin_answer env x r =
     (case x of Streamed i st body \<Rightarrow>
        if st = 200 then rememberTxn (ne_txid env (captured body)) i (ne_now env) r else r
      | _ \<Rightarrow> r)"

text \<open>The external a submission falls back to when no target answered.\<close>

definition broadcast_external ::
  "fan_env \<Rightarrow> nat option \<Rightarrow> RequestClass \<Rightarrow> Upstream list \<Rightarrow> Router
   \<Rightarrow> (answer option \<times> Upstream list \<times> Router) option" where
  "broadcast_external env tid c targets r =
     (let fe = re_fwd (ne_route env) in
      if \<not> fe_timeLeft fe then Some (None, [], r)
      else (case externalFallback (r_opts r) (fe_rnd fe) (fe_check fe) c targets of
              None \<Rightarrow> Some (None, [], r)
            | Some ext \<Rightarrow>
              if \<not> fe_timeLeft_ext fe then Some (None, [], r)
              else do {
                (out, r1) \<leftarrow> forward (fe_url_ok fe) tid c [] ext (fe_ext fe) r;
                if \<not> Failed out \<or> oc_HeadersSent out \<or> at_left (fe_ext fe) then
                  let x = (if oc_HeadersSent out then Streamed (u_ID ext) (oc_Status out) (at_body (fe_ext fe)) else Silence)
                  in Some (Some x, [ext], pin_answer env x r1)
                else Some (None, [ext], r1)
              }))"

text \<open>handleBroadcast with multi_broadcast, once the targets are known.\<close>

definition multi_broadcast ::
  "fan_env \<Rightarrow> nat option \<Rightarrow> RequestClass \<Rightarrow> Upstream list \<Rightarrow> Router \<Rightarrow> (answer \<times> Upstream list \<times> Router) option" where
  "multi_broadcast env tid c targets r = do {
     (results, r1) \<leftarrow> fanOut c (ne_event env) (ne_arrive env targets) r;
     (case collect_broadcast results None 0 of
        Inl res \<Rightarrow> do {
          x \<leftarrow> writeFan res;
          Some (x, targets, rememberTxn (ne_txid env (fr_body res)) (u_ID (fr_u res)) (ne_now env) r1)
        }
      | Inr (fallback, unans) \<Rightarrow> do {
          (x, sent, r2) \<leftarrow> (if unans = length targets then broadcast_external env tid c targets r1 else Some (None, [], r1));
          (case x of
             Some y \<Rightarrow> Some (y, targets @ sent, r2)
           | None \<Rightarrow> do {
               f \<leftarrow> fallback;
               y \<leftarrow> (case fr_err f of
                      Some e \<Rightarrow> Some (Message 502 [] (''algod-mesh: broadcast failed on every node: '' @ e))
                    | None \<Rightarrow> writeFan f);
               Some (y, targets @ sent, r2)
             })
        })
   }"

definition handleBroadcast ::
  "fan_env \<Rightarrow> nat option \<Rightarrow> RequestClass \<Rightarrow> body \<Rightarrow> Upstream list \<Rightarrow> u64 \<Rightarrow> Router
   \<Rightarrow> (answer \<times> Upstream list \<times> Router) option" where
  "handleBroadcast env tid c b cands best r =
     (case pick (r_opts r) (re_rnd (ne_route env)) (re_check (ne_route env)) c cands best of
        (None, cands', _) \<Rightarrow> Some (noUpstream (r_opts r) c cands', [], r)
      | (Some s, _, _) \<Rightarrow>
        if \<not> ro_MultiBroadcast (r_opts r) then do {
          (x, sent, r1) \<leftarrow> forwardSelected (re_fwd (ne_route env)) tid c b s r;
          Some (x, sent, pin_answer env x r1)
        }
        else (case b of
                Body n None \<Rightarrow> Some (Message 400 [] ''algod-mesh: cannot read body'', [], r)
              | _ \<Rightarrow> multi_broadcast env tid c (dedupeByURL (meshFirst (sel_Chosen s # sel_Alternates s))) r))"

text \<open>A submission the node accepted, and an upstream's own answer of any kind.\<close>

abbreviation accepted :: "fanResult \<Rightarrow> bool" where
  "accepted res \<equiv> fr_err res = None \<and> fan_status res = 200"

abbreviation answered :: "fanResult \<Rightarrow> bool" where
  "answered res \<equiv> fr_err res = None \<and> \<not> withheldStatus (fan_status res)"

section \<open>Lemmas\<close>

lemma fan_result_simps [simp]:
  "fr_u (fan_result u ev) = u"
  "fr_err (fan_result u ev) = None \<Longrightarrow> fr_resp (fan_result u ev) \<noteq> None"
  by (simp_all add: fan_result_def split: fan_reply.splits)

lemma fanRank_2: "fr_resp res \<noteq> None \<Longrightarrow> fanRank res = 2 \<longleftrightarrow> answered res"
  by (auto simp: fanRank_def fan_status_def)

lemma fanRank_le: "fanRank res \<le> 2"
  by (auto simp: fanRank_def split: option.splits)

lemma fan_record_total:
  assumes "book_ok b"
  obtains b' where "fan_record c u ev b = Some b'" "book_ok b'"
proof -
  have "book_ok (release (Begin b (u_ID u)) (u_ID u))" using assms by auto
  then show thesis using that book_ok_Record unfolding fan_record_def Let_def by (cases "fv_ended ev") (simp, metis)
qed

lemma fan_all_total:
  assumes "book_ok b"
  shows "\<exists>b'. fan_all c ev us b = Some b' \<and> book_ok b'"
  using assms
proof (induction us arbitrary: b)
  case (Cons u us)
  obtain b1 where "fan_record c u (ev u) b = Some b1" "book_ok b1" using Cons.prems by (rule fan_record_total)
  then show ?case using Cons.IH by simp
qed simp

lemma fanOut_total:
  assumes "book_ok (r_stats r)"
  obtains r' where "fanOut c ev us r = Some (map (\<lambda>u. fan_result u (ev u)) us, r')" "book_ok (r_stats r')"
    "r_opts r' = r_opts r" "r_pins r' = r_pins r"
  using fan_all_total [OF assms, of c ev us] by (auto simp: fanOut_def)

lemma collect_broadcast_spec:
  "case collect_broadcast rs fb n of
     Inl res \<Rightarrow> res \<in> set rs \<and> accepted res
   | Inr (fb', n') \<Rightarrow> \<not> list_ex accepted rs \<and> n' = n + length (filter (\<lambda>r. \<not> answered r) rs)
       \<and> (\<forall>x \<in> set rs \<union> set_option fb. \<exists>f. fb' = Some f \<and> fanRank x \<le> fanRank f)
       \<and> set_option fb' \<subseteq> set rs \<union> set_option fb"
proof (induction rs fb n rule: collect_broadcast.induct)
  case (1 fb n)
  then show ?case by (cases fb) auto
next
  case (2 res rs fb n)
  show ?case
  proof (cases "accepted res")
    case False
    let ?fb = "case fb of None \<Rightarrow> Some res | Some f \<Rightarrow> if fanRank res > fanRank f then Some res else Some f"
    let ?n = "if fr_err res \<noteq> None \<or> withheldStatus (fan_status res) then n + 1 else n"
    have IH: "case collect_broadcast rs ?fb ?n of
        Inl res \<Rightarrow> res \<in> set rs \<and> accepted res
      | Inr (fb', n') \<Rightarrow> \<not> list_ex accepted rs \<and> n' = ?n + length (filter (\<lambda>r. \<not> answered r) rs)
          \<and> (\<forall>x \<in> set rs \<union> set_option ?fb. \<exists>f. fb' = Some f \<and> fanRank x \<le> fanRank f)
          \<and> set_option fb' \<subseteq> set rs \<union> set_option ?fb"
      using 2 [OF False refl refl] by simp
    have step: "collect_broadcast (res # rs) fb n = collect_broadcast rs ?fb ?n" using False by (simp only: collect_broadcast.simps Let_def if_False)
    show ?thesis
    proof (cases "collect_broadcast rs ?fb ?n")
      case (Inl x)
      then show ?thesis using IH step by simp
    next
      case (Inr p)
      obtain fb' n' where p: "p = (fb', n')" by fastforce
      have "\<exists>f. fb' = Some f \<and> fanRank x \<le> fanRank f" if "x \<in> set (res # rs) \<union> set_option fb" for x
      proof -
        have "\<forall>y. x \<in> set rs \<or> (\<exists>y \<in> set_option ?fb. fanRank x \<le> fanRank y)"
          using that by (cases fb) auto
        then show ?thesis using IH Inr p by (auto intro: order_trans)
      qed
      moreover have "set_option ?fb \<subseteq> insert res (set_option fb)" by (cases fb) auto
      ultimately show ?thesis using IH Inr p step False by auto
    qed
  qed simp
qed

lemma dedupe_from_spec:
  "distinct (map u_BaseURL (dedupe_from seen us)) \<and> u_BaseURL ` set (dedupe_from seen us) = u_BaseURL ` set us - set seen
   \<and> set (dedupe_from seen us) \<subseteq> set us"
  by (induction seen us rule: dedupe_from.induct) auto

lemma broadcast_external_total:
  assumes "book_ok (r_stats r)"
  shows "\<exists>x sent r'. broadcast_external env tid c targets r = Some (x, sent, r') \<and> book_ok (r_stats r')"
proof -
  let ?fe = "re_fwd (ne_route env)"
  show ?thesis
  proof (cases "externalFallback (r_opts r) (fe_rnd ?fe) (fe_check ?fe) c targets")
    case None
    then show ?thesis using assms by (simp add: broadcast_external_def Let_def)
  next
    case (Some ext)
    obtain r1 where "forward (fe_url_ok ?fe) tid c [] ext (fe_ext ?fe) r = Some (outcome_of (fe_url_ok ?fe) c [] ext (fe_ext ?fe), r1)"
      "book_ok (r_stats r1)" using assms by (rule forward_total)
    moreover have "r_stats (pin_answer env x r1) = r_stats r1" for x
      by (simp add: pin_answer_def rememberTxn_def split: answer.splits)
    ultimately show ?thesis using assms Some by (simp add: broadcast_external_def Let_def)
  qed
qed

section \<open>Properties\<close>



end
