(* ===== verification/Pending.thy ===== *)
theory Pending
  imports Broadcast
begin

text \<open>
  The lookup of a pending transaction (src/internal/app/pending.go): first on the node that accepted
  it, then on every other node at once, the best answer winning; and the order of rounds it breaks
  ties by (sortByRoundDesc in src/internal/app/router.go).
\<close>

section \<open>Definitions\<close>

text \<open>
  The inner loop of sortByRoundDesc: an element moves left, past the elements of a lower round; the
  list is the part already sorted, last element first.
\<close>

fun sink :: "Upstream \<Rightarrow> Upstream list \<Rightarrow> Upstream list" where
  "sink x [] = [x]"
| "sink x (y # ys) = (if u_LastRound x > u_LastRound y then y # sink x ys else x # y # ys)"

definition sortByRoundDesc :: "Upstream list \<Rightarrow> Upstream list" where
  "sortByRoundDesc us = rev (fold sink us [])"

text \<open>Pending lookup answers, worst to best.\<close>

abbreviation pendingFailed :: nat where "pendingFailed \<equiv> 0"
abbreviation pendingOther :: nat where "pendingOther \<equiv> 1"
abbreviation pendingNotFound :: nat where "pendingNotFound \<equiv> 2"
abbreviation pendingInPool :: nat where "pendingInPool \<equiv> 3"
abbreviation pendingPoolError :: nat where "pendingPoolError \<equiv> 4"
abbreviation pendingConfirmed :: nat where "pendingConfirmed \<equiv> 5"

text \<open>The first value of a header of a buffered answer.\<close>

definition fan_header :: "fanResult \<Rightarrow> string \<Rightarrow> string" where
  "fan_header res k =
     (case fr_resp res of None \<Rightarrow> []
      | Some (_, h) \<Rightarrow> (case map_of h k of Some (v # _) \<Rightarrow> v | _ \<Rightarrow> []))"

text \<open>
  pendingRank. \<open>decode\<close> reads the confirmed round and the pool error out of a body, as msgpack or as
  JSON; None is a body it cannot read.
\<close>

definition pendingRank :: "(bool \<Rightarrow> string \<Rightarrow> (u64 \<times> string) option) \<Rightarrow> fanResult \<Rightarrow> nat" where
  "pendingRank decode res =
     (if fr_err res \<noteq> None then pendingFailed
      else let st = fan_status res in
        if st \<ge> 500 \<or> st = 429 then pendingFailed
        else if st = 404 then pendingNotFound
        else if st \<noteq> 200 then pendingOther
        else (case decode (Contains (fan_header res ''Content-Type'') ''msgpack'') (fr_body res) of
                None \<Rightarrow> pendingInPool
              | Some (confirmedRound, poolError) \<Rightarrow>
                if confirmedRound > 0 then pendingConfirmed
                else if poolError \<noteq> [] then pendingPoolError
                else pendingInPool))"

text \<open>The positions of the upstreams by id; of two with one id, the later.\<close>

definition pos_of :: "Upstream list \<Rightarrow> string \<Rightarrow> nat" where
  "pos_of order i = (case map_of (rev (zip (map u_ID order) [0..<length order])) i of Some k \<Rightarrow> k | None \<Rightarrow> 0)"

text \<open>
  The collecting loop after k results: None when the client leaves before the result at position
  \<open>leave\<close> arrives, else the chosen result with its rank. \<open>grace\<close> is the number of results read by the
  time the grace period, which runs from the first answer of status 200 on, is over.
\<close>

fun collect_pending ::
  "(fanResult \<Rightarrow> nat) \<Rightarrow> (string \<Rightarrow> nat) \<Rightarrow> nat \<Rightarrow> nat option \<Rightarrow> nat \<Rightarrow> (fanResult \<times> nat) option \<Rightarrow> fanResult list
   \<Rightarrow> (fanResult \<times> nat) option option" where
  "collect_pending rank pos grace leave k chosen [] = Some chosen"
| "collect_pending rank pos grace leave k chosen (res # rs) =
     (let armed = (case chosen of None \<Rightarrow> False | Some (_, n) \<Rightarrow> n \<ge> pendingInPool) in
      if leave = Some k then None
      else if armed \<and> grace \<le> k then Some chosen
      else
        let n = rank res;
            chosen' = (case chosen of
                         None \<Rightarrow> Some (res, n)
                       | Some (c, m) \<Rightarrow>
                         if n > m \<or> n = m \<and> pos (u_ID (fr_u res)) < pos (u_ID (fr_u c)) then Some (res, n) else Some (c, m))
        in if (case chosen' of Some (_, m) \<Rightarrow> m = pendingConfirmed | None \<Rightarrow> False) then Some chosen'
           else collect_pending rank pos grace leave (Suc k) chosen' rs)"

text \<open>
  What decides about a pending lookup besides a fan-out: the clock when the pin is looked up, the
  attempt at the pinned node, the decoder of answers, and the two ends of the collecting loop.
\<close>

record pending_env =
  pe_fan :: fan_env
  pe_recall :: Time
  pe_pin :: attempt
  pe_decode :: "bool \<Rightarrow> string \<Rightarrow> (u64 \<times> string) option"
  pe_grace :: nat
  pe_leave :: "nat option"

text \<open>The fan-out part, on the nodes left over once the pinned one has been asked.\<close>

definition pending_fan ::
  "pending_env \<Rightarrow> RequestClass \<Rightarrow> Upstream list \<Rightarrow> Router \<Rightarrow> (answer \<times> Upstream list \<times> Router) option" where
  "pending_fan env c order r = do {
     let fe = pe_fan env;
     (results, r1) \<leftarrow> fanOut c (ne_event fe) (ne_arrive fe order) r;
     (case collect_pending (pendingRank (pe_decode env)) (pos_of order) (pe_grace env) (pe_leave env) 0 None results of
        None \<Rightarrow> Some (Silence, order, r1)
      | Some None \<Rightarrow> None
      | Some (Some (res, rank)) \<Rightarrow>
        let r2 = (if rank = pendingInPool \<or> rank = pendingPoolError
                  then rememberTxn (rc_PendingID c) (u_ID (fr_u res)) (ne_now fe) r1 else r1)
        in (case fr_err res of
              Some e \<Rightarrow> if rank = pendingFailed
                then Some (Message 502 [] (''algod-mesh: pending lookup failed on every node: '' @ e), order, r2)
                else do { x \<leftarrow> writeFan res; Some (x, order, r2) }
            | None \<Rightarrow> do { x \<leftarrow> writeFan res; Some (x, order, r2) }))
   }"

text \<open>The index of the pinned node in the order, if it is there.\<close>

definition pinned_index :: "string option \<Rightarrow> Upstream list \<Rightarrow> nat option" where
  "pinned_index pin order =
     (case pin of None \<Rightarrow> None
      | Some i \<Rightarrow> find (\<lambda>k. u_ID (order ! k) = i) [0..<length order])"

definition handlePending ::
  "pending_env \<Rightarrow> nat option \<Rightarrow> RequestClass \<Rightarrow> Upstream list \<Rightarrow> u64 \<Rightarrow> Router
   \<Rightarrow> (answer \<times> Upstream list \<times> Router) option" where
  "handlePending env tid c cands best r0 =
     (let re = ne_route (pe_fan env) in
      case pick (r_opts r0) (re_rnd re) (re_check re) c cands best of
        (None, cands', _) \<Rightarrow> Some (noUpstream (r_opts r0) c cands', [], r0)
      | (Some s, _, _) \<Rightarrow>
        let order = sortByRoundDesc (sel_Chosen s # sel_Alternates s);
            (pin, r) = recallTxn (rc_PendingID c) (pe_recall env) r0
        in (case pinned_index pin order of
              None \<Rightarrow> pending_fan env c order r
            | Some k \<Rightarrow> do {
                let u = order ! k;
                (out, r1) \<leftarrow> forward (fe_url_ok (re_fwd re)) tid c [404] u (pe_pin env) r;
                if oc_HeadersSent out \<or> at_left (pe_pin env) then
                  Some (if oc_HeadersSent out then Streamed (u_ID u) (oc_Status out) (at_body (pe_pin env)) else Silence, [u], r1)
                else
                  let rest = take k order @ drop (Suc k) order in
                  if rest = [] then
                    Some (if oc_Status out = 404
                          then Message 404 [] ''algod-mesh: transaction not found on any node''
                          else answerFailure c (at_late (pe_pin env)) out, [u], r1)
                  else do { (x, sent, r2) \<leftarrow> pending_fan env c rest r1; Some (x, u # sent, r2) }
              }))"

text \<open>What one result does to the choice made so far.\<close>

definition better_of :: "(fanResult \<Rightarrow> nat) \<Rightarrow> (string \<Rightarrow> nat) \<Rightarrow> (fanResult \<times> nat) option \<Rightarrow> fanResult \<Rightarrow> fanResult \<times> nat" where
  "better_of rank pos chosen res =
     (case chosen of None \<Rightarrow> (res, rank res)
      | Some (c, m) \<Rightarrow>
        if rank res > m \<or> rank res = m \<and> pos (u_ID (fr_u res)) < pos (u_ID (fr_u c)) then (res, rank res) else (c, m))"

text \<open>
  From a choice made, the loop ends with that choice or a result read; no result read ranks above
  it, and one left unread implies that the answer is at least a pool entry; a tie goes to the
  position in the order.
\<close>

definition chosen_ok ::
  "(fanResult \<Rightarrow> nat) \<Rightarrow> (string \<Rightarrow> nat) \<Rightarrow> bool \<Rightarrow> (fanResult \<times> nat) set \<Rightarrow> fanResult \<times> nat \<Rightarrow> bool" where
  "chosen_ok rank pos all cs cm =
     (cm \<in> cs \<and> (snd cm < pendingInPool \<or> all \<longrightarrow> (\<forall>(x, n) \<in> cs. n \<le> snd cm))
      \<and> (all \<and> snd cm < pendingConfirmed \<longrightarrow> (\<forall>(x, n) \<in> cs. n = snd cm \<longrightarrow> pos (u_ID (fr_u (fst cm))) \<le> pos (u_ID (fr_u x)))))"

section \<open>Sorting by round\<close>

context strict_weak_order
begin

text \<open>Insertion behind the elements not greater: what moving left from the end amounts to.\<close>

fun insert_after :: "'a \<Rightarrow> 'a list \<Rightarrow> 'a list" where
  "insert_after x [] = [x]"
| "insert_after x (y # ys) = (if lt x y then x # y # ys else y # insert_after x ys)"

lemma insert_after_commutes:
  "insert_stable lt a (insert_after x zs) = insert_after x (insert_stable lt a zs)"
proof (induction zs)
  case (Cons y ys)
  then show ?case using order_trans [of x y a] neg_trans [of x y a] by auto
qed simp

lemma SliceStable_snoc: "SliceStable lt (us @ [x]) = insert_after x (SliceStable lt us)"
  by (induction us) (simp_all add: SliceStable_def insert_after_commutes)

lemma insert_after_snoc_lt: "lt x y \<Longrightarrow> insert_after x (zs @ [y]) = insert_after x zs @ [y]"
  by (induction zs) auto

lemma insert_after_end: "\<forall>z \<in> set zs. \<not> lt x z \<Longrightarrow> insert_after x zs = zs @ [x]"
  by (induction zs) auto

lemma insert_after_snoc:
  assumes "sorted_wrt (\<lambda>a b. \<not> lt b a) (zs @ [y])" "\<not> lt x y"
  shows "insert_after x (zs @ [y]) = zs @ [y, x]"
proof -
  have "\<forall>z \<in> set (zs @ [y]). \<not> lt x z"
    using assms neg_trans [of x y] by (auto simp: sorted_wrt_append)
  then show ?thesis by (simp add: insert_after_end)
qed

end

interpretation by_round: strict_weak_order "\<lambda>a b. u_LastRound a > u_LastRound b"
  by unfold_locales auto

lemma sink_insert_after:
  "sorted_wrt (\<lambda>a b. \<not> u_LastRound b > u_LastRound a) (rev ys) \<Longrightarrow> rev (sink x ys) = by_round.insert_after x (rev ys)"
  by (induction ys) (auto simp: by_round.insert_after_snoc by_round.insert_after_snoc_lt sorted_wrt_append)

lemma sortByRoundDesc_SliceStable:
  "sortByRoundDesc us = SliceStable (\<lambda>a b. u_LastRound a > u_LastRound b) us"
proof (induction us rule: rev_induct)
  case Nil
  then show ?case by (simp add: sortByRoundDesc_def SliceStable_def)
next
  case (snoc x us)
  have "sorted_wrt (\<lambda>a b. \<not> u_LastRound b > u_LastRound a) (rev (fold sink us []))"
    using by_round.sorted_SliceStable [of us] snoc by (simp add: sortByRoundDesc_def)
  from sink_insert_after [OF this] snoc show ?case
    by (simp add: sortByRoundDesc_def by_round.SliceStable_snoc)
qed

section \<open>The collecting loop\<close>

lemma pendingRank_le: "pendingRank decode res \<le> pendingConfirmed"
  by (simp add: pendingRank_def Let_def split: option.splits prod.splits)

lemma pendingRank_200:
  "pendingRank decode res \<ge> pendingInPool \<longleftrightarrow> fr_err res = None \<and> fan_status res = 200"
  by (auto simp: pendingRank_def Let_def split: option.splits prod.splits)

lemma collect_pending_Cons:
  "collect_pending rank pos grace None k chosen (res # rs) =
    (if (case chosen of None \<Rightarrow> False | Some (_, n) \<Rightarrow> n \<ge> pendingInPool) \<and> grace \<le> k then Some chosen
     else if snd (better_of rank pos chosen res) = pendingConfirmed then Some (Some (better_of rank pos chosen res))
     else collect_pending rank pos grace None (Suc k) (Some (better_of rank pos chosen res)) rs)"
  by (cases chosen) (auto simp: better_of_def Let_def split: prod.splits)

text \<open>What is chosen after the better of two was kept is chosen among both.\<close>

lemma chosen_ok_more:
  assumes ok: "chosen_ok rank pos all (insert (c', m') cs) cm" and le: "m' \<le> snd cm"
    and one: "(c', m') \<in> {(c, m), (r, rank r)}" and ge: "m \<le> m'" "rank r \<le> m'"
    and first: "m' = m \<Longrightarrow> pos (u_ID (fr_u c')) \<le> pos (u_ID (fr_u c))" "m' = rank r \<Longrightarrow> pos (u_ID (fr_u c')) \<le> pos (u_ID (fr_u r))"
  shows "chosen_ok rank pos all (insert (c, m) (insert (r, rank r) cs)) cm"
proof -
  have "cm \<in> insert (c, m) (insert (r, rank r) cs)" using ok one by (auto simp: chosen_ok_def)
  moreover have "\<forall>(x, n) \<in> insert (c, m) (insert (r, rank r) cs). n \<le> snd cm" if "snd cm < pendingInPool \<or> all"
    using ok that ge le by (auto simp: chosen_ok_def)
  moreover have "pos (u_ID (fr_u (fst cm))) \<le> pos (u_ID (fr_u x))"
    if a: "all" "snd cm < pendingConfirmed" and x: "(x, n) \<in> insert (c, m) (insert (r, rank r) cs)" "n = snd cm" for x n
  proof (cases "(x, n) \<in> cs")
    case True
    then show ?thesis using ok a x(2) by (auto simp: chosen_ok_def)
  next
    case False
    then have x': "x = c \<and> n = m \<or> x = r \<and> n = rank r" using x(1) by auto
    then have "m' = snd cm" using ge le x(2) by auto
    then have "pos (u_ID (fr_u (fst cm))) \<le> pos (u_ID (fr_u c'))" using ok a by (auto simp: chosen_ok_def)
    then show ?thesis using x' first \<open>m' = snd cm\<close> x(2) by fastforce
  qed
  ultimately show ?thesis unfolding chosen_ok_def by blast
qed

lemma collect_pending_from:
  assumes "\<And>x. rank x \<le> pendingConfirmed" "m \<le> pendingConfirmed"
  shows "\<exists>cm. collect_pending rank pos grace None k (Some (c, m)) rs = Some (Some cm)
    \<and> chosen_ok rank pos (k + length rs \<le> grace) (insert (c, m) ((\<lambda>x. (x, rank x)) ` set rs)) cm
    \<and> m \<le> snd cm"
  using assms(2)
proof (induction rs arbitrary: k c m)
  case Nil
  then show ?case by (simp add: chosen_ok_def)
next
  case (Cons r rs)
  obtain c' m' where b: "better_of rank pos (Some (c, m)) r = (c', m')" by fastforce
  have b': "(c', m') \<in> {(c, m), (r, rank r)}" "m \<le> m'" "rank r \<le> m'" "m' \<le> pendingConfirmed"
    "m' = m \<Longrightarrow> pos (u_ID (fr_u c')) \<le> pos (u_ID (fr_u c))" "m' = rank r \<Longrightarrow> pos (u_ID (fr_u c')) \<le> pos (u_ID (fr_u r))"
    using b Cons.prems assms(1) [of r] by (auto simp: better_of_def split: if_splits)
  consider (cut) "m \<ge> pendingInPool" "grace \<le> k"
    | (confirmed) "\<not> (m \<ge> pendingInPool \<and> grace \<le> k)" "m' = pendingConfirmed"
    | (more) "\<not> (m \<ge> pendingInPool \<and> grace \<le> k)" "m' \<noteq> pendingConfirmed" by blast
  then show ?case
  proof cases
    case cut
    then show ?thesis unfolding collect_pending_Cons by (auto simp: chosen_ok_def)
  next
    case confirmed
    moreover have "\<forall>x \<in> set rs. rank x \<le> m'" using assms(1) confirmed by simp
    ultimately show ?thesis unfolding collect_pending_Cons b using b' by (auto simp: chosen_ok_def)
  next
    case more
    obtain cm where cm: "collect_pending rank pos grace None (Suc k) (Some (c', m')) rs = Some (Some cm)"
      "chosen_ok rank pos (Suc k + length rs \<le> grace) (insert (c', m') ((\<lambda>x. (x, rank x)) ` set rs)) cm" "m' \<le> snd cm"
      using Cons.IH [OF b'(4)] by blast
    have "chosen_ok rank pos (k + length (r # rs) \<le> grace) (insert (c, m) ((\<lambda>x. (x, rank x)) ` set (r # rs))) cm"
      using chosen_ok_more [OF cm(2,3) b'(1-3,5,6)] by (simp add: insert_commute)
    moreover have "collect_pending rank pos grace None k (Some (c, m)) (r # rs)
        = collect_pending rank pos grace None (Suc k) (Some (c', m')) rs"
      unfolding collect_pending_Cons b using more by auto
    ultimately show ?thesis using cm(1,3) b'(2) by (intro exI [of _ cm]) simp
  qed
qed

lemma collect_pending_best:
  assumes "\<And>x. rank x \<le> pendingConfirmed" "rs \<noteq> []"
  shows "\<exists>cm. collect_pending rank pos grace None 0 None rs = Some (Some cm)
    \<and> chosen_ok rank pos (length rs \<le> grace) ((\<lambda>x. (x, rank x)) ` set rs) cm"
proof -
  obtain r rs' where rs: "rs = r # rs'" using assms(2) by (cases rs) auto
  obtain cm where "collect_pending rank pos grace None 1 (Some (r, rank r)) rs' = Some (Some cm)"
      "chosen_ok rank pos (1 + length rs' \<le> grace) (insert (r, rank r) ((\<lambda>x. (x, rank x)) ` set rs')) cm"
    using collect_pending_from [of rank "rank r" pos grace 1 r rs'] assms(1) by blast
  moreover have "\<forall>x \<in> set rs'. rank x \<le> pendingConfirmed" using assms(1) by blast
  ultimately show ?thesis unfolding rs collect_pending_Cons
    by (auto simp: better_of_def chosen_ok_def)
qed

section \<open>Properties\<close>

text \<open>
  The order ties are broken by: the insertion sort of the code computes the stable sort of the
  upstreams by falling round.
\<close>

theorem round_order:
  "sortByRoundDesc us = SliceStable (\<lambda>a b. u_LastRound a > u_LastRound b) us
   \<and> mset (sortByRoundDesc us) = mset us
   \<and> sorted_wrt (\<lambda>a b. u_LastRound a \<ge> u_LastRound b) (sortByRoundDesc us)"
  using by_round.mset_SliceStable [of us] by_round.sorted_SliceStable [of us]
  by (simp add: sortByRoundDesc_SliceStable not_less)



end
