(* ===== verification/Waits.thy ===== *)
theory Waits
  imports Broadcast
begin

text \<open>
  wait-for-block-after (src/internal/app/router.go): the coalesced fetch of /v2/status shared by all
  waiters, and the three handlers of a wait. The fetches are kept in the order they are started; a
  pointer to one is its index. The parts of statusAt and fetchStatus that run under the router's
  statusMu are single steps. How long a wait lasts, what heartbeats arrive meanwhile and the local
  monitor's answer are arguments of the handlers.
\<close>

section \<open>The coalesced status\<close>

record statusFetch =
  sf_done :: bool
  sf_want :: u64
  sf_round :: u64
  sf_upstream :: "Upstream option"
  sf_body :: string
  sf_err :: "string option"

record statusCache =
  sw_status :: "nat option"
  sw_fetch :: "nat option"
  sw_all :: "statusFetch list"

definition empty_cache :: statusCache where
  "empty_cache = \<lparr>sw_status = None, sw_fetch = None, sw_all = []\<rparr>"

definition new_fetch :: "u64 \<Rightarrow> statusFetch" where
  "new_fetch want = \<lparr>sf_done = False, sf_want = want, sf_round = 0, sf_upstream = None, sf_body = [], sf_err = None\<rparr>"

text \<open>statusAt, up to the wait: the fetch whose result the caller takes, and whether it is new.\<close>

definition start_fetch :: "u64 \<Rightarrow> statusCache \<Rightarrow> nat \<times> statusCache" where
  "start_fetch rd sc =
     (length (sw_all sc), sc\<lparr>sw_all := sw_all sc @ [new_fetch rd], sw_fetch := Some (length (sw_all sc))\<rparr>)"

definition join_fetch :: "u64 \<Rightarrow> statusCache \<Rightarrow> nat \<times> statusCache" where
  "join_fetch rd sc =
     (case sw_fetch sc of
        None \<Rightarrow> start_fetch rd sc
      | Some i \<Rightarrow> if sf_want (sw_all sc ! i) < rd then start_fetch rd sc else (i, sc))"

definition statusAt :: "u64 \<Rightarrow> statusCache \<Rightarrow> nat \<times> statusCache" where
  "statusAt rd sc =
     (case sw_status sc of
        None \<Rightarrow> join_fetch rd sc
      | Some i \<Rightarrow> if sf_round (sw_all sc ! i) \<ge> rd then (i, sc) else join_fetch rd sc)"

text \<open>The end of fetchStatus: the result of the fetch at index i, an error or a status.\<close>

definition fetch_done :: "nat \<Rightarrow> string + (Upstream \<times> u64 \<times> string) \<Rightarrow> statusCache \<Rightarrow> statusCache" where
  "fetch_done i res sc =
     (let f = (sw_all sc ! i)\<lparr>sf_done := True\<rparr>;
          f = (case res of Inl e \<Rightarrow> f\<lparr>sf_err := Some e\<rparr>
               | Inr (u, rd, b) \<Rightarrow> f\<lparr>sf_err := None, sf_upstream := Some u, sf_round := rd, sf_body := b\<rparr>);
          sc1 = sc\<lparr>sw_all := (sw_all sc)[i := f]\<rparr>;
          sc2 = (if sw_fetch sc1 = Some i then sc1\<lparr>sw_fetch := None\<rparr> else sc1)
      in (if sf_err f = None \<and> (case sw_status sc2 of None \<Rightarrow> True | Some j \<Rightarrow> sf_round f > sf_round (sw_all sc2 ! j))
          then sc2\<lparr>sw_status := Some i\<rparr> else sc2))"

definition status_body :: "string \<Rightarrow> string" where
  "status_body b = (if int (length b) \<le> 1048576 then b else take 1048576 b)"

text \<open>
  getStatus: one GET /v2/status at one node. \<open>url_ok\<close> is whether the request can be built, \<open>decode\<close>
  reads last-round out of the body.
\<close>

definition getStatus ::
  "(string \<Rightarrow> bool) \<Rightarrow> (string \<Rightarrow> u64 option) \<Rightarrow> RequestClass \<Rightarrow> Upstream \<Rightarrow> fan_event \<Rightarrow> StatsBook
   \<Rightarrow> ((string + (u64 \<times> string)) \<times> StatsBook) option" where
  "getStatus url_ok decode c u ev b =
     (if \<not> url_ok (u_BaseURL u) then Some (Inl ''url'', b)
      else do {
        let out = \<lparr>oc_Status = (case fv_reply ev of DoFailed _ \<Rightarrow> 0 | ReadFailed st _ _ _ \<Rightarrow> st | ReadAll st _ _ \<Rightarrow> st),
                   oc_Err = (case fv_reply ev of DoFailed e \<Rightarrow> Some (ErrOther e) | _ \<Rightarrow> None),
                   oc_HeadersSent = False, oc_Duration = fv_duration ev, oc_RetryAfter = 0\<rparr>;
        b' \<leftarrow> Record (release (Begin b (u_ID u)) (u_ID u)) (fv_now ev) (u_ID u) (StatKey c) out;
        Some (case fv_reply ev of
                DoFailed e \<Rightarrow> Inl e
              | ReadFailed _ _ _ e \<Rightarrow> Inl e
              | ReadAll st _ body \<Rightarrow>
                if st \<noteq> 200 then Inl (u_ID u @ '' answered '' @ show_int st)
                else (case decode (status_body body) of None \<Rightarrow> Inl (u_ID u @ '' status'')
                      | Some rd \<Rightarrow> Inr (rd, status_body body)), b')
      })"

text \<open>The loop of fetchStatus; \<open>ended i\<close> is whether its context has ended after the i-th try.\<close>

fun status_tries ::
  "(string \<Rightarrow> bool) \<Rightarrow> (string \<Rightarrow> u64 option) \<Rightarrow> RequestClass \<Rightarrow> (Upstream \<Rightarrow> fan_event) \<Rightarrow> (nat \<Rightarrow> bool) \<Rightarrow> nat
   \<Rightarrow> string \<Rightarrow> Upstream list \<Rightarrow> StatsBook \<Rightarrow> ((string + (Upstream \<times> u64 \<times> string)) \<times> StatsBook) option" where
  "status_tries url_ok decode c ev ended i err [] b = Some (Inl err, b)"
| "status_tries url_ok decode c ev ended i err (u # us) b = do {
     (res, b') \<leftarrow> getStatus url_ok decode c u (ev u) b;
     (case res of
        Inr (rd, body) \<Rightarrow> Some (Inr (u, rd, body), b')
      | Inl e \<Rightarrow> if ended i then Some (Inl e, b') else status_tries url_ok decode c ev ended (Suc i) e us b')
   }"

text \<open>fetchStatus up to its result: the mesh nodes at the round or later, best first, within the budget.\<close>

definition fetchStatus ::
  "RouterOptions \<Rightarrow> rand \<Rightarrow> (string \<Rightarrow> bool) \<Rightarrow> (string \<Rightarrow> u64 option) \<Rightarrow> (Upstream \<Rightarrow> fan_event) \<Rightarrow> (nat \<Rightarrow> bool)
   \<Rightarrow> u64 \<Rightarrow> Upstream list \<Rightarrow> u64 \<Rightarrow> StatsBook \<Rightarrow> ((string + (Upstream \<times> u64 \<times> string)) \<times> StatsBook) option" where
  "fetchStatus o' rnd url_ok decode ev ended want cands best b =
     (let c = Classify ''GET'' ''/v2/status'' [];
          ups = filter (\<lambda>u. u_Kind u \<noteq> KindExternal \<and> u_LastRound u \<ge> want) cands
      in (case router_sel o' rnd ups c best of
            None \<Rightarrow> Some (Inl ''no eligible node at that round'', b)
          | Some s \<Rightarrow> status_tries url_ok decode c ev ended 0 ''no eligible node at that round'' (tries_of o' s) b))"

section \<open>The handlers\<close>

definition worthWaiting :: "RouterOptions \<Rightarrow> Upstream list \<Rightarrow> RequestClass \<Rightarrow> u64 \<Rightarrow> bool" where
  "worthWaiting o' cands c best =
     list_ex (\<lambda>u. u_Kind u \<noteq> KindExternal \<and> Eligible u (c\<lparr>rc_WaitAfter := None\<rparr>) best (ro_SyncTolerance o')) cands"

text \<open>
  What decides about a wait: the local monitor's answer, whether the client has left, the round the
  heartbeats had reached when the wait ended and whether it passed the caller's, the snapshot taken
  then, the coalesced status, and the selection and attempts that may follow.
\<close>

record wait_env =
  we_local :: "string option"
  we_gone :: bool
  we_passed :: bool
  we_snap :: "Upstream list \<times> u64"
  we_status :: "string + (Upstream \<times> string)"
  we_rnd :: rand
  we_fwd :: forward_env
  we_route :: route_env

text \<open>A status the agent answers with itself.\<close>

definition status_answer :: "Upstream \<Rightarrow> string \<Rightarrow> answer" where
  "status_answer u body = Relayed (u_ID u) 200 [(''Content-Type'', [''application/json''])] body"

text \<open>forwardNow: the default handler under a bound of its own; no ticket travels with it.\<close>

definition forwardNow ::
  "wait_env \<Rightarrow> RequestClass \<Rightarrow> body \<Rightarrow> Upstream list \<Rightarrow> u64 \<Rightarrow> Router \<Rightarrow> (answer \<times> Upstream list \<times> Router) option" where
  "forwardNow env c b cands best r = handleDefault (we_route env) None c b cands best r"

definition handleBalancerWait ::
  "wait_env \<Rightarrow> RequestClass \<Rightarrow> body \<Rightarrow> Router \<Rightarrow> (answer \<times> Upstream list \<times> Router) option" where
  "handleBalancerWait env c b r =
     (if rc_WaitAfter c = None then None
      else if we_gone env then Some (Silence, [], r)
      else (case we_status env of
              Inl e \<Rightarrow> forwardNow env c b (fst (we_snap env)) (snd (we_snap env)) r
            | Inr (u, body) \<Rightarrow> Some (status_answer u body, [], r)))"

definition handlePeerWait ::
  "wait_env \<Rightarrow> RequestClass \<Rightarrow> body \<Rightarrow> Upstream list \<Rightarrow> u64 \<Rightarrow> Router \<Rightarrow> (answer \<times> Upstream list \<times> Router) option" where
  "handlePeerWait env c b cands best r =
     (if \<not> worthWaiting (r_opts r) cands c best then forwardNow env c b cands best r
      else (case rc_WaitAfter c of
              None \<Rightarrow> None
            | Some after \<Rightarrow>
              if we_gone env then Some (Silence, [], r)
              else let (cands', best') = we_snap env in
                if we_passed env then
                  (case router_sel (r_opts r) (we_rnd env)
                          (filter (\<lambda>u. u_Kind u \<noteq> KindExternal \<and> u_LastRound u > after) cands') c best' of
                     Some s \<Rightarrow> forwardSelected (we_fwd env) None c b s r
                   | None \<Rightarrow> forwardNow env c b cands' best' r)
                else (case we_status env of
                        Inl e \<Rightarrow> forwardNow env c b cands' best' r
                      | Inr (u, body) \<Rightarrow> Some (status_answer u body, [], r))))"

definition handleWait ::
  "wait_env \<Rightarrow> RequestClass \<Rightarrow> body \<Rightarrow> Upstream list \<Rightarrow> u64 \<Rightarrow> Router \<Rightarrow> (answer \<times> Upstream list \<times> Router) option" where
  "handleWait env c b cands best r =
     (if ro_Balancer (r_opts r) then handleBalancerWait env c b r
      else (case cands of
              u # _ \<Rightarrow>
                if u_Kind u = KindLocal \<and> Eligible u c best (ro_SyncTolerance (r_opts r)) then
                  (if rc_WaitAfter c = None then None
                   else if we_gone env then Some (Silence, [], r)
                   else (case we_local env of
                           None \<Rightarrow> Some (Message 503 [] ''algod-mesh: local node status unavailable'', [], r)
                         | Some body \<Rightarrow> Some (status_answer u body, [], r)))
                else handlePeerWait env c b cands best r
            | [] \<Rightarrow> handlePeerWait env c b cands best r))"

section \<open>Runs of the cache\<close>

text \<open>A waiter asks for a round and takes the result of fetch i; the fetch at index i ends.\<close>

datatype status_event = Ask u64 nat | Finish nat "string + (Upstream \<times> u64 \<times> string)"

inductive status_step :: "statusCache \<Rightarrow> status_event \<Rightarrow> statusCache \<Rightarrow> bool" where
  ask: "statusAt rd sc = (i, sc') \<Longrightarrow> status_step sc (Ask rd i) sc'"
| finish: "i < length (sw_all sc) \<Longrightarrow> \<not> sf_done (sw_all sc ! i) \<Longrightarrow> status_step sc (Finish i res) (fetch_done i res sc)"

inductive status_run :: "status_event list \<Rightarrow> statusCache \<Rightarrow> bool" where
  start: "status_run [] empty_cache"
| step: "status_run evs sc \<Longrightarrow> status_step sc e sc' \<Longrightarrow> status_run (evs @ [e]) sc'"

inductive_cases status_stepE: "status_step sc e sc'"

text \<open>What holds of the cache along every run.\<close>

definition cache_ok :: "statusCache \<Rightarrow> bool" where
  "cache_ok sc =
     ((\<forall>i. sw_status sc = Some i \<longrightarrow> i < length (sw_all sc) \<and> sf_done (sw_all sc ! i) \<and> sf_err (sw_all sc ! i) = None)
      \<and> (\<forall>i. sw_fetch sc = Some i \<longrightarrow> i < length (sw_all sc) \<and> \<not> sf_done (sw_all sc ! i)))"

text \<open>Every fetch ends with a status at the round it was started for.\<close>

definition truthful :: "statusCache \<Rightarrow> bool" where
  "truthful sc = (\<forall>f \<in> set (sw_all sc). sf_done f \<longrightarrow> sf_err f = None \<and> sf_want f \<le> sf_round f)"

text \<open>The fetches were started for rising rounds, and the last of them is in flight or cached.\<close>

definition rising :: "statusCache \<Rightarrow> bool" where
  "rising sc =
     (sorted_wrt (<) (map sf_want (sw_all sc))
      \<and> (sw_all sc = [] \<or> sw_fetch sc = Some (length (sw_all sc) - 1)
          \<or> (\<exists>i. sw_status sc = Some i \<and> sf_want (last (sw_all sc)) \<le> sf_round (sw_all sc ! i))))"

section \<open>Lemmas\<close>

lemma statusAt_cases:
  assumes "statusAt rd sc = (i, sc')"
  obtains (cached) "sc' = sc" "sw_status sc = Some i" "rd \<le> sf_round (sw_all sc ! i)"
  | (joined) "sc' = sc" "sw_fetch sc = Some i" "rd \<le> sf_want (sw_all sc ! i)"
  | (started) "(i, sc') = start_fetch rd sc"
      "\<And>j. sw_status sc = Some j \<Longrightarrow> sf_round (sw_all sc ! j) < rd"
      "\<And>j. sw_fetch sc = Some j \<Longrightarrow> sf_want (sw_all sc ! j) < rd"
proof (cases "\<exists>j. sw_status sc = Some j \<and> rd \<le> sf_round (sw_all sc ! j)")
  case True
  then show thesis using assms cached by (auto simp: statusAt_def)
next
  case False
  then have j: "join_fetch rd sc = (i, sc')" "\<And>j. sw_status sc = Some j \<Longrightarrow> sf_round (sw_all sc ! j) < rd"
    using assms by (auto simp: statusAt_def split: option.splits)
  show thesis
  proof (cases "\<exists>j. sw_fetch sc = Some j \<and> rd \<le> sf_want (sw_all sc ! j)")
    case True
    then show thesis using j joined by (auto simp: join_fetch_def split: if_splits)
  next
    case no: False
    then show thesis using j started by (auto simp: join_fetch_def not_le split: option.splits if_splits)
  qed
qed

lemma fetch_done_simps [simp]:
  "length (sw_all (fetch_done i res sc)) = length (sw_all sc)"
  "j \<noteq> i \<Longrightarrow> sw_all (fetch_done i res sc) ! j = sw_all sc ! j"
  "i < length (sw_all sc) \<Longrightarrow> sf_want (sw_all (fetch_done i res sc) ! i) = sf_want (sw_all sc ! i)"
  "i < length (sw_all sc) \<Longrightarrow> sf_done (sw_all (fetch_done i res sc) ! i)"
  "sw_fetch (fetch_done i res sc) = (if sw_fetch sc = Some i then None else sw_fetch sc)"
  by (auto simp: fetch_done_def Let_def split: sum.splits prod.splits option.splits)

lemma fetch_done_status:
  assumes "i < length (sw_all sc)" "sw_status sc \<noteq> Some i"
  shows "sw_status (fetch_done i res sc) =
    (if sf_err (sw_all (fetch_done i res sc) ! i) = None
        \<and> (case sw_status sc of None \<Rightarrow> True | Some j \<Rightarrow> sf_round (sw_all (fetch_done i res sc) ! i) > sf_round (sw_all sc ! j))
     then Some i else sw_status sc)"
  using assms by (auto simp: fetch_done_def Let_def split: sum.splits prod.splits option.splits)

lemma fetch_done_wants: "i < length (sw_all sc) \<Longrightarrow> map sf_want (sw_all (fetch_done i res sc)) = map sf_want (sw_all sc)"
proof (rule nth_equalityI, goal_cases)
  case (2 j)
  then show ?case by (cases "j = i") auto
qed simp

lemma cache_ok_step:
  assumes "status_step sc e sc'" "cache_ok sc"
  shows "cache_ok sc'"
  using assms
proof (cases rule: status_step.cases)
  case (ask rd i)
  from ask(2) show ?thesis using assms(2)
    by (cases rule: statusAt_cases) (auto simp: cache_ok_def start_fetch_def nth_append new_fetch_def)
next
  case (finish i res)
  then have ne: "sw_status sc \<noteq> Some i" using assms(2) by (auto simp: cache_ok_def)
  show ?thesis using finish assms(2) fetch_done_status [OF finish(3) ne, of res]
    unfolding cache_ok_def by (auto split: if_splits) (metis fetch_done_simps(2))+
qed

lemma cache_ok_run: "status_run evs sc \<Longrightarrow> cache_ok sc"
proof (induction rule: status_run.induct)
  case start
  then show ?case by (simp add: cache_ok_def empty_cache_def)
qed (rule cache_ok_step)

lemma truthful_back:
  assumes "status_step sc e sc'" "truthful sc'"
  shows "truthful sc"
  using assms
proof (cases rule: status_step.cases)
  case (ask rd i)
  from ask(2) show ?thesis using assms(2)
    by (cases rule: statusAt_cases) (auto simp: truthful_def start_fetch_def)
next
  case (finish i res)
  have "sf_done f \<longrightarrow> sf_err f = None \<and> sf_want f \<le> sf_round f" if f: "f \<in> set (sw_all sc)" for f
  proof -
    obtain j where j: "j < length (sw_all sc)" "f = sw_all sc ! j" using f by (auto simp: in_set_conv_nth)
    show ?thesis
    proof (cases "j = i")
      case False
      then have "f \<in> set (sw_all sc')" using j finish(2) by (metis fetch_done_simps(1,2) nth_mem)
      then show ?thesis using assms(2) by (auto simp: truthful_def)
    qed (use finish j in auto)
  qed
  then show ?thesis by (simp add: truthful_def)
qed

lemma last_want: "sw_all sc \<noteq> [] \<Longrightarrow> sf_want (last (sw_all sc)) = map sf_want (sw_all sc) ! (length (sw_all sc) - 1)"
  by (simp add: last_conv_nth)

lemma rising_step:
  assumes "status_step sc e sc'" "cache_ok sc" "truthful sc'" "rising sc"
  shows "rising sc'"
  using assms(1)
proof (cases rule: status_step.cases)
  case (ask rd i)
  from ask(2) show ?thesis
  proof (cases rule: statusAt_cases)
    case started
    have "sf_want f < rd" if f: "f \<in> set (sw_all sc)" for f
    proof -
      obtain j where j: "j < length (sw_all sc)" "f = sw_all sc ! j" using f by (auto simp: in_set_conv_nth)
      have srt: "sorted_wrt (<) (map sf_want (sw_all sc))" and ne: "sw_all sc \<noteq> []" using assms(4) f by (auto simp: rising_def)
      have "sf_want f \<le> sf_want (last (sw_all sc))"
      proof (cases "j = length (sw_all sc) - 1")
        case False
        then have "j < length (sw_all sc) - 1" using j by linarith
        then show ?thesis using sorted_wrt_nth_less [OF srt, of j "length (sw_all sc) - 1"] j ne
          by (simp add: last_conv_nth)
      qed (use j ne in \<open>simp add: last_conv_nth\<close>)
      moreover have "sf_want (last (sw_all sc)) < rd"
        using assms(4) ne started(2,3) by (auto simp: rising_def last_conv_nth)
      ultimately show ?thesis by simp
    qed
    then show ?thesis using started(1) assms(4)
      by (auto simp: rising_def start_fetch_def sorted_wrt_append new_fetch_def)
  qed (use assms(4) in simp_all)
next
  case (finish i res)
  let ?f = "sw_all sc' ! i"
  have ne: "sw_status sc \<noteq> Some i" using finish assms(2) by (auto simp: cache_ok_def)
  have f: "sf_err ?f = None" "sf_want ?f \<le> sf_round ?f"
  proof -
    have "?f \<in> set (sw_all sc')" "sf_done ?f" using finish by simp_all
    then show "sf_err ?f = None" "sf_want ?f \<le> sf_round ?f" using assms(3) unfolding truthful_def by blast+
  qed
  note st = fetch_done_status [OF finish(3) ne, of res]
  have "length (sw_all sc') = length (sw_all sc)" using finish by simp
  then have nonempty: "sw_all sc \<noteq> []" "sw_all sc' \<noteq> []" using finish(3) by auto
  have lw: "sf_want (last (sw_all sc')) = sf_want (last (sw_all sc))"
    using nonempty finish fetch_done_wants [OF finish(3), of res] by (simp add: last_want)
  obtain k where k: "sw_status sc' = Some k" "sf_round ?f \<le> sf_round (sw_all sc' ! k)"
      "\<And>j. sw_status sc = Some j \<Longrightarrow> sf_round (sw_all sc ! j) \<le> sf_round (sw_all sc' ! k)"
    using st f ne finish fetch_done_simps(2) [of _ i res sc] by (cases "sw_status sc") (auto simp: not_less split: if_splits)
  have "sw_fetch sc' = Some (length (sw_all sc') - 1) \<or> (\<exists>k. sw_status sc' = Some k \<and> sf_want (last (sw_all sc')) \<le> sf_round (sw_all sc' ! k))"
  proof -
    consider "sw_fetch sc = Some (length (sw_all sc) - 1)" "i = length (sw_all sc) - 1"
      | "sw_fetch sc = Some (length (sw_all sc) - 1)" "i \<noteq> length (sw_all sc) - 1"
      | j where "sw_status sc = Some j" "sf_want (last (sw_all sc)) \<le> sf_round (sw_all sc ! j)"
      using assms(4) nonempty by (auto simp: rising_def)
    then show ?thesis
    proof cases
      case 1
      then have "sf_want (last (sw_all sc')) = sf_want ?f" using nonempty finish by (simp add: last_conv_nth)
      then have "sf_want (last (sw_all sc')) \<le> sf_round (sw_all sc' ! k)" using k(2) f(2) by simp
      then show ?thesis using k(1) by blast
    next
      case 2
      then show ?thesis using finish by auto
    next
      case 3
      then have "sf_want (last (sw_all sc')) \<le> sf_round (sw_all sc' ! k)" using k(3) [of j] lw by simp
      then show ?thesis using k(1) by blast
    qed
  qed
  then show ?thesis using assms(4) finish fetch_done_wants [OF finish(3), of res] by (auto simp: rising_def)
qed

lemma rising_run: "status_run evs sc \<Longrightarrow> truthful sc \<Longrightarrow> rising sc"
proof (induction rule: status_run.induct)
  case start
  then show ?case by (simp add: rising_def empty_cache_def)
next
  case (step evs sc e sc')
  then show ?case using rising_step cache_ok_run truthful_back by blast
qed

text \<open>A waiter's fetch is started for its round or later, or was at its round when it asked.\<close>

lemma asked_run:
  "status_run evs sc \<Longrightarrow> Ask rd i \<in> set evs \<Longrightarrow> i < length (sw_all sc)
     \<and> (rd \<le> sf_want (sw_all sc ! i) \<or> sf_done (sw_all sc ! i) \<and> rd \<le> sf_round (sw_all sc ! i))"
proof (induction rule: status_run.induct)
  case (step evs sc e sc')
  note ok = cache_ok_run [OF step.hyps(1)]
  show ?case
  proof (cases "Ask rd i \<in> set evs")
    case True
    then have IH: "i < length (sw_all sc)" "rd \<le> sf_want (sw_all sc ! i) \<or> sf_done (sw_all sc ! i) \<and> rd \<le> sf_round (sw_all sc ! i)"
      using step.IH by auto
    from step.hyps(2) show ?thesis
    proof (cases rule: status_step.cases)
      case (ask rd' k)
      from ask(2) show ?thesis using IH
        by (cases rule: statusAt_cases) (auto simp: start_fetch_def nth_append)
    next
      case (finish k res)
      then show ?thesis using IH by (cases "k = i") auto
    qed
  next
    case False
    then have "statusAt rd sc = (i, sc')" using step.prems step.hyps(2) by (auto elim: status_stepE)
    then show ?thesis using ok
      by (cases rule: statusAt_cases) (auto simp: cache_ok_def start_fetch_def new_fetch_def)
  qed
qed simp

section \<open>Properties\<close>

text \<open>
  C19. The coalesced status: however waiters and fetches interleave, while the nodes answer with a
  status at the round they were asked at, a round costs one fetch at most, the fetches being
  started for ever higher rounds, and every waiter whose fetch has ended gets a status at its round
  or later.
\<close>

theorem status_coalesced:
  assumes "status_run evs sc" and "truthful sc"
  shows "sorted_wrt (<) (map sf_want (sw_all sc)) \<and> distinct (map sf_want (sw_all sc))
    \<and> (\<forall>rd i. Ask rd i \<in> set evs \<and> sf_done (sw_all sc ! i) \<longrightarrow>
         sf_err (sw_all sc ! i) = None \<and> rd \<le> sf_round (sw_all sc ! i))"
proof -
  have "sorted_wrt (<) (map sf_want (sw_all sc))" using rising_run [OF assms] by (simp add: rising_def)
  moreover have "sf_err (sw_all sc ! i) = None \<and> rd \<le> sf_round (sw_all sc ! i)"
    if "Ask rd i \<in> set evs" "sf_done (sw_all sc ! i)" for rd i
  proof -
    have "i < length (sw_all sc)" using asked_run [OF assms(1) that(1)] by blast
    then have "sf_err (sw_all sc ! i) = None" "sf_want (sw_all sc ! i) \<le> sf_round (sw_all sc ! i)"
      using assms(2) that(2) nth_mem unfolding truthful_def by blast+
    then show ?thesis using asked_run [OF assms(1) that(1)] by (auto intro: order_trans)
  qed
  ultimately show ?thesis using strict_sorted_iff by blast
qed

theorem status_coalesced_witness:
  "\<exists>sc. status_run [Ask 10 0, Ask 10 0, Finish 0 (Inr (sample_algod, 11, ''{}'')), Ask 11 0] sc
     \<and> length (sw_all sc) = 1 \<and> distinct (map sf_want (sw_all sc))"
proof -
  define s1 where "s1 = snd (statusAt 10 empty_cache)"
  define s2 where "s2 = fetch_done 0 (Inr (sample_algod, 11, ''{}'')) s1"
  note defs = s1_def s2_def statusAt_def join_fetch_def start_fetch_def empty_cache_def new_fetch_def fetch_done_def Let_def
  have "statusAt 10 empty_cache = (0, s1)" "statusAt 10 s1 = (0, s1)" "statusAt 11 s2 = (0, s2)"
    "0 < length (sw_all s1)" "\<not> sf_done (sw_all s1 ! 0)" by (simp_all add: defs)
  note steps = status_step.ask [OF this(1)] status_step.ask [OF this(2)]
    status_step.finish [OF this(4,5), of "Inr (sample_algod, 11, ''{}'')"] status_step.ask [OF this(3)]
  have "status_run [Ask 10 0, Ask 10 0, Finish 0 (Inr (sample_algod, 11, ''{}'')), Ask 11 0] s2"
    using status_run.step [OF status_run.step [OF status_run.step [OF status_run.step [OF status_run.start steps(1)] steps(2)]
      steps(3) [folded s2_def]] steps(4)] by simp
  moreover have "truthful s2" "length (sw_all s2) = 1" by (simp_all add: truthful_def defs)
  ultimately show ?thesis using status_coalesced by blast
qed

text \<open>
  A wait the mesh has passed goes, while a mesh node past the caller's round can serve it, to
  nodes past that round only (an external apart, the last resort), so that the block the answer
  announces is one this agent knows a node for.
\<close>

theorem peer_wait_past:
  assumes "handlePeerWait env c b cands best r = Some (x, sent, r')" and "worthWaiting (r_opts r) cands c best"
    and "rc_WaitAfter c = Some after" and "we_passed env" and "\<not> we_gone env"
    and "rand_ok (we_rnd env)" and "rand_ok (fe_rnd (we_fwd env))"
    and "\<exists>u \<in> set (fst (we_snap env)). u_Kind u \<noteq> KindExternal \<and> u_LastRound u > after
           \<and> Eligible u c (snd (we_snap env)) (ro_SyncTolerance (r_opts r))"
  shows "\<forall>u \<in> set sent. u_Kind u \<noteq> KindExternal \<longrightarrow> u_LastRound u > after"
proof -
  let ?past = "filter (\<lambda>u. u_Kind u \<noteq> KindExternal \<and> u_LastRound u > after) (fst (we_snap env))"
  obtain s where s: "router_sel (r_opts r) (we_rnd env) ?past c (snd (we_snap env)) = Some s"
    using assms(8) Select_None_iff [of _ ?past] by (fastforce simp: router_sel_def)
  then have f: "forwardSelected (we_fwd env) None c b s r = Some (x, sent, r')"
    using assms(1-5) by (auto simp: handlePeerWait_def split: prod.splits)
  have "\<forall>u \<in> set (sel_Chosen s # sel_Alternates s). u_LastRound u > after"
    unfolding Select_mem [OF s [unfolded router_sel_def] assms(6)] by (auto simp: eligible_scored_props)
  moreover obtain mesh ext where "sent = mesh @ ext" "prefix mesh (sel_Chosen s # sel_Alternates s)"
    "ext = [] \<or> (\<exists>e. ext = [e] \<and> u_Kind e = KindExternal)"
    using forwardSelected_sent [OF f assms(7)] by (elim exE conjE) (blast intro: that)
  moreover have "set mesh \<subseteq> set (sel_Chosen s # sel_Alternates s)" using calculation(3) by (rule set_mono_prefix)
  ultimately show ?thesis by auto
qed

theorem peer_wait_past_witness:
  "\<exists>x sent r'. handlePeerWait \<lparr>we_local = None, we_gone = False, we_passed = True, we_snap = ([sample_algod], 1000),
       we_status = Inl [], we_rnd = None, we_fwd = sample_env,
       we_route = \<lparr>re_rnd = (\<lambda>_. None), re_check = None, re_cut = False, re_fwd = sample_env\<rparr>\<rparr>
       (zero_class\<lparr>rc_WaitAfter := Some 999\<rparr>) NoBody [sample_algod] 1000 sample_router = Some (x, sent, r')
     \<and> (\<forall>u \<in> set sent. u_Kind u \<noteq> KindExternal \<longrightarrow> u_LastRound u > 999)"
proof -
  let ?env = "\<lparr>we_local = None, we_gone = False, we_passed = True, we_snap = ([sample_algod], 1000 :: u64),
       we_status = Inl [], we_rnd = None, we_fwd = sample_env,
       we_route = \<lparr>re_rnd = (\<lambda>_. None), re_check = None, re_cut = False, re_fwd = sample_env\<rparr>\<rparr>"
  let ?c = "zero_class\<lparr>rc_WaitAfter := Some 999\<rparr>"
  have w: "worthWaiting (r_opts sample_router) [sample_algod] ?c 1000" by code_simp
  have e: "u_Kind sample_algod \<noteq> KindExternal" "u_LastRound sample_algod > 999"
    "Eligible sample_algod ?c 1000 (ro_SyncTolerance (r_opts sample_router))" by code_simp+
  have "\<exists>x sent r'. handlePeerWait ?env ?c NoBody [sample_algod] 1000 sample_router = Some (x, sent, r')"
    using forwardSelected_total [OF sample_router_ok, of sample_env None ?c NoBody]
      handleDefault_total [OF sample_router_ok, of ?c] w
    by (fastforce simp: handlePeerWait_def forwardNow_def ahead_has_round_def zero_class_def split: option.splits)
  then obtain x sent r' where h: "handlePeerWait ?env ?c NoBody [sample_algod] 1000 sample_router = Some (x, sent, r')" by blast
  then show ?thesis using peer_wait_past [OF h w] e by (auto simp: rand_ok_def sample_env_def)
qed

end
