(* ===== verification/HealthJudge.thy ===== *)
theory HealthJudge
  imports Eligible
begin

text \<open>
  Health judgement over time (src/internal/domain/health.go): the hysteresis an upstream goes
  through after an outage, and the judge that decides between synced and lagging from the rounds
  it observes. Methods with a pointer receiver return the updated value with their result.
\<close>

section \<open>Definitions\<close>

record ReturnHysteresis =
  rh_Required :: int
  rh_streak :: int
  rh_trusted :: bool

definition NewReturnHysteresis :: "int \<Rightarrow> ReturnHysteresis" where
  "NewReturnHysteresis required = \<lparr>rh_Required = required, rh_streak = 0, rh_trusted = True\<rparr>"

definition Observe :: "ReturnHysteresis \<Rightarrow> Health \<Rightarrow> Health \<times> ReturnHysteresis" where
  "Observe h judged =
     (if judged \<noteq> HealthSynced then (judged, h\<lparr>rh_streak := 0, rh_trusted := False\<rparr>)
      else if rh_trusted h then (HealthSynced, h)
      else let h = h\<lparr>rh_streak := rh_streak h + 1\<rparr>
        in if rh_streak h \<ge> rh_Required h then (HealthSynced, h\<lparr>rh_trusted := True\<rparr>)
           else (HealthLagging, h))"

definition Streak :: "ReturnHysteresis \<Rightarrow> int \<times> bool" where
  "Streak h = (rh_streak h, rh_trusted h)"

definition Current :: "ReturnHysteresis \<Rightarrow> Health" where
  "Current h = (if rh_trusted h then HealthSynced else HealthLagging)"

record SyncJudge =
  sj_Tolerance :: u64
  sj_Grace :: Duration
  sj_hyst :: ReturnHysteresis
  sj_behind :: Time
  sj_lastRound :: u64
  sj_seen :: bool

definition NewSyncJudge :: "u64 \<Rightarrow> Duration \<Rightarrow> int \<Rightarrow> SyncJudge" where
  "NewSyncJudge tolerance grace hysteresisRounds =
     \<lparr>sj_Tolerance = tolerance, sj_Grace = grace, sj_hyst = NewReturnHysteresis hysteresisRounds,
      sj_behind = 0, sj_lastRound = 0, sj_seen = False\<rparr>"

text \<open>Feeding the judge's hysteresis.\<close>

definition judge_observe :: "SyncJudge \<Rightarrow> Health \<Rightarrow> Health \<times> SyncJudge" where
  "judge_observe j judged = (case Observe (sj_hyst j) judged of (h, y) \<Rightarrow> (h, j\<lparr>sj_hyst := y\<rparr>))"

definition Judge :: "SyncJudge \<Rightarrow> Time \<Rightarrow> bool \<Rightarrow> u64 \<Rightarrow> u64 \<Rightarrow> Health \<times> SyncJudge" where
  "Judge j now reachable rd best =
     (if \<not> reachable then
        (let j = j\<lparr>sj_behind := 0\<rparr> in
         if \<not> sj_seen j then (HealthOffline, j) else judge_observe j HealthOffline)
      else
        let (lagging, j) =
          (if best > rd + sj_Tolerance j then
             (let j = (if IsZero (sj_behind j) then j\<lparr>sj_behind := now\<rparr> else j)
              in (best > rd + sj_Tolerance j + 1 \<or> time_Sub now (sj_behind j) \<ge> sj_Grace j, j))
           else (False, j\<lparr>sj_behind := 0\<rparr>))
        in if lagging then judge_observe j HealthLagging
           else if \<not> sj_seen j \<or> rd \<noteq> sj_lastRound j
           then judge_observe (j\<lparr>sj_seen := True, sj_lastRound := rd\<rparr>) HealthSynced
           else (Current (sj_hyst j), j))"

definition SyncJudge_Streak :: "SyncJudge \<Rightarrow> int \<times> bool" where
  "SyncJudge_Streak j = Streak (sj_hyst j)"

text \<open>A run of judgements, and a run of observations of one upstream.\<close>

fun Observe_all :: "ReturnHysteresis \<Rightarrow> Health list \<Rightarrow> ReturnHysteresis" where
  "Observe_all h [] = h"
| "Observe_all h (x # xs) = Observe_all (snd (Observe h x)) xs"

record observation =
  ob_now :: Time
  ob_reachable :: bool
  ob_round :: u64
  ob_best :: u64

fun Judge_all :: "SyncJudge \<Rightarrow> observation list \<Rightarrow> SyncJudge" where
  "Judge_all j [] = j"
| "Judge_all j (x # xs) =
     Judge_all (snd (Judge j (ob_now x) (ob_reachable x) (ob_round x) (ob_best x))) xs"

text \<open>How often the round changes along a run that starts after round r.\<close>

fun round_changes :: "u64 \<Rightarrow> u64 list \<Rightarrow> nat" where
  "round_changes r [] = 0"
| "round_changes r (x # xs) = (if x \<noteq> r then 1 else 0) + round_changes x xs"

text \<open>The invariant of the hysteresis: a distrusted upstream is short of the streak it needs.\<close>

definition hyst_inv :: "ReturnHysteresis \<Rightarrow> bool" where
  "hyst_inv h = (0 \<le> rh_streak h \<and> (rh_trusted h \<or> rh_streak h < max 1 (rh_Required h)))"

section \<open>Lemmas\<close>

lemma hyst_inv_New [simp]: "hyst_inv (NewReturnHysteresis n)"
  by (simp add: hyst_inv_def NewReturnHysteresis_def)

lemma hyst_inv_Observe [simp]: "hyst_inv h \<Longrightarrow> hyst_inv (snd (Observe h x))"
  by (auto simp: hyst_inv_def Observe_def Let_def)

lemma Observe_Required [simp]: "rh_Required (snd (Observe h x)) = rh_Required h"
  by (simp add: Observe_def Let_def)

lemma Observe_published: "fst (Observe h x) = HealthSynced \<Longrightarrow> x = HealthSynced"
  by (auto simp: Observe_def Let_def split: if_splits)

lemma Observe_synced_run:
  assumes "\<not> rh_trusted h" "0 \<le> rh_streak h"  "rh_streak h + int n < max 1 (rh_Required h)"
  shows "Observe_all h (replicate n HealthSynced) = h\<lparr>rh_streak := rh_streak h + int n\<rparr>"
  using assms
proof (induction n arbitrary: h)
  case (Suc n)
  have "Observe h HealthSynced = (HealthLagging, h\<lparr>rh_streak := rh_streak h + 1\<rparr>)"
    using Suc.prems by (simp add: Observe_def Let_def)
  then show ?case using Suc.IH [of "h\<lparr>rh_streak := rh_streak h + 1\<rparr>"] Suc.prems by simp
qed simp

lemma judge_observe_simps [simp]:
  "fst (judge_observe j x) = fst (Observe (sj_hyst j) x)"
  "snd (judge_observe j x) = j\<lparr>sj_hyst := snd (Observe (sj_hyst j) x)\<rparr>"
  by (simp_all add: judge_observe_def split: prod.splits)

lemma Observe_all_append [simp]: "Observe_all h (xs @ ys) = Observe_all (Observe_all h xs) ys"
  by (induction xs arbitrary: h) auto

lemma Observe_all_trusted: "rh_trusted h \<Longrightarrow> Observe_all h (replicate n HealthSynced) = h"
  by (induction n) (auto simp: Observe_def)

lemma Judge_all_append [simp]: "Judge_all j (xs @ ys) = Judge_all (Judge_all j xs) ys"
  by (induction xs arbitrary: j) auto

lemma round_changes_snoc:
  "round_changes r (xs @ [x]) = round_changes r xs + (if x \<noteq> last (r # xs) then 1 else 0)"
  by (induction xs arbitrary: r) auto

text \<open>The judge on an observation in sync: only a new round counts towards the streak.\<close>

lemma Judge_in_sync:
  assumes "best \<le> rd + sj_Tolerance j"
  shows "Judge j now True rd best =
    (let j = j\<lparr>sj_behind := 0\<rparr> in
     if \<not> sj_seen j \<or> rd \<noteq> sj_lastRound j
     then judge_observe (j\<lparr>sj_seen := True, sj_lastRound := rd\<rparr>) HealthSynced
     else (Current (sj_hyst j), j))"
proof -
  have "(rd + sj_Tolerance j < best) = False" using assms by simp
  then show ?thesis by (simp add: Judge_def Let_def)
qed

lemma Judge_in_sync_state:
  fixes now :: Time
  assumes "best \<le> rd + sj_Tolerance j" "sj_seen j"
  defines "j' \<equiv> snd (Judge j now True rd best)"
  shows "sj_seen j'" "sj_Tolerance j' = sj_Tolerance j" "sj_lastRound j' = rd"
    "sj_hyst j' = (if rd = sj_lastRound j then sj_hyst j else snd (Observe (sj_hyst j) HealthSynced))"
  using assms(2) by (simp_all add: j'_def Judge_in_sync [OF assms(1)] Let_def)

lemma Observe_synced_state:
  defines "h' \<equiv> \<lambda>h. snd (Observe h HealthSynced)"
  shows "rh_trusted (h' h) \<longleftrightarrow> rh_trusted h \<or> rh_Required h \<le> rh_streak h + 1"
    "\<not> rh_trusted h \<Longrightarrow> rh_streak (h' h) = rh_streak h + 1"
  by (simp_all add: h'_def Observe_def Let_def)

lemma judge_run_in_sync:
  assumes "sj_seen j" "\<not> rh_trusted (sj_hyst j)" "rh_streak (sj_hyst j) = 0"
    and "\<And>x. x \<in> set obs \<Longrightarrow> ob_reachable x \<and> ob_best x \<le> ob_round x + sj_Tolerance j"
  defines "j' \<equiv> Judge_all j obs" and "n \<equiv> round_changes (sj_lastRound j) (map ob_round obs)"
  shows "sj_seen j' \<and> sj_Tolerance j' = sj_Tolerance j \<and> sj_lastRound j' = last (sj_lastRound j # map ob_round obs)
    \<and> rh_Required (sj_hyst j') = rh_Required (sj_hyst j)
    \<and> (rh_trusted (sj_hyst j') \<longleftrightarrow> int n \<ge> max 1 (rh_Required (sj_hyst j)))
    \<and> (\<not> rh_trusted (sj_hyst j') \<longrightarrow> rh_streak (sj_hyst j') = int n)"
  using assms(4) unfolding j'_def n_def
proof (induction obs rule: rev_induct)
  case Nil
  then show ?case using assms(1-3) by simp
next
  case (snoc x xs)
  let ?j = "Judge_all j xs"
  have ih: "sj_seen ?j" "sj_Tolerance ?j = sj_Tolerance j"
    "sj_lastRound ?j = last (sj_lastRound j # map ob_round xs)"
    "rh_Required (sj_hyst ?j) = rh_Required (sj_hyst j)"
    "rh_trusted (sj_hyst ?j) \<longleftrightarrow> int (round_changes (sj_lastRound j) (map ob_round xs)) \<ge> max 1 (rh_Required (sj_hyst j))"
    "\<not> rh_trusted (sj_hyst ?j) \<Longrightarrow> rh_streak (sj_hyst ?j) = int (round_changes (sj_lastRound j) (map ob_round xs))"
    using snoc.IH snoc.prems by auto
  let ?j' = "snd (Judge ?j (ob_now x) (ob_reachable x) (ob_round x) (ob_best x))"
  have "ob_reachable x" "ob_best x \<le> ob_round x + sj_Tolerance ?j" using snoc.prems ih(2) by auto
  note step = Judge_in_sync_state [OF this(2) ih(1), of "ob_now x"] this(1)
  have all: "Judge_all j (xs @ [x]) = ?j'" by simp
  show ?case
  proof (cases "ob_round x = sj_lastRound ?j")
    case True
    then show ?thesis unfolding all using step ih by (simp add: round_changes_snoc)
  next
    case False
    then show ?thesis unfolding all
      using step ih Observe_synced_state [of "sj_hyst ?j"] by (auto simp: round_changes_snoc)
  qed
qed

section \<open>Properties\<close>

text \<open>
  The return hysteresis: after a judgement other than synced, whatever came before, the n-th
  consecutive synced judgement publishes synced exactly from n = Required on (from the first one
  when fewer are required), and lagging until then.
\<close>

theorem hysteresis_return:
  fixes h :: ReturnHysteresis
  assumes "bad \<noteq> HealthSynced"
  defines "h0 \<equiv> snd (Observe h bad)"
  shows "fst (Observe (Observe_all h0 (replicate n HealthSynced)) HealthSynced)
    = (if int (n + 1) \<ge> rh_Required h then HealthSynced else HealthLagging)"
proof -
  define R where "R = max 1 (rh_Required h)"
  have h0: "\<not> rh_trusted h0" "rh_streak h0 = 0" "rh_Required h0 = rh_Required h"
    using assms by (simp_all add: Observe_def)
  show ?thesis
  proof (cases "int n < R - 1")
    case True
    then show ?thesis using Observe_synced_run [of h0 n] h0
      by (simp add: R_def Observe_def Let_def)
  next
    case False
    define k where "k = nat (R - 1)"
    have k: "int k = R - 1" "k \<le> n" using False by (auto simp: k_def R_def)
    then obtain m where n: "n = k + m" using le_Suc_ex by blast
    have run: "Observe_all h0 (replicate k HealthSynced) = h0\<lparr>rh_streak := int k\<rparr>"
      using Observe_synced_run [of h0 k] h0 k by (simp add: R_def)
    have last: "Observe (h0\<lparr>rh_streak := int k\<rparr>) HealthSynced
        = (HealthSynced, h0\<lparr>rh_streak := int k + 1, rh_trusted := True\<rparr>)"
      using h0 k by (simp add: Observe_def Let_def R_def)
    have all: "Observe_all h0 (replicate n HealthSynced)
        = Observe_all (h0\<lparr>rh_streak := int k\<rparr>) (replicate m HealthSynced)"
      unfolding n replicate_add Observe_all_append run ..
    have "fst (Observe (Observe_all h0 (replicate n HealthSynced)) HealthSynced) = HealthSynced"
      unfolding all
    proof (cases m)
      case (Suc m')
      then show "fst (Observe (Observe_all (h0\<lparr>rh_streak := int k\<rparr>) (replicate m HealthSynced)) HealthSynced)
          = HealthSynced"
        using last by (simp add: Observe_all_trusted) (simp add: Observe_def)
    qed (use last in simp)
    then show ?thesis using False by (auto simp: R_def)
  qed
qed

theorem hysteresis_return_witness:
  "fst (Observe (Observe_all (snd (Observe (NewReturnHysteresis 3) HealthOffline)) (replicate 2 HealthSynced))
     HealthSynced) = HealthSynced"
  using hysteresis_return [of HealthOffline "NewReturnHysteresis 3" 2] by (simp add: NewReturnHysteresis_def)

text \<open>
  The judge never overstates: it publishes synced only for a reachable upstream that is within
  the tolerance, or one round beyond it for less than the grace since it was first seen behind.
\<close>

theorem judge_never_overstates:
  assumes "fst (Judge j now reachable rd best) = HealthSynced"
  shows "reachable \<and> (best \<le> rd + sj_Tolerance j
     \<or> best \<le> rd + sj_Tolerance j + 1
       \<and> time_Sub now (if IsZero (sj_behind j) then now else sj_behind j) < sj_Grace j)"
  using assms
  by (auto simp: Judge_def Let_def not_less not_le dest: Observe_published split: if_splits)

theorem judge_never_overstates_witness:
  "fst (Judge (NewSyncJudge 2 5000 3) 7000 True 1000 1003) = HealthSynced
   \<and> time_Sub 7000 7000 < 5000"
proof -
  have "fst (Judge (NewSyncJudge 2 5000 3) 7000 True 1000 1003) = HealthSynced" by code_simp
  then show ?thesis
    using judge_never_overstates [of "NewSyncJudge 2 5000 3" 7000 True 1000 1003]
    by (simp add: NewSyncJudge_def IsZero_def)
qed

text \<open>
  Recovery is counted in rounds, not in observations: after an outage of an upstream that had
  been seen, along a run of observations in sync the judge publishes synced from the observation
  on at which the round has changed Required times since, and lagging before it, however often
  the same round is observed.
\<close>

theorem judge_recovery_by_rounds:
  fixes j :: SyncJudge and t0 r0 b0
  assumes "sj_seen j"
    and "\<forall>x \<in> set (obs @ [x]). ob_reachable x \<and> ob_best x \<le> ob_round x + sj_Tolerance j"
  defines "j1 \<equiv> snd (Judge j t0 False r0 b0)"
  shows "fst (Judge (Judge_all j1 obs) (ob_now x) True (ob_round x) (ob_best x))
    = (if int (round_changes (sj_lastRound j) (map ob_round (obs @ [x]))) \<ge> max 1 (rh_Required (sj_hyst j))
       then HealthSynced else HealthLagging)"
proof -
  have j1: "sj_seen j1" "\<not> rh_trusted (sj_hyst j1)" "rh_streak (sj_hyst j1) = 0"
    "sj_Tolerance j1 = sj_Tolerance j" "sj_lastRound j1 = sj_lastRound j"
    "rh_Required (sj_hyst j1) = rh_Required (sj_hyst j)"
    using assms(1) by (simp_all add: j1_def Judge_def Let_def Observe_def)
  note run = judge_run_in_sync [of j1 obs, OF j1(1-3)]
  let ?j = "Judge_all j1 obs"
  have s: "sj_seen ?j" "sj_Tolerance ?j = sj_Tolerance j" "sj_lastRound ?j = last (sj_lastRound j # map ob_round obs)"
    "rh_Required (sj_hyst ?j) = rh_Required (sj_hyst j)"
    "rh_trusted (sj_hyst ?j) \<longleftrightarrow> int (round_changes (sj_lastRound j) (map ob_round obs)) \<ge> max 1 (rh_Required (sj_hyst j))"
    "\<not> rh_trusted (sj_hyst ?j) \<Longrightarrow> rh_streak (sj_hyst ?j) = int (round_changes (sj_lastRound j) (map ob_round obs))"
    using run assms(2) j1(4-6) by auto
  have "ob_best x \<le> ob_round x + sj_Tolerance ?j" using assms(2) s(2) by simp
  from Judge_in_sync [OF this] show ?thesis using s
    by (simp add: round_changes_snoc) (auto simp: Observe_def Current_def Let_def)
qed

theorem judge_recovery_by_rounds_witness:
  "fst (Judge (Judge_all (snd (Judge (snd (Judge (NewSyncJudge 2 5000 2) 1 True 10 10)) 2 False 0 10))
        [\<lparr>ob_now = 3, ob_reachable = True, ob_round = 11, ob_best = 12\<rparr>,
         \<lparr>ob_now = 4, ob_reachable = True, ob_round = 11, ob_best = 12\<rparr>])
      5 True 12 12) = HealthSynced"
  using judge_recovery_by_rounds [of "snd (Judge (NewSyncJudge 2 5000 2) 1 True 10 10)"
      "[\<lparr>ob_now = 3, ob_reachable = True, ob_round = 11, ob_best = 12\<rparr>,
         \<lparr>ob_now = 4, ob_reachable = True, ob_round = 11, ob_best = 12\<rparr>]"
      "\<lparr>ob_now = 5, ob_reachable = True, ob_round = 12, ob_best = 12\<rparr>" 2 0 10]
  by (simp add: Judge_def NewSyncJudge_def NewReturnHysteresis_def Let_def Observe_def)

end
