(* ===== verification/Codec.thy ===== *)
theory Codec
  imports Types
begin

text \<open>
  The registry box format and the gossip wire format (src/internal/domain/codec.go). The
  cryptographic primitives (HKDF, HMAC, AES-GCM, ed25519) and the JSON encoders are parameters,
  bundled in a record; what the proofs need of them is stated as named hypotheses: an AEAD opens
  what it sealed, a signature verifies, keys and signatures have their documented lengths, JSON
  decodes what it encoded.
\<close>

section \<open>Parameters\<close>

type_synonym bytes = "8 word list"

record Probe =
  pb_Type :: string
  pb_NodeID :: string
  pb_Nonce :: u64
  pb_HeardMS :: int

record primitives =
  hkdf_key :: "bytes \<Rightarrow> string \<Rightarrow> string \<Rightarrow> bytes"
  hmac_sum :: "bytes \<Rightarrow> string \<Rightarrow> bytes"
  aead_Seal :: "bytes \<Rightarrow> bytes \<Rightarrow> bytes \<Rightarrow> bytes \<Rightarrow> bytes"
  aead_Open :: "bytes \<Rightarrow> bytes \<Rightarrow> bytes \<Rightarrow> bytes \<Rightarrow> bytes option"
  ed_Public :: "bytes \<Rightarrow> bytes"
  ed_Sign :: "bytes \<Rightarrow> bytes \<Rightarrow> bytes"
  ed_Verify :: "bytes \<Rightarrow> bytes \<Rightarrow> bytes \<Rightarrow> bool"
  marshal_record :: "NodeRecord \<Rightarrow> bytes"
  unmarshal_record :: "bytes \<Rightarrow> NodeRecord option"
  marshal_hb :: "Heartbeat \<Rightarrow> bytes"
  unmarshal_hb :: "bytes \<Rightarrow> Heartbeat option"
  marshal_probe :: "Probe \<Rightarrow> bytes"
  unmarshal_probe :: "bytes \<Rightarrow> Probe option"
  unmarshal_kind :: "bytes \<Rightarrow> string option"

datatype CodecError =
    SeedTooShort | BadRecord DomainError | BadNonce | BlobTooShort | BadVersion "8 word" | NotOpened | BadJSON
  | WrongBox string | WireTooShort | BadSignature | EmptyNodeID | BadProbeType string | NotHeartbeat

section \<open>Registry boxes\<close>

definition recordVersion :: "8 word" where "recordVersion = 1"
definition recordNonceLen :: nat where "recordNonceLen = 12"
definition BoxTagLen :: nat where "BoxTagLen = 16"

text \<open>The prefix of box keys, as bytes: the letter n.\<close>

definition BoxKeyPrefix :: bytes where "BoxKeyPrefix = [110]"

definition DeriveSyncKey :: "primitives \<Rightarrow> bytes \<Rightarrow> CodecError + bytes" where
  "DeriveSyncKey P seed =
     (if length seed < 32 then Inl SeedTooShort
      else Inr (take 32 (hkdf_key P (take 32 seed) ''algod-loadb-mesh'' ''registry-v1'')))"

definition BoxTag :: "primitives \<Rightarrow> bytes \<Rightarrow> string \<Rightarrow> bytes" where
  "BoxTag P key i = take BoxTagLen (hmac_sum P (hkdf_key P key ''algod-loadb-mesh'' ''registry-box-tag-v1'') i)"

definition BoxName :: "primitives \<Rightarrow> bytes \<Rightarrow> string \<Rightarrow> bytes" where
  "BoxName P key i = BoxKeyPrefix @ BoxTag P key i"

definition IsRecordBox :: "bytes \<Rightarrow> bool" where
  "IsRecordBox name =
     (length name = length BoxKeyPrefix + BoxTagLen \<and> take (length BoxKeyPrefix) name = BoxKeyPrefix)"

definition SealRecord :: "primitives \<Rightarrow> bytes \<Rightarrow> NodeRecord \<Rightarrow> bytes \<Rightarrow> CodecError + bytes" where
  "SealRecord P key r nonce =
     (case Validate r of Some e \<Rightarrow> Inl (BadRecord e)
      | None \<Rightarrow>
        if length nonce \<noteq> recordNonceLen then Inl BadNonce
        else Inr ([recordVersion] @ nonce @ aead_Seal P key nonce (marshal_record P r) (BoxName P key (rec_ID r))))"

definition OpenRecord :: "primitives \<Rightarrow> bytes \<Rightarrow> bytes \<Rightarrow> bytes \<Rightarrow> CodecError + NodeRecord" where
  "OpenRecord P key name blob =
     (if length blob < 1 + recordNonceLen then Inl BlobTooShort
      else if blob ! 0 \<noteq> recordVersion then Inl (BadVersion (blob ! 0))
      else (case aead_Open P key (take recordNonceLen (drop 1 blob)) (drop (1 + recordNonceLen) blob) name of
              None \<Rightarrow> Inl NotOpened
            | Some plain \<Rightarrow>
              (case unmarshal_record P plain of
                 None \<Rightarrow> Inl BadJSON
               | Some r \<Rightarrow>
                 if BoxName P key (rec_ID r) \<noteq> name then Inl (WrongBox (rec_ID r))
                 else (case Validate r of Some e \<Rightarrow> Inl (BadRecord e) | None \<Rightarrow> Inr r))))"

section \<open>Gossip messages\<close>

definition PublicKeySize :: nat where "PublicKeySize = 32"
definition heartbeatHeader :: nat where "heartbeatHeader = 96"

abbreviation ProbePing :: string where "ProbePing \<equiv> ''ping''"
abbreviation ProbePong :: string where "ProbePong \<equiv> ''pong''"

record Envelope =
  env_PubKey :: bytes
  env_NodeID :: string
  env_HB :: "Heartbeat option"
  env_Probe :: "Probe option"

definition encodeSigned :: "primitives \<Rightarrow> bytes \<Rightarrow> bytes \<Rightarrow> bytes" where
  "encodeSigned P priv body = ed_Public P priv @ ed_Sign P priv body @ body"

definition EncodeHeartbeat :: "primitives \<Rightarrow> bytes \<Rightarrow> Heartbeat \<Rightarrow> bytes" where
  "EncodeHeartbeat P priv hb = encodeSigned P priv (marshal_hb P hb)"

definition EncodeProbe :: "primitives \<Rightarrow> bytes \<Rightarrow> Probe \<Rightarrow> CodecError + bytes" where
  "EncodeProbe P priv p =
     (if pb_Type p \<noteq> ProbePing \<and> pb_Type p \<noteq> ProbePong then Inl (BadProbeType (pb_Type p))
      else Inr (encodeSigned P priv (marshal_probe P p)))"

definition DecodeMessage :: "primitives \<Rightarrow> bytes \<Rightarrow> CodecError + Envelope" where
  "DecodeMessage P wire =
     (if length wire < heartbeatHeader + 2 then Inl WireTooShort
      else
        let pub = take PublicKeySize wire;
            sig = take (heartbeatHeader - PublicKeySize) (drop PublicKeySize wire);
            body = drop heartbeatHeader wire
        in if \<not> ed_Verify P pub body sig then Inl BadSignature
           else (case unmarshal_kind P body of
                   None \<Rightarrow> Inl BadJSON
                 | Some kind \<Rightarrow>
                   if kind = [] then
                     (case unmarshal_hb P body of
                        None \<Rightarrow> Inl BadJSON
                      | Some hb \<Rightarrow>
                        if hb_NodeID hb = [] then Inl EmptyNodeID
                        else Inr \<lparr>env_PubKey = pub, env_NodeID = hb_NodeID hb, env_HB = Some hb, env_Probe = None\<rparr>)
                   else
                     (case unmarshal_probe P body of
                        None \<Rightarrow> Inl BadJSON
                      | Some p \<Rightarrow>
                        if pb_Type p \<noteq> ProbePing \<and> pb_Type p \<noteq> ProbePong then Inl (BadProbeType (pb_Type p))
                        else if pb_NodeID p = [] then Inl EmptyNodeID
                        else Inr \<lparr>env_PubKey = pub, env_NodeID = pb_NodeID p, env_HB = None, env_Probe = Some p\<rparr>)))"

definition DecodeHeartbeat :: "primitives \<Rightarrow> bytes \<Rightarrow> CodecError + (Heartbeat \<times> bytes)" where
  "DecodeHeartbeat P wire =
     (case DecodeMessage P wire of Inl e \<Rightarrow> Inl e
      | Inr env \<Rightarrow> (case env_HB env of None \<Rightarrow> Inl NotHeartbeat | Some hb \<Rightarrow> Inr (hb, env_PubKey env)))"

section \<open>What the primitives promise\<close>

definition aead_ok :: "primitives \<Rightarrow> bool" where
  "aead_ok P = (\<forall>k n p a. aead_Open P k n (aead_Seal P k n p a) a = Some p)"

definition sign_ok :: "primitives \<Rightarrow> bool" where
  "sign_ok P = (\<forall>k m. ed_Verify P (ed_Public P k) m (ed_Sign P k m) \<and> length (ed_Public P k) = PublicKeySize
     \<and> length (ed_Sign P k m) = heartbeatHeader - PublicKeySize)"

text \<open>JSON of one record, heartbeat or probe: a body of at least two bytes that decodes to what it encodes.\<close>

definition record_json :: "primitives \<Rightarrow> NodeRecord \<Rightarrow> bool" where
  "record_json P r = (unmarshal_record P (marshal_record P r) = Some r)"

definition heartbeat_json :: "primitives \<Rightarrow> Heartbeat \<Rightarrow> bool" where
  "heartbeat_json P hb = (unmarshal_hb P (marshal_hb P hb) = Some hb \<and> unmarshal_kind P (marshal_hb P hb) = Some []
     \<and> 2 \<le> length (marshal_hb P hb))"

definition probe_json :: "primitives \<Rightarrow> Probe \<Rightarrow> bool" where
  "probe_json P p = (unmarshal_probe P (marshal_probe P p) = Some p \<and> unmarshal_kind P (marshal_probe P p) = Some (pb_Type p)
     \<and> 2 \<le> length (marshal_probe P p))"

text \<open>Primitives for one record, one heartbeat and one probe, to try the theorems on.\<close>

definition sample_record :: NodeRecord where
  "sample_record = \<lparr>rec_ID = ''n1'', rec_Role = RoleNode, rec_Network = ''mainnet-v1.0'', rec_Endpoints = [''http://n1:8080''],
     rec_Token = ''t1'', rec_Agent = \<lparr>ai_Addrs = [''n1:4190''], ai_Addr = [], ai_PubKey = replicate 32 7\<rparr>, rec_Tier = 0,
     rec_Tags = [], rec_Declared = None, rec_Version = 1, rec_UpdatedAt = 0\<rparr>"

definition sample_hb :: Heartbeat where
  "sample_hb = \<lparr>hb_NodeID = ''n1'', hb_Seq = 4, hb_LastRound = 1000, hb_Online = True, hb_Caps = zero_caps, hb_Draining = False\<rparr>"

definition sample_probe :: Probe where
  "sample_probe = \<lparr>pb_Type = ProbePing, pb_NodeID = ''n1'', pb_Nonce = 9, pb_HeardMS = 12\<rparr>"

definition sample_primitives :: primitives where
  "sample_primitives = \<lparr>hkdf_key = (\<lambda>k _ _. k), hmac_sum = (\<lambda>k i. k @ map (\<lambda>c. of_int (of_char c)) i),
     aead_Seal = (\<lambda>k n p a. a @ p), aead_Open = (\<lambda>k n c a. if take (length a) c = a then Some (drop (length a) c) else None),
     ed_Public = (\<lambda>k. replicate 32 7), ed_Sign = (\<lambda>k m. replicate 64 3), ed_Verify = (\<lambda>p m s. s = replicate 64 3),
     marshal_record = (\<lambda>_. [1, 2]), unmarshal_record = (\<lambda>_. Some sample_record),
     marshal_hb = (\<lambda>_. [1, 2]), unmarshal_hb = (\<lambda>_. Some sample_hb),
     marshal_probe = (\<lambda>_. [3, 4]), unmarshal_probe = (\<lambda>_. Some sample_probe),
     unmarshal_kind = (\<lambda>b. Some (if b = [1, 2] then [] else ProbePing))\<rparr>"

section \<open>Lemmas\<close>

lemma wire_parts:
  assumes "sign_ok P"
  shows "take PublicKeySize (encodeSigned P k body) = ed_Public P k"
    and "take (heartbeatHeader - PublicKeySize) (drop PublicKeySize (encodeSigned P k body)) = ed_Sign P k body"
    and "drop heartbeatHeader (encodeSigned P k body) = body"
    and "length (encodeSigned P k body) = heartbeatHeader + length body"
    and "ed_Verify P (ed_Public P k) body (ed_Sign P k body)"
  using assms by (auto simp: sign_ok_def encodeSigned_def PublicKeySize_def heartbeatHeader_def)

lemma sample_primitives_ok:
  "aead_ok sample_primitives" "sign_ok sample_primitives" "record_json sample_primitives sample_record"
  "heartbeat_json sample_primitives sample_hb" "probe_json sample_primitives sample_probe"
  by (simp_all add: aead_ok_def sign_ok_def record_json_def heartbeat_json_def probe_json_def sample_primitives_def
      PublicKeySize_def heartbeatHeader_def sample_probe_def)

section \<open>Properties\<close>

text \<open>
  C25. A registry box reads back: a valid record sealed under its own box name opens to itself;
  whatever a box opens to is a valid record whose id is the one the box is named after, so a box
  copied under another name is never taken for that node.
\<close>

theorem registry_box_roundtrip:
  assumes "aead_ok P" and "record_json P r" and "Validate r = None" and "length nonce = recordNonceLen"
  shows "(\<exists>blob. SealRecord P key r nonce = Inr blob \<and> OpenRecord P key (BoxName P key (rec_ID r)) blob = Inr r)
    \<and> (\<forall>name blob r'. OpenRecord P key name blob = Inr r' \<longrightarrow> BoxName P key (rec_ID r') = name \<and> Validate r' = None)"
proof -
  let ?blob = "[recordVersion] @ nonce @ aead_Seal P key nonce (marshal_record P r) (BoxName P key (rec_ID r))"
  have "SealRecord P key r nonce = Inr ?blob" using assms by (simp add: SealRecord_def)
  moreover have "OpenRecord P key (BoxName P key (rec_ID r)) ?blob = Inr r"
    using assms by (simp add: OpenRecord_def aead_ok_def record_json_def)
  ultimately show ?thesis by (auto simp: OpenRecord_def split: if_splits option.splits)
qed

theorem registry_box_roundtrip_witness:
  "\<exists>blob. SealRecord sample_primitives [5] sample_record (replicate 12 0) = Inr blob
     \<and> OpenRecord sample_primitives [5] (BoxName sample_primitives [5] ''n1'') blob = Inr sample_record"
proof -
  have "Validate sample_record = None" "rec_ID sample_record = ''n1''" by code_simp+
  then show ?thesis
    using registry_box_roundtrip [OF sample_primitives_ok(1,3), of "replicate 12 0" "[5]"] by (simp add: recordNonceLen_def)
qed

text \<open>
  C26. A gossip message reads back as what was sent, signed by the key that sent it; a heartbeat
  never decodes as a probe nor a probe as a heartbeat; and whatever decodes carries a signature that
  verifies under the key it names, exactly one of a heartbeat and a probe, and the id inside it.
\<close>

theorem gossip_roundtrip:
  assumes "sign_ok P" and "heartbeat_json P hb" and "hb_NodeID hb \<noteq> []"
    and "probe_json P p" and "pb_Type p \<in> {ProbePing, ProbePong}" and "pb_NodeID p \<noteq> []"
  shows "DecodeMessage P (EncodeHeartbeat P k hb)
      = Inr \<lparr>env_PubKey = ed_Public P k, env_NodeID = hb_NodeID hb, env_HB = Some hb, env_Probe = None\<rparr>
    \<and> DecodeHeartbeat P (EncodeHeartbeat P k hb) = Inr (hb, ed_Public P k)
    \<and> (\<exists>wire. EncodeProbe P k p = Inr wire
         \<and> DecodeMessage P wire = Inr \<lparr>env_PubKey = ed_Public P k, env_NodeID = pb_NodeID p, env_HB = None, env_Probe = Some p\<rparr>
         \<and> DecodeHeartbeat P wire = Inl NotHeartbeat)
    \<and> (\<forall>wire env. DecodeMessage P wire = Inr env \<longrightarrow>
         ed_Verify P (env_PubKey env) (drop heartbeatHeader wire) (take (heartbeatHeader - PublicKeySize) (drop PublicKeySize wire))
         \<and> env_NodeID env \<noteq> [] \<and> ((\<exists>h. env_HB env = Some h \<and> env_Probe env = None \<and> hb_NodeID h = env_NodeID env)
              \<or> (\<exists>q. env_Probe env = Some q \<and> env_HB env = None \<and> pb_NodeID q = env_NodeID env)))"
proof -
  note w = wire_parts [OF assms(1)]
  have hb: "DecodeMessage P (EncodeHeartbeat P k hb)
      = Inr \<lparr>env_PubKey = ed_Public P k, env_NodeID = hb_NodeID hb, env_HB = Some hb, env_Probe = None\<rparr>"
    using assms(2,3) w by (simp add: DecodeMessage_def EncodeHeartbeat_def heartbeat_json_def Let_def)
  have p: "EncodeProbe P k p = Inr (encodeSigned P k (marshal_probe P p))"
    "DecodeMessage P (encodeSigned P k (marshal_probe P p))
      = Inr \<lparr>env_PubKey = ed_Public P k, env_NodeID = pb_NodeID p, env_HB = None, env_Probe = Some p\<rparr>"
    using assms(4-6) w by (auto simp: DecodeMessage_def EncodeProbe_def probe_json_def Let_def)
  have "ed_Verify P (env_PubKey env) (drop heartbeatHeader wire) (take (heartbeatHeader - PublicKeySize) (drop PublicKeySize wire))
         \<and> env_NodeID env \<noteq> [] \<and> ((\<exists>h. env_HB env = Some h \<and> env_Probe env = None \<and> hb_NodeID h = env_NodeID env)
              \<or> (\<exists>q. env_Probe env = Some q \<and> env_HB env = None \<and> pb_NodeID q = env_NodeID env))"
    if "DecodeMessage P wire = Inr env" for wire env
    using that by (auto simp: DecodeMessage_def Let_def split: if_splits option.splits)
  then show ?thesis using hb p by (simp add: DecodeHeartbeat_def)
qed

theorem gossip_roundtrip_witness:
  "DecodeHeartbeat sample_primitives (EncodeHeartbeat sample_primitives [5] sample_hb) = Inr (sample_hb, replicate 32 7)"
  using gossip_roundtrip [OF sample_primitives_ok(2,4) _ sample_primitives_ok(5), of "[5]"]
  by (simp add: sample_hb_def sample_probe_def sample_primitives_def)

end
