(* ===== verification/Monitor.thy ===== *)
theory Monitor
  imports Types
begin

text \<open>
  The monitor of the co-located node (src/internal/app/monitor.go): its state and every change it
  makes to it, the search for the oldest block the node serves, and the backoff. The node's answers
  (status, versions, simulate limits, blocks) and the configuration read are arguments; logs, metrics
  and timers are not modelled. An update runs under the monitor's mutex and is one step.
\<close>

section \<open>State\<close>

record NodeConfig =
  nc_Endpoint :: string
  nc_NetAddr :: string
  nc_Token :: string
  nc_GenesisID :: string
  nc_Archival :: bool
  nc_MaxBlockHistoryLookback :: u64
  nc_EnableDeveloperAPI :: bool
  nc_EnableFollowMode :: bool
  nc_EnableExperimentalAPI :: bool
  nc_EnableTimeTravel :: bool
  nc_MaxAcctLookback :: u64
  nc_StorageEngine :: string
  nc_RestWriteTimeoutSeconds :: int
  nc_ModTime :: Time

definition zero_config :: NodeConfig where
  "zero_config = \<lparr>nc_Endpoint = [], nc_NetAddr = [], nc_Token = [], nc_GenesisID = [], nc_Archival = False,
     nc_MaxBlockHistoryLookback = 0, nc_EnableDeveloperAPI = False, nc_EnableFollowMode = False,
     nc_EnableExperimentalAPI = False, nc_EnableTimeTravel = False, nc_MaxAcctLookback = 0, nc_StorageEngine = [],
     nc_RestWriteTimeoutSeconds = 0, nc_ModTime = 0\<rparr>"

record MonitorOptions =
  mo_NodeID :: string
  mo_WaitTimeout :: Duration
  mo_StatusTimeout :: Duration
  mo_MaxBackoff :: Duration
  mo_VerifyInterval :: Duration
  mo_ConfigRecheck :: Duration
  mo_Overrides :: "CapabilityOverrides option"
  mo_Absent :: bool
  mo_Network :: string
  mo_UpstreamTimeout :: Duration

definition monitor_defaults :: "MonitorOptions \<Rightarrow> MonitorOptions" where
  "monitor_defaults o0 =
     (let o1 = (if mo_WaitTimeout o0 = 0 then o0\<lparr>mo_WaitTimeout := 70 * Second\<rparr> else o0);
          o2 = (if mo_StatusTimeout o1 = 0 then o1\<lparr>mo_StatusTimeout := 10 * Second\<rparr> else o1);
          o3 = (if mo_MaxBackoff o2 = 0 then o2\<lparr>mo_MaxBackoff := 90 * Second\<rparr> else o2);
          o4 = (if mo_VerifyInterval o3 = 0 then o3\<lparr>mo_VerifyInterval := 3600 * Second\<rparr> else o3)
      in (if mo_ConfigRecheck o4 = 0 then o4\<lparr>mo_ConfigRecheck := 60 * Second\<rparr> else o4))"

text \<open>LastStatus is None for the nil slice.\<close>

record LocalState =
  ls_Online :: bool
  ls_LastRound :: u64
  ls_Caps :: Capabilities
  ls_Config :: NodeConfig
  ls_ConfigOK :: bool
  ls_Verified :: bool
  ls_LastStatus :: "string option"
  ls_LastError :: string
  ls_Endpoint :: string
  ls_Seq :: u64
  ls_LimitsKnown :: bool

definition zero_state :: LocalState where
  "zero_state = \<lparr>ls_Online = False, ls_LastRound = 0, ls_Caps = zero_caps, ls_Config = zero_config, ls_ConfigOK = False,
     ls_Verified = False, ls_LastStatus = None, ls_LastError = [], ls_Endpoint = [], ls_Seq = 0, ls_LimitsKnown = False\<rparr>"

definition NewMonitor :: "MonitorOptions \<Rightarrow> LocalState" where
  "NewMonitor o' =
     (if mo_Absent o'
      then zero_state\<lparr>ls_Caps := zero_caps\<lparr>caps_GenesisID := mo_Network o'\<rparr>, ls_LastError := ''no local node''\<rparr>
      else zero_state)"

text \<open>update: a change, and the next sequence number.\<close>

definition monitor_update :: "(LocalState \<Rightarrow> LocalState) \<Rightarrow> LocalState \<Rightarrow> LocalState" where
  "monitor_update f s = (f s)\<lparr>ls_Seq := ls_Seq (f s) + 1\<rparr>"

section \<open>Capabilities\<close>

definition capsFromConfig ::
  "NodeConfig \<Rightarrow> Capabilities \<Rightarrow> u64 \<Rightarrow> CapabilityOverrides option \<Rightarrow> Capabilities" where
  "capsFromConfig cfg prev lastRound ov =
     (let ar = (if nc_Archival cfg then \<lparr>ar_Kind = ArchivalFull, ar_N = 0\<rparr>
                else if nc_MaxBlockHistoryLookback cfg > 0
                then \<lparr>ar_Kind = ArchivalTrailing, ar_N = nc_MaxBlockHistoryLookback cfg\<rparr>
                else \<lparr>ar_Kind = ArchivalNone, ar_N = 0\<rparr>);
          c = \<lparr>caps_OldestRound = OldestRoundFor ar lastRound, caps_Archival = ar,
               caps_DeveloperAPI = nc_EnableDeveloperAPI cfg, caps_FollowMode = nc_EnableFollowMode cfg,
               caps_ExperimentalAPI = nc_EnableExperimentalAPI cfg, caps_TimeTravel = nc_EnableTimeTravel cfg,
               caps_Simulate = caps_Simulate prev, caps_AlgodVersion = caps_AlgodVersion prev,
               caps_GenesisID = nc_GenesisID cfg, caps_StorageEngine = nc_StorageEngine cfg,
               caps_MaxAcctLookback = nc_MaxAcctLookback cfg\<rparr>
      in Apply ov c lastRound)"

text \<open>The window at a new round: what awaitOnline and watch recompute.\<close>

definition roll_window :: "CapabilityOverrides option \<Rightarrow> LocalState \<Rightarrow> LocalState" where
  "roll_window ov s =
     s\<lparr>ls_Caps := Apply ov ((ls_Caps s)\<lparr>caps_OldestRound := OldestRoundFor (caps_Archival (ls_Caps s)) (ls_LastRound s)\<rparr>)
                   (ls_LastRound s)\<rparr>"

text \<open>readConfig, with the result of reading the configuration.\<close>

definition readConfig :: "CapabilityOverrides option \<Rightarrow> string + NodeConfig \<Rightarrow> LocalState \<Rightarrow> LocalState" where
  "readConfig ov cfg =
     (case cfg of
        Inl e \<Rightarrow> monitor_update (\<lambda>s. s\<lparr>ls_ConfigOK := False, ls_LastError := e\<rparr>)
      | Inr cf \<Rightarrow> monitor_update (\<lambda>s.
          let changed = (nc_ModTime (ls_Config s) \<noteq> nc_ModTime cf \<or> \<not> ls_ConfigOK s);
              s1 = s\<lparr>ls_Config := cf, ls_ConfigOK := True, ls_Endpoint := nc_Endpoint cf,
                     ls_Caps := capsFromConfig cf (ls_Caps s) (ls_LastRound s) ov\<rparr>
          in if changed then s1\<lparr>ls_Verified := False\<rparr> else s1))"

text \<open>The check of configLoop: whether a configuration read is taken over.\<close>

definition config_changed :: "NodeConfig \<Rightarrow> LocalState \<Rightarrow> bool" where
  "config_changed cfg s =
     (\<not> ls_ConfigOK s \<or> nc_ModTime cfg \<noteq> nc_ModTime (ls_Config s) \<or> nc_Endpoint cfg \<noteq> nc_Endpoint (ls_Config s))"

section \<open>Following the node\<close>

text \<open>
  awaitOnline on a status: \<open>ver\<close> is the version answer (build and genesis id), \<open>lmt\<close> the simulate
  limits (None within for a stock node); None stands for an error of either.
\<close>

definition await_status ::
  "CapabilityOverrides option \<Rightarrow> u64 \<Rightarrow> string option \<Rightarrow> (string \<times> string) option \<Rightarrow> SimulateLimits option option
   \<Rightarrow> LocalState \<Rightarrow> LocalState" where
  "await_status ov rd raw ver lmt = monitor_update (\<lambda>s.
     let s1 = s\<lparr>ls_Online := True, ls_LastRound := rd, ls_LastStatus := raw, ls_LastError := []\<rparr>;
         s2 = (case ver of None \<Rightarrow> s1
               | Some (build, genesis) \<Rightarrow>
                 s1\<lparr>ls_Caps := (let c = (ls_Caps s1)\<lparr>caps_AlgodVersion := build\<rparr>
                               in if caps_GenesisID c = [] then c\<lparr>caps_GenesisID := genesis\<rparr> else c)\<rparr>);
         s3 = s2\<lparr>ls_LimitsKnown := (lmt \<noteq> None)\<rparr>;
         s4 = (case lmt of None \<Rightarrow> s3 | Some l \<Rightarrow> s3\<lparr>ls_Caps := (ls_Caps s3)\<lparr>caps_Simulate := l\<rparr>\<rparr>)
     in roll_window ov s4)"

definition node_offline :: "string \<Rightarrow> LocalState \<Rightarrow> LocalState" where
  "node_offline err = monitor_update (\<lambda>s. s\<lparr>ls_Online := False, ls_LastError := err\<rparr>)"

text \<open>
  watch on a new status. \<open>lmt\<close> is what asking for the simulate limits gave, which happens only while
  they are not known; \<open>known\<close> is whether they were known when the status arrived.
\<close>

definition watch_status ::
  "CapabilityOverrides option \<Rightarrow> u64 \<Rightarrow> string option \<Rightarrow> bool \<Rightarrow> SimulateLimits option option \<Rightarrow> LocalState \<Rightarrow> LocalState" where
  "watch_status ov rd raw known lmt = monitor_update (\<lambda>s.
     let (known', l) = (if known then (True, None) else (case lmt of None \<Rightarrow> (False, None) | Some l \<Rightarrow> (True, l)));
         s1 = (if known' \<and> \<not> ls_LimitsKnown s
               then s\<lparr>ls_LimitsKnown := True, ls_Caps := (ls_Caps s)\<lparr>caps_Simulate := l\<rparr>\<rparr> else s)
     in roll_window ov (s1\<lparr>ls_Online := True, ls_LastRound := rd, ls_LastStatus := raw, ls_LastError := []\<rparr>))"

text \<open>refreshLimits, with the answer of the node.\<close>

definition refreshLimits :: "CapabilityOverrides option \<Rightarrow> SimulateLimits option option \<Rightarrow> LocalState \<Rightarrow> LocalState" where
  "refreshLimits ov lmt s =
     (if \<not> ls_Online s then s
      else (case lmt of None \<Rightarrow> s
            | Some l \<Rightarrow> monitor_update (\<lambda>s. let c = (ls_Caps s)\<lparr>caps_Simulate := l\<rparr> in
                s\<lparr>ls_LimitsKnown := True, ls_Caps := Apply ov c (ls_LastRound s)\<rparr>) s))"

text \<open>WaitForBlockAfter, at one look at the state: the body it returns with, or None to wait on.\<close>

definition block_after :: "LocalState \<Rightarrow> u64 \<Rightarrow> string option" where
  "block_after s rd = (if ls_LastRound s > rd \<and> ls_LastStatus s \<noteq> None then ls_LastStatus s else None)"

section \<open>The oldest block\<close>

text \<open>The node's answers about blocks: Inl is an error.\<close>

type_synonym has_block = "u64 \<Rightarrow> string + bool"

text \<open>The loop of ProbeOldestRound, between a block that is missing and one that is there.\<close>

function bisect :: "has_block \<Rightarrow> u64 \<Rightarrow> u64 \<Rightarrow> string + u64" where
  "bisect hasBlock lo hi =
     (if hi - lo > 1 then
        let mid = lo + (hi - lo) div 2 in
        (case hasBlock mid of
           Inl e \<Rightarrow> Inl e
         | Inr ok \<Rightarrow> if ok then bisect hasBlock lo mid else bisect hasBlock mid hi)
      else Inr hi)"
  by pat_completeness auto

lemma half_less: "1 < (d :: u64) \<Longrightarrow> unat (d div 2) < unat d \<and> unat (d - d div 2) < unat d"
proof -
  assume "1 < d"
  then have "2 \<le> unat d" by (simp add: word_less_nat_alt)
  moreover have "unat (d div 2) = unat d div 2" by (simp add: unat_div)
  moreover from this have "unat (d - d div 2) = unat d - unat d div 2"
    by (subst unat_sub) (auto simp: word_le_nat_alt)
  ultimately show ?thesis by auto
qed

termination bisect
proof (relation "measure (\<lambda>(_, lo, hi). unat (hi - lo))", goal_cases)
  case (2 hasBlock lo hi mid ok)
  then show ?case using half_less [of "hi - lo"] by simp
next
  case (3 hasBlock lo hi mid ok)
  have "hi - mid = (hi - lo) - (hi - lo) div 2" unfolding 3(2) by simp
  then have "unat (hi - mid) < unat (hi - lo)" using half_less [OF 3(1)] by metis
  then show ?case by simp
qed simp

declare bisect.simps [simp del]

definition ProbeOldestRound :: "has_block \<Rightarrow> u64 \<Rightarrow> string + u64" where
  "ProbeOldestRound hasBlock lst =
     (case hasBlock 0 of
        Inl e \<Rightarrow> Inl e
      | Inr True \<Rightarrow> Inr 0
      | Inr False \<Rightarrow>
        (case hasBlock lst of
           Inl e \<Rightarrow> Inl e
         | Inr False \<Rightarrow> Inl ''node cannot serve its own last round''
         | Inr True \<Rightarrow> bisect hasBlock 0 lst))"

definition checkEdge :: "has_block \<Rightarrow> u64 \<Rightarrow> u64 \<Rightarrow> string + u64" where
  "checkEdge hasBlock expected lst =
     (case hasBlock expected of
        Inl e \<Rightarrow> Inl e
      | Inr False \<Rightarrow> ProbeOldestRound hasBlock lst
      | Inr True \<Rightarrow>
        if expected = 0 then Inr 0
        else (case hasBlock (expected - 1) of
                Inl e \<Rightarrow> Inl e
              | Inr True \<Rightarrow> ProbeOldestRound hasBlock lst
              | Inr False \<Rightarrow> Inr expected))"

text \<open>What verifyOldest makes of the state with a measured round.\<close>

definition take_measured :: "u64 \<Rightarrow> LocalState \<Rightarrow> LocalState" where
  "take_measured measured s0 =
     (let s = s0\<lparr>ls_Verified := True\<rparr> in
      if measured > caps_OldestRound (ls_Caps s) then
        let k = ar_Kind (caps_Archival (ls_Caps s));
            ar = (if k = ArchivalFull then \<lparr>ar_Kind = ArchivalSince, ar_N = measured\<rparr>
                  else if k = ArchivalTrailing \<and> ls_LastRound s > measured
                  then (caps_Archival (ls_Caps s))\<lparr>ar_N := ls_LastRound s - measured\<rparr>
                  else caps_Archival (ls_Caps s));
            oldest = OldestRoundFor ar (ls_LastRound s)
        in s\<lparr>ls_Caps := (ls_Caps s)\<lparr>caps_Archival := ar, caps_OldestRound := (if oldest < measured then measured else oldest)\<rparr>\<rparr>
      else s)"

text \<open>verifyOldest; st is the state it started from, s the one it finds when it has measured.\<close>

definition verifyOldest ::
  "CapabilityOverrides option \<Rightarrow> has_block \<Rightarrow> bool \<Rightarrow> LocalState \<Rightarrow> LocalState \<Rightarrow> LocalState" where
  "verifyOldest ov hasBlock full st s =
     (if \<not> ls_Online st \<or> ls_LastRound st = 0 then s
      else if (case ov of None \<Rightarrow> False | Some o' \<Rightarrow> ov_Archival o' \<noteq> None)
      then monitor_update (\<lambda>s. s\<lparr>ls_Verified := True\<rparr>) s
      else (case (if full \<or> \<not> ls_Verified st then ProbeOldestRound hasBlock (ls_LastRound st)
                  else checkEdge hasBlock (caps_OldestRound (ls_Caps st)) (ls_LastRound st)) of
              Inl e \<Rightarrow> s
            | Inr measured \<Rightarrow> monitor_update (take_measured measured) s))"

section \<open>Backoff\<close>

record backoff =
  bf_base :: Duration
  bf_max :: Duration
  bf_cur :: Duration

definition newBackoff :: "Duration \<Rightarrow> Duration \<Rightarrow> backoff" where
  "newBackoff base mx = \<lparr>bf_base = base, bf_max = mx, bf_cur = 0\<rparr>"

definition backoff_next :: "backoff \<Rightarrow> Duration \<times> backoff" where
  "backoff_next b =
     (let cur = (if bf_cur b = 0 then bf_base b
                 else if bf_cur b * 2 > bf_max b then bf_max b else bf_cur b * 2)
      in (cur, b\<lparr>bf_cur := cur\<rparr>))"

definition backoff_reset :: "backoff \<Rightarrow> backoff" where
  "backoff_reset b = b\<lparr>bf_cur := 0\<rparr>"

text \<open>A node on the default window that serves less than it, for the theorems to be tried on.\<close>

definition sample_state :: LocalState where
  "sample_state = zero_state\<lparr>ls_Online := True, ls_LastRound := 5000,
     ls_Caps := zero_caps\<lparr>caps_Archival := \<lparr>ar_Kind = ArchivalNone, ar_N = 0\<rparr>, caps_OldestRound := 4000\<rparr>\<rparr>"

section \<open>Lemmas\<close>

lemma mid_between:
  assumes "(lo :: u64) < hi" "hi - lo > 1"
  shows "lo < lo + (hi - lo) div 2 \<and> lo + (hi - lo) div 2 < hi"
proof -
  let ?d = "hi - lo"
  have d: "unat ?d = unat hi - unat lo" using assms(1) by (simp add: unat_sub order.strict_implies_order)
  have h: "unat (?d div 2) = unat ?d div 2" by (simp add: unat_div)
  have "unat hi < 2 ^ 64" using unsigned_less [of hi] by simp
  then have "unat lo + unat ?d div 2 < 2 ^ 64" using d assms(1) by (simp add: word_less_nat_alt)
  then have "unat (lo + ?d div 2) = unat lo + unat ?d div 2"
    using h by (simp add: unat_plus_if_size word_size)
  moreover have "2 \<le> unat ?d" using assms(2) by (simp add: word_less_nat_alt)
  moreover have "unat lo < unat hi" using assms(1) by (simp add: word_less_nat_alt)
  ultimately show ?thesis using d by (auto simp: word_less_nat_alt)
qed

text \<open>The search ends at a block that is there, after one that is not.\<close>

lemma bisect_spec:
  assumes "lo < hi" "hasBlock lo = Inr False" "hasBlock hi = Inr True" "bisect hasBlock lo hi = Inr r"
  shows "lo < r \<and> r \<le> hi \<and> hasBlock r = Inr True \<and> hasBlock (r - 1) = Inr False"
  using assms
proof (induction hasBlock lo hi rule: bisect.induct)
  case (1 hasBlock lo hi)
  show ?case
  proof (cases "hi - lo > 1")
    case False
    then have "hi - lo = 1"
      using 1(3) by (metis eq_iff_diff_eq_0 less_irrefl not_less one_le_word order_antisym)
    then have "hi - 1 = lo" by (simp add: algebra_simps)
    then show ?thesis using 1 False by (simp add: bisect.simps [of hasBlock lo hi])
  next
    case True
    let ?mid = "lo + (hi - lo) div 2"
    note m = mid_between [OF 1(3) True]
    obtain ok where ok: "hasBlock ?mid = Inr ok"
      using 1(6) True by (auto simp: bisect.simps [of hasBlock lo hi] Let_def split: sum.splits)
    show ?thesis
    proof (cases ok)
      case t: True
      then have "bisect hasBlock lo ?mid = Inr r" using 1(6) True ok by (simp add: bisect.simps [of hasBlock lo hi])
      then have "lo < r \<and> r \<le> ?mid \<and> hasBlock r = Inr True \<and> hasBlock (r - 1) = Inr False"
        using 1(1) [OF True refl ok t] 1(4) m ok t by simp
      then show ?thesis using m by (meson less_imp_le order_trans)
    next
      case f: False
      then have "bisect hasBlock ?mid hi = Inr r" using 1(6) True ok by (simp add: bisect.simps [of hasBlock lo hi])
      then have "?mid < r \<and> r \<le> hi \<and> hasBlock r = Inr True \<and> hasBlock (r - 1) = Inr False"
        using 1(2) [OF True refl ok f] 1(5) m ok f by simp
      then show ?thesis using m by (meson less_trans)
    qed
  qed
qed

lemma bisect_total:
  assumes "\<forall>r. lo \<le> r \<and> r \<le> hi \<longrightarrow> (\<exists>ok. hasBlock r = Inr ok)" "lo < hi"
  shows "\<exists>r. bisect hasBlock lo hi = Inr r"
  using assms
proof (induction hasBlock lo hi rule: bisect.induct)
  case (1 hasBlock lo hi)
  show ?case
  proof (cases "hi - lo > 1")
    case False
    then show ?thesis by (simp add: bisect.simps [of hasBlock lo hi])
  next
    case True
    let ?mid = "lo + (hi - lo) div 2"
    note m = mid_between [OF 1(4) True]
    then obtain ok where ok: "hasBlock ?mid = Inr ok" using 1(3) by (meson less_imp_le)
    show ?thesis
    proof (cases ok)
      case t: True
      have "\<exists>r. bisect hasBlock lo ?mid = Inr r"
        using 1(1) [OF True refl ok t] 1(3) m by (meson less_imp_le order_trans)
      then show ?thesis using True ok t by (simp add: bisect.simps [of hasBlock lo hi])
    next
      case f: False
      have "\<exists>r. bisect hasBlock ?mid hi = Inr r"
        using 1(2) [OF True refl ok f] 1(3) m by (meson less_imp_le order_trans)
      then show ?thesis using True ok f by (simp add: bisect.simps [of hasBlock lo hi])
    qed
  qed
qed

lemma probe_exact:
  assumes "\<forall>r \<le> lst. hasBlock r = Inr (edge \<le> r)" "edge \<le> lst"
  shows "ProbeOldestRound hasBlock lst = Inr edge"
proof (cases "edge = 0")
  case True
  then show ?thesis using assms by (simp add: ProbeOldestRound_def)
next
  case False
  then have z: "hasBlock 0 = Inr False" and l: "hasBlock lst = Inr True" and pos: "0 < lst"
    using assms by (auto simp: word_gt_0 dest: word_le_0_iff [THEN iffD1])
  obtain r where r: "bisect hasBlock 0 lst = Inr r" using bisect_total [of 0 lst hasBlock] assms(1) pos by blast
  have s: "0 < r" "r \<le> lst" "hasBlock r = Inr True" "hasBlock (r - 1) = Inr False"
    using bisect_spec [OF pos z l r] by auto
  have pred: "unat (r - 1) = unat r - 1" using s(1) by (subst unat_sub) (simp_all add: word_gt_0)
  then have "r - 1 \<le> lst" using s(1,2) by (simp add: word_le_nat_alt word_gt_0)
  then have "edge \<le> r" "\<not> edge \<le> r - 1" using s assms(1) by auto
  then have "unat edge \<le> unat r" "\<not> unat edge \<le> unat r - 1" using pred by (simp_all add: word_le_nat_alt)
  then have "r = edge" by (intro word_unat_eq_iff [THEN iffD2]) linarith
  then show ?thesis using z l r by (simp add: ProbeOldestRound_def)
qed

lemma checkEdge_exact:
  assumes "\<forall>r \<le> lst. hasBlock r = Inr (edge \<le> r)" "edge \<le> lst" "expected \<le> lst"
  shows "checkEdge hasBlock expected lst = Inr edge"
proof (cases "edge \<le> expected \<and> expected \<noteq> 0")
  case True
  then have pred: "unat (expected - 1) = unat expected - 1" by (subst unat_sub) simp_all
  then have "expected - 1 \<le> lst" using assms(3) by (simp add: word_le_nat_alt)
  then have b: "hasBlock (expected - 1) = Inr (edge \<le> expected - 1)" using assms(1) by blast
  show ?thesis
  proof (cases "edge \<le> expected - 1")
    case False
    then have "\<not> unat edge \<le> unat expected - 1" "unat edge \<le> unat expected"
      using True pred by (simp_all add: word_le_nat_alt)
    then have "expected = edge" by (intro word_unat_eq_iff [THEN iffD2]) linarith
    then show ?thesis using assms b False True by (auto simp: checkEdge_def)
  next
    case t: True
    then show ?thesis using assms b True probe_exact [OF assms(1,2)] by (simp add: checkEdge_def)
  qed
next
  case False
  then show ?thesis using assms probe_exact [OF assms(1,2)]
    by (cases "edge \<le> expected"; cases "edge = 0") (auto simp: checkEdge_def)
qed

section \<open>Properties\<close>

text \<open>
  C24. The oldest block is found: on a node that serves the blocks from some round on, the search
  returns, and returns that round, and so does the incremental check, whatever edge it expects; in
  general, on any node that answers, the search returns a block that is served right after one that
  is not.
\<close>

theorem oldest_round_exact:
  assumes "\<forall>r \<le> lst. hasBlock r = Inr (edge \<le> r)" and "edge \<le> lst" and "expected \<le> lst"
  shows "ProbeOldestRound hasBlock lst = Inr edge \<and> checkEdge hasBlock expected lst = Inr edge
    \<and> (\<forall>hb. (\<forall>k. \<exists>ok. hb k = Inr ok) \<and> hb 0 = Inr False \<and> hb lst = Inr True \<longrightarrow>
         (\<exists>r. ProbeOldestRound hb lst = Inr r \<and> r \<le> lst \<and> hb r = Inr True \<and> hb (r - 1) = Inr False))"
proof -
  have "\<exists>r. ProbeOldestRound hb lst = Inr r \<and> r \<le> lst \<and> hb r = Inr True \<and> hb (r - 1) = Inr False"
    if h: "\<forall>k. \<exists>ok. hb k = Inr ok" "hb 0 = Inr False" "hb lst = Inr True" for hb
  proof -
    have pos: "0 < lst" using h(2,3) by (metis sum.inject(2) word_gt_0)
    then have "\<exists>r. bisect hb 0 lst = Inr r" using bisect_total [of 0 lst hb] h(1) by blast
    then obtain r where r: "bisect hb 0 lst = Inr r" by blast
    then show ?thesis using bisect_spec [OF pos h(2,3) r] h by (auto simp: ProbeOldestRound_def)
  qed
  then show ?thesis using probe_exact [OF assms(1,2)] checkEdge_exact [OF assms] by blast
qed

theorem oldest_round_exact_witness:
  "ProbeOldestRound (\<lambda>r. Inr (700 \<le> r)) 1000 = Inr 700"
  using oldest_round_exact [of 1000 "\<lambda>r. Inr (700 \<le> r)" 700 0] by simp

text \<open>
  C31. What verification measures is lost with the next block on a node with the default window: the
  measured oldest round is taken over, but the next status recomputes the window from the
  configured kind alone, and the node is again reported to hold rounds it was measured not to
  serve, until the next verification.
\<close>

theorem measured_edge_lost:
  assumes "ar_Kind (caps_Archival (ls_Caps s)) = ArchivalNone" and "caps_OldestRound (ls_Caps s) < measured"
    and "unat rd < unat measured + 1000"
  defines "s1 \<equiv> monitor_update (take_measured measured) s"
  shows "measured \<le> caps_OldestRound (ls_Caps s1)
    \<and> caps_OldestRound (ls_Caps (watch_status None rd raw True lmt s1)) < measured"
proof -
  have 1: "caps_Archival (ls_Caps s1) = caps_Archival (ls_Caps s)" "measured \<le> caps_OldestRound (ls_Caps s1)"
    using assms(1,2) by (auto simp: s1_def monitor_update_def take_measured_def Let_def not_less)
  have "caps_OldestRound (ls_Caps (watch_status None rd raw True lmt s1)) = OldestRoundFor (caps_Archival (ls_Caps s)) rd"
    using 1(1) by (simp add: watch_status_def monitor_update_def roll_window_def Apply_def Let_def)
  moreover have "OldestRoundFor (caps_Archival (ls_Caps s)) rd < measured"
  proof (cases "rd \<le> DefaultNonArchivalWindow")
    case True
    then show ?thesis using assms(1,2) by (auto simp: OldestRoundFor_def word_gt_0)
  next
    case False
    then have "unat (rd - DefaultNonArchivalWindow) = unat rd - 1000" "1000 < unat rd"
      by (auto simp: DefaultNonArchivalWindow_def unat_sub word_le_nat_alt)
    then have "rd - DefaultNonArchivalWindow < measured" using assms(3) by (simp add: word_less_nat_alt)
    then show ?thesis using assms(1) False by (simp add: OldestRoundFor_def)
  qed
  ultimately show ?thesis using 1(2) by simp
qed

theorem measured_edge_lost_witness:
  "caps_OldestRound (ls_Caps (watch_status None 5001 None True None (monitor_update (take_measured 4800) sample_state))) < 4800"
  using measured_edge_lost [of sample_state 4800 5001 None None] by (simp add: sample_state_def)

end
