(* ===== verification/Directory.thy ===== *)
theory Directory
  imports HealthJudge Eligible Paths StatsBook Codec Monitor "HOL-Library.AList"
begin

text \<open>
  The directory (src/internal/app/directory.go): the peers and balancers of the registry with what
  gossip and probes tell about them, the paths of each link, the externals, and the snapshot the
  router selects from. The maps of the code are association lists; the loops over them follow the
  order of the list, one of the orders Go may take. Every part that runs under the directory's
  mutex is one step; what the code does between two such parts (sending datagrams, asking a node)
  is an argument of the second. The normalisation of addresses and the hosts of endpoints
  (NormalizeAddr and EndpointHosts, which rest on net.ParseIP) are arguments. Logs and metrics are
  not modelled.
\<close>

section \<open>Options and state\<close>

record ExternalUpstream =
  ex_Name :: string
  ex_URL :: string
  ex_Token :: string
  ex_Tier :: int
  ex_Capabilities :: "CapabilityOverrides option"
  ex_HealthCheck :: Duration

text \<open>A PeerOverride is its tier, if it sets one.\<close>

record DirectoryOptions =
  dop_LocalID :: string
  dop_LocalTier :: int
  dop_NoLocal :: bool
  dop_SuspectAfter :: Duration
  dop_DownAfter :: Duration
  dop_ProbeInterval :: Duration
  dop_KeepAlive :: Duration
  dop_PathProbeInterval :: Duration
  dop_PathTimeout :: Duration
  dop_SyncTolerance :: u64
  dop_LagGrace :: Duration
  dop_ReturnHysteresis :: int
  dop_PeerOverrides :: "(string \<times> int option) list"
  dop_Externals :: "ExternalUpstream list"
  dop_Exclude :: "string list"

definition directory_defaults :: "DirectoryOptions \<Rightarrow> DirectoryOptions" where
  "directory_defaults o0 =
     (let o1 = (if dop_SuspectAfter o0 = 0 then o0\<lparr>dop_SuspectAfter := 15 * Second\<rparr> else o0);
          o2 = (if dop_DownAfter o1 = 0 then o1\<lparr>dop_DownAfter := 30 * Second\<rparr> else o1);
          o3 = (if dop_ProbeInterval o2 = 0 then o2\<lparr>dop_ProbeInterval := 10 * Second\<rparr> else o2);
          o4 = (if dop_KeepAlive o3 = 0 then o3\<lparr>dop_KeepAlive := 5 * Second\<rparr> else o3);
          o5 = (if dop_PathProbeInterval o4 = 0 then o4\<lparr>dop_PathProbeInterval := 30 * Second\<rparr> else o4);
          o6 = (if dop_PathTimeout o5 = 0 then o5\<lparr>dop_PathTimeout := 2 * Second\<rparr> else o5);
          o7 = (if dop_ReturnHysteresis o6 = 0 then o6\<lparr>dop_ReturnHysteresis := 3\<rparr> else o6)
      in (if dop_LagGrace o7 = 0 then o7\<lparr>dop_LagGrace := 1500 * Millisecond\<rparr> else o7))"

definition options_judge :: "DirectoryOptions \<Rightarrow> SyncJudge" where
  "options_judge o' = NewSyncJudge (dop_SyncTolerance o') (dop_LagGrace o') (dop_ReturnHysteresis o')"

record pathState =
  pt_addr :: string
  pt_rtt :: Duration
  pt_pingedAt :: Time
  pt_pongedAt :: Time
  pt_lastSeen :: Time
  pt_nonce :: u64
  pt_fails :: int
  pt_noRoute :: bool
  pt_deaf :: bool

definition new_path :: "string \<Rightarrow> pathState" where
  "new_path a = \<lparr>pt_addr = a, pt_rtt = 0, pt_pingedAt = 0, pt_pongedAt = 0, pt_lastSeen = 0, pt_nonce = 0, pt_fails = 0,
     pt_noRoute = False, pt_deaf = False\<rparr>"

record link =
  ln_id :: string
  ln_pub :: bytes
  ln_paths :: "pathState list"
  ln_cur :: int
  ln_switchedAt :: Time
  ln_heardAt :: Time

definition new_link :: "string \<Rightarrow> link" where
  "new_link i = \<lparr>ln_id = i, ln_pub = [], ln_paths = [], ln_cur = - 1, ln_switchedAt = 0, ln_heardAt = 0\<rparr>"

record peerState =
  pr_rec :: NodeRecord
  pr_hb :: Heartbeat
  pr_seenAt :: Time
  pr_hasHB :: bool
  pr_silent :: bool
  pr_probeAt :: Time
  pr_probeOK :: bool
  pr_probeRd :: u64
  pr_judge :: SyncJudge
  pr_ln :: link
  pr_hosts :: "string list"

definition zero_hb :: Heartbeat where
  "zero_hb = \<lparr>hb_NodeID = [], hb_Seq = 0, hb_LastRound = 0, hb_Online = False, hb_Caps = zero_caps, hb_Draining = False\<rparr>"

definition new_peer :: "SyncJudge \<Rightarrow> NodeRecord \<Rightarrow> peerState" where
  "new_peer j r = \<lparr>pr_rec = r, pr_hb = zero_hb, pr_seenAt = 0, pr_hasHB = False, pr_silent = False, pr_probeAt = 0,
     pr_probeOK = False, pr_probeRd = 0, pr_judge = j, pr_ln = new_link (rec_ID r), pr_hosts = []\<rparr>"

record extState =
  es_cfg :: ExternalUpstream
  es_checkedAt :: Time
  es_inflight :: bool
  es_ok :: bool
  es_round :: u64

definition externalDebounce :: Duration where "externalDebounce = Second"

record Directory =
  d_opts :: DirectoryOptions
  d_unmatched :: string
  d_network :: string
  d_peers :: "(string \<times> peerState) list"
  d_balancers :: "(string \<times> link) list"
  d_nonce :: u64
  d_hbRound :: u64
  d_externals :: "(string \<times> extState) list"
  d_localJudge :: SyncJudge
  d_localSeq :: u64
  d_hbSeq :: u64
  d_draining :: bool

definition excluded :: "Directory \<Rightarrow> string \<Rightarrow> bool" where
  "excluded d i = (i \<in> set (dop_Exclude (d_opts d)))"

definition new_external :: "ExternalUpstream \<Rightarrow> extState" where
  "new_external e = \<lparr>es_cfg = (if ex_HealthCheck e = 0 then e\<lparr>ex_HealthCheck := 60 * Second\<rparr> else e),
     es_checkedAt = 0, es_inflight = False, es_ok = False, es_round = 0\<rparr>"

definition NewDirectory :: "DirectoryOptions \<Rightarrow> Directory" where
  "NewDirectory o0 =
     (let o' = directory_defaults o0 in
      \<lparr>d_opts = o', d_unmatched = [], d_network = [], d_peers = [], d_balancers = [], d_nonce = 0, d_hbRound = 0,
       d_externals = fold (\<lambda>e. AList.update (ex_Name e) (new_external e)) (dop_Externals o') [],
       d_localJudge = options_judge o', d_localSeq = 0, d_hbSeq = 0, d_draining = False\<rparr>)"

section \<open>Links and paths\<close>

definition path_alive :: "pathState \<Rightarrow> bool" where
  "path_alive p = (\<not> pt_noRoute p \<and> \<not> pt_deaf p \<and> pt_fails p < PathFailures)"

definition link_stats :: "link \<Rightarrow> PathStat list" where
  "link_stats l = map (\<lambda>p. \<lparr>ps_Addr = pt_addr p, ps_RTT = pt_rtt p, ps_Alive = path_alive p, ps_Deaf = pt_deaf p\<rparr>) (ln_paths l)"

definition curPath :: "link \<Rightarrow> pathState option" where
  "curPath l = (if ln_cur l < 0 \<or> ln_cur l \<ge> int (length (ln_paths l)) then None else Some (ln_paths l ! nat (ln_cur l)))"

definition curAddr :: "link \<Rightarrow> string" where
  "curAddr l = (case curPath l of None \<Rightarrow> [] | Some p \<Rightarrow> pt_addr p)"

text \<open>The loop of syncLink, for one address of the record: the paths so far and the current index.\<close>

definition sync_addr ::
  "(string \<Rightarrow> string) \<Rightarrow> (string \<rightharpoonup> pathState) \<Rightarrow> string \<Rightarrow> string \<Rightarrow> pathState list \<times> int \<Rightarrow> pathState list \<times> int" where
  "sync_addr nrm old cur a0 st =
     (case st of (paths, idx) \<Rightarrow>
        let a = nrm a0 in
        if a \<in> set (map pt_addr paths) then (paths, idx)
        else (paths @ [case old a of Some p \<Rightarrow> p | None \<Rightarrow> new_path a], if a = cur then int (length paths) else idx))"

definition syncLink :: "(string \<Rightarrow> string) \<Rightarrow> link option \<Rightarrow> NodeRecord \<Rightarrow> link" where
  "syncLink nrm l0 r =
     (let l = (case l0 of None \<Rightarrow> new_link (rec_ID r) | Some l \<Rightarrow> l);
          old = map_of (rev (map (\<lambda>p. (pt_addr p, p)) (ln_paths l)));
          (paths, idx) = fold (sync_addr nrm old (curAddr l)) (GossipAddrs (rec_Agent r)) ([], - 1)
      in l\<lparr>ln_pub := ai_PubKey (rec_Agent r), ln_paths := paths, ln_cur := idx\<rparr>)"

text \<open>chooseLocked: whether the chosen path changed, and the link.\<close>

definition chooseLocked :: "DirectoryOptions \<Rightarrow> Time \<Rightarrow> link \<Rightarrow> bool \<times> link" where
  "chooseLocked o' now l =
     (if dop_NoLocal o' then (False, l)
      else let idx = fst (Choose \<lparr>pp_ProbeInterval = dop_PathProbeInterval o'\<rparr> now (link_stats l) (ln_cur l) (ln_switchedAt l)) in
        if idx = ln_cur l then (False, l) else (True, l\<lparr>ln_cur := idx, ln_switchedAt := now\<rparr>))"

definition heardMS :: "link \<Rightarrow> Time \<Rightarrow> int" where
  "heardMS l now = (if IsZero (ln_heardAt l) then - 1 else Milliseconds (time_Sub now (ln_heardAt l)))"

section \<open>The registry\<close>

text \<open>The peer of a record: its tier corrected, its link in step with the record.\<close>

definition sync_peer ::
  "(string \<Rightarrow> string) \<Rightarrow> (string list \<Rightarrow> string list) \<Rightarrow> Time \<Rightarrow> Directory \<Rightarrow> NodeRecord \<Rightarrow> bool \<times> peerState" where
  "sync_peer nrm hosts now d r0 =
     (let r = (case map_of (dop_PeerOverrides (d_opts d)) (rec_ID r0) of Some (Some t) \<Rightarrow> r0\<lparr>rec_Tier := t\<rparr> | _ \<Rightarrow> r0);
          p = (case map_of (d_peers d) (rec_ID r) of Some p \<Rightarrow> p | None \<Rightarrow> new_peer (options_judge (d_opts d)) r);
          (sw, l) = chooseLocked (d_opts d) now (syncLink nrm (Some (pr_ln p)) r)
      in (sw, p\<lparr>pr_rec := r, pr_hosts := hosts (rec_Endpoints r), pr_ln := l\<rparr>))"

text \<open>The loop of SetRecords, for one record: the directory, the new balancers, the peers seen, and
  whether a path changed.\<close>

definition set_record ::
  "(string \<Rightarrow> string) \<Rightarrow> (string list \<Rightarrow> string list) \<Rightarrow> string \<Rightarrow> Time \<Rightarrow> NodeRecord
   \<Rightarrow> Directory \<times> (string \<times> link) list \<times> string list \<times> bool \<Rightarrow> Directory \<times> (string \<times> link) list \<times> string list \<times> bool" where
  "set_record nrm hosts network now r st =
     (case st of (d, bals, seen, switched) \<Rightarrow>
        if rec_ID r = dop_LocalID (d_opts d) \<or> network \<noteq> [] \<and> rec_Network r \<noteq> network then st
        else if IsBalancer r then
          (case chooseLocked (d_opts d) now (syncLink nrm (map_of (d_balancers d) (rec_ID r)) r) of (sw, l) \<Rightarrow>
             (d\<lparr>d_balancers := (if map_of (d_balancers d) (rec_ID r) = None then d_balancers d
                               else AList.update (rec_ID r) l (d_balancers d))\<rparr>,
              AList.update (rec_ID r) l bals, seen, sw \<or> switched))
        else
          (case sync_peer nrm hosts now d r of (sw, p) \<Rightarrow>
             (d\<lparr>d_peers := AList.update (rec_ID r) p (d_peers d)\<rparr>, bals, rec_ID r # seen, sw \<or> switched)))"

text \<open>unmatchedExcludeLocked: the ids to warn about, None when they were warned about already.\<close>

definition unmatchedExclude :: "Directory \<Rightarrow> string list option \<times> Directory" where
  "unmatchedExclude d =
     (let out = filter (\<lambda>i. map_of (d_peers d) i = None \<and> map_of (d_externals d) i = None) (dop_Exclude (d_opts d));
          key = Join out '',''
      in if key = d_unmatched d then (None, d) else (if out = [] then None else Some out, d\<lparr>d_unmatched := key\<rparr>))"

text \<open>SetRecords: whether a path changed (a heartbeat is due), and the directory.\<close>

definition SetRecords ::
  "(string \<Rightarrow> string) \<Rightarrow> (string list \<Rightarrow> string list) \<Rightarrow> LocalState \<Rightarrow> Time \<Rightarrow> NodeRecord list \<Rightarrow> Directory \<Rightarrow> bool \<times> Directory" where
  "SetRecords nrm hosts local now recs d0 =
     (let network = caps_GenesisID (ls_Caps local) in
      case fold (set_record nrm hosts network now) recs (d0\<lparr>d_network := network\<rparr>, [], [], False) of
        (d, bals, seen, switched) \<Rightarrow>
          (switched, snd (unmatchedExclude
             (d\<lparr>d_peers := filter (\<lambda>(i, _). i \<in> set seen) (d_peers d), d_balancers := bals\<rparr>))))"

section \<open>Rounds\<close>

definition peerRound :: "DirectoryOptions \<Rightarrow> peerState \<Rightarrow> Time \<Rightarrow> u64 \<times> bool" where
  "peerRound o' p now =
     (if pr_hasHB p \<and> time_Sub now (pr_seenAt p) \<le> dop_SuspectAfter o' then (hb_LastRound (pr_hb p), hb_Online (pr_hb p))
      else if pr_probeOK p \<and> time_Sub now (pr_probeAt p) \<le> 2 * dop_ProbeInterval o' then (pr_probeRd p, True)
      else (0, False))"

definition bestRound :: "Directory \<Rightarrow> Time \<Rightarrow> LocalState \<Rightarrow> u64" where
  "bestRound d now local =
     (let b0 = (if ls_Online local then ls_LastRound local else 0);
          b1 = fold (\<lambda>(i, p) best.
                 if excluded d i then best
                 else (case peerRound (d_opts d) p now of (r, ok) \<Rightarrow> if ok \<and> r > best then r else best)) (d_peers d) b0
      in fold (\<lambda>(i, e) best. if excluded d i then best else if es_ok e \<and> es_round e > best then es_round e else best)
           (d_externals d) b1)"

definition noteRound :: "u64 \<Rightarrow> Directory \<Rightarrow> Directory" where
  "noteRound rd d = (if rd > d_hbRound d then d\<lparr>d_hbRound := rd\<rparr> else d)"

definition onLocalChange :: "LocalState \<Rightarrow> Time \<Rightarrow> Directory \<Rightarrow> Directory" where
  "onLocalChange st now d =
     (if ls_Seq st = d_localSeq d then d
      else let d1 = d\<lparr>d_localSeq := ls_Seq st\<rparr>;
               d2 = (if ls_Online st then noteRound (ls_LastRound st) d1 else d1)
           in d2\<lparr>d_localJudge := snd (Judge (d_localJudge d2) now (ls_Online st) (ls_LastRound st) (bestRound d2 now st))\<rparr>)"

text \<open>WaitForHeartbeatRound at one look: the round it returns with, or None to wait on.\<close>

definition heartbeat_round_past :: "Directory \<Rightarrow> u64 \<Rightarrow> u64 option" where
  "heartbeat_round_past d rd = (if d_hbRound d > rd then Some (d_hbRound d) else None)"

section \<open>Gossip: sending\<close>

text \<open>The heartbeat of the local node and the addresses it goes to; none from a balancer.\<close>

definition link_jobs :: "Directory \<Rightarrow> (string \<times> string) list" where
  "link_jobs d = List.map_filter (\<lambda>l. map_option (\<lambda>p. (ln_id l, pt_addr p)) (curPath l))
     (map (pr_ln \<circ> snd) (d_peers d) @ map snd (d_balancers d))"

definition sendHeartbeat :: "LocalState \<Rightarrow> Directory \<Rightarrow> (Heartbeat \<times> (string \<times> string) list) option \<times> Directory" where
  "sendHeartbeat st d =
     (if dop_NoLocal (d_opts d) then (None, d)
      else let d1 = d\<lparr>d_hbSeq := d_hbSeq d + 1\<rparr> in
        (Some (\<lparr>hb_NodeID = dop_LocalID (d_opts d), hb_Seq = d_hbSeq d1, hb_LastRound = ls_LastRound st, hb_Online = ls_Online st,
                hb_Caps = ls_Caps st, hb_Draining = d_draining d\<rparr>, link_jobs d1), d1))"

definition SetDraining :: "bool \<Rightarrow> LocalState \<Rightarrow> Directory \<Rightarrow> (Heartbeat \<times> (string \<times> string) list) option \<times> Directory" where
  "SetDraining v st d = sendHeartbeat st (d\<lparr>d_draining := v\<rparr>)"

text \<open>What sending one datagram proves.\<close>

datatype send_result = Sent | NoRoute | SendFailed

definition path_sent :: "send_result \<Rightarrow> pathState \<Rightarrow> pathState" where
  "path_sent res p = (case res of Sent \<Rightarrow> p\<lparr>pt_noRoute := False\<rparr> | NoRoute \<Rightarrow> p\<lparr>pt_noRoute := True\<rparr> | SendFailed \<Rightarrow> p)"

text \<open>Changes of every link, and of every path with the id of its link.\<close>

definition map_links :: "(link \<Rightarrow> link) \<Rightarrow> Directory \<Rightarrow> Directory" where
  "map_links f d = d\<lparr>d_peers := map (\<lambda>(i, p). (i, p\<lparr>pr_ln := f (pr_ln p)\<rparr>)) (d_peers d),
     d_balancers := map (\<lambda>(i, l). (i, f l)) (d_balancers d)\<rparr>"

definition map_paths :: "(string \<Rightarrow> pathState \<Rightarrow> pathState) \<Rightarrow> Directory \<Rightarrow> Directory" where
  "map_paths f = map_links (\<lambda>l. l\<lparr>ln_paths := map (f (ln_id l)) (ln_paths l)\<rparr>)"

text \<open>send: the results of the jobs, by link and address.\<close>

definition send_results :: "((string \<times> string) \<times> send_result) list \<Rightarrow> Directory \<Rightarrow> Directory" where
  "send_results rs = map_paths (\<lambda>i p. case map_of (rev rs) (i, pt_addr p) of Some res \<Rightarrow> path_sent res p | None \<Rightarrow> p)"

section \<open>Gossip: receiving\<close>

text \<open>time.Duration of a float64 truncates towards zero.\<close>

definition truncate :: "f64 \<Rightarrow> int" where
  "truncate x = (if x < 0 then \<lceil>x\<rceil> else \<lfloor>x\<rfloor>)"

definition path_ponged :: "Time \<Rightarrow> pathState \<Rightarrow> pathState" where
  "path_ponged now p =
     (let sample = time_Sub now (pt_pingedAt p);
          rtt = (if pt_rtt p = 0 then sample else truncate (4 / 5 * of_int (pt_rtt p) + 1 / 5 * of_int sample))
      in p\<lparr>pt_rtt := rtt, pt_nonce := 0, pt_pongedAt := now, pt_fails := 0, pt_deaf := False, pt_noRoute := False\<rparr>)"

definition pong_matches :: "u64 \<Rightarrow> pathState \<Rightarrow> bool" where
  "pong_matches n p = (pt_nonce p \<noteq> 0 \<and> pt_nonce p = n)"

text \<open>The deaf check: the peer reports not hearing us on the path that has long carried our heartbeats.\<close>

definition mark_deaf :: "DirectoryOptions \<Rightarrow> int \<Rightarrow> Time \<Rightarrow> link \<Rightarrow> link" where
  "mark_deaf o' heard now l =
     (let stale = dop_KeepAlive o' * 3 in
      case curPath l of None \<Rightarrow> l
      | Some cur \<Rightarrow>
        if heard \<ge> 0 \<and> wrap64 (heard * Millisecond) > stale \<and> time_Sub now (ln_switchedAt l) > stale \<and> \<not> pt_deaf cur
        then l\<lparr>ln_paths := (ln_paths l)[nat (ln_cur l) := cur\<lparr>pt_deaf := True\<rparr>]\<rparr> else l)"

text \<open>handleProbeLocked: the pong to send back, whether the chosen path changed, and the link.\<close>

definition handleProbe :: "DirectoryOptions \<Rightarrow> Probe \<Rightarrow> Time \<Rightarrow> link \<Rightarrow> Probe option \<times> bool \<times> link" where
  "handleProbe o' pr now l =
     (if pb_Type pr = ProbePong \<and> \<not> list_ex (pong_matches (pb_Nonce pr)) (ln_paths l) then (None, False, l)
      else
        let reply = (if pb_Type pr = ProbePing
              then Some \<lparr>pb_Type = ProbePong, pb_NodeID = dop_LocalID o', pb_Nonce = pb_Nonce pr, pb_HeardMS = heardMS l now\<rparr>
              else None);
            l1 = (if pb_Type pr = ProbePong
              then l\<lparr>ln_paths := map (\<lambda>p. if pong_matches (pb_Nonce pr) p then path_ponged now p else p) (ln_paths l)\<rparr>
              else l);
            (switched, l2) = chooseLocked o' now (mark_deaf o' (pb_HeardMS pr) now l1)
        in (reply, switched, l2))"

text \<open>A datagram that is authentic shows that its path delivers.\<close>

definition link_delivers :: "string \<Rightarrow> Time \<Rightarrow> link \<Rightarrow> link" where
  "link_delivers from now l =
     l\<lparr>ln_paths := map (\<lambda>p. if pt_addr p = from then p\<lparr>pt_lastSeen := now, pt_fails := 0\<rparr> else p) (ln_paths l)\<rparr>"

definition authentic :: "Envelope \<Rightarrow> link \<Rightarrow> bool" where
  "authentic env l = (length (ln_pub l) = PublicKeySize \<and> env_PubKey env = ln_pub l)"

definition set_peer :: "string \<Rightarrow> peerState \<Rightarrow> Directory \<Rightarrow> Directory" where
  "set_peer i p d = d\<lparr>d_peers := AList.update i p (d_peers d)\<rparr>"

text \<open>A heartbeat that is not stale is taken over.\<close>

definition stale_heartbeat :: "DirectoryOptions \<Rightarrow> Heartbeat \<Rightarrow> Time \<Rightarrow> peerState \<Rightarrow> bool" where
  "stale_heartbeat o' hb now p =
     (pr_hasHB p \<and> hb_Seq hb \<le> hb_Seq (pr_hb p) \<and> time_Sub now (pr_seenAt p) < dop_DownAfter o')"

definition accept_heartbeat :: "string \<Rightarrow> Heartbeat \<Rightarrow> LocalState \<Rightarrow> Time \<Rightarrow> peerState \<Rightarrow> Directory \<Rightarrow> Directory" where
  "accept_heartbeat i hb local now p d =
     (let p1 = p\<lparr>pr_hb := hb, pr_seenAt := now, pr_hasHB := True, pr_silent := False\<rparr>;
          d1 = set_peer i p1 d;
          d2 = (if hb_Online hb \<and> \<not> excluded d i then noteRound (hb_LastRound hb) d1 else d1)
      in set_peer i (p1\<lparr>pr_judge := snd (Judge (pr_judge p1) now (hb_Online hb) (hb_LastRound hb) (bestRound d2 now local))\<rparr>) d2)"

text \<open>
  handleLocked: what is to be done (a pong to send back, a heartbeat that is due, an unknown node to
  look up in the registry), and the directory. \<open>from\<close> is the normalised source address.
\<close>

record handled =
  hd_reply :: "Probe option"
  hd_switched :: bool
  hd_unknown :: bool

definition nothing_to_do :: handled where
  "nothing_to_do = \<lparr>hd_reply = None, hd_switched = False, hd_unknown = False\<rparr>"

definition handleLocked :: "string \<Rightarrow> Envelope \<Rightarrow> LocalState \<Rightarrow> Time \<Rightarrow> Directory \<Rightarrow> handled \<times> Directory" where
  "handleLocked from env local now d =
     (let i = env_NodeID env in
      case map_of (d_peers d) i of
        Some p \<Rightarrow>
          if \<not> authentic env (pr_ln p) then (nothing_to_do, d)
          else let l = link_delivers from now (pr_ln p) in
            (case env_Probe env of
               Some pr \<Rightarrow>
                 (case handleProbe (d_opts d) pr now l of (reply, switched, l') \<Rightarrow>
                    (\<lparr>hd_reply = reply, hd_switched = switched, hd_unknown = False\<rparr>, set_peer i (p\<lparr>pr_ln := l'\<rparr>) d))
             | None \<Rightarrow>
                 (case env_HB env of
                    None \<Rightarrow> (nothing_to_do, set_peer i (p\<lparr>pr_ln := l\<rparr>) d)
                  | Some hb \<Rightarrow>
                    let p1 = p\<lparr>pr_ln := l\<lparr>ln_heardAt := now\<rparr>\<rparr> in
                    if stale_heartbeat (d_opts d) hb now p then (nothing_to_do, set_peer i p1 d)
                    else (nothing_to_do, accept_heartbeat i hb local now p1 d)))
      | None \<Rightarrow>
          (case map_of (d_balancers d) i of
             None \<Rightarrow> (nothing_to_do\<lparr>hd_unknown := True\<rparr>, d)
           | Some l0 \<Rightarrow>
             if env_HB env \<noteq> None then (nothing_to_do, d)
             else if \<not> authentic env l0 then (nothing_to_do, d)
             else let l = link_delivers from now l0 in
               (case env_Probe env of
                  None \<Rightarrow> (nothing_to_do, d\<lparr>d_balancers := AList.update i l (d_balancers d)\<rparr>)
                | Some pr \<Rightarrow>
                  (case handleProbe (d_opts d) pr now l of (reply, switched, l') \<Rightarrow>
                     (\<lparr>hd_reply = reply, hd_switched = switched, hd_unknown = False\<rparr>,
                      d\<lparr>d_balancers := AList.update i l' (d_balancers d)\<rparr>)))))"

text \<open>handle: a datagram that does not decode is dropped; a pong is signed and sent back to where the ping came from.\<close>

definition handle ::
  "primitives \<Rightarrow> bytes \<Rightarrow> (string \<Rightarrow> string) \<Rightarrow> string \<Rightarrow> bytes \<Rightarrow> LocalState \<Rightarrow> Time \<Rightarrow> Directory
   \<Rightarrow> (handled \<times> (string \<times> bytes) option) \<times> Directory" where
  "handle P priv nrm src payload local now d =
     (case DecodeMessage P payload of
        Inl _ \<Rightarrow> ((nothing_to_do, None), d)
      | Inr env \<Rightarrow>
        (case handleLocked (nrm src) env local now d of (h, d') \<Rightarrow>
           ((h, case hd_reply h of None \<Rightarrow> None
                | Some pr \<Rightarrow> (case EncodeProbe P priv pr of Inl _ \<Rightarrow> None | Inr wire \<Rightarrow> Some (src, wire))), d')))"

section \<open>Maintenance\<close>

text \<open>probeSilentPeers, for one peer: the probe to make (the URL and token of its node), and the peer.\<close>

definition probe_silent :: "Directory \<Rightarrow> Time \<Rightarrow> string \<Rightarrow> peerState \<Rightarrow> (string \<times> string) option \<times> peerState" where
  "probe_silent d now i p =
     (let silent = (\<not> pr_hasHB p \<or> time_Sub now (pr_seenAt p) > dop_SuspectAfter (d_opts d));
          p1 = (if silent \<and> \<not> pr_silent p
                then p\<lparr>pr_silent := True,
                       pr_ln := (pr_ln p)\<lparr>ln_paths := map (\<lambda>q. if pt_nonce q = 0 then q\<lparr>pt_pingedAt := 0\<rparr> else q) (ln_paths (pr_ln p))\<rparr>\<rparr>
                else p)
      in if silent \<and> \<not> excluded d i \<and> time_Sub now (pr_probeAt p1) \<ge> dop_ProbeInterval (d_opts d) \<and> rec_Endpoints (pr_rec p1) \<noteq> []
         then (Some (EndpointFor (rec_Endpoints (pr_rec p1)) (pr_hosts p1) (curAddr (pr_ln p1)), rec_Token (pr_rec p1)),
               p1\<lparr>pr_probeAt := now\<rparr>)
         else (None, p1))"

definition probeSilentPeers :: "Time \<Rightarrow> Directory \<Rightarrow> (string \<times> string \<times> string) list \<times> Directory" where
  "probeSilentPeers now d =
     (List.map_filter (\<lambda>(i, p). map_option (\<lambda>j. (i, j)) (fst (probe_silent d now i p))) (d_peers d),
      d\<lparr>d_peers := map (\<lambda>(i, p). (i, snd (probe_silent d now i p))) (d_peers d)\<rparr>)"

text \<open>The end of one direct probe: the round of the node's status, or None.\<close>

definition probe_done :: "string \<Rightarrow> u64 option \<Rightarrow> Directory \<Rightarrow> Directory" where
  "probe_done i st d =
     (case map_of (d_peers d) i of None \<Rightarrow> d
      | Some p \<Rightarrow> set_peer i (case st of None \<Rightarrow> p\<lparr>pr_probeOK := False\<rparr>
                             | Some rd \<Rightarrow> p\<lparr>pr_probeOK := True, pr_probeRd := rd\<rparr>) d)"

text \<open>checkPaths, for one path: a ping unanswered for PathTimeout is lost, and a ping that is due goes out.\<close>

definition path_lost :: "DirectoryOptions \<Rightarrow> Time \<Rightarrow> pathState \<Rightarrow> pathState" where
  "path_lost o' now p =
     (if pt_nonce p \<noteq> 0 \<and> time_Sub now (pt_pingedAt p) \<ge> dop_PathTimeout o'
      then p\<lparr>pt_nonce := 0, pt_fails := pt_fails p + 1\<rparr> else p)"

definition ping_due :: "DirectoryOptions \<Rightarrow> Time \<Rightarrow> pathState \<Rightarrow> bool" where
  "ping_due o' now p =
     (let interval = (if \<not> pt_pongedAt p < pt_pingedAt p \<or> pt_fails p \<ge> PathFailures \<or> pt_noRoute p
                      then dop_PathProbeInterval o' else 2 * dop_PathTimeout o')
      in pt_nonce p = 0 \<and> (IsZero (pt_pingedAt p) \<or> time_Sub now (pt_pingedAt p) \<ge> interval))"

text \<open>The walk over the paths of a link: the pings to send (link, address, probe), and the last nonce issued.\<close>

fun ping_paths ::
  "DirectoryOptions \<Rightarrow> Time \<Rightarrow> string \<Rightarrow> int \<Rightarrow> u64 \<Rightarrow> pathState list \<Rightarrow> ((string \<times> string) \<times> Probe) list \<times> u64 \<times> pathState list" where
  "ping_paths o' now i heard n [] = ([], n, [])"
| "ping_paths o' now i heard n (p # ps) =
     (let p1 = path_lost o' now p in
      if ping_due o' now p1 then
        (case ping_paths o' now i heard (n + 1) ps of (pings, n', ps') \<Rightarrow>
           (((i, pt_addr p1), \<lparr>pb_Type = ProbePing, pb_NodeID = dop_LocalID o', pb_Nonce = n + 1, pb_HeardMS = heard\<rparr>) # pings,
            n', p1\<lparr>pt_nonce := n + 1, pt_pingedAt := now\<rparr> # ps'))
      else (case ping_paths o' now i heard n ps of (pings, n', ps') \<Rightarrow> (pings, n', p1 # ps')))"

fun ping_links ::
  "DirectoryOptions \<Rightarrow> Time \<Rightarrow> u64 \<Rightarrow> link list \<Rightarrow> ((string \<times> string) \<times> Probe) list \<times> u64 \<times> link list" where
  "ping_links o' now n [] = ([], n, [])"
| "ping_links o' now n (l # ls) =
     (case ping_paths o' now (ln_id l) (heardMS l now) n (ln_paths l) of (pings, n', ps) \<Rightarrow>
        (case ping_links o' now n' ls of (pings', n'', ls') \<Rightarrow> (pings @ pings', n'', l\<lparr>ln_paths := ps\<rparr> # ls')))"

text \<open>checkPaths up to the sending of the pings.\<close>

definition checkPaths :: "Time \<Rightarrow> Directory \<Rightarrow> ((string \<times> string) \<times> Probe) list \<times> Directory" where
  "checkPaths now d =
     (let m = length (d_peers d);
          (pings, n, ls) = ping_links (d_opts d) now (d_nonce d) (map (pr_ln \<circ> snd) (d_peers d) @ map snd (d_balancers d))
      in (pings, d\<lparr>d_nonce := n,
            d_peers := map2 (\<lambda>(i, p) l. (i, p\<lparr>pr_ln := l\<rparr>)) (d_peers d) (take m ls),
            d_balancers := map2 (\<lambda>(i, _) l. (i, l)) (d_balancers d) (drop m ls)\<rparr>))"

text \<open>checkPaths after the sending: a ping that never left is forgotten, and every link chooses anew.\<close>

definition forget_unsent :: "((string \<times> string) \<times> Probe) list \<Rightarrow> ((string \<times> string) \<times> send_result) list \<Rightarrow> Directory \<Rightarrow> Directory" where
  "forget_unsent pings rs = map_paths (\<lambda>i p.
     if map_of (rev rs) (i, pt_addr p) = Some NoRoute
        \<and> (\<exists>(key, pr) \<in> set pings. key = (i, pt_addr p) \<and> pb_Nonce pr = pt_nonce p)
     then p\<lparr>pt_nonce := 0\<rparr> else p)"

definition links_of :: "Directory \<Rightarrow> link list" where
  "links_of d = map (pr_ln \<circ> snd) (d_peers d) @ map snd (d_balancers d)"

definition checkPaths_sent ::
  "Time \<Rightarrow> ((string \<times> string) \<times> Probe) list \<Rightarrow> ((string \<times> string) \<times> send_result) list \<Rightarrow> Directory \<Rightarrow> bool \<times> Directory" where
  "checkPaths_sent now pings rs d0 =
     (let d = forget_unsent pings rs (send_results rs d0) in
      (list_ex (\<lambda>l. fst (chooseLocked (d_opts d) now l)) (links_of d), map_links (\<lambda>l. snd (chooseLocked (d_opts d) now l)) d))"

section \<open>Externals\<close>

definition ext_fresh :: "extState \<Rightarrow> Time \<Rightarrow> bool" where
  "ext_fresh e now = (es_ok e \<and> time_Sub now (es_checkedAt e) \<le> ex_HealthCheck (es_cfg e))"

definition ext_due :: "extState \<Rightarrow> Time \<Rightarrow> bool" where
  "ext_due e now =
     (IsZero (es_checkedAt e) \<or> time_Sub now (es_checkedAt e) \<ge> externalDebounce \<or> es_ok e \<and> \<not> ext_fresh e now)"

text \<open>checkExternals up to the wait: the externals a check is started for.\<close>

definition checkExternals :: "Time \<Rightarrow> Directory \<Rightarrow> string list \<times> Directory" where
  "checkExternals now d =
     (let start = (\<lambda>(n, e). \<not> excluded d n \<and> \<not> es_inflight e \<and> ext_due e now) in
      (map fst (filter start (d_externals d)),
       d\<lparr>d_externals := map (\<lambda>(n, e). (n, if start (n, e) then e\<lparr>es_inflight := True\<rparr> else e)) (d_externals d)\<rparr>))"

text \<open>externalsLocked: whether some external has a valid check, and whether a check is in flight.\<close>

definition externalsLocked :: "Time \<Rightarrow> Directory \<Rightarrow> bool \<times> bool" where
  "externalsLocked now d =
     (list_ex (\<lambda>(n, e). \<not> excluded d n \<and> ext_fresh e now) (d_externals d),
      list_ex (\<lambda>(n, e). \<not> excluded d n \<and> es_inflight e) (d_externals d))"

text \<open>The end of checkExternal: the round of the external's status, or None.\<close>

definition checkExternal :: "string \<Rightarrow> u64 option \<Rightarrow> Time \<Rightarrow> Directory \<Rightarrow> Directory" where
  "checkExternal n st now d =
     (case map_of (d_externals d) n of None \<Rightarrow> d
      | Some e \<Rightarrow>
        let e1 = e\<lparr>es_inflight := False, es_checkedAt := now, es_ok := (st \<noteq> None)\<rparr>;
            e2 = (case st of None \<Rightarrow> e1 | Some rd \<Rightarrow> e1\<lparr>es_round := rd\<rparr>)
        in d\<lparr>d_externals := AList.update n e2 (d_externals d)\<rparr>)"

section \<open>The snapshot\<close>

text \<open>The local upstream, with the judge of the local node.\<close>

definition snap_local :: "StatsBook \<Rightarrow> LocalState \<Rightarrow> Time \<Rightarrow> u64 \<Rightarrow> Directory \<Rightarrow> Upstream \<times> SyncJudge" where
  "snap_local b local now best d =
     (case Judge (d_localJudge d) now (ls_Online local) (ls_LastRound local) best of (h, j) \<Rightarrow>
        (\<lparr>u_ID = dop_LocalID (d_opts d), u_Kind = KindLocal, u_Tier = dop_LocalTier (d_opts d), u_BaseURL = ls_Endpoint local,
          u_Token = nc_Token (ls_Config local), u_Health = h, u_LastRound = ls_LastRound local, u_Caps = ls_Caps local,
          u_Draining = d_draining d, u_Excluded = False, u_Stats = Snapshot b now (dop_LocalID (d_opts d)), u_Source = ''local'',
          u_Score = 0\<rparr>, j))"

text \<open>A peer, by a fresh heartbeat, by a direct probe, or unknown.\<close>

definition snap_peer :: "StatsBook \<Rightarrow> Time \<Rightarrow> u64 \<Rightarrow> Directory \<Rightarrow> string \<Rightarrow> peerState \<Rightarrow> Upstream \<times> SyncJudge" where
  "snap_peer b now best d i p =
     (let u = \<lparr>u_ID = i, u_Kind = KindPeer, u_Tier = rec_Tier (pr_rec p),
               u_BaseURL = EndpointFor (rec_Endpoints (pr_rec p)) (pr_hosts p) (curAddr (pr_ln p)),
               u_Token = rec_Token (pr_rec p), u_Health = HealthOffline, u_LastRound = 0, u_Caps = zero_caps, u_Draining = False,
               u_Excluded = excluded d i, u_Stats = Snapshot b now i, u_Source = [], u_Score = 0\<rparr>
      in if pr_hasHB p \<and> time_Sub now (pr_seenAt p) \<le> dop_SuspectAfter (d_opts d) then
           (case Judge (pr_judge p) now (hb_Online (pr_hb p)) (hb_LastRound (pr_hb p)) best of (h, j) \<Rightarrow>
              (u\<lparr>u_Source := ''heartbeat'', u_LastRound := hb_LastRound (pr_hb p), u_Caps := hb_Caps (pr_hb p),
                 u_Draining := hb_Draining (pr_hb p), u_Health := h\<rparr>, j))
         else if pr_probeOK p \<and> time_Sub now (pr_probeAt p) \<le> 2 * dop_ProbeInterval (d_opts d) then
           (case Judge (pr_judge p) now True (pr_probeRd p) best of (h, j) \<Rightarrow>
              (u\<lparr>u_Source := ''probe'', u_LastRound := pr_probeRd p,
                 u_Caps := (if pr_hasHB p then hb_Caps (pr_hb p)
                   else Apply (rec_Declared (pr_rec p))
                     (zero_caps\<lparr>caps_OldestRound := OldestRoundFor \<lparr>ar_Kind = ArchivalNone, ar_N = 0\<rparr> (pr_probeRd p)\<rparr>) (pr_probeRd p)),
                 u_Health := h\<rparr>, j))
         else (u\<lparr>u_Source := ''none''\<rparr>, snd (Judge (pr_judge p) now False 0 best)))"

definition snap_external :: "StatsBook \<Rightarrow> Time \<Rightarrow> u64 \<Rightarrow> Directory \<Rightarrow> string \<Rightarrow> extState \<Rightarrow> Upstream" where
  "snap_external b now best d n e =
     (let none = \<lparr>ar_Kind = ArchivalNone, ar_N = 0\<rparr>;
          u = \<lparr>u_ID = n, u_Kind = KindExternal, u_Tier = ex_Tier (es_cfg e), u_BaseURL = ex_URL (es_cfg e),
               u_Token = ex_Token (es_cfg e), u_Health = HealthOffline, u_LastRound = es_round e,
               u_Caps = Apply (ex_Capabilities (es_cfg e))
                 (zero_caps\<lparr>caps_OldestRound := OldestRoundFor none (es_round e), caps_Archival := none\<rparr>) (es_round e),
               u_Draining = False, u_Excluded = excluded d n, u_Stats = Snapshot b now n, u_Source = ''none'', u_Score = 0\<rparr>
      in if ext_fresh e now
         then u\<lparr>u_Source := ''check'', u_Health := SyncHealth HealthOnline (es_round e) best (dop_SyncTolerance (d_opts d))\<rparr>
         else u)"

text \<open>The entries of a map by rising key (sort.Strings of the keys).\<close>

definition by_key :: "(string \<times> 'a) list \<Rightarrow> (string \<times> 'a) list" where
  "by_key xs = map (\<lambda>k. (k, the (map_of xs k))) (sort (remdups (map fst xs)))"

text \<open>Snapshot: the candidates, the best round, and the directory with its judges.\<close>

definition dir_Snapshot :: "StatsBook \<Rightarrow> LocalState \<Rightarrow> Time \<Rightarrow> Directory \<Rightarrow> (Upstream list \<times> u64) \<times> Directory" where
  "dir_Snapshot b local now d =
     (let best = bestRound d now local;
          (lu, d1) = (if dop_NoLocal (d_opts d) then ([], d)
                      else (case snap_local b local now best d of (u, j) \<Rightarrow> ([u], d\<lparr>d_localJudge := j\<rparr>)));
          us = map (\<lambda>(i, p). fst (snap_peer b now best d i p)) (by_key (d_peers d));
          d2 = d1\<lparr>d_peers := map (\<lambda>(i, p). (i, p\<lparr>pr_judge := snd (snap_peer b now best d i p)\<rparr>)) (d_peers d)\<rparr>;
          es = map (\<lambda>(n, e). snap_external b now best d n e) (by_key (d_externals d))
      in ((lu @ us @ es, best), d2))"

definition HeartbeatRound :: "Directory \<Rightarrow> u64" where
  "HeartbeatRound d = d_hbRound d"

text \<open>LinkSnapshot: every link with its paths, the peers before the balancers, each by rising id.\<close>

definition Microseconds :: "Duration \<Rightarrow> int" where
  "Microseconds d = sgn d * (\<bar>d\<bar> div 1000)"

record PathStatus =
  pst_Addr :: string
  pst_RTTMS :: f64
  pst_Alive :: bool
  pst_Deaf :: bool
  pst_NoRoute :: bool
  pst_Losses :: int
  pst_LastPongAge :: f64
  pst_LastSeenAge :: f64

record LinkStatus =
  lst_Peer :: string
  lst_Balancer :: bool
  lst_Path :: string
  lst_Paths :: "PathStatus list"

definition path_age :: "Time \<Rightarrow> Time \<Rightarrow> f64" where
  "path_age now t = (if IsZero t then - 1 else Seconds (time_Sub now t))"

definition path_status :: "Time \<Rightarrow> pathState \<Rightarrow> PathStatus" where
  "path_status now p = \<lparr>pst_Addr = pt_addr p, pst_RTTMS = of_int (Microseconds (pt_rtt p)) / 1000, pst_Alive = path_alive p,
     pst_Deaf = pt_deaf p, pst_NoRoute = pt_noRoute p, pst_Losses = pt_fails p, pst_LastPongAge = path_age now (pt_pongedAt p),
     pst_LastSeenAge = path_age now (pt_lastSeen p)\<rparr>"

definition link_status :: "Time \<Rightarrow> bool \<Rightarrow> link \<Rightarrow> LinkStatus" where
  "link_status now balancer l = \<lparr>lst_Peer = ln_id l, lst_Balancer = balancer, lst_Path = curAddr l,
     lst_Paths = map (path_status now) (ln_paths l)\<rparr>"

definition LinkSnapshot :: "Time \<Rightarrow> Directory \<Rightarrow> LinkStatus list" where
  "LinkSnapshot now d = map (\<lambda>(_, p). link_status now False (pr_ln p)) (by_key (d_peers d))
     @ map (\<lambda>(_, l). link_status now True l) (by_key (d_balancers d))"

definition Balancers :: "Directory \<Rightarrow> string list" where
  "Balancers d = sort (remdups (map fst (d_balancers d)))"

definition PeerCount :: "Directory \<Rightarrow> nat" where
  "PeerCount d = length (d_peers d)"

end
