(* ===== verification/DirectoryProps.thy ===== *)
theory DirectoryProps
  imports Directory
begin

text \<open>
  What the directory guarantees: the shape of its links and the uniqueness of the nonces of its
  outstanding pings along any run of its operations, whatever datagrams arrive; that gossip counts
  only when signed by the key of the registry; what taking over new records keeps; and that an
  upstream is offered as reachable only on evidence.
\<close>

section \<open>The invariant\<close>

text \<open>A link of a node: its addresses are distinct and its current path, if any, is one of them.\<close>

definition link_ok :: "string \<Rightarrow> link \<Rightarrow> bool" where
  "link_ok i l = (ln_id l = i \<and> distinct (map pt_addr (ln_paths l)) \<and> - 1 \<le> ln_cur l \<and> ln_cur l < int (length (ln_paths l)))"

definition dir_shape :: "Directory \<Rightarrow> bool" where
  "dir_shape d =
     (distinct (map fst (d_peers d)) \<and> distinct (map fst (d_balancers d))
      \<and> dop_LocalID (d_opts d) \<notin> set (map fst (d_peers d) @ map fst (d_balancers d))
      \<and> list_all (\<lambda>(i, p). link_ok i (pr_ln p) \<and> rec_ID (pr_rec p) = i \<and> \<not> IsBalancer (pr_rec p)) (d_peers d)
      \<and> list_all (\<lambda>(i, l). link_ok i l) (d_balancers d))"

text \<open>The nonces of the pings of all paths that wait for their pong.\<close>

definition path_nonces :: "link list \<Rightarrow> u64 list" where
  "path_nonces ls = concat (map (map pt_nonce \<circ> ln_paths) ls)"

definition outstanding :: "Directory \<Rightarrow> u64 list" where
  "outstanding d = filter (\<lambda>n. n \<noteq> 0) (path_nonces (links_of d))"

definition dir_ok :: "Directory \<Rightarrow> bool" where
  "dir_ok d = (dir_shape d \<and> distinct (outstanding d) \<and> (\<forall>n \<in> set (outstanding d). n \<le> d_nonce d))"

text \<open>
  The runs of a directory: any operation may follow any other, at any time and with any datagram,
  result of a sending or answer of a node. The nonces are assumed not to have run out (64 bits).
\<close>

inductive dir_step :: "Directory \<Rightarrow> Directory \<Rightarrow> bool" where
  step_records: "dir_step d (snd (SetRecords nrm hosts local now recs d))"
| step_local: "dir_step d (onLocalChange local now d)"
| step_draining: "dir_step d (snd (SetDraining v local d))"
| step_heartbeat: "dir_step d (snd (sendHeartbeat local d))"
| step_sent: "dir_step d (send_results rs d)"
| step_datagram: "dir_step d (snd (handleLocked from env local now d))"
| step_silent: "dir_step d (snd (probeSilentPeers now d))"
| step_probed: "dir_step d (probe_done i st d)"
| step_paths: "unat (d_nonce d) + length (path_nonces (links_of d)) < 2 ^ 64 \<Longrightarrow> dir_step d (snd (checkPaths now d))"
| step_paths_sent: "dir_step d (snd (checkPaths_sent now pings rs d))"
| step_externals: "dir_step d (snd (checkExternals now d))"
| step_external: "dir_step d (checkExternal n st now d)"
| step_snapshot: "dir_step d (snd (dir_Snapshot b local now d))"

inductive dir_run :: "DirectoryOptions \<Rightarrow> Directory \<Rightarrow> bool" for o0 where
  run_new: "dir_run o0 (NewDirectory o0)"
| run_step: "dir_run o0 d \<Longrightarrow> dir_step d d' \<Longrightarrow> dir_run o0 d'"

section \<open>What the proofs speak about\<close>

text \<open>Addresses stay, the current path stays within them, and no ping becomes outstanding.\<close>

definition path_kept :: "pathState \<Rightarrow> pathState \<Rightarrow> bool" where
  "path_kept q q' = (pt_addr q' = pt_addr q \<and> pt_nonce q' \<in> {0, pt_nonce q})"

definition link_kept :: "link \<Rightarrow> link \<Rightarrow> bool" where
  "link_kept l l' = (ln_id l' = ln_id l \<and> list_all2 path_kept (ln_paths l) (ln_paths l')
     \<and> (- 1 \<le> ln_cur l \<and> ln_cur l < int (length (ln_paths l)) \<longrightarrow> - 1 \<le> ln_cur l' \<and> ln_cur l' < int (length (ln_paths l'))))"

definition peer_kept :: "peerState \<Rightarrow> peerState \<Rightarrow> bool" where
  "peer_kept p p' = (pr_rec p' = pr_rec p \<and> link_kept (pr_ln p) (pr_ln p'))"

definition entries_kept :: "('a \<Rightarrow> 'a \<Rightarrow> bool) \<Rightarrow> (string \<times> 'a) list \<Rightarrow> (string \<times> 'a) list \<Rightarrow> bool" where
  "entries_kept P = list_all2 (\<lambda>(i, x) (j, y). j = i \<and> P x y)"

definition dir_kept :: "Directory \<Rightarrow> Directory \<Rightarrow> bool" where
  "dir_kept d d' = (d_opts d' = d_opts d \<and> d_nonce d' = d_nonce d
     \<and> entries_kept peer_kept (d_peers d) (d_peers d') \<and> entries_kept link_kept (d_balancers d) (d_balancers d'))"

text \<open>The nonces before and behind the paths that are walked stand for the other links.\<close>

definition nonces_ok :: "u64 \<Rightarrow> u64 list \<Rightarrow> bool" where
  "nonces_ok n ns = (distinct (filter (\<lambda>m. m \<noteq> 0) ns) \<and> (\<forall>m \<in> set ns. m \<le> n))"

text \<open>Whether a record is of this network and of another node, and the record with its tier corrected.\<close>

definition applies :: "Directory \<Rightarrow> string \<Rightarrow> NodeRecord \<Rightarrow> bool" where
  "applies d network r = (rec_ID r \<noteq> dop_LocalID (d_opts d) \<and> (network = [] \<or> rec_Network r = network))"

definition tiered :: "Directory \<Rightarrow> NodeRecord \<Rightarrow> NodeRecord" where
  "tiered d r = (case map_of (dop_PeerOverrides (d_opts d)) (rec_ID r) of Some (Some t) \<Rightarrow> r\<lparr>rec_Tier := t\<rparr> | _ \<Rightarrow> r)"

text \<open>What a peer keeps when the registry is read again: what gossip and probes told about it.\<close>

definition same_evidence :: "peerState \<Rightarrow> peerState \<Rightarrow> bool" where
  "same_evidence p p' = (pr_hb p' = pr_hb p \<and> pr_seenAt p' = pr_seenAt p \<and> pr_hasHB p' = pr_hasHB p \<and> pr_silent p' = pr_silent p
     \<and> pr_probeAt p' = pr_probeAt p \<and> pr_probeOK p' = pr_probeOK p \<and> pr_probeRd p' = pr_probeRd p \<and> pr_judge p' = pr_judge p
     \<and> ln_heardAt (pr_ln p') = ln_heardAt (pr_ln p))"

definition links_from :: "link \<Rightarrow> link \<Rightarrow> bool" where
  "links_from l l' = (ln_id l' = ln_id l \<and> distinct (map pt_addr (ln_paths l')) \<and> - 1 \<le> ln_cur l' \<and> ln_cur l' < int (length (ln_paths l'))
     \<and> (\<forall>q \<in> set (ln_paths l'). q \<in> set (ln_paths l) \<or> q = new_path (pt_addr q)))"

text \<open>The invariant of the loop of SetRecords: every entry stems from the old directory, if it was there.\<close>

definition peer_from :: "Directory \<Rightarrow> NodeRecord list \<Rightarrow> string \<Rightarrow> peerState \<Rightarrow> bool" where
  "peer_from d0 rs i p =
     (let p0 = (case map_of (d_peers d0) i of Some p \<Rightarrow> p | None \<Rightarrow> new_peer (options_judge (d_opts d0)) (pr_rec p)) in
      same_evidence p0 p \<and> links_from (pr_ln p0) (pr_ln p) \<and> (\<exists>r \<in> set rs. pr_rec p = tiered d0 r \<and> rec_ID r = i \<and> \<not> IsBalancer r)
      \<and> ln_pub (pr_ln p) = ai_PubKey (rec_Agent (pr_rec p)))"

definition bal_from :: "Directory \<Rightarrow> string \<Rightarrow> link \<Rightarrow> bool" where
  "bal_from d0 i l = links_from (case map_of (d_balancers d0) i of Some l \<Rightarrow> l | None \<Rightarrow> new_link i) l"

text \<open>The loop of SetRecords after the records rs, those that apply here.\<close>

definition frame_inv :: "Directory \<Rightarrow> Directory \<Rightarrow> bool" where
  "frame_inv d0 d = (d_opts d = d_opts d0 \<and> d_nonce d = d_nonce d0 \<and> d_externals d = d_externals d0 \<and> d_hbRound d = d_hbRound d0)"

definition peers_inv :: "Directory \<Rightarrow> NodeRecord list \<Rightarrow> (string \<times> peerState) list \<Rightarrow> string list \<Rightarrow> bool" where
  "peers_inv d0 rs ps seen =
     (distinct (map fst ps) \<and> set seen = rec_ID ` {r \<in> set rs. \<not> IsBalancer r} \<and> fst ` set ps = fst ` set (d_peers d0) \<union> set seen
      \<and> (\<forall>i p. map_of ps i = Some p \<longrightarrow> (if i \<in> set seen then peer_from d0 rs i p else map_of (d_peers d0) i = Some p)))"

definition bals_inv :: "Directory \<Rightarrow> NodeRecord list \<Rightarrow> (string \<times> link) list \<Rightarrow> (string \<times> link) list \<Rightarrow> bool" where
  "bals_inv d0 rs olds bals =
     (distinct (map fst bals) \<and> fst ` set bals = rec_ID ` {r \<in> set rs. IsBalancer r} \<and> (\<forall>i l. map_of bals i = Some l \<longrightarrow> bal_from d0 i l)
      \<and> (\<forall>i. (map_of olds i = None) = (map_of (d_balancers d0) i = None)) \<and> (\<forall>i l. map_of olds i = Some l \<longrightarrow> bal_from d0 i l))"

definition records_inv ::
  "Directory \<Rightarrow> NodeRecord list \<Rightarrow> Directory \<times> (string \<times> link) list \<times> string list \<times> bool \<Rightarrow> bool" where
  "records_inv d0 rs st =
     (case st of (d, bals, seen, _) \<Rightarrow> frame_inv d0 d \<and> peers_inv d0 rs (d_peers d) seen \<and> bals_inv d0 rs (d_balancers d) bals)"

text \<open>The outstanding pings with where they went.\<close>

definition pings_of :: "bool \<Rightarrow> (string \<times> link) list \<Rightarrow> ((bool \<times> string \<times> string) \<times> u64) list" where
  "pings_of b ls = concat (map (\<lambda>(i, l). map (\<lambda>q. ((b, i, pt_addr q), pt_nonce q)) (ln_paths l)) ls)"

definition open_pings :: "Directory \<Rightarrow> ((bool \<times> string \<times> string) \<times> u64) list" where
  "open_pings d = filter (\<lambda>x. snd x \<noteq> 0) (pings_of True (map (\<lambda>(i, p). (i, pr_ln p)) (d_peers d)) @ pings_of False (d_balancers d))"

definition sample_options :: DirectoryOptions where
  "sample_options = \<lparr>dop_LocalID = ''n0'', dop_LocalTier = 0, dop_NoLocal = False, dop_SuspectAfter = 0, dop_DownAfter = 0,
     dop_ProbeInterval = 0, dop_KeepAlive = 0, dop_PathProbeInterval = 0, dop_PathTimeout = 0, dop_SyncTolerance = 2,
     dop_LagGrace = 0, dop_ReturnHysteresis = 0, dop_PeerOverrides = [], dop_Externals = [], dop_Exclude = []\<rparr>"

definition sample_directory :: Directory where
  "sample_directory = snd (SetRecords id (\<lambda>es. es) sample_state 1000 [sample_record] (NewDirectory sample_options))"

section \<open>Changes that keep a link\<close>

lemma path_kept_refl [simp]: "path_kept q q"
  by (simp add: path_kept_def)

lemma path_kept_trans: "path_kept a b \<Longrightarrow> path_kept b c \<Longrightarrow> path_kept a c"
  by (auto simp: path_kept_def)

lemma link_kept_refl [simp]: "link_kept l l"
  by (simp add: link_kept_def list_all2_refl)

lemma link_kept_trans:
  assumes "link_kept a b" "link_kept b c"
  shows "link_kept a c"
proof -
  have "list_all2 path_kept (ln_paths a) (ln_paths b)" "list_all2 path_kept (ln_paths b) (ln_paths c)"
    using assms by (simp_all add: link_kept_def)
  from list_all2_trans [OF path_kept_trans this] have "list_all2 path_kept (ln_paths a) (ln_paths c)" .
  then show ?thesis using assms by (simp add: link_kept_def)
qed

lemma peer_kept_refl [simp]: "peer_kept p p"
  by (simp add: peer_kept_def)

lemma entries_kept_refl: "(\<And>x. P x x) \<Longrightarrow> entries_kept P xs xs"
  by (auto simp: entries_kept_def intro: list.rel_refl)

lemma entries_kept_refls [simp]: "entries_kept peer_kept xs xs" "entries_kept link_kept ys ys"
  by (simp_all add: entries_kept_refl)

lemma dir_kept_refl [simp]: "dir_kept d d"
  by (simp add: dir_kept_def)

lemma entries_kept_map: "(\<And>i x. (i, x) \<in> set xs \<Longrightarrow> P x (f i x)) \<Longrightarrow> entries_kept P xs (map (\<lambda>(i, x). (i, f i x)) xs)"
  by (auto simp: entries_kept_def list_all2_map2 intro!: list.rel_refl_strong)

lemma entries_kept_update:
  assumes "map_of xs i = Some x" and "P x y" and "\<And>z. P z z"
  shows "entries_kept P xs (AList.update i y xs)"
  using assms(1)
proof (induction xs)
  case (Cons e xs)
  then show ?case using assms(2,3) entries_kept_refl [of P xs, OF assms(3)]
    by (auto simp: entries_kept_def split: if_splits)
qed simp

lemma entries_kept_keys: "entries_kept P xs ys \<Longrightarrow> map fst ys = map fst xs"
  unfolding entries_kept_def by (induction rule: list_all2_induct) auto

lemma link_kept_map: "(\<And>q. path_kept q (f q)) \<Longrightarrow> link_kept l (l\<lparr>ln_paths := map f (ln_paths l)\<rparr>)"
  by (auto simp: link_kept_def list_all2_map2 intro!: list.rel_refl_strong)

lemma link_ok_kept: "link_ok i l \<Longrightarrow> link_kept l l' \<Longrightarrow> link_ok i l'"
proof -
  assume l: "link_ok i l" "link_kept l l'"
  have "map pt_addr (ln_paths l') = map pt_addr (ln_paths l)"
    using l(2) by (auto simp: link_kept_def path_kept_def list_all2_conv_all_nth intro: nth_equalityI)
  then show "link_ok i l'" using l by (auto simp: link_ok_def link_kept_def)
qed

text \<open>Dropping outstanding nonces keeps them distinct.\<close>

lemma nonces_dropped:
  assumes "list_all2 (\<lambda>m n. n \<in> {0, m}) ms (ns :: u64 list)"
  shows "set (filter (\<lambda>n. n \<noteq> 0) ns) \<subseteq> set (filter (\<lambda>n. n \<noteq> 0) ms)
    \<and> (distinct (filter (\<lambda>n. n \<noteq> 0) ms) \<longrightarrow> distinct (filter (\<lambda>n. n \<noteq> 0) ns))"
  using assms
proof (induction rule: list_all2_induct)
  case (Cons m ms n ns)
  then show ?case by auto
qed simp

lemma path_nonces_simps [simp]:
  "path_nonces [] = []" "path_nonces (l # ls) = map pt_nonce (ln_paths l) @ path_nonces ls"
  "path_nonces (ls @ ls') = path_nonces ls @ path_nonces ls'"
  by (simp_all add: path_nonces_def)

lemma path_nonces_kept: "list_all2 link_kept ls ls' \<Longrightarrow> list_all2 (\<lambda>m n. n \<in> {0, m}) (path_nonces ls) (path_nonces ls')"
proof (induction rule: list_all2_induct)
  case (Cons l ls l' ls')
  have "list_all2 (\<lambda>m n. n \<in> {0, m}) (map pt_nonce (ln_paths l)) (map pt_nonce (ln_paths l'))"
    using Cons(1) by (auto simp: link_kept_def list_all2_map1 list_all2_map2 path_kept_def elim!: list_all2_mono)
  then show ?case using Cons(3) by (simp add: list_all2_appendI)
qed simp

lemma links_kept: "dir_kept d d' \<Longrightarrow> list_all2 link_kept (links_of d) (links_of d')"
  unfolding dir_kept_def links_of_def entries_kept_def
  by (intro list_all2_appendI) (auto simp: list_all2_map1 list_all2_map2 peer_kept_def elim!: list_all2_mono)

lemma entries_all:
  "entries_kept P xs ys \<Longrightarrow> list_all (\<lambda>(i, x). Q i x) xs \<Longrightarrow> (\<And>i x y. P x y \<Longrightarrow> Q i x \<Longrightarrow> Q i y) \<Longrightarrow> list_all (\<lambda>(i, x). Q i x) ys"
  unfolding entries_kept_def by (induction rule: list_all2_induct) auto

lemma dir_ok_kept:
  assumes "dir_ok d" and "dir_kept d d'"
  shows "dir_ok d'"
proof -
  have k: "d_opts d' = d_opts d" "map fst (d_peers d') = map fst (d_peers d)" "map fst (d_balancers d') = map fst (d_balancers d)"
    and e: "entries_kept peer_kept (d_peers d) (d_peers d')" "entries_kept link_kept (d_balancers d) (d_balancers d')"
    using assms(2) by (auto simp: dir_kept_def dest: entries_kept_keys)
  have s: "dir_shape d" using assms(1) by (simp add: dir_ok_def)
  have "list_all (\<lambda>(i, p). link_ok i (pr_ln p) \<and> rec_ID (pr_rec p) = i \<and> \<not> IsBalancer (pr_rec p)) (d_peers d')"
    using s by (intro entries_all [OF e(1)]) (auto simp: dir_shape_def peer_kept_def intro: link_ok_kept)
  moreover have "list_all (\<lambda>(i, l). link_ok i l) (d_balancers d')"
    using s by (intro entries_all [OF e(2)]) (auto simp: dir_shape_def intro: link_ok_kept)
  ultimately have "dir_shape d'" using s by (simp add: dir_shape_def k del: set_map)
  then show ?thesis
    using assms nonces_dropped [OF path_nonces_kept [OF links_kept [OF assms(2)]]]
    by (auto simp: dir_ok_def outstanding_def dir_kept_def)
qed

section \<open>The operations that keep the links\<close>

lemma Choose_range:
  assumes "fst (Choose pol now stats cur since) = k" "- 1 \<le> cur" "cur < int (length stats)"
  shows "- 1 \<le> k \<and> k < int (length stats)"
proof -
  have "- 1 \<le> index_of (best_path stats) \<and> index_of (best_path stats) < int (length stats)"
    using best_path_Some(1) [of stats] by (auto simp: index_of_def split: option.splits)
  then show ?thesis using assms by (auto simp: Choose_def Let_def split: if_splits)
qed

lemma chooseLocked_kept [simp]: "link_kept l (snd (chooseLocked o' now l))"
proof -
  have "length (link_stats l) = length (ln_paths l)" by (simp add: link_stats_def)
  then show ?thesis
    using Choose_range [OF refl, of "ln_cur l" "link_stats l" "\<lparr>pp_ProbeInterval = dop_PathProbeInterval o'\<rparr>" now "ln_switchedAt l"]
    by (auto simp: chooseLocked_def link_kept_def Let_def list_all2_refl)
qed

lemma mark_deaf_kept [simp]: "link_kept l (mark_deaf o' heard now l)"
proof (cases "mark_deaf o' heard now l = l")
  case False
  then obtain q where q: "curPath l = Some q"
    "mark_deaf o' heard now l = l\<lparr>ln_paths := (ln_paths l)[nat (ln_cur l) := q\<lparr>pt_deaf := True\<rparr>]\<rparr>"
    by (auto simp: mark_deaf_def Let_def split: option.splits if_splits)
  have "ln_paths l = (ln_paths l)[nat (ln_cur l) := q]" using q(1) by (auto simp: curPath_def split: if_splits)
  then have "list_all2 path_kept (ln_paths l) ((ln_paths l)[nat (ln_cur l) := q\<lparr>pt_deaf := True\<rparr>])"
    by (subst \<open>ln_paths l = _\<close>) (intro list_all2_update_cong, auto simp: path_kept_def list_all2_refl)
  then show ?thesis using q(2) by (simp add: link_kept_def)
qed simp

lemma handleProbe_kept:
  assumes "handleProbe o' pr now l = (reply, sw, l')"
  shows "link_kept l l'"
proof -
  let ?l1 = "if pb_Type pr = ProbePong
    then l\<lparr>ln_paths := map (\<lambda>p. if pong_matches (pb_Nonce pr) p then path_ponged now p else p) (ln_paths l)\<rparr> else l"
  have "link_kept l ?l1" by (auto intro!: link_kept_map simp: path_kept_def path_ponged_def Let_def)
  moreover have "l' = l \<or> l' = snd (chooseLocked o' now (mark_deaf o' (pb_HeardMS pr) now ?l1))"
    using assms by (auto simp: handleProbe_def Let_def split: if_splits prod.splits)
  moreover have "link_kept ?l1 (snd (chooseLocked o' now (mark_deaf o' (pb_HeardMS pr) now ?l1)))"
    by (rule link_kept_trans [OF mark_deaf_kept chooseLocked_kept])
  ultimately show ?thesis using link_kept_trans [of l ?l1 l'] by auto
qed

lemma link_delivers_kept [simp]: "link_kept l (link_delivers from now l)"
  by (auto intro!: link_kept_map simp: link_delivers_def path_kept_def)

lemma dir_kept_peer: "map_of (d_peers d) i = Some p \<Longrightarrow> peer_kept p p' \<Longrightarrow> dir_kept d (set_peer i p' d)"
  by (simp add: dir_kept_def set_peer_def entries_kept_update)

lemma dir_kept_balancer:
  "map_of (d_balancers d) i = Some l \<Longrightarrow> link_kept l l' \<Longrightarrow> dir_kept d (d\<lparr>d_balancers := AList.update i l' (d_balancers d)\<rparr>)"
  by (simp add: dir_kept_def entries_kept_update)

lemma noteRound_fields [simp]:
  "d_peers (noteRound r d) = d_peers d" "d_balancers (noteRound r d) = d_balancers d" "d_opts (noteRound r d) = d_opts d"
  "d_nonce (noteRound r d) = d_nonce d" "d_externals (noteRound r d) = d_externals d"
  by (simp_all add: noteRound_def)

text \<open>Setting a peer twice is setting it once, which brings taking over a heartbeat to one change of the peer.\<close>

lemma accept_heartbeat_eq:
  "\<exists>j. accept_heartbeat i hb local now p d =
     (if hb_Online hb \<and> \<not> excluded d i then noteRound (hb_LastRound hb) else id)
       (set_peer i (p\<lparr>pr_hb := hb, pr_seenAt := now, pr_hasHB := True, pr_silent := False, pr_judge := j\<rparr>) d)"
proof -
  define p1 where "p1 = p\<lparr>pr_hb := hb, pr_seenAt := now, pr_hasHB := True, pr_silent := False\<rparr>"
  define d2 where "d2 = (if hb_Online hb \<and> \<not> excluded d i then noteRound (hb_LastRound hb) (set_peer i p1 d) else set_peer i p1 d)"
  define j where "j = snd (Judge (pr_judge p1) now (hb_Online hb) (hb_LastRound hb) (bestRound d2 now local))"
  have "accept_heartbeat i hb local now p d = set_peer i (p1\<lparr>pr_judge := j\<rparr>) d2"
    by (simp add: accept_heartbeat_def Let_def j_def d2_def p1_def)
  then show ?thesis by (intro exI [of _ j]) (simp add: d2_def p1_def set_peer_def noteRound_def)
qed

lemma handleLocked_kept: "dir_kept d (snd (handleLocked from env local now d))"
proof (cases "map_of (d_peers d) (env_NodeID env)")
  case (Some p)
  have keep: "dir_kept d (set_peer (env_NodeID env) p' d)" if "pr_rec p' = pr_rec p" "link_kept (pr_ln p) (pr_ln p')" for p'
    using dir_kept_peer [OF Some] that by (simp add: peer_kept_def)
  have hp: "link_kept (pr_ln p) l'" if "handleProbe o' pr now (link_delivers from now (pr_ln p)) = (a, b, l')" for o' pr a b l'
    using link_kept_trans [OF link_delivers_kept handleProbe_kept [OF that]] .
  have hb: "link_kept (pr_ln p) ((link_delivers from now (pr_ln p))\<lparr>ln_heardAt := now\<rparr>)"
    using link_delivers_kept [of "pr_ln p" "from" now] by (simp add: link_kept_def)
  have acc: "dir_kept d (accept_heartbeat (env_NodeID env) h local now (p\<lparr>pr_ln := (link_delivers from now (pr_ln p))\<lparr>ln_heardAt := now\<rparr>\<rparr>) d)" for h
    using accept_heartbeat_eq [of "env_NodeID env" h local now "p\<lparr>pr_ln := (link_delivers from now (pr_ln p))\<lparr>ln_heardAt := now\<rparr>\<rparr>" d]
      keep hb by (auto simp: dir_kept_def)
  show ?thesis using Some keep hp hb acc
    by (auto simp: handleLocked_def Let_def split: option.splits prod.splits)
next
  case None
  show ?thesis
  proof (cases "map_of (d_balancers d) (env_NodeID env)")
    case (Some l)
    note keep = dir_kept_balancer [OF Some]
    have hp: "link_kept l l'" if "handleProbe o' pr now (link_delivers from now l) = (a, b, l')" for o' pr a b l'
      using link_kept_trans [OF link_delivers_kept handleProbe_kept [OF that]] .
    show ?thesis using None Some keep hp
      by (auto simp: handleLocked_def Let_def split: option.splits prod.splits)
  qed (use None in \<open>simp add: handleLocked_def Let_def\<close>)
qed

lemma map_links_kept: "(\<And>l. link_kept l (f l)) \<Longrightarrow> dir_kept d (map_links f d)"
  by (simp add: dir_kept_def map_links_def entries_kept_map peer_kept_def)

lemma map_paths_kept: "(\<And>i q. path_kept q (f i q)) \<Longrightarrow> dir_kept d (map_paths f d)"
  unfolding map_paths_def by (intro map_links_kept link_kept_map)

lemma entries_kept_trans:
  assumes "entries_kept P xs ys" "entries_kept P ys zs" and "\<And>x y z. P x y \<Longrightarrow> P y z \<Longrightarrow> P x z"
  shows "entries_kept P xs zs"
  unfolding entries_kept_def
  by (rule list_all2_trans [OF _ assms(1,2) [unfolded entries_kept_def]]) (auto intro: assms(3))

lemma peer_kept_trans: "peer_kept p q \<Longrightarrow> peer_kept q r \<Longrightarrow> peer_kept p r"
  unfolding peer_kept_def using link_kept_trans by auto

lemma dir_kept_trans:
  assumes "dir_kept a b" "dir_kept b c"
  shows "dir_kept a c"
proof -
  have ab: "d_opts b = d_opts a" "d_nonce b = d_nonce a" "entries_kept peer_kept (d_peers a) (d_peers b)"
    "entries_kept link_kept (d_balancers a) (d_balancers b)" using assms(1) by (simp_all add: dir_kept_def)
  have bc: "d_opts c = d_opts b" "d_nonce c = d_nonce b" "entries_kept peer_kept (d_peers b) (d_peers c)"
    "entries_kept link_kept (d_balancers b) (d_balancers c)" using assms(2) by (simp_all add: dir_kept_def)
  have "entries_kept peer_kept (d_peers a) (d_peers c)"
    by (rule entries_kept_trans [OF ab(3) bc(3)]) (rule peer_kept_trans)
  moreover have "entries_kept link_kept (d_balancers a) (d_balancers c)"
    by (rule entries_kept_trans [OF ab(4) bc(4)]) (rule link_kept_trans)
  ultimately show ?thesis using ab bc by (simp add: dir_kept_def)
qed

lemma other_steps_kept [simp]:
  "dir_kept d (onLocalChange local now d)" "dir_kept d (snd (SetDraining v local d))" "dir_kept d (snd (sendHeartbeat local d))"
  "dir_kept d (send_results rs d)" "dir_kept d (snd (probeSilentPeers now d))" "dir_kept d (probe_done i st d)"
  "dir_kept d (snd (checkExternals now d))" "dir_kept d (checkExternal n st' now d)" "dir_kept d (snd (dir_Snapshot b local now d))"
proof -
  show "dir_kept d (send_results rs d)" unfolding send_results_def
    by (rule map_paths_kept) (auto simp: path_kept_def path_sent_def split: option.splits send_result.splits)
  show "dir_kept d (probe_done i st d)"
    by (auto simp: probe_done_def peer_kept_def split: option.splits intro: dir_kept_peer)
  have "peer_kept p (snd (probe_silent d now i p))" for i p
    using link_kept_map [of "\<lambda>q. if pt_nonce q = 0 then q\<lparr>pt_pingedAt := 0\<rparr> else q" "pr_ln p"]
    by (simp add: probe_silent_def Let_def peer_kept_def path_kept_def)
  then show "dir_kept d (snd (probeSilentPeers now d))"
    by (simp add: dir_kept_def probeSilentPeers_def entries_kept_map)
  show "dir_kept d (snd (dir_Snapshot b local now d))"
    by (auto simp: dir_kept_def dir_Snapshot_def Let_def peer_kept_def entries_kept_map split: prod.splits)
qed (simp_all add: dir_kept_def onLocalChange_def Let_def SetDraining_def sendHeartbeat_def checkExternals_def checkExternal_def
  split: option.splits)

lemma checkPaths_sent_kept: "dir_kept d (snd (checkPaths_sent now pings rs d))"
proof -
  let ?d = "forget_unsent pings rs (send_results rs d)"
  have "dir_kept (send_results rs d) ?d" unfolding forget_unsent_def by (rule map_paths_kept) (simp add: path_kept_def)
  moreover have "dir_kept ?d (snd (checkPaths_sent now pings rs d))"
    unfolding checkPaths_sent_def Let_def by (simp add: map_links_kept)
  ultimately show ?thesis using dir_kept_trans other_steps_kept(4) by blast
qed

section \<open>Pinging\<close>

lemma nonces_ok_zero: "nonces_ok n (as @ m # bs) \<Longrightarrow> nonces_ok n (as @ 0 # bs)"
  by (auto simp: nonces_ok_def split: if_splits)

lemma nonces_ok_next:
  assumes "nonces_ok n (as @ m # bs)" "unat n + 1 < 2 ^ 64"
  shows "nonces_ok (n + 1) (as @ (n + 1) # bs)"
proof -
  have lt: "n < n + 1" using assms(2) by (simp add: word_less_nat_alt unat_word_ariths)
  have "\<forall>x \<in> set as \<union> set bs. x \<le> n" using assms(1) by (simp add: nonces_ok_def)
  then have "\<forall>x \<in> set as \<union> set bs. x < n + 1" using le_less_trans [OF _ lt] by blast
  then show ?thesis using assms(1) lt by (auto simp: nonces_ok_def split: if_splits intro: less_imp_le)
qed

lemma ping_paths_ok:
  assumes "ping_paths o' now i heard n ps = (pings, n', ps')"
    and "nonces_ok n (as @ map pt_nonce ps @ bs)" and "unat n + length ps < 2 ^ 64"
  shows "nonces_ok n' (as @ map pt_nonce ps' @ bs) \<and> unat n' \<le> unat n + length ps \<and> map pt_addr ps' = map pt_addr ps"
  using assms
proof (induction ps arbitrary: n pings n' ps' as)
  case (Cons p ps)
  define p1 where "p1 = path_lost o' now p"
  have p1: "pt_addr p1 = pt_addr p" "pt_nonce p1 = 0 \<or> pt_nonce p1 = pt_nonce p" by (auto simp: p1_def path_lost_def)
  have ok: "nonces_ok n (as @ pt_nonce p1 # map pt_nonce ps @ bs)"
    using Cons.prems(2) p1(2) nonces_ok_zero by fastforce
  show ?case
  proof (cases "ping_due o' now p1")
    case True
    obtain pg n1 qs where r: "ping_paths o' now i heard (n + 1) ps = (pg, n1, qs)" using prod_cases3 by blast
    have u: "unat (n + 1) = unat n + 1" using Cons.prems(3) by (simp add: unat_word_ariths)
    have "nonces_ok (n + 1) ((as @ [n + 1]) @ map pt_nonce ps @ bs)"
      using nonces_ok_next [OF ok] Cons.prems(3) by simp
    from Cons.IH [OF r this] have "nonces_ok n1 ((as @ [n + 1]) @ map pt_nonce qs @ bs)"
      "unat n1 \<le> unat n + length (p # ps)" "map pt_addr qs = map pt_addr ps" using u Cons.prems(3) by auto
    then show ?thesis using Cons.prems(1) True r p1 by (auto simp: p1_def [symmetric] Let_def)
  next
    case False
    obtain pg n1 qs where r: "ping_paths o' now i heard n ps = (pg, n1, qs)" using prod_cases3 by blast
    have "nonces_ok n ((as @ [pt_nonce p1]) @ map pt_nonce ps @ bs)" using ok by simp
    from Cons.IH [OF r this] have "nonces_ok n1 ((as @ [pt_nonce p1]) @ map pt_nonce qs @ bs)"
      "unat n1 \<le> unat n + length (p # ps)" "map pt_addr qs = map pt_addr ps" using Cons.prems(3) by auto
    then show ?thesis using Cons.prems(1) False r p1 by (auto simp: p1_def [symmetric] Let_def)
  qed
qed simp

lemma ping_links_ok:
  assumes "ping_links o' now n ls = (pings, n', ls')"
    and "nonces_ok n (as @ path_nonces ls)" and "unat n + length (path_nonces ls) < 2 ^ 64"
  shows "nonces_ok n' (as @ path_nonces ls')
    \<and> list_all2 (\<lambda>l l'. ln_id l' = ln_id l \<and> ln_cur l' = ln_cur l \<and> map pt_addr (ln_paths l') = map pt_addr (ln_paths l)) ls ls'"
  using assms
proof (induction ls arbitrary: n pings n' ls' as)
  case (Cons l ls)
  obtain pg n1 ps where r: "ping_paths o' now (ln_id l) (heardMS l now) n (ln_paths l) = (pg, n1, ps)" using prod_cases3 by blast
  obtain pg2 n2 ls2 where r2: "ping_links o' now n1 ls = (pg2, n2, ls2)" using prod_cases3 by blast
  have p: "nonces_ok n1 (as @ map pt_nonce ps @ path_nonces ls)" "unat n1 \<le> unat n + length (ln_paths l)"
    "map pt_addr ps = map pt_addr (ln_paths l)"
    using ping_paths_ok [OF r, of as "path_nonces ls"] Cons.prems(2,3) by auto
  from Cons.IH [OF r2, of "as @ map pt_nonce ps"] p Cons.prems(1,3) r r2 show ?case by auto
qed simp

lemma outstanding_nonces_ok: "dir_ok d \<longleftrightarrow> dir_shape d \<and> nonces_ok (d_nonce d) (path_nonces (links_of d))"
  by (auto simp: dir_ok_def nonces_ok_def outstanding_def)

text \<open>Replacing the links of all entries, in order.\<close>

lemma map2_keys:
  "length ls = length xs \<Longrightarrow> map fst (map2 (\<lambda>(i, x) l. (i, h x l)) xs ls) = map fst xs"
  by (induction xs ls rule: list_induct2') auto

lemma map2_all:
  assumes "list_all2 R (map g xs) ls" and "list_all (\<lambda>(i, x). Q i x) xs" and "\<And>i x l. R (g (i, x)) l \<Longrightarrow> Q i x \<Longrightarrow> Q i (h x l)"
  shows "list_all (\<lambda>(i, x). Q i x) (map2 (\<lambda>(i, x) l. (i, h x l)) xs ls)"
  using assms(1,2)
proof (induction xs arbitrary: ls)
  case (Cons e xs)
  then show ?case using assms(3) by (cases e) (auto simp: list_all2_Cons1)
qed simp

lemma checkPaths_ok:
  assumes "dir_ok d" "unat (d_nonce d) + length (path_nonces (links_of d)) < 2 ^ 64"
  shows "dir_ok (snd (checkPaths now d))"
proof -
  define m where "m = length (d_peers d)"
  obtain pings n ls where r: "ping_links (d_opts d) now (d_nonce d) (links_of d) = (pings, n, ls)" using prod_cases3 by blast
  define d' where "d' = d\<lparr>d_nonce := n, d_peers := map2 (\<lambda>(i, p) l. (i, p\<lparr>pr_ln := l\<rparr>)) (d_peers d) (take m ls),
            d_balancers := map2 (\<lambda>(i, _) l. (i, l)) (d_balancers d) (drop m ls)\<rparr>"
  have d': "snd (checkPaths now d) = d'" using r by (simp add: checkPaths_def d'_def m_def Let_def links_of_def)
  let ?R = "\<lambda>l l'. ln_id l' = ln_id l \<and> ln_cur l' = ln_cur l \<and> map pt_addr (ln_paths l') = map pt_addr (ln_paths l)"
  have ok: "nonces_ok n (path_nonces ls)" and R: "list_all2 ?R (links_of d) ls"
    using ping_links_ok [OF r, of "[]"] assms by (auto simp: outstanding_nonces_ok)
  have len: "length ls = m + length (d_balancers d)" using list_all2_lengthD [OF R] by (simp add: links_of_def m_def)
  have Rp: "list_all2 ?R (map (pr_ln \<circ> snd) (d_peers d)) (take m ls)"
    using list_all2_takeI [OF R, of m] by (simp add: links_of_def m_def)
  have Rb: "list_all2 ?R (map snd (d_balancers d)) (drop m ls)"
    using list_all2_dropI [OF R, of m] by (simp add: links_of_def m_def)
  have ok_link: "link_ok i l \<Longrightarrow> ?R l l' \<Longrightarrow> link_ok i l'" for i l l'
    using map_eq_imp_length_eq [of pt_addr "ln_paths l'" pt_addr "ln_paths l"] by (auto simp: link_ok_def)
  have "map (pr_ln \<circ> snd) (d_peers d') = take m ls" "map snd (d_balancers d') = drop m ls"
    using len by (auto simp: d'_def m_def intro!: nth_equalityI split: prod.splits)
  then have links: "links_of d' = ls" by (simp add: links_of_def)
  have keys: "map fst (d_peers d') = map fst (d_peers d)" "map fst (d_balancers d') = map fst (d_balancers d)"
    unfolding d'_def using len by (simp_all add: map2_keys m_def del: map_map)
  have shape: "dir_shape d" using assms(1) by (simp add: dir_ok_def)
  have "list_all (\<lambda>(i, p). link_ok i (pr_ln p) \<and> rec_ID (pr_rec p) = i \<and> \<not> IsBalancer (pr_rec p)) (d_peers d')"
    using shape unfolding d'_def by (simp, intro map2_all [OF Rp]) (auto simp: dir_shape_def intro: ok_link)
  moreover have "list_all (\<lambda>(i, l). link_ok i l) (d_balancers d')"
    using shape unfolding d'_def by (simp, intro map2_all [OF Rb]) (auto simp: dir_shape_def intro: ok_link)
  moreover have "d_opts d' = d_opts d" by (simp add: d'_def)
  ultimately have "dir_shape d'" using shape by (simp add: dir_shape_def keys del: set_map)
  then show ?thesis using ok by (simp add: outstanding_nonces_ok links d') (simp add: d'_def)
qed

section \<open>Taking over records\<close>

text \<open>The loop of syncLink over a prefix of the addresses.\<close>

lemma sync_addrs:
  fixes old :: "string \<rightharpoonup> pathState"
  assumes "fold (sync_addr nrm old cur) as ([], - 1) = (paths, idx)" and "\<And>a q. old a = Some q \<Longrightarrow> pt_addr q = a"
  shows "distinct (map pt_addr paths) \<and> pt_addr ` set paths = nrm ` set as
    \<and> (\<forall>q \<in> set paths. q = (case old (pt_addr q) of Some q' \<Rightarrow> q' | None \<Rightarrow> new_path (pt_addr q)))
    \<and> (if cur \<in> nrm ` set as then 0 \<le> idx \<and> idx < int (length paths) \<and> pt_addr (paths ! nat idx) = cur else idx = - 1)"
  using assms(1)
proof (induction as arbitrary: paths idx rule: rev_induct)
  case (snoc a as)
  obtain paths0 idx0 where r: "fold (sync_addr nrm old cur) as ([], - 1) = (paths0, idx0)" using prod.exhaust by blast
  note ih = snoc.IH [OF r]
  have step: "sync_addr nrm old cur a (paths0, idx0) = (paths, idx)" using snoc.prems r by simp
  show ?case
  proof (cases "nrm a \<in> pt_addr ` set paths0")
    case True
    then have "(paths, idx) = (paths0, idx0)" using step by (simp add: sync_addr_def Let_def)
    moreover have "nrm ` set (as @ [a]) = nrm ` set as" using True ih by auto
    ultimately show ?thesis using ih by simp
  next
    case False
    define q where "q = (case old (nrm a) of Some q' \<Rightarrow> q' | None \<Rightarrow> new_path (nrm a))"
    have q: "pt_addr q = nrm a" using assms(2) by (auto simp: q_def new_path_def split: option.splits)
    have st: "paths = paths0 @ [q]" "idx = (if nrm a = cur then int (length paths0) else idx0)"
      using step False by (auto simp: sync_addr_def Let_def q_def)
    have "cur \<notin> nrm ` set as" if "nrm a = cur" using False ih that by auto
    moreover have "q = (case old (pt_addr q) of Some q' \<Rightarrow> q' | None \<Rightarrow> new_path (pt_addr q))" unfolding q by (rule q_def)
    ultimately show ?thesis using ih False q by (auto simp: st nth_append)
  qed
qed simp

lemma map_of_rev_keyed:
  "distinct (map f xs) \<Longrightarrow> x \<in> set xs \<Longrightarrow> map_of (rev (map (\<lambda>x. (f x, x)) xs)) (f x) = Some x"
  "map_of (rev (map (\<lambda>x. (f x, x)) xs)) a = Some x \<Longrightarrow> f x = a \<and> x \<in> set xs"
  by (auto simp: comp_def rev_map [symmetric] dest!: map_of_SomeD)

text \<open>
  A link brought in step with its record: the addresses are those of the record, each once; the
  measurements of an address that stays are kept; the current path stays unless its address is gone.
\<close>

lemma syncLink_spec:
  fixes nrm l0 r
  defines "l \<equiv> (case l0 of None \<Rightarrow> new_link (rec_ID r) | Some l \<Rightarrow> l)" and "l' \<equiv> syncLink nrm l0 r"
    and "addrs \<equiv> nrm ` set (GossipAddrs (rec_Agent r))"
  shows "ln_id l' = ln_id l" "ln_pub l' = ai_PubKey (rec_Agent r)" "distinct (map pt_addr (ln_paths l'))"
    "pt_addr ` set (ln_paths l') = addrs"
    "\<And>q. q \<in> set (ln_paths l') \<Longrightarrow> q \<in> set (ln_paths l) \<or> q = new_path (pt_addr q)"
    "\<And>q. distinct (map pt_addr (ln_paths l)) \<Longrightarrow> q \<in> set (ln_paths l) \<Longrightarrow> pt_addr q \<in> addrs \<Longrightarrow> q \<in> set (ln_paths l')"
    "curAddr l \<noteq> [] \<Longrightarrow> curAddr l' = (if curAddr l \<in> addrs then curAddr l else [])"
    "- 1 \<le> ln_cur l'" "ln_cur l' < int (length (ln_paths l'))"
    "ln_switchedAt l' = ln_switchedAt l" "ln_heardAt l' = ln_heardAt l"
proof -
  define old where "old = map_of (rev (map (\<lambda>p. (pt_addr p, p)) (ln_paths l)))"
  obtain paths idx where r: "fold (sync_addr nrm old (curAddr l)) (GossipAddrs (rec_Agent r)) ([], - 1) = (paths, idx)"
    using prod.exhaust by blast
  have l': "l' = l\<lparr>ln_pub := ai_PubKey (rec_Agent r), ln_paths := paths, ln_cur := idx\<rparr>"
    using r by (simp add: l'_def syncLink_def l_def old_def)
  have old: "old a = Some q \<Longrightarrow> pt_addr q = a \<and> q \<in> set (ln_paths l)" for a q
    unfolding old_def by (rule map_of_rev_keyed(2))
  have old2: "distinct (map pt_addr (ln_paths l)) \<Longrightarrow> q \<in> set (ln_paths l) \<Longrightarrow> old (pt_addr q) = Some q" for q
    unfolding old_def by (rule map_of_rev_keyed(1))
  have sa: "distinct (map pt_addr paths)" "pt_addr ` set paths = addrs"
    "\<And>q. q \<in> set paths \<Longrightarrow> q = (case old (pt_addr q) of Some q' \<Rightarrow> q' | None \<Rightarrow> new_path (pt_addr q))"
    "if curAddr l \<in> addrs then 0 \<le> idx \<and> idx < int (length paths) \<and> pt_addr (paths ! nat idx) = curAddr l else idx = - 1"
    using sync_addrs [OF r] old unfolding addrs_def by blast+
  show "ln_id l' = ln_id l" "ln_pub l' = ai_PubKey (rec_Agent r)" "ln_switchedAt l' = ln_switchedAt l" "ln_heardAt l' = ln_heardAt l"
    by (simp_all add: l')
  show "distinct (map pt_addr (ln_paths l'))" "pt_addr ` set (ln_paths l') = addrs" "- 1 \<le> ln_cur l'"
    "ln_cur l' < int (length (ln_paths l'))"
    using sa by (auto simp: l' split: if_splits)
  show "q \<in> set (ln_paths l) \<or> q = new_path (pt_addr q)" if "q \<in> set (ln_paths l')" for q
  proof (cases "old (pt_addr q)")
    case None
    have "q \<in> set paths" using that by (simp add: l')
    from sa(3) [OF this, unfolded None option.case] show ?thesis ..
  next
    case (Some q')
    have "q \<in> set paths" using that by (simp add: l')
    from sa(3) [OF this, unfolded Some option.case] show ?thesis using old [OF Some] by simp
  qed
  show "q \<in> set (ln_paths l')" if "distinct (map pt_addr (ln_paths l))" "q \<in> set (ln_paths l)" "pt_addr q \<in> addrs" for q
  proof -
    from that(3) obtain q' where q': "q' \<in> set paths" "pt_addr q = pt_addr q'" unfolding sa(2) [symmetric] by auto
    have "old (pt_addr q') = Some q" using old2 [OF that(1,2)] q'(2) by simp
    from sa(3) [OF q'(1), unfolded this option.case] show ?thesis using q'(1) by (simp add: l')
  qed
  show "curAddr l \<noteq> [] \<Longrightarrow> curAddr l' = (if curAddr l \<in> addrs then curAddr l else [])"
    using sa(4) by (simp add: l' curAddr_def [of "l\<lparr>ln_pub := _, ln_paths := _, ln_cur := _\<rparr>"] curPath_def split: if_splits)
qed

lemma peer_of_chooseLocked [simp]:
  "ln_paths (snd (chooseLocked o' now l)) = ln_paths l" "ln_id (snd (chooseLocked o' now l)) = ln_id l"
  "ln_pub (snd (chooseLocked o' now l)) = ln_pub l" "ln_heardAt (snd (chooseLocked o' now l)) = ln_heardAt l"
  by (simp_all add: chooseLocked_def Let_def)

lemma links_from_sync:
  "links_from (case l0 of None \<Rightarrow> new_link (rec_ID r) | Some l \<Rightarrow> l) (snd (chooseLocked o' now (syncLink nrm l0 r)))"
proof -
  have "link_kept (syncLink nrm l0 r) (snd (chooseLocked o' now (syncLink nrm l0 r)))" by simp
  then show ?thesis using syncLink_spec [where nrm = nrm and ?l0.0 = l0 and r = r]
    unfolding links_from_def by (auto simp: link_kept_def)
qed

lemma links_from_trans: "links_from a b \<Longrightarrow> links_from b c \<Longrightarrow> links_from a c"
  unfolding links_from_def by auto

lemma tiered_simps [simp]:
  "rec_ID (tiered d r) = rec_ID r" "IsBalancer (tiered d r) = IsBalancer r" "rec_Agent (tiered d r) = rec_Agent r"
  by (simp_all add: tiered_def IsBalancer_def split: option.splits)

lemma sync_peer_from:
  assumes "sync_peer nrm hosts now d r = (sw, p')" and "d_opts d = d_opts d0" and "\<not> IsBalancer r" and "r \<in> set rs'" and "set rs \<subseteq> set rs'"
    and "\<And>p. map_of (d_peers d) (rec_ID r) = Some p \<Longrightarrow> peer_from d0 rs (rec_ID r) p \<or> map_of (d_peers d0) (rec_ID r) = Some p"
    and "map_of (d_peers d) (rec_ID r) = None \<Longrightarrow> map_of (d_peers d0) (rec_ID r) = None"
  shows "peer_from d0 rs' (rec_ID r) p'"
proof -
  define p where "p = (case map_of (d_peers d) (rec_ID r) of Some p \<Rightarrow> p | None \<Rightarrow> new_peer (options_judge (d_opts d)) (tiered d r))"
  define l where "l = snd (chooseLocked (d_opts d) now (syncLink nrm (Some (pr_ln p)) (tiered d r)))"
  have p': "p' = p\<lparr>pr_rec := tiered d r, pr_hosts := hosts (rec_Endpoints (tiered d r)), pr_ln := l\<rparr>"
    using assms(1) unfolding sync_peer_def Let_def tiered_def [symmetric]
    by (simp add: p_def [symmetric]) (auto simp: l_def split: prod.splits)
  have l: "links_from (pr_ln p) l" using links_from_sync [where ?l0.0 = "Some (pr_ln p)"] by (simp add: l_def)
  have ev: "ln_heardAt l = ln_heardAt (pr_ln p)" "ln_pub l = ai_PubKey (rec_Agent r)"
    using syncLink_spec(2,11) [where nrm = nrm and ?l0.0 = "Some (pr_ln p)" and r = "tiered d r"] by (simp_all add: l_def)
  have t: "tiered d r = tiered d0 r" using assms(2) by (simp add: tiered_def)
  define p0 where "p0 = (case map_of (d_peers d0) (rec_ID r) of Some p \<Rightarrow> p | None \<Rightarrow> new_peer (options_judge (d_opts d0)) (tiered d0 r))"
  have "same_evidence p0 p \<and> (links_from (pr_ln p0) (pr_ln p) \<or> pr_ln p0 = pr_ln p)"
    using assms(2,6,7) unfolding p_def p0_def
    by (cases "map_of (d_peers d) (rec_ID r)"; cases "map_of (d_peers d0) (rec_ID r)")
      (auto simp: peer_from_def same_evidence_def t new_peer_def Let_def)
  then have "same_evidence p0 p'" and "links_from (pr_ln p0) l"
    using l ev(1) links_from_trans [OF _ l] by (simp add: p' same_evidence_def, auto)
  then have "same_evidence p0 p'" "links_from (pr_ln p0) (pr_ln p')" by (simp_all add: p')
  then show ?thesis using assms(3,4) ev unfolding peer_from_def Let_def
    by (auto simp: p' t p0_def split: option.splits)
qed

lemma peer_from_mono: "peer_from d0 rs i p \<Longrightarrow> set rs \<subseteq> set rs' \<Longrightarrow> peer_from d0 rs' i p"
  unfolding peer_from_def Let_def by blast

lemma peers_inv_step:
  assumes "peers_inv d0 rs (d_peers d) seen" "frame_inv d0 d" "\<not> IsBalancer r" and sw: "sync_peer nrm hosts now d r = (sw, p')"
  shows "peers_inv d0 (rs @ [r]) (AList.update (rec_ID r) p' (d_peers d)) (rec_ID r # seen)"
proof -
  have new: "peer_from d0 (rs @ [r]) (rec_ID r) p'"
  proof (rule sync_peer_from [OF sw _ assms(3), where rs = rs])
    show "peer_from d0 rs (rec_ID r) p \<or> map_of (d_peers d0) (rec_ID r) = Some p" if "map_of (d_peers d) (rec_ID r) = Some p" for p
      using assms(1) that by (auto simp: peers_inv_def split: if_splits)
    show "map_of (d_peers d0) (rec_ID r) = None" if "map_of (d_peers d) (rec_ID r) = None"
      using assms(1) that by (auto simp: peers_inv_def map_of_eq_None_iff)
  qed (use assms(2) in \<open>auto simp: frame_inv_def\<close>)
  have "peer_from d0 (rs @ [r]) i p" if "peer_from d0 rs i p" for i p using that by (rule peer_from_mono) auto
  moreover have "{r' \<in> set (rs @ [r]). \<not> IsBalancer r'} = insert r {r' \<in> set rs. \<not> IsBalancer r'}" using assms(3) by auto
  ultimately show ?thesis using assms(1) new
    by (simp add: peers_inv_def distinct_update update_conv' dom_map_of_conv_image_fst [symmetric])
qed

lemma bals_inv_step:
  fixes nrm o' now olds r
  defines "l \<equiv> snd (chooseLocked o' now (syncLink nrm (map_of olds (rec_ID r)) r))"
  assumes "bals_inv d0 rs olds bals" "IsBalancer r"
  shows "bals_inv d0 (rs @ [r]) (if map_of olds (rec_ID r) = None then olds else AList.update (rec_ID r) l olds) (AList.update (rec_ID r) l bals)"
proof -
  have l: "links_from (case map_of olds (rec_ID r) of None \<Rightarrow> new_link (rec_ID r) | Some l \<Rightarrow> l) l"
    unfolding l_def by (rule links_from_sync)
  have new: "bal_from d0 (rec_ID r) l"
  proof (cases "map_of olds (rec_ID r)")
    case None
    then show ?thesis using assms(2) l by (simp add: bals_inv_def bal_from_def)
  next
    case (Some l1)
    then have "bal_from d0 (rec_ID r) l1" using assms(2) by (simp add: bals_inv_def)
    then show ?thesis using l Some links_from_trans unfolding bal_from_def by auto
  qed
  have "{r' \<in> set (rs @ [r]). IsBalancer r'} = insert r {r' \<in> set rs. IsBalancer r'}" using assms(3) by auto
  then show ?thesis using assms(2) new
    by (simp add: bals_inv_def distinct_update update_conv' dom_map_of_conv_image_fst [symmetric])
qed

lemma set_record_inv:
  assumes "records_inv d0 (filter (applies d0 network) rs) st"
  shows "records_inv d0 (filter (applies d0 network) (rs @ [r])) (set_record nrm hosts network now r st)"
proof -
  obtain d bals seen switched where st: "st = (d, bals, seen, switched)" using prod_cases4 by blast
  let ?rs = "filter (applies d0 network) rs"
  have I: "frame_inv d0 d" "peers_inv d0 ?rs (d_peers d) seen" "bals_inv d0 ?rs (d_balancers d) bals"
    using assms by (simp_all add: records_inv_def st)
  have opts: "d_opts d = d_opts d0" using I by (simp add: frame_inv_def)
  have frame: "frame_inv d0 (d\<lparr>d_peers := ps, d_balancers := bs\<rparr>)" for ps bs using I(1) by (simp add: frame_inv_def)
  consider "\<not> applies d0 network r" | "applies d0 network r" "IsBalancer r" | "applies d0 network r" "\<not> IsBalancer r" by blast
  then show ?thesis
  proof cases
    case 1
    then have "set_record nrm hosts network now r st = st" by (auto simp: set_record_def st applies_def opts)
    then show ?thesis using assms 1 by simp
  next
    case 2
    obtain sw l where sw: "chooseLocked (d_opts d) now (syncLink nrm (map_of (d_balancers d) (rec_ID r)) r) = (sw, l)" using prod.exhaust by blast
    have "{r' \<in> set (?rs @ [r]). \<not> IsBalancer r'} = {r' \<in> set ?rs. \<not> IsBalancer r'}" using 2 by auto
    moreover have "peer_from d0 (?rs @ [r]) i p" if "peer_from d0 ?rs i p" for i p using that by (rule peer_from_mono) auto
    ultimately have "peers_inv d0 (?rs @ [r]) (d_peers d) seen" using I(2) by (simp add: peers_inv_def)
    then show ?thesis using bals_inv_step [OF I(3) 2(2), of "d_opts d" now nrm, unfolded sw snd_conv] 2 frame [where ps = "d_peers d"]
      by (auto simp: records_inv_def set_record_def st applies_def opts [symmetric] sw)
  next
    case 3
    obtain sw p' where sw: "sync_peer nrm hosts now d r = (sw, p')" using prod.exhaust by blast
    have "{r' \<in> set (?rs @ [r]). IsBalancer r'} = {r' \<in> set ?rs. IsBalancer r'}" using 3 by auto
    then have "bals_inv d0 (?rs @ [r]) (d_balancers d) bals" using I(3) by (simp add: bals_inv_def)
    then show ?thesis using peers_inv_step [OF I(2,1) 3(2) sw] 3 frame [where bs = "d_balancers d"]
      by (auto simp: records_inv_def set_record_def st applies_def opts [symmetric] sw)
  qed
qed

lemma map_of_filter_keys: "map_of (filter (\<lambda>(i, _). i \<in> S) xs) i = (if i \<in> S then map_of xs i else None)"
  by (induction xs) auto

lemma dir_shape_links:
  assumes "dir_shape d"
  shows "map_of (d_peers d) i = Some p \<Longrightarrow> link_ok i (pr_ln p) \<and> rec_ID (pr_rec p) = i \<and> \<not> IsBalancer (pr_rec p)"
    and "map_of (d_balancers d) i = Some l \<Longrightarrow> link_ok i l"
  using assms unfolding dir_shape_def list_all_iff by (auto dest!: map_of_SomeD)

text \<open>What SetRecords leaves, in terms of the directory before it.\<close>

lemma SetRecords_result:
  fixes nrm hosts local now recs d0
  assumes "dir_shape d0"
  defines "d' \<equiv> snd (SetRecords nrm hosts local now recs d0)"
    and "rs \<equiv> filter (applies d0 (caps_GenesisID (ls_Caps local))) recs"
  shows "frame_inv d0 d'" "distinct (map fst (d_peers d'))" "distinct (map fst (d_balancers d'))"
    "fst ` set (d_peers d') = rec_ID ` {r \<in> set rs. \<not> IsBalancer r}" "fst ` set (d_balancers d') = rec_ID ` {r \<in> set rs. IsBalancer r}"
    "\<And>i p. map_of (d_peers d') i = Some p \<Longrightarrow> peer_from d0 rs i p" "\<And>i l. map_of (d_balancers d') i = Some l \<Longrightarrow> bal_from d0 i l"
proof -
  define network where "network = caps_GenesisID (ls_Caps local)"
  define st0 where "st0 = (d0\<lparr>d_network := network\<rparr>, [] :: (string \<times> link) list, [] :: string list, False)"
  have "bal_from d0 i l" if "map_of (d_balancers d0) i = Some l" for i l
    using dir_shape_links(2) [OF assms(1) that] that by (simp add: bal_from_def links_from_def link_ok_def)
  then have "records_inv d0 (filter (applies d0 network) []) st0"
    using assms(1) by (auto simp: records_inv_def st0_def frame_inv_def peers_inv_def bals_inv_def dir_shape_def)
  then have inv: "records_inv d0 (filter (applies d0 network) recs) (fold (set_record nrm hosts network now) recs st0)"
    by (induction recs rule: rev_induct) (simp_all add: set_record_inv del: filter_append)
  obtain d bals seen switched where f: "fold (set_record nrm hosts network now) recs st0 = (d, bals, seen, switched)"
    using prod_cases4 by blast
  have I: "frame_inv d0 d" "peers_inv d0 rs (d_peers d) seen" "bals_inv d0 rs (d_balancers d) bals"
    using inv unfolding f records_inv_def by (simp_all add: rs_def network_def)
  have d': "d_peers d' = filter (\<lambda>(i, _). i \<in> set seen) (d_peers d)" "d_balancers d' = bals" "frame_inv d d'"
    using f unfolding d'_def SetRecords_def Let_def unmatchedExclude_def st0_def network_def
    by (simp_all add: frame_inv_def)
  show "frame_inv d0 d'" using I(1) d'(3) by (simp add: frame_inv_def)
  show "distinct (map fst (d_peers d'))" using I(2) by (simp add: d' peers_inv_def distinct_map_filter)
  show "distinct (map fst (d_balancers d'))" "fst ` set (d_balancers d') = rec_ID ` {r \<in> set rs. IsBalancer r}"
    "\<And>i l. map_of (d_balancers d') i = Some l \<Longrightarrow> bal_from d0 i l" using I(3) by (simp_all add: d' bals_inv_def)
  have seen: "set seen = rec_ID ` {r \<in> set rs. \<not> IsBalancer r}" "set seen \<subseteq> fst ` set (d_peers d)" using I(2) by (auto simp: peers_inv_def)
  then show "fst ` set (d_peers d') = rec_ID ` {r \<in> set rs. \<not> IsBalancer r}" unfolding d' seen(1) [symmetric] by force
  show "peer_from d0 rs i p" if "map_of (d_peers d') i = Some p" for i p
    using that I(2) by (auto simp: d' map_of_filter_keys peers_inv_def split: if_splits)
qed

lemma pings_of_snd: "map snd (pings_of b ls) = path_nonces (map snd ls)"
  by (induction ls) (auto simp: pings_of_def)

lemma outstanding_pings: "outstanding d = map snd (open_pings d)"
proof -
  let ?xs = "pings_of True (map (\<lambda>(i, p). (i, pr_ln p)) (d_peers d)) @ pings_of False (d_balancers d)"
  have "map snd ?xs = path_nonces (links_of d)" by (simp add: pings_of_snd links_of_def comp_def case_prod_unfold)
  then show ?thesis using filter_map [of "\<lambda>n. n \<noteq> 0" snd ?xs] by (simp add: outstanding_def open_pings_def comp_def)
qed

lemma pings_of_keys: "distinct (map fst ls) \<Longrightarrow> \<forall>(i, l) \<in> set ls. link_ok i l \<Longrightarrow> distinct (map fst (pings_of b ls))"
proof (induction ls)
  case (Cons e ls)
  obtain i l where e: "e = (i, l)" by (cases e)
  have hd: "distinct (map (\<lambda>q. (b, i, pt_addr q)) (ln_paths l))"
    using Cons.prems(2) by (auto simp: e link_ok_def distinct_map inj_on_def)
  have fsts: "fst ` set (pings_of b ls) \<subseteq> {(b, j, a) | j a. j \<in> fst ` set ls}"
    by (force simp: pings_of_def)
  have "distinct (map fst (pings_of b ls))" using Cons by (simp add: e)
  moreover have "pings_of b (e # ls) = map (\<lambda>q. ((b, i, pt_addr q), pt_nonce q)) (ln_paths l) @ pings_of b ls" by (simp add: pings_of_def e)
  moreover have "i \<notin> fst ` set ls" using Cons.prems(1) by (simp add: e)
  ultimately show ?case using hd fsts by (auto simp: comp_def)
qed (simp add: pings_of_def)

lemma pings_of_iff:
  "((b, i, a), n) \<in> set (pings_of c ls) \<longleftrightarrow> b = c \<and> (\<exists>l q. (i, l) \<in> set ls \<and> q \<in> set (ln_paths l) \<and> pt_addr q = a \<and> pt_nonce q = n)"
  by (fastforce simp: pings_of_def)

lemma pings_keys: "dir_shape d \<Longrightarrow> distinct (map fst (open_pings d))"
proof -
  assume d: "dir_shape d"
  let ?ps = "map (\<lambda>(i, p). (i, pr_ln p)) (d_peers d)"
  have "map fst ?ps = map fst (d_peers d)" by auto
  then have ps: "distinct (map fst ?ps)" "\<forall>(i, l) \<in> set ?ps. link_ok i l" using d by (auto simp: dir_shape_def list_all_iff simp del: map_map)
  have bs: "distinct (map fst (d_balancers d))" "\<forall>(i, l) \<in> set (d_balancers d). link_ok i l" using d by (auto simp: dir_shape_def list_all_iff)
  note pings_of_keys [OF ps, of True] pings_of_keys [OF bs, of False]
  moreover have "set (map fst (pings_of True ?ps)) \<inter> set (map fst (pings_of False (d_balancers d))) = {}"
    by (auto simp: pings_of_def)
  ultimately have "distinct (map fst (pings_of True ?ps @ pings_of False (d_balancers d)))" by (simp del: set_map)
  then show ?thesis unfolding open_pings_def by (rule distinct_map_filter)
qed

lemma pings_subset:
  assumes "dir_shape d'" and "set (open_pings d') \<subseteq> set (open_pings d)" and "distinct (outstanding d)"
  shows "distinct (outstanding d')"
proof -
  have "inj_on snd (set (open_pings d))" using assms(3) by (simp add: outstanding_pings distinct_map)
  then have "inj_on snd (set (open_pings d'))" using assms(2) by (rule inj_on_subset)
  then show ?thesis using pings_keys [OF assms(1)] by (simp add: outstanding_pings distinct_map)
qed

lemma pings_iff:
  "((b, i, a), n) \<in> set (open_pings d) \<longleftrightarrow> n \<noteq> 0 \<and> (\<exists>l q. q \<in> set (ln_paths l) \<and> pt_addr q = a \<and> pt_nonce q = n
     \<and> (if b then \<exists>p. (i, p) \<in> set (d_peers d) \<and> l = pr_ln p else (i, l) \<in> set (d_balancers d)))"
proof -
  have "(i, l) \<in> set (map (\<lambda>(i, p). (i, pr_ln p)) (d_peers d)) \<longleftrightarrow> (\<exists>p. (i, p) \<in> set (d_peers d) \<and> l = pr_ln p)" for l by force
  then show ?thesis unfolding open_pings_def by (cases b) (auto simp: pings_of_iff simp del: set_map)
qed

lemma SetRecords_ok:
  assumes "dir_ok d0"
  shows "dir_ok (snd (SetRecords nrm hosts local now recs d0))"
proof -
  define d' where "d' = snd (SetRecords nrm hosts local now recs d0)"
  have shape0: "dir_shape d0" using assms by (simp add: dir_ok_def)
  note R = SetRecords_result [OF shape0, of nrm hosts local now recs, folded d'_def]
  have peer: "peer_from d0 (filter (applies d0 (caps_GenesisID (ls_Caps local))) recs) i p" if "(i, p) \<in> set (d_peers d')" for i p
    using R(6) map_of_is_SomeI [OF R(2) that] by blast
  have bal: "bal_from d0 i l" if "(i, l) \<in> set (d_balancers d')" for i l
    using R(7) map_of_is_SomeI [OF R(3) that] by blast
  have peer_link: "link_ok i (pr_ln p) \<and> rec_ID (pr_rec p) = i \<and> \<not> IsBalancer (pr_rec p)" if "(i, p) \<in> set (d_peers d')" for i p
    using peer [OF that] dir_shape_links(1) [OF shape0]
    by (auto simp: peer_from_def Let_def links_from_def link_ok_def new_peer_def new_link_def split: option.splits)
  have bal_link: "link_ok i l" if "(i, l) \<in> set (d_balancers d')" for i l
    using bal [OF that] dir_shape_links(2) [OF shape0]
    by (auto simp: bal_from_def links_from_def link_ok_def new_link_def split: option.splits)
  have shape: "dir_shape d'"
    using R(1-5) peer_link bal_link unfolding dir_shape_def by (auto simp: frame_inv_def list_all_iff applies_def)
  have "set (open_pings d') \<subseteq> set (open_pings d0)"
  proof (clarify)
    fix b i a n
    assume "((b, i, a), n) \<in> set (open_pings d')"
    then obtain l q where q: "q \<in> set (ln_paths l)" "pt_addr q = a" "pt_nonce q = n" "n \<noteq> 0"
      and l: "if b then \<exists>p. (i, p) \<in> set (d_peers d') \<and> l = pr_ln p else (i, l) \<in> set (d_balancers d')" by (auto simp: pings_iff)
    have "q \<noteq> new_path (pt_addr q)" using q by (auto simp: new_path_def) (metis pathState.select_convs(6))
    then have "\<exists>l0. q \<in> set (ln_paths l0) \<and> (if b then \<exists>p. (i, p) \<in> set (d_peers d0) \<and> l0 = pr_ln p else (i, l0) \<in> set (d_balancers d0))"
      using l q(1) peer bal
      by (fastforce simp: peer_from_def Let_def bal_from_def links_from_def new_peer_def new_link_def split: if_splits option.splits dest: map_of_SomeD)
    then show "((b, i, a), n) \<in> set (open_pings d0)" using q unfolding pings_iff by blast
  qed
  moreover from this have "set (outstanding d') \<subseteq> set (outstanding d0)" unfolding outstanding_pings by auto
  ultimately show ?thesis using shape assms pings_subset [OF shape, of d0] R(1)
    unfolding d'_def [symmetric] by (auto simp: dir_ok_def frame_inv_def)
qed

section \<open>Properties\<close>

lemma dir_ok_New: "dir_ok (NewDirectory o0)"
  by (simp add: dir_ok_def dir_shape_def NewDirectory_def Let_def outstanding_def links_of_def path_nonces_def)

lemma dir_step_ok: "dir_step d d' \<Longrightarrow> dir_ok d \<Longrightarrow> dir_ok d'"
  by (induction rule: dir_step.induct)
    (auto intro: SetRecords_ok checkPaths_ok dir_ok_kept [OF _ handleLocked_kept] dir_ok_kept [OF _ checkPaths_sent_kept]
      dir_ok_kept [OF _ other_steps_kept(1)] dir_ok_kept [OF _ other_steps_kept(2)] dir_ok_kept [OF _ other_steps_kept(3)]
      dir_ok_kept [OF _ other_steps_kept(4)] dir_ok_kept [OF _ other_steps_kept(5)] dir_ok_kept [OF _ other_steps_kept(6)]
      dir_ok_kept [OF _ other_steps_kept(7)] dir_ok_kept [OF _ other_steps_kept(8)] dir_ok_kept [OF _ other_steps_kept(9)])

lemma dir_run_ok: "dir_run o0 d \<Longrightarrow> dir_ok d"
  by (induction rule: dir_run.induct) (auto intro: dir_ok_New dir_step_ok)

lemma ping_path_unique:
  assumes "dir_ok d" and "l \<in> set (links_of d)" "q \<in> set (ln_paths l)" and "l' \<in> set (links_of d)" "q' \<in> set (ln_paths l')"
    and "pong_matches n q" "pong_matches n q'"
  shows "l' = l \<and> q' = q"
proof -
  have shape: "dir_shape d" and inj: "inj_on snd (set (open_pings d))" using assms(1) by (auto simp: dir_ok_def outstanding_pings distinct_map)
  have keyed: "\<exists>b. (if b then \<exists>p. map_of (d_peers d) (ln_id m) = Some p \<and> m = pr_ln p else map_of (d_balancers d) (ln_id m) = Some m)
      \<and> link_ok (ln_id m) m \<and> (\<forall>r \<in> set (ln_paths m). pt_nonce r \<noteq> 0 \<longrightarrow> ((b, ln_id m, pt_addr r), pt_nonce r) \<in> set (open_pings d))"
    if m: "m \<in> set (links_of d)" for m
  proof -
    consider i p where "(i, p) \<in> set (d_peers d)" "m = pr_ln p" | i where "(i, m) \<in> set (d_balancers d)"
      using m by (auto simp: links_of_def)
    then show ?thesis
    proof cases
      case 1
      have "map_of (d_peers d) i = Some p" using shape 1 by (auto simp: dir_shape_def)
      moreover from this have "link_ok i m" using dir_shape_links(1) [OF shape] 1 by blast
      ultimately show ?thesis using 1 by (intro exI [of _ True]) (auto simp: pings_iff link_ok_def)
    next
      case 2
      have "map_of (d_balancers d) i = Some m" using shape 2 by (auto simp: dir_shape_def)
      moreover from this have "link_ok i m" using dir_shape_links(2) [OF shape] by blast
      ultimately show ?thesis using 2 by (intro exI [of _ False]) (auto simp: pings_iff link_ok_def)
    qed
  qed
  obtain b where b: "if b then \<exists>p. map_of (d_peers d) (ln_id l) = Some p \<and> l = pr_ln p else map_of (d_balancers d) (ln_id l) = Some l"
    "link_ok (ln_id l) l" "((b, ln_id l, pt_addr q), n) \<in> set (open_pings d)"
    using keyed [OF assms(2)] assms(3,6) by (auto simp: pong_matches_def)
  obtain c where c: "if c then \<exists>p. map_of (d_peers d) (ln_id l') = Some p \<and> l' = pr_ln p else map_of (d_balancers d) (ln_id l') = Some l'"
    "((c, ln_id l', pt_addr q'), n) \<in> set (open_pings d)"
    using keyed [OF assms(4)] assms(5,7) by (auto simp: pong_matches_def)
  have "(c, ln_id l', pt_addr q') = (b, ln_id l, pt_addr q)" using inj_onD [OF inj _ c(2) b(3)] by simp
  then have e: "c = b" "ln_id l' = ln_id l" "pt_addr q' = pt_addr q" by simp_all
  have "l' = l" using b(1) c(1) unfolding e(1,2) by (cases b) (simp_all, metis option.inject)
  then show ?thesis using e(3) b(2) assms(3,5) by (auto simp: link_ok_def distinct_map inj_on_def)
qed

text \<open>
  C4. Along any run of a directory, whatever datagrams arrive and in whatever order its operations
  interleave (with fewer than 2 to the 64 pings sent): peers and balancers are listed once each and never the
  local node itself, every link belongs to the node it is listed under, its addresses are distinct
  and its current path is one of them or none; and a pong is credited to one path of one link at
  most, since no two outstanding pings share a nonce.
\<close>

theorem directory_invariant:
  assumes "dir_run o0 d"
  shows "dir_shape d
    \<and> (\<forall>l \<in> set (links_of d). \<forall>q \<in> set (ln_paths l). \<forall>l' \<in> set (links_of d). \<forall>q' \<in> set (ln_paths l'). \<forall>n.
         pong_matches n q \<and> pong_matches n q' \<longrightarrow> l' = l \<and> q' = q)"
proof (intro conjI ballI allI impI)
  show "dir_shape d" using dir_run_ok [OF assms] by (simp add: dir_ok_def)
qed (use ping_path_unique [OF dir_run_ok [OF assms]] in blast)+

theorem directory_invariant_witness: "dir_shape (snd (checkPaths 2000 sample_directory))"
proof -
  have "unat (d_nonce sample_directory) + length (path_nonces (links_of sample_directory)) < 2 ^ 64"
  proof -
    have "d_nonce sample_directory = 0" "length (path_nonces (links_of sample_directory)) = 1" by code_simp+
    then show ?thesis by simp
  qed
  then have "dir_run sample_options (snd (checkPaths 2000 sample_directory))"
    unfolding sample_directory_def by (intro run_step [OF _ step_paths] run_step [OF run_new step_records])
  then show ?thesis using directory_invariant by blast
qed

end
