(* ===== verification/DirectoryGossip.thy ===== *)
theory DirectoryGossip
  imports DirectoryProps
begin

text \<open>
  What the directory takes from the registry, from gossip and from its probes, and what it offers
  the router on that evidence.
\<close>

section \<open>Definitions\<close>

text \<open>The link a datagram of node i is checked against.\<close>

definition link_for :: "Directory \<Rightarrow> string \<Rightarrow> link option" where
  "link_for d i = (case map_of (d_peers d) i of Some p \<Rightarrow> Some (pr_ln p) | None \<Rightarrow> map_of (d_balancers d) i)"

definition trusted :: "Envelope \<Rightarrow> Directory \<Rightarrow> bool" where
  "trusted env d = (case link_for d (env_NodeID env) of Some l \<Rightarrow> authentic env l | None \<Rightarrow> False)"

text \<open>The payload is signed by the holder of a key; by the key the directory has for the node it names.\<close>

definition signed_by :: "primitives \<Rightarrow> bytes \<Rightarrow> bytes \<Rightarrow> bool" where
  "signed_by P key payload =
     (length key = 32 \<and> ed_Verify P key (drop heartbeatHeader payload) (take (heartbeatHeader - PublicKeySize) (drop PublicKeySize payload)))"

definition signed_for :: "primitives \<Rightarrow> bytes \<Rightarrow> Directory \<Rightarrow> Envelope \<Rightarrow> bool" where
  "signed_for P payload d env = (\<exists>l. link_for d (env_NodeID env) = Some l \<and> signed_by P (ln_pub l) payload)"

text \<open>The peer p' of a record r taken over by a directory d.\<close>

definition taken_over :: "(string \<Rightarrow> string) \<Rightarrow> (string list \<Rightarrow> string list) \<Rightarrow> Directory \<Rightarrow> NodeRecord \<Rightarrow> peerState \<Rightarrow> bool" where
  "taken_over nrm hosts d r p' =
     (pr_rec p' = tiered d r \<and> pr_hosts p' = hosts (rec_Endpoints r) \<and> ln_pub (pr_ln p') = ai_PubKey (rec_Agent r)
      \<and> distinct (map pt_addr (ln_paths (pr_ln p'))) \<and> pt_addr ` set (ln_paths (pr_ln p')) = nrm ` set (GossipAddrs (rec_Agent r))
      \<and> (case map_of (d_peers d) (rec_ID r) of
           None \<Rightarrow> \<not> pr_hasHB p' \<and> \<not> pr_probeOK p' \<and> (\<forall>q \<in> set (ln_paths (pr_ln p')). q = new_path (pt_addr q))
         | Some p \<Rightarrow> same_evidence p p'
             \<and> (\<forall>q \<in> set (ln_paths (pr_ln p')). if pt_addr q \<in> pt_addr ` set (ln_paths (pr_ln p))
                   then q \<in> set (ln_paths (pr_ln p)) else q = new_path (pt_addr q))))"

text \<open>A directory that has heard the heartbeat of its one peer, its statistics, and the directory of that peer.\<close>

definition sample_heard :: Directory where
  "sample_heard = snd (handle sample_primitives [6] id ''n1:4190'' (EncodeHeartbeat sample_primitives [5] sample_hb) sample_state 2000 sample_directory)"

definition sample_book :: StatsBook where
  "sample_book = NewStatsBook DefaultBreaker"

definition sample_sender :: Directory where
  "sample_sender = (NewDirectory (sample_options\<lparr>dop_LocalID := ''n1''\<rparr>))\<lparr>d_hbSeq := 3\<rparr>"

section \<open>Records\<close>

text \<open>With one record per node, the peers are the old ones brought in step with their records.\<close>

lemma sync_peer_cong:
  "d_opts d = d_opts d0 \<Longrightarrow> map_of (d_peers d) (rec_ID r) = map_of (d_peers d0) (rec_ID r) \<Longrightarrow>
   sync_peer nrm hosts now d r = sync_peer nrm hosts now d0 r"
proof -
  assume eq: "d_opts d = d_opts d0" "map_of (d_peers d) (rec_ID r) = map_of (d_peers d0) (rec_ID r)"
  have "sync_peer nrm hosts now d r =
    (let r = tiered d r; p = (case map_of (d_peers d) (rec_ID r) of Some p \<Rightarrow> p | None \<Rightarrow> new_peer (options_judge (d_opts d)) r);
         (sw, l) = chooseLocked (d_opts d) now (syncLink nrm (Some (pr_ln p)) r)
     in (sw, p\<lparr>pr_rec := r, pr_hosts := hosts (rec_Endpoints r), pr_ln := l\<rparr>))" for d
    by (simp add: sync_peer_def tiered_def)
  moreover have "tiered d r = tiered d0 r" using eq(1) by (simp add: tiered_def)
  ultimately show ?thesis using eq by (simp add: Let_def cong: option.case_cong)
qed

lemma set_records_fold:
  assumes "distinct (map rec_ID rs)"
    and "fold (set_record nrm hosts network now) rs (d0', [], [], False) = (d, bals, seen, sw)" and "d_opts d0' = d_opts d0" "d_peers d0' = d_peers d0"
  shows "d_opts d = d_opts d0 \<and> set seen \<subseteq> rec_ID ` set rs
    \<and> (\<forall>i. i \<notin> rec_ID ` set rs \<longrightarrow> map_of (d_peers d) i = map_of (d_peers d0) i)
    \<and> (\<forall>r \<in> set rs. applies d0 network r \<and> \<not> IsBalancer r \<longrightarrow>
         rec_ID r \<in> set seen \<and> map_of (d_peers d) (rec_ID r) = Some (snd (sync_peer nrm hosts now d0 r)))"
  using assms(1,2)
proof (induction rs arbitrary: d bals seen sw rule: rev_induct)
  case Nil
  then show ?case using assms(3,4) by auto
next
  case (snoc r rs)
  obtain d1 bals1 seen1 sw1 where f: "fold (set_record nrm hosts network now) rs (d0', [], [], False) = (d1, bals1, seen1, sw1)"
    using prod_cases4 by blast
  have ih: "d_opts d1 = d_opts d0" "set seen1 \<subseteq> rec_ID ` set rs" "\<And>i. i \<notin> rec_ID ` set rs \<Longrightarrow> map_of (d_peers d1) i = map_of (d_peers d0) i"
    "\<And>r. r \<in> set rs \<Longrightarrow> applies d0 network r \<Longrightarrow> \<not> IsBalancer r \<Longrightarrow>
       rec_ID r \<in> set seen1 \<and> map_of (d_peers d1) (rec_ID r) = Some (snd (sync_peer nrm hosts now d0 r))"
    using snoc.IH [OF _ f] snoc.prems(1) by auto
  have new: "rec_ID r \<notin> rec_ID ` set rs" using snoc.prems(1) by auto
  have sync: "sync_peer nrm hosts now d1 r = sync_peer nrm hosts now d0 r"
    using sync_peer_cong [of d1 d0 r] ih(1,3) new by simp
  have step: "set_record nrm hosts network now r (d1, bals1, seen1, sw1) = (d, bals, seen, sw)" using snoc.prems(2) f by simp
  have skip: "map_of (d_peers d) = map_of (d_peers d1) \<and> d_opts d = d_opts d1 \<and> set seen = set seen1" if "\<not> (applies d0 network r \<and> \<not> IsBalancer r)"
    using step that ih(1) by (auto simp: set_record_def applies_def split: if_splits prod.splits)
  have take: "d_peers d = AList.update (rec_ID r) (snd (sync_peer nrm hosts now d0 r)) (d_peers d1) \<and> d_opts d = d_opts d1 \<and> set seen = insert (rec_ID r) (set seen1)"
    if "applies d0 network r" "\<not> IsBalancer r"
    using step that ih(1) by (auto simp: set_record_def applies_def sync split: if_splits prod.splits)
  show ?case
  proof (cases "applies d0 network r \<and> \<not> IsBalancer r")
    case True
    then show ?thesis using take ih new by (auto simp: update_conv' image_iff)
  next
    case False
    then show ?thesis using skip ih by auto
  qed
qed

lemma SetRecords_peer:
  fixes nrm hosts local now recs d
  defines "d' \<equiv> snd (SetRecords nrm hosts local now recs d)"
  assumes "distinct (map rec_ID recs)" "r \<in> set recs" "applies d (caps_GenesisID (ls_Caps local)) r" "\<not> IsBalancer r"
  shows "map_of (d_peers d') (rec_ID r) = Some (snd (sync_peer nrm hosts now d r))"
proof -
  let ?network = "caps_GenesisID (ls_Caps local)"
  obtain d1 bals seen sw where f: "fold (set_record nrm hosts ?network now) recs (d\<lparr>d_network := ?network\<rparr>, [], [], False) = (d1, bals, seen, sw)"
    using prod_cases4 by blast
  have "d_peers d' = filter (\<lambda>(i, _). i \<in> set seen) (d_peers d1)"
    using f unfolding d'_def SetRecords_def Let_def unmatchedExclude_def by simp
  then show ?thesis using set_records_fold [OF assms(2) f, of d] assms(3-5) by (simp add: map_of_filter_keys)
qed

text \<open>A peer brought in step with its record, knowing what it was before.\<close>

lemma sync_peer_spec:
  fixes nrm hosts now d r
  defines "p' \<equiv> snd (sync_peer nrm hosts now d r)"
    and "p \<equiv> (case map_of (d_peers d) (rec_ID r) of Some p \<Rightarrow> p | None \<Rightarrow> new_peer (options_judge (d_opts d)) (tiered d r))"
    and "addrs \<equiv> nrm ` set (GossipAddrs (rec_Agent r))"
  assumes "distinct (map pt_addr (ln_paths (pr_ln p)))"
  shows "pr_rec p' = tiered d r" "pr_hosts p' = hosts (rec_Endpoints r)" "same_evidence p p'"
    "ln_pub (pr_ln p') = ai_PubKey (rec_Agent r)"
    "distinct (map pt_addr (ln_paths (pr_ln p')))" "pt_addr ` set (ln_paths (pr_ln p')) = addrs"
    "\<And>q. q \<in> set (ln_paths (pr_ln p)) \<Longrightarrow> pt_addr q \<in> addrs \<Longrightarrow> q \<in> set (ln_paths (pr_ln p'))"
    "\<And>q. q \<in> set (ln_paths (pr_ln p')) \<Longrightarrow> q \<in> set (ln_paths (pr_ln p)) \<or> q = new_path (pt_addr q)"
proof -
  define l where "l = syncLink nrm (Some (pr_ln p)) (tiered d r)"
  have p': "p' = p\<lparr>pr_rec := tiered d r, pr_hosts := hosts (rec_Endpoints (tiered d r)), pr_ln := snd (chooseLocked (d_opts d) now l)\<rparr>"
    unfolding p'_def sync_peer_def Let_def tiered_def [symmetric]
    by (simp add: p_def [symmetric] l_def split: prod.splits)
  have e: "rec_Endpoints (tiered d r) = rec_Endpoints r" by (simp add: tiered_def split: option.splits)
  note spec = syncLink_spec [where nrm = nrm and ?l0.0 = "Some (pr_ln p)" and r = "tiered d r", folded l_def, simplified]
  show "pr_rec p' = tiered d r" "pr_hosts p' = hosts (rec_Endpoints r)" "same_evidence p p'" "ln_pub (pr_ln p') = ai_PubKey (rec_Agent r)"
    using spec by (simp_all add: p' e same_evidence_def)
  show "distinct (map pt_addr (ln_paths (pr_ln p')))" "pt_addr ` set (ln_paths (pr_ln p')) = addrs"
    using spec by (simp_all add: p' addrs_def)
  show "q \<in> set (ln_paths (pr_ln p')) " if "q \<in> set (ln_paths (pr_ln p))" "pt_addr q \<in> addrs" for q
    using spec(6) [OF assms(4) that(1)] that(2) by (simp add: p' addrs_def)
  show "q \<in> set (ln_paths (pr_ln p)) \<or> q = new_path (pt_addr q)" if "q \<in> set (ln_paths (pr_ln p'))" for q
    using spec(5) [of q] that by (simp add: p')
qed

lemma sync_peer_taken_over:
  assumes "dir_shape d"
  shows "taken_over nrm hosts d r (snd (sync_peer nrm hosts now d r))"
proof -
  define p' where "p' = snd (sync_peer nrm hosts now d r)"
  define p where "p = (case map_of (d_peers d) (rec_ID r) of Some p \<Rightarrow> p | None \<Rightarrow> new_peer (options_judge (d_opts d)) (tiered d r))"
  have p: "distinct (map pt_addr (ln_paths (pr_ln p)))"
    using dir_shape_links(1) [OF assms, of "rec_ID r"]
    by (auto simp: p_def link_ok_def new_peer_def new_link_def split: option.splits)
  note S = sync_peer_spec [where nrm = nrm and hosts = hosts and now = now and d = d and r = r, folded p'_def p_def, OF p]
  have kept: "if pt_addr q' \<in> pt_addr ` set (ln_paths (pr_ln p)) then q' \<in> set (ln_paths (pr_ln p)) else q' = new_path (pt_addr q')"
    if q': "q' \<in> set (ln_paths (pr_ln p'))" for q'
  proof (cases "pt_addr q' \<in> pt_addr ` set (ln_paths (pr_ln p))")
    case True
    then obtain q where q: "q \<in> set (ln_paths (pr_ln p))" "pt_addr q' = pt_addr q" by auto
    have "pt_addr q \<in> nrm ` set (GossipAddrs (rec_Agent r))" unfolding S(6) [symmetric] using q' q(2) by (metis imageI)
    then have "q \<in> set (ln_paths (pr_ln p'))" by (rule S(7) [OF q(1)])
    then have "q' = q" using q' q(2) S(5) by (auto simp: distinct_map inj_on_def)
    then show ?thesis using True q(1) by simp
  next
    case False
    then show ?thesis using S(8) [OF q'] by auto
  qed
  show ?thesis
  proof (cases "map_of (d_peers d) (rec_ID r)")
    case None
    then have "p = new_peer (options_judge (d_opts d)) (tiered d r)" by (simp add: p_def)
    then show ?thesis using None S(1-6) kept unfolding taken_over_def p'_def [symmetric]
      by (simp add: same_evidence_def new_peer_def new_link_def)
  next
    case (Some p1)
    then have p1: "p = p1" by (simp add: p_def)
    show ?thesis using Some S(1-6) kept unfolding taken_over_def p'_def [symmetric] p1 by simp
  qed
qed

section \<open>Gossip\<close>

lemma set_peer_fields [simp]:
  "d_hbRound (set_peer i p d) = d_hbRound d" "d_externals (set_peer i p d) = d_externals d" "d_balancers (set_peer i p d) = d_balancers d"
  "d_opts (set_peer i p d) = d_opts d" "map_of (d_peers (set_peer i p d)) = (map_of (d_peers d))(i \<mapsto> p)"
  by (simp_all add: set_peer_def update_conv')

lemma authentic_signed:
  assumes "DecodeMessage P payload = Inr env"
  shows "authentic env l \<Longrightarrow> signed_by P (ln_pub l) payload" "trusted env d \<Longrightarrow> signed_for P payload d env"
proof -
  have "ed_Verify P (env_PubKey env) (drop heartbeatHeader payload) (take (heartbeatHeader - PublicKeySize) (drop PublicKeySize payload))"
    using assms by (auto simp: DecodeMessage_def Let_def split: if_splits option.splits)
  then show s: "authentic env l \<Longrightarrow> signed_by P (ln_pub l) payload" for l
    by (simp add: authentic_def signed_by_def PublicKeySize_def)
  show "trusted env d \<Longrightarrow> signed_for P payload d env"
    using s by (auto simp: trusted_def signed_for_def split: option.splits)
qed

lemma handleLocked_untrusted: "\<not> trusted env d \<Longrightarrow> snd (handleLocked from env local now d) = d \<and> hd_reply (fst (handleLocked from env local now d)) = None
   \<and> \<not> hd_switched (fst (handleLocked from env local now d))"
  by (auto simp: handleLocked_def Let_def trusted_def link_for_def nothing_to_do_def split: option.splits)

text \<open>
  A trusted datagram changes the peer it names in its link only, unless it is a heartbeat that is
  not stale.
\<close>

lemma handleLocked_peers:
  fixes "from" env local now d
  defines "d' \<equiv> snd (handleLocked from env local now d)"
  shows "(\<exists>hb p. map_of (d_peers d) (env_NodeID env) = Some p \<and> authentic env (pr_ln p) \<and> env_HB env = Some hb \<and> env_Probe env = None
        \<and> \<not> stale_heartbeat (d_opts d) hb now p \<and> (\<exists>l. d' = accept_heartbeat (env_NodeID env) hb local now (p\<lparr>pr_ln := l\<rparr>) d))
    \<or> d_hbRound d' = d_hbRound d \<and> (\<forall>i. map_option (\<lambda>p. p\<lparr>pr_ln := new_link []\<rparr>) (map_of (d_peers d') i)
          = map_option (\<lambda>p. p\<lparr>pr_ln := new_link []\<rparr>) (map_of (d_peers d) i))"
  unfolding d'_def handleLocked_def Let_def
  by (auto split: option.splits prod.splits)

lemma noteRound_hbRound: "d_hbRound (noteRound r d) = max (d_hbRound d) r"
  by (auto simp: noteRound_def max_def)

lemma accept_heartbeat_result:
  fixes i hb local now p d
  defines "d' \<equiv> accept_heartbeat i hb local now p d"
  shows "d_hbRound d' = (if hb_Online hb \<and> \<not> excluded d i then max (d_hbRound d) (hb_LastRound hb) else d_hbRound d)"
    "\<exists>j. map_of (d_peers d') = (map_of (d_peers d))(i \<mapsto> p\<lparr>pr_hb := hb, pr_seenAt := now, pr_hasHB := True, pr_silent := False, pr_judge := j\<rparr>)"
    "d_opts d' = d_opts d" "d_externals d' = d_externals d"
  using accept_heartbeat_eq [of i hb local now p d] by (auto simp: d'_def noteRound_hbRound)

section \<open>Rounds\<close>

lemma Judge_unreachable [simp]: "fst (Judge j now False rd best) = HealthOffline"
  by (simp add: Judge_def Let_def Observe_def)

lemma Judge_False: "Judge j now False rd best = (h, j') \<Longrightarrow> h = HealthOffline"
  using Judge_unreachable [of j now rd best] by simp

lemma fold_best_ge:
  fixes b0 :: u64
  assumes "\<And>x b. f x b = (if ok x \<and> rd x > b then rd x else b)"
  shows "b0 \<le> fold f xs b0" "x \<in> set xs \<Longrightarrow> ok x \<Longrightarrow> rd x \<le> fold f xs b0"
proof -
  have mono: "b \<le> fold f xs b" for xs b
    by (induction xs arbitrary: b) (auto simp: assms intro: order_trans less_imp_le)
  show "b0 \<le> fold f xs b0" by (rule mono)
  show "x \<in> set xs \<Longrightarrow> ok x \<Longrightarrow> rd x \<le> fold f xs b0"
  proof (induction xs arbitrary: b0)
    case (Cons y ys)
    have "rd x \<le> f x b0" using Cons.prems by (auto simp: assms not_less)
    then show ?case using Cons mono [of "f x b0" ys] by (cases "y = x") (auto intro: order_trans)
  qed simp
qed

lemma bestRound_ge:
  "ls_Online local \<Longrightarrow> ls_LastRound local \<le> bestRound d now local"
  "(i, p) \<in> set (d_peers d) \<Longrightarrow> \<not> excluded d i \<Longrightarrow> peerRound (d_opts d) p now = (rd, True) \<Longrightarrow> rd \<le> bestRound d now local"
  "(n, e) \<in> set (d_externals d) \<Longrightarrow> \<not> excluded d n \<Longrightarrow> es_ok e \<Longrightarrow> es_round e \<le> bestRound d now local"
proof -
  let ?fp = "\<lambda>(i, p) best. if excluded d i then best
    else (case peerRound (d_opts d) p now of (r, ok) \<Rightarrow> if ok \<and> r > best then r else best)"
  let ?fe = "\<lambda>(i, e) best. if excluded d i then best else if es_ok e \<and> es_round e > best then es_round e else best"
  define b0 where "b0 = (if ls_Online local then ls_LastRound local else 0)"
  have best: "bestRound d now local = fold ?fe (d_externals d) (fold ?fp (d_peers d) b0)" by (simp add: bestRound_def b0_def)
  note fp = fold_best_ge [of ?fp "\<lambda>(i, p). \<not> excluded d i \<and> snd (peerRound (d_opts d) p now)" "\<lambda>(i, p). fst (peerRound (d_opts d) p now)"]
  note fe = fold_best_ge [of ?fe "\<lambda>(i, e). \<not> excluded d i \<and> es_ok e" "\<lambda>(i, e). es_round e"]
  have p1: "b0 \<le> fold ?fp (d_peers d) b0" by (rule fp(1)) (auto split: prod.splits)
  have p2: "rd \<le> fold ?fp (d_peers d) b0" if "(i, p) \<in> set (d_peers d)" "\<not> excluded d i" "peerRound (d_opts d) p now = (rd, True)" for i p rd
    using fp(2) [of "(i, p)" "d_peers d" b0] that by (auto split: prod.splits)
  have e1: "b \<le> fold ?fe (d_externals d) b" for b by (rule fe(1)) (auto split: prod.splits)
  show "ls_Online local \<Longrightarrow> ls_LastRound local \<le> bestRound d now local"
    using order_trans [OF p1 e1] unfolding best by (simp add: b0_def)
  show "(i, p) \<in> set (d_peers d) \<Longrightarrow> \<not> excluded d i \<Longrightarrow> peerRound (d_opts d) p now = (rd, True) \<Longrightarrow> rd \<le> bestRound d now local"
    unfolding best by (rule order_trans [OF p2 e1])
  show "(n, e) \<in> set (d_externals d) \<Longrightarrow> \<not> excluded d n \<Longrightarrow> es_ok e \<Longrightarrow> es_round e \<le> bestRound d now local"
    using fe(2) [of "(n, e)" "d_externals d"] unfolding best by (auto split: prod.splits)
qed

lemma by_key_iff: "(i, x) \<in> set (by_key xs) \<longleftrightarrow> map_of xs i = Some x"
proof -
  have "(i, x) \<in> set (by_key xs) \<longleftrightarrow> i \<in> dom (map_of xs) \<and> x = the (map_of xs i)"
    by (auto simp: by_key_def dom_map_of_conv_image_fst)
  then show ?thesis by (auto simp: dom_def)
qed

section \<open>The snapshot\<close>

lemma snap_local_reachable:
  assumes "snap_local b local now best d = (u, j)" "u_Health u \<noteq> HealthOffline"
  shows "ls_Online local"
  using assms by (cases "ls_Online local") (auto simp: snap_local_def dest: Judge_False split: prod.splits)

lemma snap_peer_fields:
  "u_ID (fst (snap_peer b now best d i p)) = i" "u_Kind (fst (snap_peer b now best d i p)) = KindPeer"
  "u_Excluded (fst (snap_peer b now best d i p)) = excluded d i"
  by (simp_all add: snap_peer_def Let_def split: prod.splits)

lemma snap_peer_reachable:
  assumes "u_Health (fst (snap_peer b now best d i p)) \<noteq> HealthOffline"
  shows "peerRound (d_opts d) p now = (u_LastRound (fst (snap_peer b now best d i p)), True)"
proof (cases "pr_hasHB p \<and> time_Sub now (pr_seenAt p) \<le> dop_SuspectAfter (d_opts d)")
  case True
  then show ?thesis using assms
    by (cases "hb_Online (pr_hb p)") (auto simp: snap_peer_def peerRound_def Let_def dest: Judge_False split: prod.splits)
next
  case stale: False
  show ?thesis
  proof (cases "pr_probeOK p \<and> time_Sub now (pr_probeAt p) \<le> 2 * dop_ProbeInterval (d_opts d)")
    case True
    have "u_LastRound (fst (snap_peer b now best d i p)) = pr_probeRd p"
      unfolding snap_peer_def Let_def if_not_P [OF stale] if_P [OF True] by (simp split: prod.splits)
    then show ?thesis unfolding peerRound_def if_not_P [OF stale] if_P [OF True] by simp
  next
    case False
    have "u_Health (fst (snap_peer b now best d i p)) = HealthOffline"
      unfolding snap_peer_def Let_def if_not_P [OF stale] if_not_P [OF False] by simp
    then show ?thesis using assms by simp
  qed
qed

section \<open>Properties\<close>

text \<open>
  C27. Reading the registry again, with one record per node: the peers are exactly the nodes of this
  network other than the local one, the balancers exactly its balancers. A peer has the record's
  key, endpoints and (corrected) tier, and one path for each of the record's addresses; everything
  gossip and probes told about it before is kept, the measurements of an address that stays
  included, and a path is never given the measurements of another address.
\<close>

theorem set_records_exact:
  fixes nrm hosts local now recs d
  defines "d' \<equiv> snd (SetRecords nrm hosts local now recs d)" and "network \<equiv> caps_GenesisID (ls_Caps local)"
  assumes "dir_run o0 d" and "distinct (map rec_ID recs)"
  shows "fst ` set (d_peers d') = rec_ID ` {r \<in> set recs. applies d network r \<and> \<not> IsBalancer r}
    \<and> set (Balancers d') = rec_ID ` {r \<in> set recs. applies d network r \<and> IsBalancer r}
    \<and> (\<forall>r \<in> set recs. applies d network r \<and> \<not> IsBalancer r \<longrightarrow>
         (\<exists>p'. map_of (d_peers d') (rec_ID r) = Some p' \<and> taken_over nrm hosts d r p'))"
proof -
  have shape: "dir_shape d" using dir_run_ok [OF assms(3)] by (simp add: dir_ok_def)
  note R = SetRecords_result [OF shape, of nrm hosts local now recs, folded d'_def network_def]
  have "map_of (d_peers d') (rec_ID r) = Some (snd (sync_peer nrm hosts now d r))"
    if "r \<in> set recs" "applies d network r" "\<not> IsBalancer r" for r
    unfolding d'_def using SetRecords_peer [OF assms(4) that(1) that(2) [unfolded network_def] that(3)] .
  then show ?thesis using R(4,5) sync_peer_taken_over [OF shape] by (simp add: Balancers_def)
qed

theorem set_records_exact_witness:
  "\<exists>p'. map_of (d_peers (snd (SetRecords id id sample_state 2000 [sample_record] sample_directory))) ''n1'' = Some p'
     \<and> taken_over id id sample_directory sample_record p'"
proof -
  have run: "dir_run sample_options sample_directory"
    unfolding sample_directory_def by (intro run_step [OF run_new step_records])
  have "applies sample_directory (caps_GenesisID (ls_Caps sample_state)) sample_record" "\<not> IsBalancer sample_record" "rec_ID sample_record = ''n1''"
    by code_simp+
  then show ?thesis using set_records_exact [OF run, of "[sample_record]" id id sample_state 2000] by simp
qed

text \<open>
  C6. Gossip counts only when it is signed by the key the registry has for the node it names: any
  other datagram, an undecodable one included, changes nothing and is not answered. The round that
  releases waiting clients rises only to the round of an authentic heartbeat of an online peer that
  is not excluded; and what is known of a peer is replaced only by an authentic heartbeat of that
  peer, newer than the last one (or after the peer was silent for DownAfter, when it may have
  restarted).
\<close>

theorem gossip_trusted:
  fixes P priv nrm src payload local now d
  defines "d' \<equiv> snd (handle P priv nrm src payload local now d)"
  shows "((\<forall>env. DecodeMessage P payload = Inr env \<longrightarrow> \<not> signed_for P payload d env) \<longrightarrow> d' = d \<and> snd (fst (handle P priv nrm src payload local now d)) = None)
    \<and> (d_hbRound d' \<noteq> d_hbRound d \<longrightarrow>
        (\<exists>env p hb. DecodeMessage P payload = Inr env \<and> map_of (d_peers d) (env_NodeID env) = Some p \<and> signed_by P (ln_pub (pr_ln p)) payload
           \<and> env_HB env = Some hb \<and> hb_Online hb \<and> \<not> excluded d (env_NodeID env)
           \<and> d_hbRound d' = hb_LastRound hb \<and> d_hbRound d < hb_LastRound hb))
    \<and> (\<forall>i. map_of (d_peers d') i = None \<longleftrightarrow> map_of (d_peers d) i = None)
    \<and> (\<forall>i p p'. map_of (d_peers d) i = Some p \<and> map_of (d_peers d') i = Some p' \<and> (pr_hb p', pr_seenAt p', pr_hasHB p') \<noteq> (pr_hb p, pr_seenAt p, pr_hasHB p)
        \<longrightarrow> (\<exists>env. DecodeMessage P payload = Inr env \<and> env_NodeID env = i \<and> signed_by P (ln_pub (pr_ln p)) payload \<and> env_HB env = Some (pr_hb p')
              \<and> pr_seenAt p' = now
              \<and> (pr_hasHB p \<longrightarrow> hb_Seq (pr_hb p) < hb_Seq (pr_hb p') \<or> dop_DownAfter (d_opts d) \<le> time_Sub now (pr_seenAt p))))"
proof (cases "DecodeMessage P payload")
  case (Inl e)
  then show ?thesis by (simp add: d'_def handle_def)
next
  case (Inr env)
  let ?i = "env_NodeID env"
  define r where "r = handleLocked (nrm src) env local now d"
  note S = authentic_signed [OF Inr]
  have u: "\<not> trusted env d \<Longrightarrow> d' = d \<and> snd (fst (handle P priv nrm src payload local now d)) = None"
    using Inr handleLocked_untrusted [of env d "nrm src" local now] by (auto simp: d'_def handle_def split: prod.splits option.splits)
  have d': "d' = snd r" "\<not> signed_for P payload d env \<Longrightarrow> d' = d \<and> snd (fst (handle P priv nrm src payload local now d)) = None"
    subgoal using Inr by (simp add: d'_def handle_def r_def split: prod.splits)
    subgoal using u S(2) by blast
    done
  from handleLocked_peers [where env = env and d = d and now = now and ?from = "nrm src" and local = local, folded r_def, folded d'(1)] show ?thesis
  proof
    assume "\<exists>hb p. map_of (d_peers d) ?i = Some p \<and> authentic env (pr_ln p) \<and> env_HB env = Some hb \<and> env_Probe env = None
      \<and> \<not> stale_heartbeat (d_opts d) hb now p \<and> (\<exists>l. d' = accept_heartbeat ?i hb local now (p\<lparr>pr_ln := l\<rparr>) d)"
    then obtain hb p l where h: "map_of (d_peers d) ?i = Some p" "authentic env (pr_ln p)" "env_HB env = Some hb"
      "\<not> stale_heartbeat (d_opts d) hb now p" "d' = accept_heartbeat ?i hb local now (p\<lparr>pr_ln := l\<rparr>) d" by blast
    note A = accept_heartbeat_result [of ?i hb local now "p\<lparr>pr_ln := l\<rparr>" d, folded h(5)]
    obtain j where j: "map_of (d_peers d') = (map_of (d_peers d))(?i \<mapsto>
      p\<lparr>pr_ln := l, pr_hb := hb, pr_seenAt := now, pr_hasHB := True, pr_silent := False, pr_judge := j\<rparr>)" using A(2) by auto
    have tr: "signed_for P payload d env" using h(1) S(1) [OF h(2)] by (simp add: signed_for_def link_for_def)
    show ?thesis using Inr tr h(1-4) S(1) [OF h(2)] A(1) j
      by (auto simp: max_def not_le stale_heartbeat_def split: if_splits)
  next
    assume B: "d_hbRound d' = d_hbRound d \<and> (\<forall>i. map_option (\<lambda>p. p\<lparr>pr_ln := new_link []\<rparr>) (map_of (d_peers d') i)
          = map_option (\<lambda>p. p\<lparr>pr_ln := new_link []\<rparr>) (map_of (d_peers d) i))"
    have "(map_of (d_peers d') i = None) = (map_of (d_peers d) i = None)" for i using B by (metis option.map_disc_iff)
    moreover have "(pr_hb p', pr_seenAt p', pr_hasHB p') = (pr_hb p, pr_seenAt p, pr_hasHB p)"
      if "map_of (d_peers d) i = Some p" "map_of (d_peers d') i = Some p'" for i p p'
    proof -
      have "p'\<lparr>pr_ln := new_link []\<rparr> = p\<lparr>pr_ln := new_link []\<rparr>" using B that by (metis option.inject option.simps(9))
      from arg_cong [OF this, of "\<lambda>p. (pr_hb p, pr_seenAt p, pr_hasHB p)"] show ?thesis by simp
    qed
    ultimately show ?thesis using B d'(2) Inr by blast
  qed
qed

theorem gossip_trusted_witness:
  "\<exists>env. DecodeMessage sample_primitives (EncodeHeartbeat sample_primitives [5] sample_hb) = Inr env
     \<and> d_hbRound (snd (handle sample_primitives [6] id ''n1:4190'' (EncodeHeartbeat sample_primitives [5] sample_hb) sample_state 2000 sample_directory)) = 1000
     \<and> env_HB env = Some sample_hb"
proof -
  let ?w = "EncodeHeartbeat sample_primitives [5] sample_hb"
  have r: "d_hbRound (snd (handle sample_primitives [6] id ''n1:4190'' ?w sample_state 2000 sample_directory)) = 1000"
    "d_hbRound sample_directory = 0" by code_simp+
  have "DecodeMessage sample_primitives ?w = Inr env \<Longrightarrow> env_HB env = Some sample_hb" for env
    by (auto simp: DecodeMessage_def EncodeHeartbeat_def encodeSigned_def sample_primitives_def Let_def PublicKeySize_def heartbeatHeader_def
        split: if_splits)
  then show ?thesis
    using gossip_trusted [where P = sample_primitives and priv = "[6]" and nrm = id and src = "''n1:4190''" and payload = ?w
        and local = sample_state and now = 2000 and d = sample_directory] r by auto
qed





end
