(* ===== verification/Serve.thy ===== *)
theory Serve
  imports Pending Waits DirectoryGossip
begin

text \<open>
  A request from end to end (src/internal/app/router.go: ServeHTTP, serve, serveAgent, the response
  writers): classification, authorisation, admission, the handler, and the settling of the ticket.
  One request is followed; what others do meanwhile to the directory and the statistics reaches it
  through the snapshots and the replies, which are arguments, and the interleavings of the limiter's
  operations are the subject of LimiterRate. A response is its status and body; of its headers those
  the writers add are modelled.
\<close>

section \<open>Response writers\<close>

type_synonym header_map = "string \<Rightarrow> string list"

definition Header_Set :: "string \<Rightarrow> string \<Rightarrow> header_map \<Rightarrow> header_map" where
  "Header_Set k v h = h(k := [v])"

definition Header_Add :: "string \<Rightarrow> string \<Rightarrow> header_map \<Rightarrow> header_map" where
  "Header_Add k v h = h(k := h k @ [v])"

definition exposedHeaders :: string where
  "exposedHeaders = ''Retry-After, RateLimit, RateLimit-Policy, X-Algod-Mesh-Cost, X-Algod-Mesh-Upstream, X-Algod-Mesh-Tier''"

text \<open>statusWriter.cors.\<close>

definition cors :: "bool \<Rightarrow> header_map \<Rightarrow> header_map" where
  "cors origin h =
     (let h1 = (if ''Origin'' \<in> set (h ''Vary'') then h else Header_Add ''Vary'' ''Origin'' h)
      in if origin
         then Header_Set ''Access-Control-Expose-Headers'' exposedHeaders (Header_Set ''Access-Control-Allow-Origin'' ''*'' h1)
         else h1)"

text \<open>preflight: the headers of the answer to an OPTIONS request.\<close>

definition preflight :: "bool \<Rightarrow> header_map \<Rightarrow> header_map" where
  "preflight origin h =
     (let h1 = Header_Add ''Vary'' ''Origin'' h in
      if origin
      then Header_Set ''Access-Control-Allow-Headers'' ''X-Algo-API-Token,Content-Type''
            (Header_Set ''Access-Control-Allow-Methods'' ''GET,POST,PUT,DELETE,OPTIONS''
              (Header_Add ''Vary'' ''Access-Control-Request-Headers'' (Header_Add ''Vary'' ''Access-Control-Request-Method'' h1)))
      else h1)"

text \<open>
  statusWriter: its own state, the headers, and whether its hook for the final headers has run. The
  hook, the limiter's, is an argument.
\<close>

record statusWriter =
  sw_origin :: bool
  sw_status :: int
  sw_bytes :: int
  sw_header :: header_map

definition sw_begin :: "(int \<Rightarrow> header_map \<Rightarrow> header_map) option \<Rightarrow> int \<Rightarrow> statusWriter \<Rightarrow> statusWriter" where
  "sw_begin onHeader code s =
     (let h = (case onHeader of None \<Rightarrow> sw_header s | Some f \<Rightarrow> f code (sw_header s))
      in s\<lparr>sw_status := code, sw_header := cors (sw_origin s) h\<rparr>)"

definition sw_WriteHeader :: "(int \<Rightarrow> header_map \<Rightarrow> header_map) option \<Rightarrow> int \<Rightarrow> statusWriter \<Rightarrow> statusWriter" where
  "sw_WriteHeader onHeader code s = (if sw_status s = 0 \<and> code \<ge> 200 then sw_begin onHeader code s else s)"

text \<open>Write, of which the connection takes n bytes.\<close>

definition sw_Write :: "(int \<Rightarrow> header_map \<Rightarrow> header_map) option \<Rightarrow> nat \<Rightarrow> statusWriter \<Rightarrow> statusWriter" where
  "sw_Write onHeader n s =
     (let s1 = (if sw_status s = 0 then sw_begin onHeader 200 s else s) in s1\<lparr>sw_bytes := sw_bytes s1 + int n\<rparr>)"

record captureWriter =
  cw_buf :: string
  cw_limit :: nat
  cw_status :: int

definition cw_WriteHeader :: "int \<Rightarrow> captureWriter \<Rightarrow> captureWriter" where
  "cw_WriteHeader code c = (if cw_status c = 0 \<and> code \<ge> 200 then c\<lparr>cw_status := code\<rparr> else c)"

definition cw_Write :: "string \<Rightarrow> captureWriter \<Rightarrow> captureWriter" where
  "cw_Write b c =
     (let c1 = (if cw_status c = 0 then c\<lparr>cw_status := 200\<rparr> else c) in
      if length (cw_buf c1) < cw_limit c1
      then c1\<lparr>cw_buf := cw_buf c1 @ take (min (cw_limit c1 - length (cw_buf c1)) (length b)) b\<rparr>
      else c1)"

section \<open>The agent's own endpoints\<close>

definition anyEligible :: "RouterOptions \<Rightarrow> Upstream list \<Rightarrow> u64 \<Rightarrow> bool" where
  "anyEligible o' cands best = list_ex (\<lambda>u. Eligible u zero_class best (ro_SyncTolerance o')) cands"

text \<open>
  What decides about a request: the snapshot serve takes, the clock at admission, as the final
  headers go out and at the end, the Retry-After of an answer an upstream streams, what the agent's
  endpoints report (the check of the externals with the snapshot taken next, the JSON of the status
  and of the upstreams, the metrics if there are any), and the environments of the handlers.
\<close>

record serve_env =
  sv_snap :: "Upstream list \<times> u64"
  sv_now :: Time
  sv_responding :: Time
  sv_done :: Time
  sv_retryAfter :: string
  sv_check :: "(Upstream list \<times> u64) option"
  sv_statusJSON :: string
  sv_upstreamsJSON :: "Upstream list \<Rightarrow> string"
  sv_metrics :: "string option"
  sv_wait :: wait_env
  sv_pending :: pending_env

definition health_doc :: "u64 \<Rightarrow> string" where
  "health_doc best = ''{\"best_round\":'' @ show_u64 best @ '',\"status\":\"ok\"}''"

definition serveAgent :: "serve_env \<Rightarrow> Request \<Rightarrow> Router \<Rightarrow> answer" where
  "serveAgent env req r =
     (let (cands, best) = sv_snap env; path = TrimSuffix (rq_Path req) ''/'' in
      if path = ''/mesh/health'' then
        (if r_draining r then Message 503 [] ''draining''
         else let (cands, best) = (if \<not> anyEligible (r_opts r) cands best
                    then (case sv_check env of Some s \<Rightarrow> s | None \<Rightarrow> (cands, best)) else (cands, best))
              in if anyEligible (r_opts r) cands best then AgentReply 200 (health_doc best)
                 else Message 503 [] ''no eligible upstream'')
      else if path = ''/mesh/status'' then AgentReply 200 (sv_statusJSON env)
      else if path = ''/mesh/peers'' then AgentReply 200 (sv_upstreamsJSON env cands)
      else if path = ''/mesh/metrics'' then
        (case sv_metrics env of None \<Rightarrow> Message 404 [] ''metrics disabled'' | Some txt \<Rightarrow> AgentReply 200 txt)
      else Message 404 [] ''unknown agent endpoint'')"

section \<open>Serving\<close>

text \<open>serve from the handlers on.\<close>

definition dispatch ::
  "serve_env \<Rightarrow> nat option \<Rightarrow> RequestClass \<Rightarrow> body \<Rightarrow> Upstream list \<Rightarrow> u64 \<Rightarrow> Router \<Rightarrow> (answer \<times> Upstream list \<times> Router) option" where
  "dispatch env tid c b cands best r =
     (if rc_WaitAfter c \<noteq> None then handleWait (sv_wait env) c b cands best r
      else
        let r1 = (case tid of Some t \<Rightarrow> if rc_Simulate c then r\<lparr>r_limiter := map_option (Track t) (r_limiter r)\<rparr> else r
                  | None \<Rightarrow> r)
        in if rc_Broadcast c then handleBroadcast (pe_fan (sv_pending env)) tid c b cands best r1
           else if rc_PendingID c \<noteq> [] then handlePending (sv_pending env) tid c cands best r1
           else handleDefault (ne_route (pe_fan (sv_pending env))) tid c b cands best r1)"

text \<open>serve once the request is admitted: the reply with the fleet's limits, or a handler.\<close>

definition serve_admitted ::
  "serve_env \<Rightarrow> nat option \<Rightarrow> RequestClass \<Rightarrow> body \<Rightarrow> Upstream list \<Rightarrow> u64 \<Rightarrow> Router \<Rightarrow> (answer \<times> Upstream list \<times> Router) option" where
  "serve_admitted env tid c b cands best r =
     (if rc_SimulateLimits c then
        (case FleetSimulateLimits cands best (ro_SyncTolerance (r_opts r)) of
           Some limits \<Rightarrow> Some (LimitsReply limits, [], r)
         | None \<Rightarrow>
           if anySimulateLimits cands
           then Some (Message 503 [] ''algod-mesh: no node that reports simulate limits is available'', [], r)
           else dispatch env tid c b cands best r)
      else dispatch env tid c b cands best r)"

text \<open>The status and the Retry-After header a response goes out with; none for a client that has left.\<close>

definition answer_status :: "answer \<Rightarrow> int option" where
  "answer_status x =
     (case x of Silence \<Rightarrow> None | Streamed _ st _ \<Rightarrow> Some st | Message st _ _ \<Rightarrow> Some st | Denied d \<Rightarrow> Some (dn_Status d)
      | Relayed _ st _ _ \<Rightarrow> Some st | LimitsReply _ \<Rightarrow> Some 200 | AgentReply st _ \<Rightarrow> Some st)"

definition answer_retryAfter :: "serve_env \<Rightarrow> answer \<Rightarrow> string" where
  "answer_retryAfter env x =
     (case x of Streamed _ _ _ \<Rightarrow> sv_retryAfter env
      | Message _ hs _ \<Rightarrow> (case map_of hs ''Retry-After'' of Some v \<Rightarrow> v | None \<Rightarrow> [])
      | Denied d \<Rightarrow> if dn_RetryAfter d > 0 then show_int (ceilSeconds (dn_RetryAfter d)) else []
      | Relayed _ _ hs _ \<Rightarrow> (case map_of hs ''Retry-After'' of Some (v # _) \<Rightarrow> v | _ \<Rightarrow> [])
      | _ \<Rightarrow> [])"

text \<open>A billed request's end: Responding as its final headers go out, then Done.\<close>

definition close_ticket :: "serve_env \<Rightarrow> nat \<Rightarrow> answer \<Rightarrow> Limiter \<Rightarrow> Limiter" where
  "close_ticket env t x l =
     Done t (sv_done env)
       (case answer_status x of None \<Rightarrow> l
        | Some st \<Rightarrow> snd (Responding l (sv_responding env) t st (answer_retryAfter env x)))"

definition serve ::
  "(string \<Rightarrow> 8 word list) \<Rightarrow> (Request \<Rightarrow> string) \<Rightarrow> serve_env \<Rightarrow> Request \<Rightarrow> RequestClass \<Rightarrow> body \<Rightarrow> Router
   \<Rightarrow> (answer \<times> Upstream list \<times> Router) option" where
  "serve sha ckey env req c b r =
     (if rq_Method req = ''OPTIONS'' then Some (AgentReply 204 [], [], r)
      else (case authorize sha ckey r req c of
              Inl (st, msg) \<Rightarrow> Some (Message st [] msg, [], r)
            | Inr i \<Rightarrow>
              if rc_Agent c then Some (serveAgent env req r, [], r)
              else let (cands, best) = sv_snap env in
                if idn_Exempt i then serve_admitted env None c b cands best r
                else (case r_limiter r of
                        None \<Rightarrow> None
                      | Some l \<Rightarrow>
                        (case Admit l (sv_now env) i c best of
                           None \<Rightarrow> None
                         | Some (Inl d, l1) \<Rightarrow> Some (Denied d, [], r\<lparr>r_limiter := Some l1\<rparr>)
                         | Some (Inr t, l1) \<Rightarrow> do {
                             (x, sent, r1) \<leftarrow> serve_admitted env (Some t) c b cands best (r\<lparr>r_limiter := Some l1\<rparr>);
                             Some (x, sent, r1\<lparr>r_limiter := map_option (close_ticket env t x) (r_limiter r1)\<rparr>)
                           }))))"

definition ServeHTTP ::
  "(string \<Rightarrow> 8 word list) \<Rightarrow> (Request \<Rightarrow> string) \<Rightarrow> (8 word list \<Rightarrow> SimulateBody option) \<Rightarrow> (8 word list \<Rightarrow> SimulateBody option)
   \<Rightarrow> serve_env \<Rightarrow> Request \<Rightarrow> Router \<Rightarrow> (answer \<times> Upstream list \<times> Router) option" where
  "ServeHTTP sha ckey msgpack json env req r0 =
     (let r = r0\<lparr>r_inflight := r_inflight r0 + 1\<rparr>;
          c = Classify (rq_Method req) (rq_Path req) (rq_RawQuery req)
      in do {
        (x, sent, r1) \<leftarrow>
          (if rc_Simulate c then
             (case refineSimulate msgpack json (rq_Body req) c of
                None \<Rightarrow> Some (Message 400 [] ''algod-mesh: cannot read request body'', [], r)
              | Some (b, c') \<Rightarrow> serve sha ckey env req c' b r)
           else serve sha ckey env req c (rq_Body req) r);
        Some (x, sent, r1\<lparr>r_inflight := r_inflight r1 - 1\<rparr>)
      })"

text \<open>Draining tells the directory too, and through it the peers: the heartbeat it sends at once.\<close>

definition Draining :: "bool \<Rightarrow> LocalState \<Rightarrow> Router \<times> Directory \<Rightarrow> (Heartbeat \<times> (string \<times> string) list) option \<times> Router \<times> Directory" where
  "Draining v st s =
     (case s of (r, d) \<Rightarrow> (case SetDraining v st d of (hb, d') \<Rightarrow> (hb, r\<lparr>r_draining := v\<rparr>, d')))"

section \<open>What the proofs speak about\<close>

text \<open>The snapshots a request's handlers select from, and the random numbers they draw.\<close>

definition fwd_snaps :: "forward_env \<Rightarrow> (Upstream list \<times> u64) set" where
  "fwd_snaps fe = set_option (fe_check fe)"

definition route_snaps :: "route_env \<Rightarrow> (Upstream list \<times> u64) set" where
  "route_snaps re = set_option (re_check re) \<union> fwd_snaps (re_fwd re)"

definition env_snaps :: "serve_env \<Rightarrow> (Upstream list \<times> u64) set" where
  "env_snaps env = {sv_snap env, we_snap (sv_wait env)} \<union> route_snaps (ne_route (pe_fan (sv_pending env)))
     \<union> route_snaps (we_route (sv_wait env)) \<union> fwd_snaps (we_fwd (sv_wait env))"

definition route_rands :: "route_env \<Rightarrow> bool" where
  "route_rands re = ((\<forall>k. rand_ok (re_rnd re k)) \<and> rand_ok (fe_rnd (re_fwd re)))"

definition env_rands :: "serve_env \<Rightarrow> bool" where
  "env_rands env = (route_rands (ne_route (pe_fan (sv_pending env))) \<and> route_rands (we_route (sv_wait env))
     \<and> rand_ok (we_rnd (sv_wait env)) \<and> rand_ok (fe_rnd (we_fwd (sv_wait env))))"

text \<open>An upstream that was eligible, for the request or a relaxed form of it, in one of the snapshots.\<close>

definition eligible_in :: "(Upstream list \<times> u64) set \<Rightarrow> RouterOptions \<Rightarrow> RequestClass \<Rightarrow> Upstream \<Rightarrow> bool" where
  "eligible_in S o' c u = (\<exists>(cands, best) \<in> S. \<exists>c' \<in> set (c # Relaxed c). \<exists>v \<in> set cands.
     Eligible v c' best (ro_SyncTolerance o') \<and> u_ID u = u_ID v \<and> u_BaseURL u = u_BaseURL v)"

text \<open>The request as it is served: its body and its class, or None when the body cannot be read.\<close>

definition served ::
  "(8 word list \<Rightarrow> SimulateBody option) \<Rightarrow> (8 word list \<Rightarrow> SimulateBody option) \<Rightarrow> Request \<Rightarrow> (body \<times> RequestClass) option" where
  "served msgpack json req =
     (let c = Classify (rq_Method req) (rq_Path req) (rq_RawQuery req) in
      if rc_Simulate c then refineSimulate msgpack json (rq_Body req) c else Some (rq_Body req, c))"

text \<open>What the configuration makes sure of: every plan a client may be on exists.\<close>

definition plans_configured :: "Limiter option \<Rightarrow> bool" where
  "plans_configured lo = (case lo of None \<Rightarrow> True | Some l \<Rightarrow>
     (lo_AnonymousPlan (lim_opts l) = [] \<or> map_of (lim_plans l) (lo_AnonymousPlan (lim_opts l)) \<noteq> None)
     \<and> list_all (\<lambda>(_, t). map_of (lim_plans l) (lt_Plan t) \<noteq> None) (lim_tokens l))"

text \<open>A request to try the theorems on.\<close>

definition sample_serve :: serve_env where
  "sample_serve = (let re = \<lparr>re_rnd = (\<lambda>_. None), re_check = None, re_cut = False, re_fwd = sample_env\<rparr>;
       fan = \<lparr>ne_route = re, ne_event = (\<lambda>_. \<lparr>fv_reply = ReadAll 200 [] [], fv_now = 0, fv_duration = 0, fv_ended = False\<rparr>),
              ne_arrive = id, ne_txid = (\<lambda>_. []), ne_now = 0\<rparr>
     in \<lparr>sv_snap = ([sample_algod, sample_dtalgorand], 1000), sv_now = 0, sv_responding = 0, sv_done = 0, sv_retryAfter = [],
         sv_check = None, sv_statusJSON = [], sv_upstreamsJSON = (\<lambda>_. []), sv_metrics = None,
         sv_wait = \<lparr>we_local = None, we_gone = False, we_passed = False, we_snap = ([], 0), we_status = Inl [], we_rnd = None,
                    we_fwd = sample_env, we_route = re\<rparr>,
         sv_pending = \<lparr>pe_fan = fan, pe_recall = 0, pe_pin = sample_attempt, pe_decode = (\<lambda>_ _. None), pe_grace = 0, pe_leave = None\<rparr>\<rparr>)"

text \<open>What a handler does to a response writer, and the final status a sequence of that sends first.\<close>

datatype write_event = WriteHeader int | Write nat

fun sw_run :: "(int \<Rightarrow> header_map \<Rightarrow> header_map) option \<Rightarrow> write_event list \<Rightarrow> statusWriter \<Rightarrow> statusWriter" where
  "sw_run hook [] s = s"
| "sw_run hook (WriteHeader code # es) s = sw_run hook es (sw_WriteHeader hook code s)"
| "sw_run hook (Write n # es) s = sw_run hook es (sw_Write hook n s)"

fun first_final :: "write_event list \<Rightarrow> int option" where
  "first_final [] = None"
| "first_final (WriteHeader code # es) = (if code \<ge> 200 then Some code else first_final es)"
| "first_final (Write n # es) = Some 200"

fun written :: "write_event list \<Rightarrow> nat" where
  "written [] = 0"
| "written (WriteHeader code # es) = written es"
| "written (Write n # es) = n + written es"

definition new_writer :: "bool \<Rightarrow> header_map \<Rightarrow> statusWriter" where
  "new_writer origin h = \<lparr>sw_origin = origin, sw_status = 0, sw_bytes = 0, sw_header = h\<rparr>"

definition sample_get :: Request where
  "sample_get = sample_request\<lparr>rq_Path := ''/v2/status'', rq_Header := (\<lambda>_. [''client''])\<rparr>"

section \<open>Where a request goes\<close>

lemma eligible_in_mono: "eligible_in S o' c u \<Longrightarrow> S \<subseteq> S' \<Longrightarrow> eligible_in S' o' c u"
  unfolding eligible_in_def by blast

lemma eligible_inI:
  "(cands, best) \<in> S \<Longrightarrow> c' \<in> set (c # Relaxed c) \<Longrightarrow> v \<in> set cands \<Longrightarrow> Eligible v c' best (ro_SyncTolerance o')
   \<Longrightarrow> u_ID u = u_ID v \<Longrightarrow> u_BaseURL u = u_BaseURL v \<Longrightarrow> eligible_in S o' c u"
  unfolding eligible_in_def by blast

lemma sel_eligible_in:
  assumes "router_sel o' rnd cands c' best = Some s" "rand_ok rnd" "(cands', best) \<in> S" "set cands \<subseteq> set cands'" "c' \<in> set (c # Relaxed c)"
    and "u \<in> set (sel_Chosen s # sel_Alternates s)"
  shows "eligible_in S o' c u"
proof -
  obtain v where "v \<in> set cands" "Eligible v c' best (ro_SyncTolerance o')" "u_ID u = u_ID v" "u_BaseURL u = u_BaseURL v"
    using Select_mem [OF assms(1) [unfolded router_sel_def] assms(2)] assms(6) eligible_scored_props by fastforce
  then show ?thesis using assms(3-5) by (auto intro: eligible_inI)
qed

lemma fallback_eligible_in:
  assumes "externalFallback o' (fe_rnd fe) (fe_check fe) c' tried = Some ext" "rand_ok (fe_rnd fe)" "c' \<in> set (c # Relaxed c)"
  shows "eligible_in (fwd_snaps fe) o' c ext"
  using externalFallback_Some [OF assms(1,2)] assms(3) by (auto simp: fwd_snaps_def intro: eligible_inI)

lemma forwardSelected_eligible:
  assumes "forwardSelected fe tid c' b s r = Some (x, sent, r')" "rand_ok (fe_rnd fe)" "c' \<in> set (c # Relaxed c)"
    and "fwd_snaps fe \<subseteq> S" and "\<And>u. u \<in> set (sel_Chosen s # sel_Alternates s) \<Longrightarrow> eligible_in S (r_opts r) c u"
  shows "\<forall>u \<in> set sent. eligible_in S (r_opts r) c u"
  using assms(1)
proof (cases rule: forwardSelected_Some)
  case (1 ans prior mesh r1 ext)
  have p: "prefix mesh (allowed_tries (r_opts r) b s)" and opts: "r_opts r1 = r_opts r"
    using try_upstreams_spec [OF 1(1)] by simp_all
  have mesh: "set mesh \<subseteq> set (sel_Chosen s # sel_Alternates s)"
    by (rule set_mono_prefix [OF prefix_order.trans [OF p allowed_tries_prefix(1)]])
  let ?tries = "allowed_tries (r_opts r) b s"
  have "ext = [] \<or> (\<exists>e. ext = [e] \<and> externalFallback (r_opts r) (fe_rnd fe) (fe_check fe) c' ?tries = Some e)"
  proof -
    have "ext = [] \<or> (\<exists>ans' prior' r2. try_external fe tid c' (replayable b) ?tries prior r1 = Some (ans', prior', ext, r2))"
      using 1(3) by blast
    then show ?thesis
    proof (elim disjE exE)
      fix ans' prior' r2 assume "try_external fe tid c' (replayable b) ?tries prior r1 = Some (ans', prior', ext, r2)"
      from try_external_spec [OF this] show ?thesis unfolding opts by blast
    qed simp
  qed
  then have "\<forall>u \<in> set ext. eligible_in S (r_opts r) c u"
    using eligible_in_mono [OF fallback_eligible_in [OF _ assms(2,3)] assms(4)] by auto
  then show ?thesis using mesh assms(5) 1(2) by auto
qed

lemma pick_eligible:
  assumes "pick o' (re_rnd re) (re_check re) c cands best = (Some s, cands', best')" "route_rands re" "u \<in> set (sel_Chosen s # sel_Alternates s)"
  shows "eligible_in (insert (cands, best) (route_snaps re)) o' c u"
proof -
  have r: "rand_ok (re_rnd re k)" for k using assms(2) by (simp add: route_rands_def)
  show ?thesis
  proof (cases "router_sel o' (re_rnd re 0) cands c best")
    case (Some s0)
    then show ?thesis using assms(1,3) r sel_eligible_in [OF Some, of cands _ c u] by (auto simp: pick_def)
  next
    case None
    then obtain cb where c: "re_check re = Some cb" "router_sel o' (re_rnd re 1) (fst cb) c (snd cb) = Some s"
      using assms(1) by (auto simp: pick_def split: if_splits option.splits)
    show ?thesis using sel_eligible_in [OF c(2) r, of "fst cb" _ c u] assms(3) c(1) by (simp add: route_snaps_def)
  qed
qed

lemma handleDefault_eligible:
  assumes "handleDefault re tid c b cands best r = Some (x, sent, r')" "route_rands re"
  shows "\<forall>u \<in> set sent. eligible_in (insert (cands, best) (route_snaps re)) (r_opts r) c u"
proof -
  let ?S = "insert (cands, best) (route_snaps re)"
  have rands: "rand_ok (fe_rnd (re_fwd re))" "\<And>k. rand_ok (re_rnd re k)" and sub: "fwd_snaps (re_fwd re) \<subseteq> ?S"
    using assms(2) by (auto simp: route_rands_def route_snaps_def)
  obtain so cands' best' where p: "pick (r_opts r) (re_rnd re) (re_check re) c cands best = (so, cands', best')" by (metis prod_cases3)
  show ?thesis
  proof (cases so)
    case (Some s)
    have "forwardSelected (re_fwd re) tid c b s r = Some (x, sent, r')" using assms(1) p Some by (simp add: handleDefault_def)
    from forwardSelected_eligible [OF this rands(1) _ sub, of c] pick_eligible [OF p [unfolded Some] assms(2)] show ?thesis by simp
  next
    case None
    have snap: "(cands', best') \<in> ?S" using p None
      by (auto simp: pick_def route_snaps_def split: option.splits if_splits)
    have relaxed: "\<exists>k. router_sel (r_opts r) (re_rnd re k) cands' c' best' = Some s \<and> c' \<in> set rcs"
      if "relax (r_opts r) (re_rnd re) n cands' best' prev rcs = Some (s, c')" for n prev rcs s c'
      using that by (induction rcs arbitrary: n prev) (auto split: if_splits option.splits)
    show ?thesis
    proof (cases "relax (r_opts r) (re_rnd re) 2 cands' best' c (Relaxed c)")
      case None2: None
      have "sent = []" using assms(1) p None None2
        by (auto simp: handleDefault_def split: if_splits option.splits prod.splits)
      then show ?thesis by simp
    next
      case (Some sc)
      obtain s c' where sc: "sc = (s, c')" by (cases sc)
      obtain k where k: "router_sel (r_opts r) (re_rnd re k) cands' c' best' = Some s" "c' \<in> set (Relaxed c)"
        using relaxed Some sc by blast
      have "forwardSelected (re_fwd re) tid c' b s r = Some (x, sent, r')" using assms(1) p None Some sc by (simp add: handleDefault_def)
      from forwardSelected_eligible [OF this rands(1) _ sub, of c] k(2) sel_eligible_in [OF k(1) rands(2) snap, of c]
      show ?thesis by simp
    qed
  qed
qed

lemma set_dedupeByURL: "set (dedupeByURL us) \<subseteq> set us"
  using dedupe_from_spec [of "[]" us] by (simp add: dedupeByURL_def)

lemma set_meshFirst: "set (meshFirst us) \<subseteq> set us" "us \<noteq> [] \<Longrightarrow> meshFirst us \<noteq> []"
  by (auto simp: meshFirst_def Let_def)

lemma multi_broadcast_eligible:
  assumes "multi_broadcast ne tid c targets r = Some (x, sent, r')" "rand_ok (fe_rnd (re_fwd (ne_route ne)))"
    and "fwd_snaps (re_fwd (ne_route ne)) \<subseteq> S" and "\<And>u. u \<in> set targets \<Longrightarrow> eligible_in S (r_opts r) c u"
  shows "\<forall>u \<in> set sent. eligible_in S (r_opts r) c u"
proof -
  obtain results r1 where f: "fanOut c (ne_event ne) (ne_arrive ne targets) r = Some (results, r1)"
    using assms(1) by (auto simp: multi_broadcast_def split: bind_splits)
  have opts: "r_opts r1 = r_opts r" using f by (auto simp: fanOut_def split: bind_splits)
  have ext: "\<forall>u \<in> set es. eligible_in S (r_opts r) c u" if "broadcast_external ne tid c targets r1 = Some (y, es, r2)" for y es r2
  proof -
    have "es = [] \<or> (\<exists>e. es = [e] \<and> externalFallback (r_opts r) (fe_rnd (re_fwd (ne_route ne))) (fe_check (re_fwd (ne_route ne))) c targets = Some e)"
      using that opts by (auto simp: broadcast_external_def Let_def split: if_splits option.splits bind_splits)
    then show ?thesis using eligible_in_mono [OF fallback_eligible_in [OF _ assms(2)] assms(3)] by auto
  qed
  have "\<exists>es. sent = targets @ es \<and> (es = [] \<or> (\<exists>y r2. broadcast_external ne tid c targets r1 = Some (y, es, r2)))"
    using assms(1) f by (auto simp: multi_broadcast_def split: bind_splits sum.splits option.splits if_splits)
  then show ?thesis using assms(4) ext by auto
qed

lemma handleBroadcast_eligible:
  assumes "handleBroadcast ne tid c b cands best r = Some (x, sent, r')" "route_rands (ne_route ne)"
  shows "\<forall>u \<in> set sent. eligible_in (insert (cands, best) (route_snaps (ne_route ne))) (r_opts r) c u"
proof -
  let ?re = "ne_route ne" and ?S = "insert (cands, best) (route_snaps (ne_route ne))"
  have rands: "rand_ok (fe_rnd (re_fwd ?re))" and sub: "fwd_snaps (re_fwd ?re) \<subseteq> ?S"
    using assms(2) by (auto simp: route_rands_def route_snaps_def)
  obtain so cands' best' where p: "pick (r_opts r) (re_rnd ?re) (re_check ?re) c cands best = (so, cands', best')" by (metis prod_cases3)
  show ?thesis
  proof (cases so)
    case None
    then show ?thesis using assms(1) p by (simp add: handleBroadcast_def)
  next
    case (Some s)
    note el = pick_eligible [OF p [unfolded Some] assms(2)]
    show ?thesis
    proof (cases "ro_MultiBroadcast (r_opts r)")
      case False
      then obtain r1 where "forwardSelected (re_fwd ?re) tid c b s r = Some (x, sent, r1)"
        using assms(1) p Some by (auto simp: handleBroadcast_def split: bind_splits)
      from forwardSelected_eligible [OF this rands _ sub, of c] el show ?thesis by simp
    next
      case True
      define targets where "targets = dedupeByURL (meshFirst (sel_Chosen s # sel_Alternates s))"
      have t: "set targets \<subseteq> set (sel_Chosen s # sel_Alternates s)"
        unfolding targets_def using set_dedupeByURL set_meshFirst(1) by (rule order_trans)
      have "sent = [] \<or> multi_broadcast ne tid c targets r = Some (x, sent, r')"
        using assms(1) p Some True by (auto simp: handleBroadcast_def targets_def split: body.splits option.splits)
      moreover have "\<forall>u \<in> set sent. eligible_in ?S (r_opts r) c u" if "multi_broadcast ne tid c targets r = Some (x, sent, r')"
        using multi_broadcast_eligible [OF that rands sub] el t by blast
      ultimately show ?thesis by auto
    qed
  qed
qed

lemma set_sortByRoundDesc: "set (sortByRoundDesc us) = set us"
  using by_round.mset_SliceStable [of us] by (metis sortByRoundDesc_SliceStable set_mset_mset)

lemma pending_fan_sent: "pending_fan pe c order r = Some (x, sent, r') \<Longrightarrow> sent = order"
  by (auto simp: pending_fan_def Let_def split: bind_splits option.splits if_splits prod.splits)

lemma handlePending_eligible:
  assumes "handlePending pe tid c cands best r = Some (x, sent, r')" "route_rands (ne_route (pe_fan pe))"
  shows "\<forall>u \<in> set sent. eligible_in (insert (cands, best) (route_snaps (ne_route (pe_fan pe)))) (r_opts r) c u"
proof -
  let ?re = "ne_route (pe_fan pe)"
  obtain so cands' best' where p: "pick (r_opts r) (re_rnd ?re) (re_check ?re) c cands best = (so, cands', best')" by (metis prod_cases3)
  show ?thesis
  proof (cases so)
    case None
    then show ?thesis using assms(1) p by (simp add: handlePending_def)
  next
    case (Some s)
    define order where "order = sortByRoundDesc (sel_Chosen s # sel_Alternates s)"
    have order: "set order = set (sel_Chosen s # sel_Alternates s)" by (simp add: order_def set_sortByRoundDesc)
    obtain pin r1 where rec: "recallTxn (rc_PendingID c) (pe_recall pe) r = (pin, r1)" by fastforce
    have "set sent \<subseteq> set order"
    proof (cases "pinned_index pin order")
      case None
      then show ?thesis using assms(1) p Some rec
        by (auto simp: handlePending_def order_def [symmetric] dest!: pending_fan_sent)
    next
      case (Some k)
      have k: "k < length order"
        using Some by (auto simp: pinned_index_def find_Some_iff split: option.splits)
      have "sent = [order ! k] \<or> sent = order ! k # take k order @ drop (Suc k) order"
        using assms(1) p \<open>so = Some s\<close> rec Some
        by (auto simp: handlePending_def order_def [symmetric] Let_def split: bind_splits if_splits dest!: pending_fan_sent)
      then show ?thesis using k by (auto dest: in_set_takeD in_set_dropD)
    qed
    then show ?thesis using pick_eligible [OF p [unfolded Some] assms(2)] order by auto
  qed
qed

lemma handleWait_eligible:
  assumes "handleWait we c b cands best r = Some (x, sent, r')" "route_rands (we_route we)" "rand_ok (we_rnd we)" "rand_ok (fe_rnd (we_fwd we))"
  shows "\<forall>u \<in> set sent. eligible_in ({(cands, best), we_snap we} \<union> route_snaps (we_route we) \<union> fwd_snaps (we_fwd we)) (r_opts r) c u"
    (is "\<forall>u \<in> set sent. eligible_in ?S (r_opts r) c u")
proof -
  have fw: "\<forall>u \<in> set sent. eligible_in ?S (r_opts r) c u" if "forwardNow we c b cs bs r = Some (x, sent, r')" "(cs, bs) \<in> {(cands, best), we_snap we}" for cs bs
    using handleDefault_eligible [OF that(1) [unfolded forwardNow_def] assms(2)] that(2)
      eligible_in_mono [of "insert (cs, bs) (route_snaps (we_route we))" "r_opts r" c _ ?S] by auto
  have sel: "\<forall>u \<in> set sent. eligible_in ?S (r_opts r) c u"
    if "router_sel (r_opts r) (we_rnd we) (filter P (fst (we_snap we))) c (snd (we_snap we)) = Some s"
      "forwardSelected (we_fwd we) None c b s r = Some (x, sent, r')" for P s
  proof (rule forwardSelected_eligible [OF that(2) assms(4)])
    show "eligible_in ?S (r_opts r) c u" if u: "u \<in> set (sel_Chosen s # sel_Alternates s)" for u
      by (rule sel_eligible_in [OF \<open>router_sel _ _ _ _ _ = _\<close> assms(3), where cands' = "fst (we_snap we)" and c = c]) (use u in auto)
  qed auto
  have bal: "sent = [] \<or> forwardNow we c b (fst (we_snap we)) (snd (we_snap we)) r = Some (x, sent, r')"
    if "handleBalancerWait we c b r = Some (x, sent, r')"
    using that by (auto simp: handleBalancerWait_def split: if_splits sum.splits)
  have peer: "\<forall>u \<in> set sent. eligible_in ?S (r_opts r) c u" if "handlePeerWait we c b cands best r = Some (x, sent, r')"
    using that fw sel by (auto simp: handlePeerWait_def Let_def split: if_splits option.splits sum.splits prod.splits)
  show ?thesis using assms(1) bal fw [of "fst (we_snap we)" "snd (we_snap we)"] peer
    by (auto simp: handleWait_def split: if_splits list.splits option.splits)
qed

lemma dispatch_eligible:
  assumes "dispatch env tid c b cands best r = Some (x, sent, r')" "env_rands env" "(cands, best) \<in> env_snaps env"
  shows "\<forall>u \<in> set sent. eligible_in (env_snaps env) (r_opts r) c u"
proof -
  let ?re = "ne_route (pe_fan (sv_pending env))" and ?we = "sv_wait env"
  define r1 where "r1 = (case tid of Some t \<Rightarrow> if rc_Simulate c then r\<lparr>r_limiter := map_option (Track t) (r_limiter r)\<rparr> else r | None \<Rightarrow> r)"
  have r1: "r_opts r1 = r_opts r" by (simp add: r1_def split: option.splits)
  have rands: "route_rands ?re" "route_rands (we_route ?we)" "rand_ok (we_rnd ?we)" "rand_ok (fe_rnd (we_fwd ?we))"
    using assms(2) by (simp_all add: env_rands_def)
  have sub: "insert (cands, best) (route_snaps ?re) \<subseteq> env_snaps env"
    "{(cands, best), we_snap ?we} \<union> route_snaps (we_route ?we) \<union> fwd_snaps (we_fwd ?we) \<subseteq> env_snaps env"
    using assms(3) by (auto simp: env_snaps_def)
  note mono = eligible_in_mono [OF _ sub(1)] eligible_in_mono [OF _ sub(2)]
  consider (wait) "handleWait ?we c b cands best r = Some (x, sent, r')"
    | (broadcast) "handleBroadcast (pe_fan (sv_pending env)) tid c b cands best r1 = Some (x, sent, r')"
    | (pend) "handlePending (sv_pending env) tid c cands best r1 = Some (x, sent, r')"
    | (def) "handleDefault ?re tid c b cands best r1 = Some (x, sent, r')"
    using assms(1) unfolding dispatch_def Let_def r1_def [symmetric] by (auto split: if_splits)
  then show ?thesis
  proof cases
    case wait
    show ?thesis using handleWait_eligible [OF wait rands(2-4)] mono(2) by blast
  next
    case broadcast
    show ?thesis using handleBroadcast_eligible [OF broadcast rands(1)] mono(1) unfolding r1 by blast
  next
    case pend
    show ?thesis using handlePending_eligible [OF pend rands(1)] mono(1) unfolding r1 by blast
  next
    case def
    show ?thesis using handleDefault_eligible [OF def rands(1)] mono(1) unfolding r1 by blast
  qed
qed

lemma serve_admitted_eligible:
  assumes "serve_admitted env tid c b cands best r = Some (x, sent, r')" "env_rands env" "(cands, best) \<in> env_snaps env"
  shows "\<forall>u \<in> set sent. eligible_in (env_snaps env) (r_opts r) c u"
  using assms(1) dispatch_eligible [OF _ assms(2,3)]
  by (auto simp: serve_admitted_def split: if_splits option.splits)

lemma serve_eligible:
  assumes "serve sha ckey env req c b r = Some (x, sent, r')" "env_rands env" "sent \<noteq> []"
  shows "(\<forall>u \<in> set sent. eligible_in (env_snaps env) (r_opts r) c u) \<and> rq_Method req \<noteq> ''OPTIONS'' \<and> \<not> rc_Agent c
    \<and> (\<exists>i. authorize sha ckey r req c = Inr i
        \<and> (idn_Exempt i \<or> (\<exists>l t l1. r_limiter r = Some l \<and> Admit l (sv_now env) i c (snd (sv_snap env)) = Some (Inr t, l1))))"
proof -
  obtain cands best where snap: "sv_snap env = (cands, best)" by fastforce
  have in_env: "(cands, best) \<in> env_snaps env" by (simp add: env_snaps_def snap)
  show ?thesis
  proof (cases "authorize sha ckey r req c")
    case (Inl e)
    then show ?thesis using assms(1,3) by (cases e) (auto simp: serve_def split: if_splits)
  next
    case (Inr i)
    have m: "rq_Method req \<noteq> ''OPTIONS''" "\<not> rc_Agent c" using assms(1,3) Inr by (auto simp: serve_def split: if_splits)
    show ?thesis
    proof (cases "idn_Exempt i")
      case True
      then have "serve_admitted env None c b cands best r = Some (x, sent, r')" using assms(1) Inr m snap by (simp add: serve_def)
      then show ?thesis using serve_admitted_eligible [OF _ assms(2) in_env] Inr True m by blast
    next
      case False
      then obtain l t l1 r1 where l: "r_limiter r = Some l" "Admit l (sv_now env) i c best = Some (Inr t, l1)"
        "serve_admitted env (Some t) c b cands best (r\<lparr>r_limiter := Some l1\<rparr>) = Some (x, sent, r1)"
        using assms(1,3) Inr m snap
        by (auto simp: serve_def split: option.splits sum.splits prod.splits bind_splits)
      then show ?thesis using serve_admitted_eligible [OF l(3) assms(2) in_env] Inr m snap by auto
    qed
  qed
qed

section \<open>Every request is answered\<close>

lemma collect_pending_step:
  "collect_pending rank pos grace leave k chosen (res # rs) =
    (if leave = Some k then None
     else if (case chosen of None \<Rightarrow> False | Some (_, n) \<Rightarrow> n \<ge> pendingInPool) \<and> grace \<le> k then Some chosen
     else if snd (better_of rank pos chosen res) = pendingConfirmed then Some (Some (better_of rank pos chosen res))
     else collect_pending rank pos grace leave (Suc k) (Some (better_of rank pos chosen res)) rs)"
  by (cases chosen) (auto simp: better_of_def Let_def split: prod.splits)

lemma collect_pending_shape:
  assumes "collect_pending rank pos g leave k chosen rs = Some y"
    and "\<And>x n. chosen = Some (x, n) \<Longrightarrow> x \<in> R \<and> n = rank x" and "set rs \<subseteq> R"
  shows "(y = None \<longrightarrow> chosen = None \<and> rs = []) \<and> (\<forall>x n. y = Some (x, n) \<longrightarrow> x \<in> R \<and> n = rank x)"
  using assms
proof (induction rs arbitrary: k chosen)
  case (Cons res rs)
  have b: "x \<in> R \<and> n = rank x" if "better_of rank pos chosen res = (x, n)" for x n
    using that Cons.prems(2,3) by (auto simp: better_of_def split: option.splits if_splits)
  consider "y = chosen" "chosen \<noteq> None" | "y = Some (better_of rank pos chosen res)"
    | "collect_pending rank pos g leave (Suc k) (Some (better_of rank pos chosen res)) rs = Some y"
    using Cons.prems(1) unfolding collect_pending_step by (cases chosen) (auto split: if_splits)
  then show ?case
  proof cases
    case 1
    then show ?thesis using Cons.prems(2) by auto
  next
    case 2
    then show ?thesis using b by (cases "better_of rank pos chosen res") auto
  next
    case 3
    from Cons.IH [OF this] b Cons.prems(3) show ?thesis by auto
  qed
qed auto

lemma writeFan_total: "fr_err (fan_result u ev) = None \<Longrightarrow> \<exists>x. writeFan (fan_result u ev) = Some x"
proof -
  assume "fr_err (fan_result u ev) = None"
  then obtain st h where "fr_resp (fan_result u ev) = Some (st, h)" using fan_result_simps(2) [of u ev] by fastforce
  then show ?thesis by (simp add: writeFan_def)
qed

lemma pending_fan_total:
  assumes "book_ok (r_stats r)" "order \<noteq> []" "mset (ne_arrive (pe_fan pe) order) = mset order"
  shows "\<exists>x r'. pending_fan pe c order r = Some (x, order, r') \<and> book_ok (r_stats r')"
proof -
  let ?fe = "pe_fan pe" and ?rank = "pendingRank (pe_decode pe)"
  let ?us = "ne_arrive ?fe order"
  obtain r1 where f: "fanOut c (ne_event ?fe) ?us r = Some (map (\<lambda>u. fan_result u (ne_event ?fe u)) ?us, r1)" "book_ok (r_stats r1)"
    using assms(1) by (rule fanOut_total)
  define rs where "rs = map (\<lambda>u. fan_result u (ne_event ?fe u)) ?us"
  have ne: "rs \<noteq> []" using assms(2,3) by (auto simp: rs_def)
  show ?thesis
  proof (cases "collect_pending ?rank (pos_of order) (pe_grace pe) (pe_leave pe) 0 None rs")
    case None
    then show ?thesis using f by (simp add: pending_fan_def rs_def Let_def)
  next
    case (Some y)
    have shape: "(y = None \<longrightarrow> None = (None :: (fanResult \<times> nat) option) \<and> rs = []) \<and> (\<forall>x n. y = Some (x, n) \<longrightarrow> x \<in> set rs \<and> n = ?rank x)"
      by (rule collect_pending_shape [OF Some]) simp_all
    then obtain cm where cm: "y = Some cm" using ne by blast
    obtain res where y: "y = Some (res, ?rank res)" "res \<in> set rs"
      using shape cm by (cases cm) blast
    define r2 where "r2 = (if ?rank res = pendingInPool \<or> ?rank res = pendingPoolError
      then rememberTxn (rc_PendingID c) (u_ID (fr_u res)) (ne_now ?fe) r1 else r1)"
    have r2: "book_ok (r_stats r2)" using f(2) by (simp add: r2_def rememberTxn_def)
    note eval = pending_fan_def [of pe c order r] f(1) [folded rs_def] Some y(1) r2_def [symmetric]
    show ?thesis
    proof (cases "fr_err res")
      case None
      then obtain x where "writeFan res = Some x" using y(2) writeFan_total by (auto simp: rs_def)
      then show ?thesis using None r2 by (simp add: eval Let_def)
    next
      case (Some e)
      then have "?rank res = pendingFailed" by (simp add: pendingRank_def)
      then show ?thesis using Some r2 f(2) by (simp add: eval Let_def)
    qed
  qed
qed

lemma recallTxn_stats: "recallTxn tx now r = (p, r1) \<Longrightarrow> r_stats r1 = r_stats r \<and> r_opts r1 = r_opts r"
  by (auto simp: recallTxn_def split: prod.splits)

lemma handlePending_total:
  assumes "book_ok (r_stats r)" "\<And>us. mset (ne_arrive (pe_fan pe) us) = mset us"
  shows "\<exists>x sent r'. handlePending pe tid c cands best r = Some (x, sent, r')"
proof -
  let ?re = "ne_route (pe_fan pe)"
  obtain so cands' best' where p: "pick (r_opts r) (re_rnd ?re) (re_check ?re) c cands best = (so, cands', best')" by (metis prod_cases3)
  show ?thesis
  proof (cases so)
    case None
    then show ?thesis using p by (simp add: handlePending_def)
  next
    case (Some s)
    define order where "order = sortByRoundDesc (sel_Chosen s # sel_Alternates s)"
    have order: "order \<noteq> []" using set_sortByRoundDesc [of "sel_Chosen s # sel_Alternates s"] by (auto simp: order_def)
    obtain pin r1 where rec: "recallTxn (rc_PendingID c) (pe_recall pe) r = (pin, r1)" by fastforce
    have ok: "book_ok (r_stats r1)" using recallTxn_stats [OF rec] assms(1) by simp
    show ?thesis
    proof (cases "pinned_index pin order")
      case None
      then show ?thesis using p Some rec pending_fan_total [where pe = pe and c = c, OF ok order assms(2)]
        by (auto simp: handlePending_def order_def [symmetric])
    next
      case (Some k)
      let ?rest = "take k order @ drop (Suc k) order"
      obtain r2 where f: "forward (fe_url_ok (re_fwd ?re)) tid c [404] (order ! k) (pe_pin pe) r1
          = Some (outcome_of (fe_url_ok (re_fwd ?re)) c [404] (order ! k) (pe_pin pe), r2)" "book_ok (r_stats r2)"
        using ok by (rule forward_total)
      have "\<exists>x r'. pending_fan pe c ?rest r2 = Some (x, ?rest, r')" if "?rest \<noteq> []"
        using pending_fan_total [where pe = pe, OF f(2) that assms(2)] by blast
      then show ?thesis using p \<open>so = Some s\<close> rec Some f(1)
        by (cases "?rest = []") (auto simp: handlePending_def order_def [symmetric] Let_def)
    qed
  qed
qed

lemma multi_broadcast_total:
  assumes "book_ok (r_stats r)" "targets \<noteq> []" "mset (ne_arrive ne targets) = mset targets"
  shows "\<exists>x sent r'. multi_broadcast ne tid c targets r = Some (x, sent, r')"
proof -
  let ?us = "ne_arrive ne targets"
  obtain r1 where f: "fanOut c (ne_event ne) ?us r = Some (map (\<lambda>u. fan_result u (ne_event ne u)) ?us, r1)" "book_ok (r_stats r1)"
    using assms(1) by (rule fanOut_total)
  define rs where "rs = map (\<lambda>u. fan_result u (ne_event ne u)) ?us"
  have ne: "rs \<noteq> []" using assms(2,3) by (auto simp: rs_def)
  have w: "\<exists>x. writeFan res = Some x" if "res \<in> set rs" "fr_err res = None" for res
    using that writeFan_total by (auto simp: rs_def)
  note eval = multi_broadcast_def [of ne tid c targets r] f(1) [folded rs_def]
  show ?thesis
  proof (cases "collect_broadcast rs None 0")
    case (Inl res)
    then have "res \<in> set rs" "fr_err res = None" using collect_broadcast_spec [where rs = rs and fb = None and n = 0] by auto
    then obtain x where "writeFan res = Some x" using w by blast
    then show ?thesis by (simp add: eval Inl)
  next
    case (Inr fn)
    obtain fb n where fn: "fn = (fb, n)" by (cases fn)
    obtain x0 where "x0 \<in> set rs" using ne by (cases rs) auto
    then obtain g where g: "fb = Some g" "g \<in> set rs"
      using collect_broadcast_spec [where rs = rs and fb = None and n = 0] unfolding Inr fn by auto
    obtain y where y: "(case fr_err g of Some e \<Rightarrow> Some (Message 502 [] (''algod-mesh: broadcast failed on every node: '' @ e)) | None \<Rightarrow> writeFan g) = Some y"
      using w [OF g(2)] by (cases "fr_err g") auto
    obtain x es r2 where b: "broadcast_external ne tid c targets r1 = Some (x, es, r2)"
      using broadcast_external_total [OF f(2)] by blast
    show ?thesis using y g(1) b by (cases x) (auto simp: eval Inr fn)
  qed
qed

lemma handleBroadcast_total:
  assumes "book_ok (r_stats r)" "\<And>us. mset (ne_arrive ne us) = mset us"
  shows "\<exists>x sent r'. handleBroadcast ne tid c b cands best r = Some (x, sent, r')"
proof -
  let ?re = "ne_route ne"
  obtain so cands' best' where p: "pick (r_opts r) (re_rnd ?re) (re_check ?re) c cands best = (so, cands', best')" by (metis prod_cases3)
  show ?thesis
  proof (cases so)
    case None
    then show ?thesis using p by (simp add: handleBroadcast_def)
  next
    case (Some s)
    define targets where "targets = dedupeByURL (meshFirst (sel_Chosen s # sel_Alternates s))"
    have "u_BaseURL ` set targets = u_BaseURL ` set (meshFirst (sel_Chosen s # sel_Alternates s))"
      using dedupe_from_spec [of "[]"] by (simp add: targets_def dedupeByURL_def)
    then have "targets \<noteq> []" using set_meshFirst(2) [of "sel_Chosen s # sel_Alternates s"] by auto
    from multi_broadcast_total [OF assms(1) this assms(2)] obtain m where "multi_broadcast ne tid c targets r = Some m" by blast
    moreover obtain y where "forwardSelected (re_fwd ?re) tid c b s r = Some y"
      using forwardSelected_total [OF assms(1)] by blast
    ultimately show ?thesis using p Some
      by (cases m; cases y) (simp add: handleBroadcast_def targets_def [symmetric] split: body.splits option.splits)
  qed
qed

lemma handleWait_total:
  assumes "book_ok (r_stats r)" "ahead_has_round c" "rc_WaitAfter c \<noteq> None"
  shows "\<exists>x sent r'. handleWait we c b cands best r = Some (x, sent, r')"
proof -
  have now: "\<exists>x sent r'. forwardNow we c b cs bs r = Some (x, sent, r')" for cs bs
    using handleDefault_total [OF assms(1,2)] unfolding forwardNow_def by blast
  have sel: "\<exists>x sent r'. forwardSelected fe None c b s r = Some (x, sent, r')" for fe s
    using forwardSelected_total [OF assms(1)] by blast
  obtain after where a: "rc_WaitAfter c = Some after" using assms(3) by auto
  obtain cs bs where snap: "we_snap we = (cs, bs)" by fastforce
  have peer: "\<exists>x sent r'. handlePeerWait we c b cands best r = Some (x, sent, r')"
    using now sel by (simp add: handlePeerWait_def a snap split: option.splits sum.splits prod.splits)
  have bal: "\<exists>x sent r'. handleBalancerWait we c b r = Some (x, sent, r')"
    using now by (simp add: handleBalancerWait_def a split: sum.splits prod.splits)
  show ?thesis using peer bal by (cases cands) (simp_all add: handleWait_def a split: option.splits)
qed

lemma dispatch_total:
  assumes "book_ok (r_stats r)" "ahead_has_round c" "\<And>us. mset (ne_arrive (pe_fan (sv_pending env)) us) = mset us"
  shows "\<exists>x sent r'. dispatch env tid c b cands best r = Some (x, sent, r')"
proof -
  define r1 where "r1 = (case tid of Some t \<Rightarrow> if rc_Simulate c then r\<lparr>r_limiter := map_option (Track t) (r_limiter r)\<rparr> else r | None \<Rightarrow> r)"
  have ok: "book_ok (r_stats r1)" using assms(1) by (simp add: r1_def split: option.splits)
  have "\<exists>x sent r'. handleDefault re tid c b cands best r1 = Some (x, sent, r')" for re
    using handleDefault_total [OF ok assms(2)] by blast
  then show ?thesis unfolding dispatch_def Let_def r1_def [symmetric]
    using handleWait_total [OF assms(1,2)] handleBroadcast_total [where ne = "pe_fan (sv_pending env)", OF ok assms(3)]
      handlePending_total [where pe = "sv_pending env", OF ok assms(3)] by presburger
qed

lemma serve_admitted_total:
  assumes "book_ok (r_stats r)" "ahead_has_round c" "\<And>us. mset (ne_arrive (pe_fan (sv_pending env)) us) = mset us"
  shows "\<exists>x sent r'. serve_admitted env tid c b cands best r = Some (x, sent, r')"
  using dispatch_total [where env = env, OF assms] unfolding serve_admitted_def by (auto split: option.splits)

lemma Identify_plan:
  assumes "plans_configured (Some l)" "Identify l sha ra ck tok = Some i"
  shows "idn_Exempt i \<or> map_of (lim_plans l) (idn_Plan i) \<noteq> None"
proof -
  have tokens: "map_of (lim_plans l) (lt_Plan t) \<noteq> None" if "map_of (lim_tokens l) h = Some t" for h t
    using assms(1) map_of_SomeD [OF that] by (auto simp: plans_configured_def list_all_iff)
  show ?thesis using assms tokens [of "sha tok"]
    by (auto simp: plans_configured_def Identify_def split: if_splits option.splits)
qed

lemma authorize_limiter:
  assumes "authorize sha ckey r req c = Inr i" "\<not> idn_Exempt i"
  shows "\<exists>l tok. r_limiter r = Some l \<and> Identify l sha (rq_RemoteAddr req) (ckey req) tok = Some i"
  using assms by (auto simp: authorize_def exempt_def Let_def split: if_splits option.splits)

lemma serve_total:
  assumes "book_ok (r_stats r)" "ahead_has_round c" "plans_configured (r_limiter r)"
    and "\<And>us. mset (ne_arrive (pe_fan (sv_pending env)) us) = mset us"
  shows "\<exists>x sent r'. serve sha ckey env req c b r = Some (x, sent, r')"
proof -
  obtain cands best where snap: "sv_snap env = (cands, best)" by fastforce
  have adm: "\<exists>x sent r'. serve_admitted env tid c b cands best (r\<lparr>r_limiter := lo\<rparr>) = Some (x, sent, r')" for tid lo
    using serve_admitted_total [where env = env and r = "r\<lparr>r_limiter := lo\<rparr>", OF _ assms(2,4)] assms(1) by simp
  show ?thesis
  proof (cases "authorize sha ckey r req c")
    case (Inl e)
    then show ?thesis by (cases e) (simp add: serve_def)
  next
    case (Inr i)
    show ?thesis
    proof (cases "idn_Exempt i")
      case True
      then show ?thesis using Inr snap adm [of None "r_limiter r"] by (simp add: serve_def)
    next
      case False
      then obtain l tok where l: "r_limiter r = Some l" "Identify l sha (rq_RemoteAddr req) (ckey req) tok = Some i"
        using authorize_limiter [OF Inr] by blast
      then obtain dt l1 where a: "Admit l (sv_now env) i c best = Some (dt, l1)"
        using Identify_plan [OF _ l(2)] assms(3) False by (fastforce simp: Admit_def)
      obtain x sent r1 where y: "serve_admitted env (Some t) c b cands best (r\<lparr>r_limiter := Some l1\<rparr>) = Some (x t, sent t, r1 t)" for t
        using adm [of "Some t" "Some l1" for t] by metis
      show ?thesis using Inr False l(1) a y snap by (cases dt) (simp_all add: serve_def)
    qed
  qed
qed

lemma ServeHTTP_served:
  "ServeHTTP sha ckey msgpack json env req r0 =
     (case served msgpack json req of
        None \<Rightarrow> Some (Message 400 [] ''algod-mesh: cannot read request body'', [], r0)
      | Some (b, c) \<Rightarrow> map_option (\<lambda>(x, sent, r1). (x, sent, r1\<lparr>r_inflight := r_inflight r1 - 1\<rparr>))
          (serve sha ckey env req c b (r0\<lparr>r_inflight := r_inflight r0 + 1\<rparr>)))"
  by (auto simp: ServeHTTP_def served_def Let_def map_option_case split: option.splits bind_splits)

lemma served_ahead: "served msgpack json req = Some (b, c) \<Longrightarrow> ahead_has_round c"
  by (auto simp: served_def Let_def intro: ahead_refine ahead_Classify split: if_splits)

section \<open>The writers\<close>

lemma sw_run_begun: "sw_status s \<noteq> 0 \<Longrightarrow> sw_run hook es s = s\<lparr>sw_bytes := sw_bytes s + int (written es)\<rparr>"
  by (induction es arbitrary: s rule: written.induct) (simp_all add: sw_WriteHeader_def sw_Write_def)

lemma cw_run:
  assumes "cw_buf c = take (cw_limit c) done"
  shows "cw_buf (fold cw_Write bs c) = take (cw_limit c) (done @ concat bs)"
  using assms
proof (induction bs arbitrary: c "done")
  case (Cons b bs)
  have "cw_limit (cw_Write b c) = cw_limit c" by (simp add: cw_Write_def Let_def)
  moreover have "cw_buf (cw_Write b c) = take (cw_limit c) (done @ b)"
    using Cons.prems by (auto simp: cw_Write_def Let_def min_def not_less)
  ultimately show ?case using Cons.IH [of "cw_Write b c" "done @ b"] by simp
qed simp

section \<open>Properties\<close>

text \<open>
  C1. Where a request may go: an upstream gets a request only if its client may send it (the client
  is authorised, the request is not one the agent answers itself and no preflight, and a client on
  a plan was admitted by the limiter), and only an upstream that was eligible for the request, or
  for a form of it relaxed as the router relaxes simulations, in one of the snapshots taken for it.
  This holds for every handler: a plain request with its retries, a submission to one node or to
  all, a pending lookup, a wait for a round, and the last resort to an external.
\<close>

theorem request_destination:
  assumes "ServeHTTP sha ckey msgpack json env req r = Some (x, sent, r')" and "env_rands env" and "sent \<noteq> []"
  shows "\<exists>b c i. served msgpack json req = Some (b, c) \<and> rq_Method req \<noteq> ''OPTIONS'' \<and> \<not> rc_Agent c
    \<and> authorize sha ckey r req c = Inr i
    \<and> (idn_Exempt i \<or> (\<exists>l t l1. r_limiter r = Some l \<and> Admit l (sv_now env) i c (snd (sv_snap env)) = Some (Inr t, l1)))
    \<and> (\<forall>u \<in> set sent. eligible_in (env_snaps env) (r_opts r) c u)"
proof -
  obtain b c where s: "served msgpack json req = Some (b, c)"
    using assms(1,3) by (auto simp: ServeHTTP_served split: option.splits)
  then obtain r1 where r1: "serve sha ckey env req c b (r\<lparr>r_inflight := r_inflight r + 1\<rparr>) = Some (x, sent, r1)"
    using assms(1) by (auto simp: ServeHTTP_served)
  have "authorize sha ckey (r\<lparr>r_inflight := n\<rparr>) req c = authorize sha ckey r req c" for n by (simp add: authorize_def Let_def)
  then show ?thesis using serve_eligible [OF r1 assms(2,3)] s by auto
qed

theorem request_destination_witness:
  "\<exists>x sent r'. ServeHTTP (\<lambda>_. []) (\<lambda>_. []) (\<lambda>_. None) (\<lambda>_. None) sample_serve sample_get sample_router = Some (x, sent, r')
     \<and> sent \<noteq> [] \<and> (\<exists>c. \<forall>u \<in> set sent. eligible_in (env_snaps sample_serve) (r_opts sample_router) c u)"
proof -
  have "case ServeHTTP (\<lambda>_. []) (\<lambda>_. []) (\<lambda>_. None) (\<lambda>_. None) sample_serve sample_get sample_router of
      None \<Rightarrow> False | Some (x, sent, r') \<Rightarrow> sent \<noteq> []" by code_simp
  then obtain x sent r' where s: "ServeHTTP (\<lambda>_. []) (\<lambda>_. []) (\<lambda>_. None) (\<lambda>_. None) sample_serve sample_get sample_router = Some (x, sent, r')"
    "sent \<noteq> []" by (auto split: option.splits)
  have "env_rands sample_serve"
    by (simp add: env_rands_def route_rands_def sample_serve_def sample_env_def Let_def rand_ok_def)
  then show ?thesis using request_destination [OF s(1) _ s(2)] s by blast
qed



text \<open>
  The final headers go out once: whatever a handler writes, informational headers, a status, body
  parts, a status again, the limiter's hook and the CORS headers are applied exactly once, to the
  first final status (200 when the body comes first), and the byte count is that of the body. With an
  Origin the answer carries exactly one Access-Control-Allow-Origin, whatever an upstream sent.
\<close>

theorem final_headers_once:
  "sw_run hook es (new_writer origin h) =
     (case first_final es of
        None \<Rightarrow> new_writer origin h
      | Some code \<Rightarrow> \<lparr>sw_origin = origin, sw_status = code, sw_bytes = int (written es),
          sw_header = cors origin (case hook of None \<Rightarrow> h | Some f \<Rightarrow> f code h)\<rparr>)
   \<and> cors True h ''Access-Control-Allow-Origin'' = [''*'']"
proof -
  have "sw_run hook es (new_writer origin h) =
     (case first_final es of
        None \<Rightarrow> new_writer origin h
      | Some code \<Rightarrow> \<lparr>sw_origin = origin, sw_status = code, sw_bytes = int (written es),
          sw_header = cors origin (case hook of None \<Rightarrow> h | Some f \<Rightarrow> f code h)\<rparr>)"
    by (induction es rule: first_final.induct; cases hook)
      (simp_all add: sw_WriteHeader_def sw_Write_def sw_begin_def new_writer_def Let_def sw_run_begun split: option.splits)
  then show ?thesis by (simp add: cors_def Header_Set_def Let_def)
qed

text \<open>
  The capturing writer refines its specification: however the answer to a submission is cut
  into writes, the writer holds the first bytes of the body up to its limit, which is what the
  model of the broadcast reads the transaction id from.
\<close>

theorem capture_refines:
  "cw_buf (fold cw_Write chunks \<lparr>cw_buf = [], cw_limit = 8192, cw_status = 0\<rparr>) = captured (concat chunks)"
  using cw_run [of "\<lparr>cw_buf = [], cw_limit = 8192, cw_status = 0\<rparr>" "[]" chunks] by (simp add: captured_def)

end
