(* ===== verification/RouterRun.thy ===== *)
theory RouterRun
  imports Serve
begin

text \<open>
  What serving a request leaves as it was: the plans and tokens the limiter was configured with, the
  options of the router, and a book of observations that is in order. So a router answers every
  request of any sequence of them (router_run), not just the first.
\<close>

section \<open>Definitions\<close>

definition door :: "Limiter \<Rightarrow> LimiterOptions \<times> (string \<times> Plan) list \<times> (8 word list \<times> LimitToken) list" where
  "door l = (lim_opts l, lim_plans l, lim_tokens l)"

definition kept :: "Router \<Rightarrow> Router \<Rightarrow> bool" where
  "kept r r' = ((book_ok (r_stats r) \<longrightarrow> book_ok (r_stats r')) \<and> map_option door (r_limiter r') = map_option door (r_limiter r) \<and> r_opts r' = r_opts r)"

text \<open>Requests served one after the other, whatever the environment does at each, and the limiter's loop between them.\<close>

inductive router_run ::
  "(string \<Rightarrow> 8 word list) \<Rightarrow> (Request \<Rightarrow> string) \<Rightarrow> (8 word list \<Rightarrow> SimulateBody option) \<Rightarrow> (8 word list \<Rightarrow> SimulateBody option)
   \<Rightarrow> Router \<Rightarrow> Router \<Rightarrow> bool" for sha ckey msgpack json where
  run_none: "router_run sha ckey msgpack json r r"
| run_request: "router_run sha ckey msgpack json r r1 \<Longrightarrow> ServeHTTP sha ckey msgpack json env req r1 = Some (x, sent, r2)
    \<Longrightarrow> router_run sha ckey msgpack json r r2"
| run_limiter: "router_run sha ckey msgpack json r r1 \<Longrightarrow> f \<in> {tick now, sweep now, \<lambda>l. snd (save now l), load now st}
    \<Longrightarrow> router_run sha ckey msgpack json r (r1\<lparr>r_limiter := map_option f (r_limiter r1)\<rparr>)"

section \<open>Lemmas\<close>

lemma kept_refl [simp]: "kept r r"
  by (simp add: kept_def)

lemma kept_trans [trans]: "kept r r1 \<Longrightarrow> kept r1 r2 \<Longrightarrow> kept r r2"
  by (auto simp: kept_def)

lemma kept_pins [simp]: "kept r (r\<lparr>r_pins := p\<rparr>)" "kept r (r\<lparr>r_inflight := n\<rparr>)"
  by (simp_all add: kept_def)

lemma kept_pinned: "kept r (rememberTxn t u now r)" "kept r (pin_answer env x r)" "kept r (snd (recallTxn t now r))"
  by (auto simp: rememberTxn_def pin_answer_def recallTxn_def split: answer.splits prod.splits)

text \<open>The limiter's operations.\<close>

lemma door_put [simp]: "door (put_key r k l) = door l" "door (upd_key r f l) = door l" "door (upd_ticket t g l) = door l"
  by (auto simp: door_def put_key_def upd_key_def upd_ticket_def split: keyref.splits option.splits)

lemma door_lim_key: "lim_key l i plan = (r, l1) \<Longrightarrow> door l1 = door l"
  by (auto simp: lim_key_def door_def split: option.splits if_splits)

lemma door_more [simp]: "door (l\<lparr>lim_active := a\<rparr>) = door l" "door (l\<lparr>lim_tickets := ts\<rparr>) = door l"
  by (simp_all add: door_def)

lemma door_admit_key: "admit_key l r now un c ck cost = (x, l1) \<Longrightarrow> door l1 = door l"
  by (auto simp: admit_key_def Let_def split: if_splits prod.splits)

lemma door_Admit: "Admit l now i c best = Some (x, l1) \<Longrightarrow> door l1 = door l"
  by (auto simp: Admit_def admit_plan_def Let_def dest!: door_lim_key door_admit_key split: option.splits if_splits prod.splits)

lemma door_billing [simp]: "door (Reported t e l) = door l" "door (Track t l) = door l" "door (refund t l) = door l" "door (Done t now l) = door l"
    "door (snd (Exhausted l now t)) = door l" "door (snd (Responding l now t st ra)) = door l" "door (close_ticket env t x l) = door l"
proof -
  show d: "door (Reported t e l) = door l" "door (Track t l) = door l" "door (refund t l) = door l" for l
    by (simp_all add: Reported_def Track_def refund_def Let_def)
  show e: "door (Done t now l) = door l" "door (snd (Exhausted l now t)) = door l" for now l
    by (simp_all add: Done_def Exhausted_def Let_def)
  show f: "door (snd (Responding l now t st ra)) = door l" for now st ra l
    using d(3) by (simp add: Responding_def Let_def)
  show "door (close_ticket env t x l) = door l" using e f by (simp add: close_ticket_def split: option.split)
qed

lemma door_fold: "(\<And>x l. door (f x l) = door l) \<Longrightarrow> door (fold f xs l) = door l"
  by (induction xs arbitrary: l) auto

lemma door_loop:
  assumes "f \<in> {tick now, sweep now, \<lambda>l. snd (save now l), load now st}"
  shows "door (f l) = door l"
proof -
  have "door (tick_key now x l) = door l" for x l by (auto simp: tick_key_def Let_def door_fold split: option.split)
  then have "door (tick now l) = door l" by (simp add: tick_def door_fold)
  moreover have "door (sweep now l) = door l" by (simp add: sweep_def door_def Let_def split: option.split)
  moreover have "door (snd (save now l)) = door l" by (simp add: save_def door_def Let_def)
  moreover have "door (load_key now x l) = door l" for x l by (auto simp: load_key_def Let_def split: option.split prod.split)
  then have "door (load now st l) = door l" by (simp add: load_def door_fold)
  ultimately show ?thesis using assms by auto
qed

text \<open>One attempt, the attempts of a request, and the handlers.\<close>

lemma kept_forward:
  assumes "forward url_ok tid c retry u a r = Some (out, r')"
  shows "kept r r'"
proof -
  have b: "book_ok (r_stats r) \<longrightarrow> book_ok (r_stats r')"
  proof
    assume "book_ok (r_stats r)"
    then have "book_ok (release (Begin (r_stats r) (u_ID u)) (u_ID u))" by auto
    then obtain b' where "account c u a (outcome_of url_ok c retry u a) (release (Begin (r_stats r) (u_ID u)) (u_ID u)) = Some b'" "book_ok b'"
      by (rule book_ok_account)
    then show "book_ok (r_stats r')" using assms by (auto simp: forward_def Let_def)
  qed
  have "door (snd (effortReader t u vs l)) = door l" for t vs l by (simp add: effortReader_def split: option.split)
  then have "map_option door (effort_billed url_ok tid u a l) = map_option door l" for l
    by (simp add: effort_billed_def option.map_comp comp_def split: option.split upstream_reply.split)
  then show ?thesis using b assms by (auto simp: kept_def forward_def Let_def bind_eq_Some_conv)
qed

lemma kept_quota: "answerQuotaExceeded now tid r = (x, r') \<Longrightarrow> kept r r'"
proof -
  assume "answerQuotaExceeded now tid r = (x, r')"
  moreover have "door l' = door l" if "Exhausted l now t = (d, l')" for l l' t d using door_billing(5) [of l now t] that by simp
  ultimately show ?thesis by (auto simp: answerQuotaExceeded_def kept_def split: option.splits prod.splits)
qed

lemma kept_tries: "try_upstreams env tid c i prior us r = Some (ans, prior', sent, r') \<Longrightarrow> kept r r'"
proof (induction us arbitrary: i prior r ans prior' sent)
  case (Cons u us)
  show ?case
  proof (cases "i > 0 \<and> \<not> at_timeLeft (fe_try env i)")
    case False
    then obtain out r1 where f: "forward (fe_url_ok env) tid c [] u (fe_try env i) r = Some (out, r1)"
      using Cons.prems by (auto simp: Let_def bind_eq_Some_conv)
    have "kept r1 r'"
      using Cons.prems f False
      by (auto simp: Let_def bind_eq_Some_conv split: if_splits prod.splits dest: kept_quota Cons.IH)
    then show ?thesis using kept_forward [OF f] kept_trans by blast
  qed (use Cons.prems in auto)
qed simp

lemma kept_external:
  assumes "try_external env tid c replay tries prior r = Some (ans, prior', sent, r')"
  shows "kept r r'"
  using assms unfolding try_external_def
  by (auto simp: bind_eq_Some_conv split: if_split_asm option.splits prod.splits dest!: kept_forward kept_quota intro: kept_trans)

lemma kept_forwardSelected:
  assumes "forwardSelected env tid c b s r = Some (x, sent, r')"
  shows "kept r r'"
proof -
  obtain ans prior sent0 tries r1 where t: "try_upstreams env tid c 0 None tries r = Some (ans, prior, sent0, r1)"
      "r' = r1 \<or> (\<exists>ans' prior' sent' r2. try_external env tid c (replayable b) tries prior r1 = Some (ans', prior', sent', r2) \<and> kept r2 r')"
    using assms unfolding forwardSelected_def Let_def bind_eq_Some_conv
    by (auto simp: bind_eq_Some_conv split: option.splits if_splits prod.splits dest: kept_quota) 
  then show ?thesis using kept_tries [OF t(1)] kept_external kept_trans by metis
qed

lemma kept_handleDefault: "handleDefault env tid c b cands best r = Some (x, sent, r') \<Longrightarrow> kept r r'"
  by (auto simp: handleDefault_def dest: kept_forwardSelected kept_quota split: option.splits if_splits prod.splits)

lemma kept_fanOut:
  assumes "fanOut c ev us r = Some (res, r')"
  shows "kept r r'"
proof -
  have "book_ok (r_stats r) \<longrightarrow> book_ok (r_stats r')" using fanOut_total [of r c ev us] assms by fastforce
  then show ?thesis using assms by (auto simp: kept_def fanOut_def bind_eq_Some_conv)
qed

lemma kept_broadcast_external:
  assumes "broadcast_external env tid c targets r = Some (x, sent, r')"
  shows "kept r r'"
proof -
  have "r' = r \<or> (\<exists>ext out r1. forward (fe_url_ok (re_fwd (ne_route env))) tid c [] ext (fe_ext (re_fwd (ne_route env))) r = Some (out, r1)
      \<and> (r' = r1 \<or> (\<exists>y. r' = pin_answer env y r1)))"
    using assms unfolding broadcast_external_def Let_def by (auto simp: bind_eq_Some_conv split: if_split_asm option.splits)
  then show ?thesis using kept_forward kept_pinned(2) kept_trans by (metis kept_refl)
qed

lemma kept_multi_broadcast:
  assumes "multi_broadcast env tid c targets r = Some (x, sent, r')"
  shows "kept r r'"
proof -
  obtain results r1 where f: "fanOut c (ne_event env) (ne_arrive env targets) r = Some (results, r1)"
    using assms by (auto simp: multi_broadcast_def bind_eq_Some_conv)
  have "kept r1 r'"
    using assms f by (auto simp: multi_broadcast_def bind_eq_Some_conv kept_pinned dest: kept_broadcast_external split: sum.splits option.splits if_splits prod.splits)
  then show ?thesis using kept_fanOut [OF f] kept_trans by blast
qed

lemma kept_handleBroadcast:
  assumes "handleBroadcast env tid c b cands best r = Some (x, sent, r')"
  shows "kept r r'"
proof -
  obtain so cands' best' where p: "pick (r_opts r) (re_rnd (ne_route env)) (re_check (ne_route env)) c cands best = (so, cands', best')"
    by (metis prod_cases3)
  show ?thesis
  proof (cases so)
    case None
    then show ?thesis using assms p by (simp add: handleBroadcast_def)
  next
    case (Some s)
    let ?targets = "dedupeByURL (meshFirst (sel_Chosen s # sel_Alternates s))"
    show ?thesis
    proof (cases "ro_MultiBroadcast (r_opts r)")
      case True
      then have "r' = r \<or> multi_broadcast env tid c ?targets r = Some (x, sent, r')"
        using assms p Some by (auto simp: handleBroadcast_def split: body.splits option.splits)
      then show ?thesis using kept_multi_broadcast by auto
    next
      case False
      then obtain r1 where "forwardSelected (re_fwd (ne_route env)) tid c b s r = Some (x, sent, r1)" "r' = pin_answer env x r1"
        using assms p Some by (auto simp: handleBroadcast_def bind_eq_Some_conv)
      then show ?thesis using kept_forwardSelected kept_pinned(2) kept_trans by blast
    qed
  qed
qed

lemma kept_pending_fan:
  assumes "pending_fan env c order r = Some (x, sent, r')"
  shows "kept r r'"
proof -
  obtain results r1 where f: "fanOut c (ne_event (pe_fan env)) (ne_arrive (pe_fan env) order) r = Some (results, r1)"
    using assms by (auto simp: pending_fan_def Let_def bind_eq_Some_conv)
  have "r' = r1 \<or> (\<exists>t u now. r' = rememberTxn t u now r1)"
    using assms f by (auto simp: pending_fan_def Let_def bind_eq_Some_conv split: option.splits if_splits prod.splits)
  then show ?thesis using kept_fanOut [OF f] kept_pinned(1) kept_trans by metis
qed

lemma kept_handlePending:
  assumes "handlePending env tid c cands best r0 = Some (x, sent, r')"
  shows "kept r0 r'"
proof -
  let ?re = "ne_route (pe_fan env)"
  obtain so cands' best' where p: "pick (r_opts r0) (re_rnd ?re) (re_check ?re) c cands best = (so, cands', best')" by (metis prod_cases3)
  obtain pin r where q: "recallTxn (rc_PendingID c) (pe_recall env) r0 = (pin, r)" by fastforce
  have k: "kept r0 r" using kept_pinned(3) [of r0 "rc_PendingID c" "pe_recall env"] q by simp
  show ?thesis
  proof (cases so)
    case None
    then show ?thesis using assms p by (simp add: handlePending_def)
  next
    case (Some s)
    let ?order = "sortByRoundDesc (sel_Chosen s # sel_Alternates s)"
    show ?thesis
    proof (cases "pinned_index pin ?order")
      case None
      then have "pending_fan env c ?order r = Some (x, sent, r')" using assms p q Some by (simp add: handlePending_def)
      then show ?thesis using kept_pending_fan k kept_trans by blast
    next
      case (Some n)
      then obtain out r1 where f: "forward (fe_url_ok (re_fwd ?re)) tid c [404] (?order ! n) (pe_pin env) r = Some (out, r1)"
          "r' = r1 \<or> (\<exists>rest sent'. pending_fan env c rest r1 = Some (x, sent', r'))"
        using assms p q \<open>so = Some s\<close> by (auto simp: handlePending_def Let_def bind_eq_Some_conv split: if_splits)
      then show ?thesis using kept_forward [OF f(1)] kept_pending_fan k kept_trans by metis
    qed
  qed
qed

lemma kept_handleWait: "handleWait env c b cands best r = Some (x, sent, r') \<Longrightarrow> kept r r'"
  by (auto simp: handleWait_def handleBalancerWait_def handlePeerWait_def forwardNow_def Let_def dest: kept_handleDefault kept_forwardSelected
    split: if_splits list.splits option.splits sum.splits prod.splits)

lemma kept_dispatch:
  assumes "dispatch env tid c b cands best r = Some (x, sent, r')"
  shows "kept r r'"
proof -
  define r1 where "r1 = (case tid of Some t \<Rightarrow> if rc_Simulate c then r\<lparr>r_limiter := map_option (Track t) (r_limiter r)\<rparr> else r | None \<Rightarrow> r)"
  have "kept r r1" by (auto simp: r1_def kept_def option.map_comp comp_def split: option.split)
  moreover have "kept r r' \<or> kept r1 r'"
    using assms by (auto simp: dispatch_def Let_def r1_def [symmetric] dest: kept_handleWait kept_handleBroadcast kept_handlePending kept_handleDefault
      split: if_splits)
  ultimately show ?thesis using kept_trans by blast
qed

lemma kept_serve_admitted: "serve_admitted env tid c b cands best r = Some (x, sent, r') \<Longrightarrow> kept r r'"
  by (auto simp: serve_admitted_def dest: kept_dispatch split: if_splits option.splits)

lemma kept_serve:
  assumes "serve sha ckey env req c b r = Some (x, sent, r')"
  shows "kept r r'"
proof -
  obtain cands best where snap: "sv_snap env = (cands, best)" by fastforce
  have lim: "kept r (r\<lparr>r_limiter := Some l1\<rparr>)" if "r_limiter r = Some l" "Admit l (sv_now env) i c best = Some (y, l1)" for l l1 i y
    using that(1) door_Admit [OF that(2)] by (simp add: kept_def)
  have closed: "kept r1 (r1\<lparr>r_limiter := map_option (close_ticket env t x) (r_limiter r1)\<rparr>)" for r1 t
    by (simp add: kept_def option.map_comp comp_def)
  show ?thesis
  proof (cases "rq_Method req = ''OPTIONS''")
    case False
    show ?thesis
    proof (cases "authorize sha ckey r req c")
      case (Inl e)
      then show ?thesis using assms False by (cases e) (simp add: serve_def)
    next
      case (Inr i)
      note s = assms [unfolded serve_def, simplified False Inr snap, simplified]
      consider "rc_Agent c" | "\<not> rc_Agent c" "idn_Exempt i" | (billed) "\<not> rc_Agent c" "\<not> idn_Exempt i" by blast
      then show ?thesis
      proof cases
        case billed
        obtain l y l1 where l: "r_limiter r = Some l" "Admit l (sv_now env) i c best = Some (y, l1)"
          using s billed by (auto split: option.splits)
        show ?thesis
        proof (cases y)
          case (Inl d)
          then show ?thesis using s billed l lim [OF l] by simp
        next
          case (Inr t)
          then obtain r1 where "serve_admitted env (Some t) c b cands best (r\<lparr>r_limiter := Some l1\<rparr>) = Some (x, sent, r1)"
              "r' = r1\<lparr>r_limiter := map_option (close_ticket env t x) (r_limiter r1)\<rparr>"
            using s billed l by (auto simp: bind_eq_Some_conv)
          then show ?thesis using lim [OF l] kept_serve_admitted closed kept_trans by metis
        qed
      qed (use s in \<open>auto dest: kept_serve_admitted\<close>)
    qed
  qed (use assms in \<open>simp add: serve_def\<close>)
qed

lemma kept_ServeHTTP:
  assumes "ServeHTTP sha ckey msgpack json env req r = Some (x, sent, r')"
  shows "kept r r'"
proof -
  define r0 where "r0 = r\<lparr>r_inflight := r_inflight r + 1\<rparr>"
  have "\<exists>r1. (r1 = r0 \<or> (\<exists>c b. serve sha ckey env req c b r0 = Some (x, sent, r1))) \<and> r' = r1\<lparr>r_inflight := r_inflight r1 - 1\<rparr>"
    using assms by (auto simp: ServeHTTP_def Let_def bind_eq_Some_conv r0_def [symmetric] split: if_splits option.splits)
  then have "\<exists>r1. kept r0 r1 \<and> r' = r1\<lparr>r_inflight := r_inflight r1 - 1\<rparr>" using kept_serve kept_refl by blast
  then show ?thesis using kept_trans kept_pins(2) unfolding r0_def by metis
qed

lemma kept_run:
  assumes "router_run sha ckey msgpack json r r'"
  shows "kept r r'"
  using assms
proof (induction rule: router_run.induct)
  case (run_request r r1 env req x sent r2)
  then show ?case using kept_ServeHTTP kept_trans by blast
next
  case (run_limiter r r1 f now st)
  have "kept r1 (r1\<lparr>r_limiter := map_option f (r_limiter r1)\<rparr>)"
    using door_loop [OF run_limiter(2)] by (simp add: kept_def option.map_comp comp_def)
  then show ?case using run_limiter.IH kept_trans by blast
qed simp

lemma plans_kept: "kept r r' \<Longrightarrow> plans_configured (r_limiter r') = plans_configured (r_limiter r)"
  by (auto simp: kept_def plans_configured_def door_def split: option.splits)

lemma run_answers:
  assumes "book_ok (r_stats r)" "plans_configured (r_limiter r)" "router_run sha ckey msgpack json r r'"
    and "\<forall>us. mset (ne_arrive (pe_fan (sv_pending env)) us) = mset us"
  shows "\<exists>x sent r''. ServeHTTP sha ckey msgpack json env req r' = Some (x, sent, r'')"
proof -
  have k: "book_ok (r_stats r')" "plans_configured (r_limiter r')"
    using assms(1,2) kept_run [OF assms(3)] plans_kept [of r r'] by (auto simp: kept_def)
  show ?thesis
  proof (cases "served msgpack json req")
    case (Some bc)
    obtain b c where bc: "bc = (b, c)" by (cases bc)
    have "\<exists>x sent r''. serve sha ckey env req c b (r'\<lparr>r_inflight := r_inflight r' + 1\<rparr>) = Some (x, sent, r'')"
      using k assms(4) served_ahead [of msgpack json req b c] Some bc by (intro serve_total) auto
    then show ?thesis using Some bc by (auto simp: ServeHTTP_served)
  qed (simp add: ServeHTTP_served)
qed

end
