(* ===== verification/Ip.thy ===== *)
theory Ip
  imports Paths
begin

text \<open>
  The addresses of internal/domain: NormalizeAddr (path.go), EndpointHosts and AlgodCovers
  (endpoint.go), with the part of package net they rest on: ParseIP, IP.To4 and IP.String. A net.IP
  is the list of its eight 16-bit groups; an IPv4 address is held in its mapped form, as ParseIP
  returns it. The URL parser is an argument.
\<close>

section \<open>Package net\<close>

type_synonym IP = "nat list"

text \<open>The four fields of an IPv4 address: decimal, at most 255, no leading zero.\<close>

definition octet :: "string \<Rightarrow> nat option" where
  "octet f =
     (if f = [] \<or> \<not> list_all is_digit f \<or> length f > 1 \<and> hd f = CHR ''0'' \<or> dec_value f > 255 then None
      else Some (nat (dec_value f)))"

definition parseIPv4 :: "string \<Rightarrow> IP option" where
  "parseIPv4 s =
     (case map octet (Split s (CHR ''.'')) of
        [Some a, Some b, Some c, Some d] \<Rightarrow> Some [256 * a + b, 256 * c + d]
      | _ \<Rightarrow> None)"

definition hex_digit :: "char \<Rightarrow> nat option" where
  "hex_digit c =
     (let n = (of_char c :: nat) in
      if 48 \<le> n \<and> n \<le> 57 then Some (n - 48)
      else if 97 \<le> n \<and> n \<le> 102 then Some (n - 87)
      else if 65 \<le> n \<and> n \<le> 70 then Some (n - 55)
      else None)"

definition is_hex :: "char \<Rightarrow> bool" where
  "is_hex c = (hex_digit c \<noteq> None)"

definition hex_value :: "string \<Rightarrow> nat" where
  "hex_value s = foldl (\<lambda>n c. 16 * n + (case hex_digit c of Some d \<Rightarrow> d | None \<Rightarrow> 0)) 0 s"

text \<open>
  The loop of parseIPv6 with n groups to go: the groups read, the position of the ellipsis and the
  text left.
\<close>

fun parse_groups :: "nat \<Rightarrow> nat list \<Rightarrow> nat option \<Rightarrow> string \<Rightarrow> (nat list \<times> nat option \<times> string) option" where
  "parse_groups 0 acc ell s = Some (acc, ell, s)"
| "parse_groups (Suc n) acc ell s =
     (let digs = takeWhile is_hex s; rest = dropWhile is_hex s in
      if length digs > 4 \<or> digs = [] then None
      else if rest \<noteq> [] \<and> hd rest = CHR ''.'' then
        (if ell = None \<and> length acc \<noteq> 6 \<or> length acc + 2 > 8 then None
         else map_option (\<lambda>v4. (acc @ v4, ell, [])) (parseIPv4 s))
      else
        let acc' = acc @ [hex_value digs] in
        (case rest of
           [] \<Rightarrow> Some (acc', ell, [])
         | c # r \<Rightarrow>
           if c \<noteq> CHR '':'' \<or> r = [] then None
           else if hd r = CHR '':'' then
             (if ell \<noteq> None then None
              else if tl r = [] then Some (acc', Some (length acc'), [])
              else parse_groups n acc' (Some (length acc')) (tl r))
           else parse_groups n acc' ell r))"

definition parseIPv6 :: "string \<Rightarrow> IP option" where
  "parseIPv6 s0 =
     (let (ell, s) = (if take 2 s0 = ''::'' then (Some 0, drop 2 s0) else (None, s0)) in
      if ell \<noteq> None \<and> s = [] then Some (replicate 8 0)
      else (case parse_groups 8 [] ell s of
              None \<Rightarrow> None
            | Some (acc, ell', rest) \<Rightarrow>
              if rest \<noteq> [] then None
              else if length acc < 8 then
                (case ell' of None \<Rightarrow> None
                 | Some e \<Rightarrow> Some (take e acc @ replicate (8 - length acc) 0 @ drop e acc))
              else if ell' \<noteq> None then None
              else Some acc))"

text \<open>ParseIP: an address with a zone is none.\<close>

definition ParseIP :: "string \<Rightarrow> IP option" where
  "ParseIP s =
     (if CHR ''%'' \<in> set s then None
      else (case dropWhile (\<lambda>c. c \<noteq> CHR ''.'' \<and> c \<noteq> CHR '':'') s of
              [] \<Rightarrow> None
            | c # _ \<Rightarrow> if c = CHR ''.'' then map_option (\<lambda>v4. [0, 0, 0, 0, 0, 65535] @ v4) (parseIPv4 s) else parseIPv6 s))"

text \<open>IP.To4: the two groups of an IPv4 address.\<close>

definition To4 :: "IP \<Rightarrow> IP option" where
  "To4 ip = (if take 6 ip = [0, 0, 0, 0, 0, 65535] then Some (drop 6 ip) else None)"

text \<open>IP.String: dotted for IPv4, else lower-case hex groups with the first longest run of at least two
  zero groups left out.\<close>

definition hex_char :: "nat \<Rightarrow> char" where
  "hex_char d = char_of (if d < 10 then 48 + d else 87 + d)"

fun show_hex :: "nat \<Rightarrow> string" where
  "show_hex n = (if n < 16 then [hex_char n] else show_hex (n div 16) @ [hex_char (n mod 16)])"

declare show_hex.simps [simp del]

definition zero_run :: "IP \<Rightarrow> nat option \<times> nat" where
  "zero_run ip =
     fold (\<lambda>i (start, len). let n = length (takeWhile (\<lambda>g. g = 0) (drop i ip)) in
             if n \<ge> 2 \<and> n > len then (Some i, n) else (start, len)) [0..<8] (None, 0)"

definition show_groups :: "nat list \<Rightarrow> string" where
  "show_groups gs = Join (map show_hex gs) '':''"

definition IP_String :: "IP \<Rightarrow> string" where
  "IP_String ip =
     (case To4 ip of
        Some v4 \<Rightarrow> Join (map show_nat (concat (map (\<lambda>g. [g div 256, g mod 256]) v4))) ''.''
      | None \<Rightarrow>
        (case zero_run ip of
           (None, _) \<Rightarrow> show_groups ip
         | (Some i, n) \<Rightarrow> show_groups (take i ip) @ ''::'' @ show_groups (drop (i + n) ip)))"

section \<open>path.go and endpoint.go\<close>

definition NormalizeAddr :: "string \<Rightarrow> string" where
  "NormalizeAddr addr =
     (case SplitHostPort addr of
        None \<Rightarrow> addr
      | Some (host, port) \<Rightarrow>
        (case ParseIP host of None \<Rightarrow> addr | Some ip \<Rightarrow> JoinHostPort (IP_String ip) port))"

text \<open>\<open>hostname\<close> is url.Parse and URL.Hostname: None for what is not a URL.\<close>

definition EndpointHosts :: "(string \<Rightarrow> string option) \<Rightarrow> string list \<Rightarrow> string list" where
  "EndpointHosts hostname endpoints =
     map (\<lambda>e. case hostname e of None \<Rightarrow> []
              | Some h \<Rightarrow> (case ParseIP h of None \<Rightarrow> [] | Some ip \<Rightarrow> IP_String ip)) endpoints"

definition AlgodCovers :: "string \<Rightarrow> string \<Rightarrow> bool" where
  "AlgodCovers algodNet addr =
     (case SplitHostPort algodNet of
        None \<Rightarrow> False
      | Some (ah, ap) \<Rightarrow>
        (case SplitHostPort addr of
           None \<Rightarrow> False
         | Some (h, p) \<Rightarrow>
           if p \<noteq> ap then False
           else
             let ip = ParseIP h in
             if ah = [] \<or> ah = ''::'' then True
             else if ah = ''0.0.0.0'' then ip = None \<or> To4 (the ip) \<noteq> None
             else (case (ParseIP ah, ip) of (Some a, Some b) \<Rightarrow> a = b | _ \<Rightarrow> ah = h)))"

text \<open>What ParseIP returns: eight groups of 16 bits.\<close>

definition ip_ok :: "IP \<Rightarrow> bool" where
  "ip_ok ip = (length ip = 8 \<and> (\<forall>g \<in> set ip. g < 65536))"

text \<open>The groups read so far, and where the ellipsis stands among them.\<close>

definition groups_ok :: "nat list \<Rightarrow> nat option \<Rightarrow> bool" where
  "groups_ok acc ell = ((\<forall>g \<in> set acc. g < 65536) \<and> (\<forall>e. ell = Some e \<longrightarrow> e \<le> length acc))"

section \<open>Lemmas: the numbers of an address\<close>

lemma show_nat_hd: "0 < n \<Longrightarrow> hd (show_nat n) \<noteq> CHR ''0''"
proof (induction n rule: show_nat.induct)
  case (1 n)
  show ?case
  proof (cases "n < 10")
    case True
    then have "(of_char (digit_char n) :: int) \<noteq> of_char (CHR ''0'')" using 1(2) by (simp add: of_char_digit_char)
    then have "digit_char n \<noteq> CHR ''0''" by metis
    then show ?thesis using True by (subst show_nat.simps) simp
  next
    case False
    then have "hd (show_nat (n div 10)) \<noteq> CHR ''0''" using 1 by simp
    then show ?thesis using False by (subst show_nat.simps) (simp add: hd_append)
  qed
qed

lemma octet_show: "n < 256 \<Longrightarrow> octet (show_nat n) = Some n"
proof (cases "n = 0")
  case True
  then show ?thesis by (simp add: octet_def show_nat.simps [of 0] dec_value_def)
next
  case False
  assume "n < 256"
  then show ?thesis using False show_nat_digits [of n] show_nat_hd [of n] by (auto simp: octet_def)
qed

lemma octet_bound: "octet f = Some n \<Longrightarrow> n < 256"
  by (auto simp: octet_def split: if_splits)

lemma hex_digit_char: "d < 16 \<Longrightarrow> hex_digit (hex_char d) = Some d"
  by (auto simp: hex_digit_def hex_char_def Let_def)

lemma hex_digit_bound: "hex_digit c = Some d \<Longrightarrow> d < 16"
  by (auto simp: hex_digit_def Let_def split: if_splits)

lemma is_hex_char [simp]: "d < 16 \<Longrightarrow> is_hex (hex_char d)"
  by (simp add: is_hex_def hex_digit_char)

lemma not_hex [simp]: "\<not> is_hex (CHR '':'')" "\<not> is_hex (CHR ''.'')" "\<not> is_hex (CHR ''%'')"
  by (simp_all add: is_hex_def hex_digit_def)

lemma show_hex_not_Nil [simp]: "show_hex n \<noteq> []"
  by (subst show_hex.simps) simp

lemma show_hex_digits: "list_all is_hex (show_hex n)"
proof (induction n rule: show_hex.induct)
  case (1 n)
  then show ?case by (subst show_hex.simps) simp
qed

lemma hex_value_snoc: "hex_value (s @ [c]) = 16 * hex_value s + (case hex_digit c of Some d \<Rightarrow> d | None \<Rightarrow> 0)"
  by (simp add: hex_value_def)

lemma hex_value_show [simp]: "hex_value (show_hex n) = n"
proof (induction n rule: show_hex.induct)
  case (1 n)
  show ?case
  proof (cases "n < 16")
    case True
    then show ?thesis by (subst show_hex.simps) (simp add: hex_value_def hex_digit_char)
  next
    case False
    then show ?thesis using 1 by (subst show_hex.simps) (simp add: hex_value_snoc hex_digit_char)
  qed
qed

lemma length_show_hex: "n < 16 ^ k \<Longrightarrow> 0 < k \<Longrightarrow> length (show_hex n) \<le> k"
proof (induction k arbitrary: n)
  case (Suc k)
  show ?case
  proof (cases "n < 16")
    case True
    then show ?thesis by (subst show_hex.simps) simp
  next
    case False
    have "n < 16 ^ k * 16" using Suc.prems(1) by simp
    then have "n div 16 < 16 ^ k" by (rule less_mult_imp_div_less)
    moreover have "0 < k" using False Suc.prems(1) by (cases k) auto
    ultimately have "0 < k" "n div 16 < 16 ^ k" by auto
    then show ?thesis using False Suc.IH by (subst show_hex.simps) simp
  qed
qed simp

lemma hex_value_bound: "hex_value s < 16 ^ length s"
proof (induction s rule: rev_induct)
  case (snoc c s)
  have "(case hex_digit c of Some d \<Rightarrow> d | None \<Rightarrow> 0) < 16" by (auto split: option.splits dest: hex_digit_bound)
  then show ?case using snoc by (simp add: hex_value_snoc)
qed (simp add: hex_value_def)

lemma hex_group_bound: "length s \<le> 4 \<Longrightarrow> hex_value s < 65536"
  using hex_value_bound [of s] power_increasing [of "length s" 4 "16 :: nat"] by simp

section \<open>Lemmas: parsing what String prints\<close>

lemma Split_Join: "fs \<noteq> [] \<Longrightarrow> \<forall>f \<in> set fs. c \<notin> set f \<Longrightarrow> Split (Join fs [c]) c = fs"
proof (induction fs)
  case (Cons f fs)
  then show ?case by (cases "fs = []") (simp_all add: Join_Cons)
qed simp

lemma set_Join: "set (Join fs sep) \<subseteq> \<Union> (set ` set fs) \<union> set sep"
proof (induction fs)
  case (Cons f fs)
  then show ?case by (cases "fs = []") (auto simp: Join_Cons)
qed simp

lemma digit_not_punct: "is_digit c \<Longrightarrow> c \<noteq> CHR ''.'' \<and> c \<noteq> CHR '':'' \<and> c \<noteq> CHR ''%''"
  by (auto simp: is_digit_def)

lemma show_nat_no_punct: "c \<in> set (show_nat n) \<Longrightarrow> c \<noteq> CHR ''.'' \<and> c \<noteq> CHR '':'' \<and> c \<noteq> CHR ''%''"
  using show_nat_digits [of n] digit_not_punct by (auto simp: list_all_iff)

lemma parseIPv4_show:
  assumes "a < 256" "b < 256" "c < 256" "d < 256"
  shows "parseIPv4 (Join (map show_nat [a, b, c, d]) ''.'') = Some [256 * a + b, 256 * c + d]"
proof -
  have "Split (Join (map show_nat [a, b, c, d]) ''.'') (CHR ''.'') = map show_nat [a, b, c, d]"
    by (rule Split_Join) (use show_nat_no_punct in auto)
  then show ?thesis using assms by (simp add: parseIPv4_def octet_show)
qed

lemma show_hex_scan:
  assumes "\<not> is_hex c"
  shows "takeWhile is_hex (show_hex g @ c # r) = show_hex g" "dropWhile is_hex (show_hex g @ c # r) = c # r"
    "takeWhile is_hex (show_hex g) = show_hex g" "dropWhile is_hex (show_hex g) = []"
  using show_hex_digits [of g] assms
  by (simp_all add: list_all_iff takeWhile_append2 dropWhile_append2)

lemma show_groups_Cons: "gs \<noteq> [] \<Longrightarrow> show_groups (g # gs) = show_hex g @ CHR '':'' # show_groups gs"
  by (simp add: show_groups_def Join_Cons)

lemma show_groups_single [simp]: "show_groups [g] = show_hex g" "show_groups [] = []"
  by (simp_all add: show_groups_def)

lemma show_groups_hd: "gs \<noteq> [] \<Longrightarrow> \<exists>c r. show_groups gs = c # r \<and> is_hex c"
proof (cases gs)
  case (Cons g hs)
  obtain c r where c: "show_hex g = c # r" using show_hex_not_Nil by (meson neq_Nil_conv)
  then have "is_hex c" using show_hex_digits [of g] by simp
  then show ?thesis using Cons c by (cases "hs = []") (auto simp: show_groups_Cons)
qed simp

text \<open>Groups are read up to the end of the text, or up to an ellipsis.\<close>

lemma parse_groups_end:
  assumes "gs \<noteq> []" "length gs \<le> n" "\<forall>g \<in> set gs. g < 65536"
  shows "parse_groups n acc ell (show_groups gs) = Some (acc @ gs, ell, [])"
  using assms
proof (induction gs arbitrary: n acc)
  case (Cons g gs)
  then obtain m where n: "n = Suc m" by (cases n) auto
  have len: "length (show_hex g) \<le> 4" using Cons.prems(3) by (intro length_show_hex) auto
  show ?case
  proof (cases "gs = []")
    case True
    then show ?thesis using n len by (simp add: Let_def show_hex_scan [OF not_hex(1)])
  next
    case False
    obtain c r where c: "show_groups gs = c # r" "is_hex c" using show_groups_hd [OF False] by blast
    then have "c \<noteq> CHR '':''" using not_hex(1) by metis
    then show ?thesis using n len False c Cons.IH [OF False, of m "acc @ [g]"] Cons.prems
      by (simp add: Let_def show_groups_Cons show_hex_scan [OF not_hex(1)])
  qed
qed simp

lemma parse_groups_ellipsis:
  assumes "gs \<noteq> []" "length gs \<le> n" "\<forall>g \<in> set gs. g < 65536"
  shows "parse_groups n acc None (show_groups gs @ ''::'' @ t)
    = (if t = [] then Some (acc @ gs, Some (length (acc @ gs)), [])
       else parse_groups (n - length gs) (acc @ gs) (Some (length (acc @ gs))) t)"
  using assms
proof (induction gs arbitrary: n acc)
  case (Cons g gs)
  then obtain m where n: "n = Suc m" by (cases n) auto
  have len: "length (show_hex g) \<le> 4" using Cons.prems(3) by (intro length_show_hex) auto
  show ?case
  proof (cases "gs = []")
    case True
    then show ?thesis using n len by (simp add: Let_def show_hex_scan [OF not_hex(1)])
  next
    case False
    obtain c r where c: "show_groups gs = c # r" "is_hex c" using show_groups_hd [OF False] by blast
    then have "c \<noteq> CHR '':''" using not_hex(1) by metis
    then show ?thesis using n len False c Cons.IH [OF False, of m "acc @ [g]"] Cons.prems
      by (simp add: Let_def show_groups_Cons show_hex_scan [OF not_hex(1)])
  qed
qed simp

text \<open>The run of zeros left out is there.\<close>

lemma zero_run_Some:
  assumes "zero_run ip = (Some i, n)"
  shows "2 \<le> n" "n = length (takeWhile (\<lambda>g. g = 0) (drop i ip))"
proof -
  define f where "f = (\<lambda>i (start, len). let n = length (takeWhile (\<lambda>g. g = 0) (drop i ip)) in
             if n \<ge> 2 \<and> n > len then (Some i, n) else (start :: nat option, len))"
  let ?ok = "\<lambda>st. case st of (Some i, n) \<Rightarrow> 2 \<le> n \<and> n = length (takeWhile (\<lambda>g. g = 0) (drop i ip)) | (None, n) \<Rightarrow> True"
  have step: "?ok (f i st)" if "?ok st" for i st
    using that by (auto simp: f_def Let_def split: prod.splits option.splits if_splits)
  have "?ok (fold f xs st)" if "?ok st" for xs st
    using that
  proof (induction xs arbitrary: st)
    case (Cons x xs)
    show ?case using Cons.IH [OF step [OF Cons.prems]] by simp
  qed simp
  from this [of "(None, 0)" "[0..<8]"] show "2 \<le> n" "n = length (takeWhile (\<lambda>g. g = 0) (drop i ip))"
    using assms unfolding zero_run_def f_def by simp_all
qed

lemma zero_run_split:
  assumes "zero_run ip = (Some i, n)"
  shows "take i ip @ replicate n 0 @ drop (i + n) ip = ip" "i + n \<le> length ip" "2 \<le> n"
proof -
  note z = zero_run_Some [OF assms]
  let ?t = "takeWhile (\<lambda>g. g = 0) (drop i ip)"
  have "drop i ip = ?t @ dropWhile (\<lambda>g. g = 0) (drop i ip)" by simp
  moreover have "?t = replicate n 0" using z(2) set_takeWhileD by (intro replicate_eqI) fastforce+
  moreover have "dropWhile (\<lambda>g. g = 0) (drop i ip) = drop (i + n) ip"
    using z(2) by (metis add.commute drop_drop dropWhile_eq_drop)
  ultimately have "drop i ip = replicate n 0 @ drop (i + n) ip" by simp
  then show "take i ip @ replicate n 0 @ drop (i + n) ip = ip" by (metis append_take_drop_id)
  have "n \<le> length ip - i" using z(2) length_takeWhile_le [of _ "drop i ip"] by simp
  then show "i + n \<le> length ip" using z(1) by simp
  show "2 \<le> n" by (rule z(1))
qed

lemma parseIPv6_plain:
  assumes "length ip = 8" "\<forall>g \<in> set ip. g < 65536"
  shows "parseIPv6 (show_groups ip) = Some ip"
proof -
  have "ip \<noteq> []" using assms(1) by auto
  then obtain c r where c: "show_groups ip = c # r" "is_hex c" using show_groups_hd by blast
  then have "take 2 (show_groups ip) \<noteq> ''::''" using not_hex(1) by (auto simp: take_Cons')
  then show ?thesis using parse_groups_end [OF \<open>ip \<noteq> []\<close>, of 8 "[]" None] assms by (simp add: parseIPv6_def)
qed

lemma parseIPv6_run:
  assumes "length ip = 8" "\<forall>g \<in> set ip. g < 65536" "zero_run ip = (Some i, n)"
  shows "parseIPv6 (show_groups (take i ip) @ ''::'' @ show_groups (drop (i + n) ip)) = Some ip"
proof -
  note z = zero_run_split [OF assms(3)]
  have len: "length (take i ip) = i" "length (drop (i + n) ip) = 8 - i - n" using z(2) assms(1) by auto
  have small: "\<forall>g \<in> set (take i ip). g < 65536" "\<forall>g \<in> set (drop (i + n) ip). g < 65536"
    using assms(2) by (auto dest: in_set_takeD in_set_dropD)
  let ?d = "drop (i + n) ip" and ?t = "take i ip"
  show ?thesis
  proof (cases "?t = []")
    case True
    then have i: "i = 0" using len(1) by (metis list.size(3))
    show ?thesis
    proof (cases "?d = []")
      case True
      then have "n = 8" using i z(2) assms(1) by simp
      then show ?thesis using \<open>?t = []\<close> True i z(1) by (simp add: parseIPv6_def)
    next
      case False
      obtain c r where "show_groups ?d = c # r" using show_groups_hd [OF False] by blast
      then show ?thesis using False i len z assms(1) parse_groups_end [OF False _ small(2), of 8 "[]" "Some 0"]
        by (simp add: parseIPv6_def)
    qed
  next
    case False
    obtain c r where c: "show_groups ?t = c # r" "is_hex c" using show_groups_hd [OF False] by blast
    then have h: "take 2 (show_groups ?t @ ''::'' @ show_groups ?d) \<noteq> ''::''" using not_hex(1) by (auto simp: take_Cons')
    have e: "parse_groups 8 [] None (show_groups ?t @ ''::'' @ show_groups ?d) = Some (?t @ ?d, Some i, [])"
    proof (cases "?d = []")
      case True
      then show ?thesis using parse_groups_ellipsis [OF False _ small(1), of 8 "[]" "[]"] len z(2) assms(1) by simp
    next
      case False
      obtain c r where "show_groups ?d = c # r" using show_groups_hd [OF False] by blast
      then show ?thesis
        using parse_groups_ellipsis [OF \<open>?t \<noteq> []\<close> _ small(1), of 8 "[]" "show_groups ?d"] len
          parse_groups_end [OF False _ small(2), of "8 - i" ?t "Some i"] z(2) assms(1) by simp
    qed
    have "8 - (i + (8 - (i + n))) = n" "i + (8 - (i + n)) < 8" using z(2,3) assms(1) by auto
    then show ?thesis using e h z len by (simp add: parseIPv6_def)
  qed
qed

lemma show_groups_chars: "c \<in> set (show_groups gs) \<Longrightarrow> is_hex c \<or> c = CHR '':''"
  using set_Join [of "map show_hex gs" "'':''"] show_hex_digits by (force simp: show_groups_def list_all_iff)

lemma show_groups_colon: "2 \<le> length gs \<Longrightarrow> CHR '':'' \<in> set (show_groups gs)"
  by (cases gs; cases "tl gs") (auto simp: show_groups_def Join_Cons)

text \<open>The first punctuation mark decides the family.\<close>

lemma first_punct:
  assumes "x \<in> set s" "\<forall>c \<in> set s. c \<noteq> y" "x = CHR ''.'' \<and> y = CHR '':'' \<or> x = CHR '':'' \<and> y = CHR ''.''"
  shows "\<exists>r. dropWhile (\<lambda>c. c \<noteq> CHR ''.'' \<and> c \<noteq> CHR '':'') s = x # r"
proof (cases "dropWhile (\<lambda>c. c \<noteq> CHR ''.'' \<and> c \<noteq> CHR '':'') s")
  case Nil
  then have "\<forall>c \<in> set s. c \<noteq> CHR ''.'' \<and> c \<noteq> CHR '':''" by (simp add: dropWhile_eq_Nil_conv)
  then show ?thesis using assms(1,3) by auto
next
  case (Cons c r)
  then have "c \<in> set s" by (metis list.set_intros(1) set_dropWhileD)
  moreover have "c = CHR ''.'' \<or> c = CHR '':''"
    using hd_dropWhile [of "\<lambda>c. c \<noteq> CHR ''.'' \<and> c \<noteq> CHR '':''" s] unfolding Cons by simp
  ultimately have "c = x" using assms(2,3) by auto
  then show ?thesis using Cons by simp
qed

lemma To4_Some:
  assumes "ip_ok ip" "To4 ip = Some v4"
  obtains a b c d where "a < 256" "b < 256" "c < 256" "d < 256" "v4 = [256 * a + b, 256 * c + d]"
    "ip = [0, 0, 0, 0, 0, 65535] @ v4" "IP_String ip = Join (map show_nat [a, b, c, d]) ''.''"
proof -
  have "take 6 ip = [0, 0, 0, 0, 0, 65535]" "drop 6 ip = v4" using assms(2) by (simp_all add: To4_def split: if_splits)
  then have ip: "ip = [0, 0, 0, 0, 0, 65535] @ v4" by (metis append_take_drop_id)
  then have "length v4 = 2" using assms(1) by (simp add: ip_ok_def)
  then obtain g h where v4: "v4 = [g, h]" by (cases v4; cases "tl v4") auto
  then have "g < 65536" "h < 65536" using ip assms(1) by (auto simp: ip_ok_def)
  then have "g div 256 < 256" "h div 256 < 256" by auto
  moreover have "IP_String ip = Join (map show_nat [g div 256, g mod 256, h div 256, h mod 256]) ''.''"
    using assms(2) v4 by (simp add: IP_String_def)
  ultimately show thesis using that [of "g div 256" "g mod 256" "h div 256" "h mod 256"] ip v4 by simp
qed

lemma IP_String_v6:
  assumes "ip_ok ip" "To4 ip = None"
  shows "parseIPv6 (IP_String ip) = Some ip" "\<forall>c \<in> set (IP_String ip). is_hex c \<or> c = CHR '':''" "CHR '':'' \<in> set (IP_String ip)"
proof -
  obtain st n where z: "zero_run ip = (st, n)" by fastforce
  have len: "length ip = 8" "\<forall>g \<in> set ip. g < 65536" using assms(1) by (auto simp: ip_ok_def)
  have "IP_String ip = show_groups ip" if "st = None" using assms(2) z that by (simp add: IP_String_def)
  moreover have "IP_String ip = show_groups (take i ip) @ ''::'' @ show_groups (drop (i + n) ip)" if "st = Some i" for i
    using assms(2) z that by (simp add: IP_String_def)
  ultimately show "parseIPv6 (IP_String ip) = Some ip" "\<forall>c \<in> set (IP_String ip). is_hex c \<or> c = CHR '':''" "CHR '':'' \<in> set (IP_String ip)"
    using parseIPv6_plain [OF len] parseIPv6_run [OF len] z show_groups_chars show_groups_colon [of ip] len(1)
    by (cases st; force)+
qed

lemma ParseIP_String:
  assumes "ip_ok ip"
  shows "ParseIP (IP_String ip) = Some ip"
proof (cases "To4 ip")
  case None
  note v6 = IP_String_v6 [OF assms None]
  have "\<forall>c \<in> set (IP_String ip). c \<noteq> CHR ''.'' \<and> c \<noteq> CHR ''%''" using v6(2) not_hex by fastforce
  moreover obtain r where "dropWhile (\<lambda>c. c \<noteq> CHR ''.'' \<and> c \<noteq> CHR '':'') (IP_String ip) = CHR '':'' # r"
    using first_punct [OF v6(3), of "CHR ''.''"] calculation by auto
  ultimately show ?thesis using v6(1) by (auto simp: ParseIP_def)
next
  case (Some v4)
  obtain a b c d where o: "a < 256" "b < 256" "c < 256" "d < 256" "v4 = [256 * a + b, 256 * c + d]"
    "ip = [0, 0, 0, 0, 0, 65535] @ v4" "IP_String ip = Join (map show_nat [a, b, c, d]) ''.''"
    using To4_Some [OF assms Some] by metis
  let ?s = "Join (map show_nat [a, b, c, d]) ''.''"
  have s: "\<forall>x \<in> set ?s. x \<noteq> CHR '':'' \<and> x \<noteq> CHR ''%''" using show_nat_no_punct by auto
  then obtain r where "dropWhile (\<lambda>c. c \<noteq> CHR ''.'' \<and> c \<noteq> CHR '':'') ?s = CHR ''.'' # r"
    using first_punct [of "CHR ''.''" ?s "CHR '':''"] by auto
  then show ?thesis using o s parseIPv4_show [OF o(1-4)] by (auto simp: ParseIP_def)
qed

section \<open>Lemmas: what is parsed\<close>

lemma parseIPv4_ok: "parseIPv4 s = Some v4 \<Longrightarrow> length v4 = 2 \<and> (\<forall>g \<in> set v4. g < 65536)"
  by (fastforce simp: parseIPv4_def dest: octet_bound split: list.splits option.splits)

lemma groups_ok_snoc: "groups_ok acc ell \<Longrightarrow> length s \<le> 4 \<Longrightarrow> groups_ok (acc @ [hex_value s]) ell"
  "groups_ok acc ell \<Longrightarrow> length s \<le> 4 \<Longrightarrow> groups_ok (acc @ [hex_value s]) (Some (length (acc @ [hex_value s])))"
  using hex_group_bound [of s] by (auto simp: groups_ok_def)

lemma parse_groups_ok:
  assumes "parse_groups n acc ell s = Some (acc', ell', rest)" "groups_ok acc ell" "length acc + n = 8"
  shows "groups_ok acc' ell' \<and> length acc' \<le> 8"
  using assms
proof (induction n acc ell s rule: parse_groups.induct)
  case (2 n acc ell s)
  let ?digs = "takeWhile is_hex s"
  have d: "length ?digs \<le> 4" using 2(3) by (auto simp: Let_def split: if_splits)
  note ok = groups_ok_snoc [OF 2(4) d]
  show ?case
  proof (cases "dropWhile is_hex s \<noteq> [] \<and> hd (dropWhile is_hex s) = CHR ''.''")
    case True
    then obtain v4 where "parseIPv4 s = Some v4" "acc' = acc @ v4" "ell' = ell" "length acc + 2 \<le> 8"
      using 2(3) by (auto simp: Let_def split: if_splits)
    then show ?thesis using parseIPv4_ok [of s v4] 2(4) by (auto simp: groups_ok_def)
  next
    case False
    then show ?thesis using 2 d ok by (auto simp: Let_def split: if_splits list.splits)
  qed
qed simp

lemma parseIPv6_ok:
  assumes "parseIPv6 s = Some ip"
  shows "ip_ok ip"
proof -
  obtain ell :: "nat option" and t where e: "(if take 2 s = ''::'' then (Some 0, drop 2 s) else (None, s)) = (ell, t)" by fastforce
  have g: "groups_ok [] ell" using e by (auto simp: groups_ok_def split: if_splits)
  show ?thesis
  proof (cases "ell \<noteq> None \<and> t = []")
    case True
    then show ?thesis using assms e by (auto simp: parseIPv6_def ip_ok_def)
  next
    case False
    then obtain acc ell' where p: "parse_groups 8 [] ell t = Some (acc, ell', [])"
      and ip: "ip = (if length acc < 8 then take (the ell') acc @ replicate (8 - length acc) 0 @ drop (the ell') acc else acc)"
        "length acc < 8 \<longrightarrow> ell' \<noteq> None"
      using assms e by (auto simp: parseIPv6_def split: option.splits if_splits prod.splits)
    then show ?thesis using parse_groups_ok [OF p g]
      by (auto simp: ip_ok_def groups_ok_def dest: in_set_takeD in_set_dropD)
  qed
qed

lemma ParseIP_ok: "ParseIP s = Some ip \<Longrightarrow> ip_ok ip"
  using parseIPv6_ok parseIPv4_ok by (auto simp: ParseIP_def ip_ok_def split: if_splits list.splits)

text \<open>Splitting what JoinHostPort puts together.\<close>

lemma last_colon_None: "CHR '':'' \<notin> set s \<Longrightarrow> last_colon s = None"
  by (induction s) auto

lemma last_colon_append: "CHR '':'' \<notin> set b \<Longrightarrow> last_colon (a @ CHR '':'' # b) = Some (a, b)"
  by (induction a) (auto simp: last_colon_None)

lemma SplitHostPort_port:
  assumes "SplitHostPort s = Some (h, p)"
  shows "\<forall>c \<in> set p. c \<noteq> CHR '':'' \<and> c \<noteq> CHR ''['' \<and> c \<noteq> CHR '']''"
proof -
  obtain b where l: "last_colon s = Some (b, p)" using assms by (auto simp: SplitHostPort_def split: option.splits if_splits prod.splits)
  note e = last_colon_eq [OF l]
  show ?thesis using assms e l by (cases b) (auto simp: SplitHostPort_def split: if_splits prod.splits)
qed

lemma Split_JoinHostPort:
  assumes "\<forall>c \<in> set p. c \<noteq> CHR '':'' \<and> c \<noteq> CHR ''['' \<and> c \<noteq> CHR '']''" "CHR ''['' \<notin> set h" "CHR '']'' \<notin> set h"
  shows "SplitHostPort (JoinHostPort h p) = Some (h, p)"
proof (cases "CHR '':'' \<in> set h")
  case True
  have pc: "CHR '':'' \<notin> set p" using assms(1) by auto
  let ?s = "CHR ''['' # h @ CHR '']'' # CHR '':'' # p"
  have "last_colon ?s = Some (CHR ''['' # h @ [CHR '']''], p)"
    using last_colon_append [OF pc, of "CHR ''['' # h @ [CHR '']'']"] by (simp del: last_colon.simps)
  moreover have "Cut ?s (CHR '']'') = (CHR ''['' # h, CHR '':'' # p, True)"
    using Cut_present [of "CHR '']''" "CHR ''['' # h" "CHR '':'' # p"] assms(3) by simp
  moreover have "CHR ''['' \<notin> set (tl ?s)" "CHR '']'' \<notin> set (CHR '':'' # p)" using assms(1,2) by auto
  moreover have "JoinHostPort h p = ?s" using True by (simp add: JoinHostPort_def)
  ultimately show ?thesis unfolding SplitHostPort_def by (simp del: last_colon.simps Cut.simps)
next
  case False
  have "last_colon (h @ CHR '':'' # p) = Some (h, p)" using last_colon_append [of p h] assms(1) by auto
  moreover have "hd (h @ CHR '':'' # p) \<noteq> CHR ''[''" using assms(2) by (cases h) auto
  ultimately show ?thesis using False assms by (auto simp: SplitHostPort_def JoinHostPort_def)
qed

lemma IP_String_chars:
  assumes "ip_ok ip" "c \<in> set (IP_String ip)"
  shows "c \<noteq> CHR ''['' \<and> c \<noteq> CHR '']''"
proof (cases "To4 ip")
  case None
  have "\<not> is_hex (CHR ''['')" "\<not> is_hex (CHR '']'')" by (simp_all add: is_hex_def hex_digit_def)
  then show ?thesis using IP_String_v6(2) [OF assms(1) None] assms(2) by fastforce
next
  case (Some v4)
  have "\<not> is_digit (CHR ''['')" "\<not> is_digit (CHR '']'')" by (simp_all add: is_digit_def)
  moreover obtain w x y z where "IP_String ip = Join (map show_nat [w, x, y, z]) ''.''"
    using To4_Some [OF assms(1) Some] by metis
  then have "is_digit c \<or> c = CHR ''.''"
    using assms(2) show_nat_digits by (auto simp: list_all_iff)
  ultimately show ?thesis by auto
qed

lemma Split_Normalized:
  assumes "SplitHostPort s = Some (h, p)" "ParseIP h = Some ip"
  shows "NormalizeAddr s = JoinHostPort (IP_String ip) p" "SplitHostPort (NormalizeAddr s) = Some (IP_String ip, p)"
    "ParseIP (IP_String ip) = Some ip"
proof -
  note ok = ParseIP_ok [OF assms(2)]
  show n: "NormalizeAddr s = JoinHostPort (IP_String ip) p" using assms by (simp add: NormalizeAddr_def)
  show "SplitHostPort (NormalizeAddr s) = Some (IP_String ip, p)"
    unfolding n using SplitHostPort_port [OF assms(1)] IP_String_chars [OF ok] by (intro Split_JoinHostPort) auto
  show "ParseIP (IP_String ip) = Some ip" by (rule ParseIP_String [OF ok])
qed

lemma IP_String_inj: "ip_ok a \<Longrightarrow> ip_ok b \<Longrightarrow> IP_String a = IP_String b \<Longrightarrow> a = b"
  by (metis ParseIP_String option.inject)

lemma IP_String_not_Nil: "ip_ok ip \<Longrightarrow> IP_String ip \<noteq> []"
  using ParseIP_String [of ip] by (auto simp: ParseIP_def)

lemma NormalizeAddr_idem: "NormalizeAddr (NormalizeAddr c) = NormalizeAddr c"
proof (cases "NormalizeAddr c = c")
  case False
  then obtain h p ip where s: "SplitHostPort c = Some (h, p)" "ParseIP h = Some ip"
    by (auto simp: NormalizeAddr_def split: option.splits)
  note n = Split_Normalized [OF s]
  show ?thesis using Split_Normalized(1) [OF n(2,3)] n(1) by simp
qed simp

lemma endpoint_scan_find: "endpoint_scan es (map f es) host = find (\<lambda>e. f e = host) es"
  by (induction es) auto

lemma replicate_numeral: "replicate (numeral k) x = x # replicate (pred_numeral k) x"
  by (simp only: numeral_eq_Suc replicate.simps)

text \<open>Evaluation of the parser on a literal.\<close>

lemmas parse_groups_numeral = parse_groups.simps(2) [where n = "pred_numeral k" for k, folded numeral_eq_Suc]

lemmas parse_eval = ParseIP_def parseIPv6_def parseIPv4_def octet_def is_digit_def dec_value_def digit_value_def is_hex_def
  hex_digit_def hex_value_def parse_groups_numeral replicate_numeral

section \<open>Properties\<close>

text \<open>
  C32. One spelling per address: two addresses that parse have the same normal form exactly when they
  are the same IP address and the same port, whether written as IPv4, as IPv4 mapped into IPv6, in
  upper or lower case, with zeros left out or not; and a normal form is its own normal form, so
  that the paths of a link, which are compared as strings, are compared as addresses.
\<close>

theorem normalize_canonical:
  assumes "SplitHostPort a = Some (h, p)" and "ParseIP h = Some ip"
    and "SplitHostPort b = Some (k, q)" and "ParseIP k = Some jp"
  shows "(NormalizeAddr a = NormalizeAddr b \<longleftrightarrow> ip = jp \<and> p = q) \<and> NormalizeAddr (NormalizeAddr c) = NormalizeAddr c"
proof -
  note na = Split_Normalized [OF assms(1,2)] and nb = Split_Normalized [OF assms(3,4)]
  have "ip = jp \<and> p = q" if "NormalizeAddr a = NormalizeAddr b"
    using na(2) nb(2) that IP_String_inj [OF ParseIP_ok [OF assms(2)] ParseIP_ok [OF assms(4)]] by simp
  then show ?thesis using na(1) nb(1) NormalizeAddr_idem by auto
qed

theorem normalize_canonical_witness:
  "NormalizeAddr ''[::ffff:10.0.0.1]:4190'' = NormalizeAddr ''10.0.0.1:4190'' \<and> NormalizeAddr ''[::1]:4190'' \<noteq> NormalizeAddr ''10.0.0.1:4190''"
proof -
  have s: "SplitHostPort ''[::ffff:10.0.0.1]:4190'' = Some (''::ffff:10.0.0.1'', ''4190'')"
    "SplitHostPort ''10.0.0.1:4190'' = Some (''10.0.0.1'', ''4190'')" "SplitHostPort ''[::1]:4190'' = Some (''::1'', ''4190'')"
    "ParseIP ''::ffff:10.0.0.1'' = Some [0, 0, 0, 0, 0, 65535, 2560, 1]" "ParseIP ''10.0.0.1'' = Some [0, 0, 0, 0, 0, 65535, 2560, 1]"
    "ParseIP ''::1'' = Some [0, 0, 0, 0, 0, 0, 0, 1]" by (simp_all add: SplitHostPort_def parse_eval)
  show ?thesis using normalize_canonical [OF s(1,4,2,5)] normalize_canonical [OF s(3,6,2,5)] by simp
qed

text \<open>
  Requests follow the gossip path: for a path on some IP address the endpoint a peer is reached at
  is the first one whose URL names that address, in whatever spelling, and the first endpoint if
  there is none.
\<close>

theorem endpoint_same_address:
  assumes "SplitHostPort raw = Some (h, p)" and "ParseIP h = Some ip" and "endpoints \<noteq> []"
  shows "EndpointFor endpoints (EndpointHosts hostname endpoints) (NormalizeAddr raw)
    = (case find (\<lambda>e. Option.bind (hostname e) ParseIP = Some ip) endpoints of Some e \<Rightarrow> e | None \<Rightarrow> hd endpoints)"
proof -
  define f where "f = (\<lambda>e. case hostname e of None \<Rightarrow> [] | Some h \<Rightarrow> (case ParseIP h of None \<Rightarrow> [] | Some ip \<Rightarrow> IP_String ip))"
  note ok = ParseIP_ok [OF assms(2)]
  have f: "f e = IP_String ip \<longleftrightarrow> Option.bind (hostname e) ParseIP = Some ip" for e
    using IP_String_not_Nil [OF ok] IP_String_inj [OF _ ok] ParseIP_ok by (auto simp: f_def split: option.splits)
  have "EndpointHosts hostname endpoints = map f endpoints" by (simp add: EndpointHosts_def f_def)
  then show ?thesis
    using assms(3) Split_Normalized(2) [OF assms(1,2)] IP_String_not_Nil [OF ok]
    by (cases endpoints) (auto simp: EndpointFor_def endpoint_scan_find f split: option.splits)
qed

theorem endpoint_same_address_witness:
  "EndpointFor [''http://a'', ''http://b''] (EndpointHosts (\<lambda>e. if e = ''http://b'' then Some ''10.0.0.1'' else Some ''::1'') [''http://a'', ''http://b''])
     (NormalizeAddr ''[::ffff:10.0.0.1]:4190'') = ''http://b''"
proof -
  have s: "SplitHostPort ''[::ffff:10.0.0.1]:4190'' = Some (''::ffff:10.0.0.1'', ''4190'')"
    "ParseIP ''::ffff:10.0.0.1'' = Some [0, 0, 0, 0, 0, 65535, 2560, 1]" "ParseIP ''10.0.0.1'' = Some [0, 0, 0, 0, 0, 65535, 2560, 1]"
    "ParseIP ''::1'' = Some [0, 0, 0, 0, 0, 0, 0, 1]" by (simp_all add: SplitHostPort_def parse_eval)
  show ?thesis
    using endpoint_same_address [OF s(1,2), of "[''http://a'', ''http://b'']" "\<lambda>e. if e = ''http://b'' then Some ''10.0.0.1'' else Some ''::1''"] s
    by simp
qed

end
