(* ===== verification/ConfigAddrs.thy ===== *)
theory ConfigAddrs
  imports Ip
begin

text \<open>
  The address lists of internal/config/config.go: Addrs with its resolvers, the wildcard rules, the
  addresses it warns about, and parsePrefix with the part of net/netip it rests on. An error is a
  value with the entry it is about; the addresses are ASCII text.
\<close>

section \<open>Definitions\<close>

type_synonym Addrs = "string list"

datatype AddrError =
    NotHostPort string string
  | NoPort string string
  | PortTaken string string string
  | WildcardRefused string string

definition wildcardHost :: "string \<Rightarrow> bool" where
  "wildcardHost h = (h = [] \<or> h = ''0.0.0.0'' \<or> h = ''::'')"

text \<open>net.SplitHostPort with its error dropped, as in \<open>host, port, _ := ...\<close>.\<close>

definition split_or_empty :: "string \<Rightarrow> string \<times> string" where
  "split_or_empty s = (case SplitHostPort s of None \<Rightarrow> ([], []) | Some hp \<Rightarrow> hp)"

definition wildcardCovers :: "string \<Rightarrow> string \<Rightarrow> bool" where
  "wildcardCovers wild host =
     (if fst (split_or_empty wild) \<noteq> ''0.0.0.0'' then True
      else case ParseIP host of None \<Rightarrow> True | Some ip \<Rightarrow> To4 ip \<noteq> None)"

text \<open>The first loop of resolve: the addresses kept and the wildcard address on each port.\<close>

fun resolve_loop :: "string \<Rightarrow> string list \<Rightarrow> (string \<times> string) list \<Rightarrow> string list \<Rightarrow> AddrError + (Addrs \<times> (string \<times> string) list)" where
  "resolve_loop what out wild [] = Inr (out, wild)"
| "resolve_loop what out wild (s0 # ss) =
     (let s = TrimSpace s0 in
      if s = [] then resolve_loop what out wild ss
      else case SplitHostPort s of
        None \<Rightarrow> Inl (NotHostPort what s)
      | Some (host, port) \<Rightarrow>
        if port = [] then Inl (NoPort what s)
        else if s \<in> set out then resolve_loop what out wild ss
        else if wildcardHost host then
          (case map_of wild port of
             Some prev \<Rightarrow> Inl (PortTaken what s prev)
           | None \<Rightarrow> resolve_loop what (out @ [s]) (wild @ [(port, s)]) ss)
        else resolve_loop what (out @ [s]) wild ss)"

text \<open>The second loop: an address a wildcard on its port takes the port from.\<close>

definition taken_by :: "(string \<times> string) list \<Rightarrow> string \<Rightarrow> string option" where
  "taken_by wild s =
     (case split_or_empty s of (host, port) \<Rightarrow>
        case map_of wild port of
          Some prev \<Rightarrow> if \<not> wildcardHost host \<and> wildcardCovers prev host then Some prev else None
        | None \<Rightarrow> None)"

definition resolve :: "string \<Rightarrow> string \<Rightarrow> Addrs \<Rightarrow> AddrError + Addrs" where
  "resolve what def a =
     (case resolve_loop what [] [] a of
        Inl e \<Rightarrow> Inl e
      | Inr (out, wild) \<Rightarrow>
        if out = [] then Inr [def]
        else case find (\<lambda>s. taken_by wild s \<noteq> None) out of
          Some s \<Rightarrow> Inl (PortTaken what s (the (taken_by wild s)))
        | None \<Rightarrow> Inr out)"

fun resolveSpecific :: "string \<Rightarrow> string list \<Rightarrow> Addrs \<Rightarrow> AddrError + Addrs" where
  "resolveSpecific what out [] = Inr out"
| "resolveSpecific what out (s0 # ss) =
     (let s = TrimSpace s0 in
      if s = [] then resolveSpecific what out ss
      else case SplitHostPort s of
        None \<Rightarrow> Inl (NotHostPort what s)
      | Some (host, port) \<Rightarrow>
        if port = [] then Inl (NoPort what s)
        else if wildcardHost host then Inl (WildcardRefused what s)
        else if s \<in> set out then resolveSpecific what out ss
        else resolveSpecific what (out @ [s]) ss)"

definition resolvePeers :: "string \<Rightarrow> Addrs \<Rightarrow> AddrError + Addrs" where
  "resolvePeers what a = resolveSpecific what [] a"

text \<open>Which addresses the public internet could reach; the predicates of package net on groups.\<close>

definition IsUnspecified :: "IP \<Rightarrow> bool" where
  "IsUnspecified ip = (ip = [0, 0, 0, 0, 0, 65535, 0, 0] \<or> ip = replicate 8 0)"

definition IsPrivate :: "IP \<Rightarrow> bool" where
  "IsPrivate ip =
     (case To4 ip of
        Some v4 \<Rightarrow> v4 ! 0 div 256 = 10 \<or> 44048 \<le> v4 ! 0 \<and> v4 ! 0 < 44064 \<or> v4 ! 0 = 49320
      | None \<Rightarrow> ip ! 0 div 512 = 126)"

definition IsLoopback :: "IP \<Rightarrow> bool" where
  "IsLoopback ip = (case To4 ip of Some v4 \<Rightarrow> v4 ! 0 div 256 = 127 | None \<Rightarrow> ip = [0, 0, 0, 0, 0, 0, 0, 1])"

definition IsLinkLocalUnicast :: "IP \<Rightarrow> bool" where
  "IsLinkLocalUnicast ip = (case To4 ip of Some v4 \<Rightarrow> v4 ! 0 = 43518 | None \<Rightarrow> ip ! 0 div 64 = 1018)"

definition IsLinkLocalMulticast :: "IP \<Rightarrow> bool" where
  "IsLinkLocalMulticast ip =
     (case To4 ip of Some v4 \<Rightarrow> v4 ! 0 = 57344 \<and> v4 ! 1 div 256 = 0 | None \<Rightarrow> ip ! 0 div 256 = 255 \<and> ip ! 0 mod 16 = 2)"

definition Public :: "Addrs \<Rightarrow> Addrs" where
  "Public a = filter (\<lambda>s. case SplitHostPort s of None \<Rightarrow> False
     | Some (host, _) \<Rightarrow> (case ParseIP host of None \<Rightarrow> False
       | Some ip \<Rightarrow> \<not> (IsUnspecified ip \<or> IsPrivate ip \<or> IsLoopback ip \<or> IsLinkLocalUnicast ip \<or> IsLinkLocalMulticast ip))) a"

definition Wildcard :: "Addrs \<Rightarrow> Addrs" where
  "Wildcard a = filter (\<lambda>s. case SplitHostPort s of None \<Rightarrow> False | Some (host, _) \<Rightarrow> wildcardHost host) a"

definition withScheme :: "string \<Rightarrow> string" where
  "withScheme u0 = (let u = TrimSpace u0 in if u = [] \<or> Contains u ''://'' then u else ''http://'' @ u)"

text \<open>notIn; \<open>url_host\<close> is url.Parse and URL.Host, None for what is not a URL.\<close>

definition notIn :: "(string \<Rightarrow> string option) \<Rightarrow> string list \<Rightarrow> Addrs \<Rightarrow> Addrs" where
  "notIn url_host endpoints a =
     (let present = concat (map (\<lambda>e. case url_host (withScheme e) of Some h \<Rightarrow> if h = [] then [] else [NormalizeAddr h] | None \<Rightarrow> []) endpoints)
      in filter (\<lambda>s. NormalizeAddr s \<notin> set present) a)"

text \<open>
  What makes a list of addresses one that can be bound: the entries are trimmed, distinct and have a
  port, and no entry takes the port from another: a wildcard host, which answers for every address
  of its family (0.0.0.0 for IPv4 and for names, anything else for both), has its port for itself.
\<close>

definition host_of :: "string \<Rightarrow> string" where
  "host_of s = fst (split_or_empty s)"

definition port_of :: "string \<Rightarrow> string" where
  "port_of s = snd (split_or_empty s)"

definition addr_good :: "string \<Rightarrow> bool" where
  "addr_good s = (TrimSpace s = s \<and> s \<noteq> [] \<and> SplitHostPort s \<noteq> None \<and> port_of s \<noteq> [])"

definition takes_port :: "string \<Rightarrow> string \<Rightarrow> bool" where
  "takes_port s t =
     (port_of s = port_of t \<and> host_of s \<in> {[], ''0.0.0.0'', ''::''}
      \<and> (host_of t \<in> {[], ''0.0.0.0'', ''::''} \<or> host_of s \<noteq> ''0.0.0.0''
         \<or> (case ParseIP (host_of t) of None \<Rightarrow> True | Some ip \<Rightarrow> To4 ip \<noteq> None)))"

definition bindable :: "string list \<Rightarrow> bool" where
  "bindable out = (distinct out \<and> list_all addr_good out \<and> (\<forall>s \<in> set out. \<forall>t \<in> set out. s \<noteq> t \<longrightarrow> \<not> takes_port s t))"

definition wilds :: "string list \<Rightarrow> (string \<times> string) list" where
  "wilds out = map (\<lambda>s. (port_of s, s)) (filter (\<lambda>s. wildcardHost (host_of s)) out)"

definition loop_ok :: "string list \<Rightarrow> bool" where
  "loop_ok out = (distinct out \<and> list_all addr_good out \<and> distinct (map fst (wilds out)))"

section \<open>Lemmas\<close>

lemma TrimSpace_idem [simp]: "TrimSpace (TrimSpace s) = TrimSpace s"
proof -
  have l: "dropWhile is_space (TrimSpace s) = TrimSpace s"
  proof (cases "dropWhile is_space s")
    case (Cons c r)
    have "\<not> is_space c" using hd_dropWhile [of is_space s] Cons by simp
    then have t: "TrimSpace s = rev (dropWhile is_space (rev r @ [c]))" by (simp add: TrimSpace_def Cons)
    have "TrimSpace s = c # rev (dropWhile is_space (rev r))"
      unfolding t dropWhile_append using \<open>\<not> is_space c\<close> by (auto simp: dropWhile_eq_Nil_conv)
    then show ?thesis using \<open>\<not> is_space c\<close> by auto
  next
    case Nil
    then have "TrimSpace s = []" unfolding TrimSpace_def Nil by simp
    then show ?thesis by simp
  qed
  have "dropWhile is_space (rev (TrimSpace s)) = rev (TrimSpace s)" by (simp add: TrimSpace_def)
  then show ?thesis using l by (simp add: TrimSpace_def [of "TrimSpace s"])
qed

lemma split_good:
  assumes "addr_good s"
  shows "SplitHostPort s = Some (host_of s, port_of s)"
  using assms by (auto simp: addr_good_def host_of_def port_of_def split_or_empty_def split: option.splits)

lemma wilds_append: "wilds (xs @ ys) = wilds xs @ wilds ys"
  by (simp add: wilds_def)

lemma wilds_simps [simp]:
  "wilds [] = []" "wilds (s # xs) = (if wildcardHost (host_of s) then (port_of s, s) # wilds xs else wilds xs)"
  by (simp_all add: wilds_def)

lemma loop_ok_prefix: "loop_ok (xs @ ys) \<Longrightarrow> loop_ok xs"
  by (simp add: loop_ok_def wilds_append)

lemma loop_ok_snoc:
  "loop_ok (out @ [s]) \<longleftrightarrow> loop_ok out \<and> s \<notin> set out \<and> addr_good s
     \<and> (wildcardHost (host_of s) \<longrightarrow> map_of (wilds out) (port_of s) = None)"
  by (auto simp: loop_ok_def wilds_append map_of_eq_None_iff)

lemma resolve_loop_result:
  assumes "resolve_loop what out (wilds out) a = Inr (out', wild')" "loop_ok out"
  shows "loop_ok out' \<and> wild' = wilds out' \<and> set out' = set out \<union> ({TrimSpace s |s. s \<in> set a} - {[]})"
  using assms
proof (induction a arbitrary: out)
  case (Cons s0 ss)
  let ?s = "TrimSpace s0"
  show ?case
  proof (cases "?s = []")
    case True
    then show ?thesis using Cons by auto
  next
    case False
    then obtain h p where hp: "SplitHostPort ?s = Some (h, p)" "p \<noteq> []"
      using Cons.prems(1) by (auto simp: Let_def split: option.splits prod.splits if_splits)
    then have n: "host_of ?s = h" "port_of ?s = p" "addr_good ?s"
      using False by (simp_all add: host_of_def port_of_def split_or_empty_def addr_good_def)
    show ?thesis
    proof (cases "?s \<in> set out")
      case True
      then show ?thesis using Cons False hp by auto
    next
      case new: False
      have w: "wildcardHost h \<Longrightarrow> map_of (wilds out) p = None" "resolve_loop what (out @ [?s]) (wilds (out @ [?s])) ss = Inr (out', wild')"
        using Cons.prems(1) False new hp n by (auto simp: Let_def wilds_append split: option.splits if_splits)
      have "loop_ok (out @ [?s])" using Cons.prems(2) new n w(1) by (simp add: loop_ok_snoc)
      from Cons.IH [OF w(2) this] show ?thesis using False by auto
    qed
  qed
qed simp

lemma resolve_loop_replay:
  assumes "loop_ok (xs @ ys)"
  shows "resolve_loop what xs (wilds xs) ys = Inr (xs @ ys, wilds (xs @ ys))"
  using assms
proof (induction ys arbitrary: xs)
  case (Cons y ys)
  have "loop_ok ((xs @ [y]) @ ys)" using Cons.prems by simp
  note ih = Cons.IH [OF this]
  have "loop_ok (xs @ [y])" using loop_ok_prefix [of "xs @ [y]" ys] Cons.prems by simp
  then have y: "y \<notin> set xs" "addr_good y" "wildcardHost (host_of y) \<longrightarrow> map_of (wilds xs) (port_of y) = None"
    by (auto simp: loop_ok_snoc)
  have "resolve_loop what xs (wilds xs) (y # ys) = resolve_loop what (xs @ [y]) (wilds (xs @ [y])) ys"
    using y split_good [OF y(2)] by (auto simp: addr_good_def wilds_append Let_def)
  then show ?case using ih by simp
qed simp

lemma taken_by_wilds:
  assumes "loop_ok out" "t \<in> set out"
  shows "taken_by (wilds out) t \<noteq> None \<longleftrightarrow> \<not> wildcardHost (host_of t) \<and> (\<exists>s \<in> set out. takes_port s t)"
proof -
  have c: "wildcardCovers s (host_of t) \<longleftrightarrow> host_of s \<noteq> ''0.0.0.0'' \<or> (case ParseIP (host_of t) of None \<Rightarrow> True | Some ip \<Rightarrow> To4 ip \<noteq> None)" for s
    by (simp add: wildcardCovers_def host_of_def)
  have m: "map_of (wilds out) (port_of t) = Some s \<longleftrightarrow> s \<in> set out \<and> wildcardHost (host_of s) \<and> port_of s = port_of t" for s
    using assms(1) by (auto simp: loop_ok_def map_of_eq_Some_iff wilds_def intro!: rev_image_eqI)
  have "taken_by (wilds out) t \<noteq> None \<longleftrightarrow>
      (\<exists>s. map_of (wilds out) (port_of t) = Some s \<and> \<not> wildcardHost (host_of t) \<and> wildcardCovers s (host_of t))"
    by (auto simp: taken_by_def host_of_def port_of_def split: prod.splits option.splits)
  then show ?thesis unfolding m c by (auto simp: takes_port_def wildcardHost_def)
qed

lemma bindable_loop:
  "bindable out \<longleftrightarrow> loop_ok out \<and> (\<forall>t \<in> set out. taken_by (wilds out) t = None)"
proof -
  have w: "(\<forall>s \<in> set out. \<forall>t \<in> set out. s \<noteq> t \<longrightarrow> \<not> takes_port s t) \<longleftrightarrow>
     (\<forall>t \<in> set out. \<not> wildcardHost (host_of t) \<longrightarrow> (\<forall>s \<in> set out. \<not> takes_port s t))
     \<and> (\<forall>s \<in> set out. \<forall>t \<in> set out. s \<noteq> t \<and> wildcardHost (host_of s) \<and> wildcardHost (host_of t) \<longrightarrow> port_of s \<noteq> port_of t)"
    by (auto simp: takes_port_def wildcardHost_def)
  have d: "distinct (map fst (wilds out)) \<longleftrightarrow>
     (\<forall>s \<in> set out. \<forall>t \<in> set out. s \<noteq> t \<and> wildcardHost (host_of s) \<and> wildcardHost (host_of t) \<longrightarrow> port_of s \<noteq> port_of t)" if "distinct out"
    using that by (auto simp: wilds_def comp_def distinct_map inj_on_def)
  show ?thesis
  proof (cases "loop_ok out")
    case True
    then have "\<forall>t \<in> set out. taken_by (wilds out) t = None \<longleftrightarrow> (\<not> wildcardHost (host_of t) \<longrightarrow> (\<forall>s \<in> set out. \<not> takes_port s t))"
      using taken_by_wilds by blast
    then show ?thesis using True w d unfolding bindable_def loop_ok_def by auto
  next
    case False
    then show ?thesis using w d unfolding bindable_def loop_ok_def by metis
  qed
qed

lemma resolve_bindable:
  assumes "resolve what def a = Inr out"
  shows "if \<forall>s \<in> set a. TrimSpace s = [] then out = [def] else bindable out \<and> set out = {TrimSpace s |s. s \<in> set a} - {[]}"
proof -
  obtain o' w where l: "resolve_loop what [] [] a = Inr (o', w)" using assms by (auto simp: resolve_def split: sum.splits)
  have r: "loop_ok o' \<and> w = wilds o' \<and> set o' = {TrimSpace s |s. s \<in> set a} - {[]}"
    using resolve_loop_result [of what "[]" a o' w] l by (simp add: loop_ok_def)
  have e: "o' = [] \<longleftrightarrow> (\<forall>s \<in> set a. TrimSpace s = [])" 
    unfolding set_empty [symmetric] conjunct2 [OF conjunct2 [OF r]] by auto
  show ?thesis
  proof (cases "o' = []")
    case True
    then have "resolve what def a = Inr [def]" using l by (simp add: resolve_def)
    then show ?thesis using assms e True by simp
  next
    case False
    have f: "find (\<lambda>s. taken_by w s \<noteq> None) o' = None" "out = o'"
      using assms l False by (auto simp: resolve_def split: option.splits)
    then have "\<forall>t \<in> set o'. taken_by w t = None" by (auto simp: find_None_iff)
    then have "bindable o'" unfolding bindable_loop using conjunct1 [OF r] conjunct1 [OF conjunct2 [OF r]] by simp
    then show ?thesis using e False r f(2) by auto
  qed
qed

lemma resolve_again:
  assumes "bindable out" "out \<noteq> []"
  shows "resolve what def out = Inr out"
proof -
  have "loop_ok out" "\<forall>t \<in> set out. taken_by (wilds out) t = None" using assms(1) by (simp_all add: bindable_loop)
  moreover have "find (\<lambda>s. taken_by (wilds out) s \<noteq> None) out = None" using calculation(2) by (simp add: find_None_iff)
  ultimately show ?thesis using assms(2) resolve_loop_replay [of "[]" out what] by (simp add: resolve_def)
qed

lemma resolveSpecific_result:
  assumes "resolveSpecific what out a = Inr out'" "distinct out" "list_all (\<lambda>s. addr_good s \<and> \<not> wildcardHost (host_of s)) out"
  shows "distinct out' \<and> list_all (\<lambda>s. addr_good s \<and> \<not> wildcardHost (host_of s)) out' \<and> set out' = set out \<union> ({TrimSpace s |s. s \<in> set a} - {[]})"
  using assms
proof (induction a arbitrary: out)
  case (Cons s0 ss)
  let ?s = "TrimSpace s0"
  show ?case
  proof (cases "?s = []")
    case True
    then show ?thesis using Cons by auto
  next
    case False
    then obtain h p where hp: "SplitHostPort ?s = Some (h, p)" "p \<noteq> []" "\<not> wildcardHost h"
      using Cons.prems(1) by (auto simp: Let_def split: option.splits prod.splits if_splits)
    then have n: "host_of ?s = h" "addr_good ?s"
      using False by (simp_all add: host_of_def port_of_def split_or_empty_def addr_good_def)
    show ?thesis using Cons False hp n by (cases "?s \<in> set out") auto
  qed
qed simp

lemma resolveSpecific_again:
  assumes "distinct (xs @ ys)" "list_all (\<lambda>s. addr_good s \<and> \<not> wildcardHost (host_of s)) ys"
  shows "resolveSpecific what xs ys = Inr (xs @ ys)"
  using assms
proof (induction ys arbitrary: xs)
  case (Cons y ys)
  have y: "addr_good y" "\<not> wildcardHost (host_of y)" "y \<notin> set xs" using Cons.prems by auto
  then have "resolveSpecific what xs (y # ys) = resolveSpecific what (xs @ [y]) ys"
    using split_good [OF y(1)] by (simp add: addr_good_def Let_def)
  then show ?case using Cons.IH [of "xs @ [y]"] Cons.prems by simp
qed simp

lemma Contains_append: "Contains (a @ p @ b) p"
proof (induction a)
  case Nil
  have "HasPrefix (p @ b) p" by (simp add: HasPrefix_append)
  then show ?case by (cases "p @ b") auto
qed simp

lemma withScheme_idem [simp]: "withScheme (withScheme u) = withScheme u"
proof -
  let ?t = "TrimSpace u"
  have "TrimSpace (''http://'' @ ?t) = ''http://'' @ ?t" if "?t \<noteq> []"
  proof -
    have "dropWhile is_space (rev ?t) = rev ?t" by (simp add: TrimSpace_def)
    moreover have "\<exists>x \<in> set (rev ?t). \<not> is_space x"
      using that \<open>dropWhile is_space (rev ?t) = rev ?t\<close> dropWhile_eq_Nil_conv [of is_space "rev ?t"] by auto
    ultimately have "dropWhile is_space (rev ?t @ rev ''http://'') = rev ?t @ rev ''http://''" by (auto simp: dropWhile_append)
    then show ?thesis by (simp add: TrimSpace_def [of "_ # _"] is_space_def)
  qed
  moreover have "Contains (''http://'' @ ?t) ''://''" using Contains_append [of "''http''" "''://''" ?t] by simp
  ultimately show ?thesis by (auto simp: withScheme_def Let_def)
qed

section \<open>Properties\<close>



end
