(* ===== verification/Config.thy ===== *)
theory Config
  imports ConfigAddrs Limiter "HOL-Library.AList"
begin

text \<open>
  The configuration of internal/config/config.go: its structure, and Finish, which applies the
  defaults, reads the secrets kept in files and validates. Finish is a sequence of steps in the order
  of the code, each on the whole configuration and each able to fail. A Go map is a list of its
  entries, in the order the loop over it takes. What the operating system answers, and the address
  decoder of the Algorand SDK, are the fields of the environment.
\<close>

section \<open>Structure\<close>

text \<open>A float64 as YAML reads it.\<close>

datatype yfloat = Num f64 | NaN | PosInf | NegInf

fun nonNegative :: "yfloat \<Rightarrow> bool" where
  "nonNegative (Num v) = (v \<ge> 0)"
| "nonNegative _ = False"

record SimulateCapsConfig =
  cc_MaxGroups :: int
  cc_MaxRounds :: int
  cc_MaxExtraOpcodeBudget :: u64
  cc_UnnamedResources :: "bool option"
  cc_ExecTrace :: "bool option"

record RatePlan =
  rp_PerMinute :: yfloat
  rp_PerDay :: yfloat
  rp_Simulate :: SimulateCapsConfig

record RateToken =
  rt_Name :: string
  rt_Token :: string
  rt_TokenFile :: string
  rt_Plan :: string

record RateLimitConfig =
  rl_Enabled :: bool
  rl_StateFile :: string
  rl_TrustedProxies :: "string list"
  rl_IPv6Prefix :: int
  rl_MaxKeys :: int
  rl_AnonymousPlan :: "string option"
  rl_SimulatePerSecond :: "yfloat option"
  rl_Weights :: "(string \<times> yfloat) list"
  rl_Effort :: "(string \<times> yfloat) list"
  rl_Plans :: "(string \<times> RatePlan) list"
  rl_Tokens :: "RateToken list"

record Log =
  lg_Level :: string
  lg_JSON :: bool

record Local =
  lc_ID :: string
  lc_DataDir :: string
  lc_Network :: string
  lc_AdvertiseEndpoints :: "string list"
  lc_Passthrough :: Addrs
  lc_Tier :: int
  lc_Tags :: "string list"
  lc_Overrides :: "CapabilityOverrides option"
  lc_WaitTimeout :: Duration
  lc_VerifyInterval :: Duration

record Reg =
  rg_Type :: string
  rg_AppID :: u64
  rg_SyncKey :: string
  rg_SyncKeyFile :: string
  rg_SyncAddress :: string
  rg_AlgodURL :: string
  rg_AlgodToken :: string
  rg_Refresh :: Duration
  rg_AutoRegister :: "bool option"
  rg_Cache :: string
  rg_File :: string
  rg_Static :: "NodeRecord list"

record Mesh =
  ms_Listen :: Addrs
  ms_Advertise :: Addrs
  ms_SharedSecret :: string
  ms_SuspectAfter :: Duration
  ms_DownAfter :: Duration
  ms_ProbeInterval :: Duration
  ms_KeepAlive :: Duration
  ms_PathProbeInterval :: Duration
  ms_PathTimeout :: Duration
  ms_PeerOverrides :: "(string \<times> int option) list"

record External =
  xt_Name :: string
  xt_URL :: string
  xt_Token :: string
  xt_Tier :: int
  xt_Capabilities :: "CapabilityOverrides option"
  xt_HealthCheck :: Duration

record Routing =
  rt_SyncTolerance :: u64
  rt_LagGrace :: Duration
  rt_ReturnHysteresisRounds :: int
  rt_MultiBroadcast :: bool
  rt_RetryBudget :: "int option"
  rt_UpstreamTimeout :: Duration
  rt_RequestTimeout :: Duration
  rt_PendingTTL :: Duration
  rt_DrainTimeout :: Duration
  rt_BreakerThreshold :: int
  rt_BreakerOpenFor :: Duration
  rt_Exclude :: "string list"

record Config =
  cf_Role :: string
  cf_Mode :: string
  cf_Listen :: Addrs
  cf_ClientToken :: string
  cf_ClientTokenFile :: string
  cf_AdminToken :: string
  cf_AdminTokenFile :: string
  cf_Log :: Log
  cf_Local :: Local
  cf_Registry :: Reg
  cf_Mesh :: Mesh
  cf_External :: "External list"
  cf_Routing :: Routing
  cf_RateLimit :: RateLimitConfig

text \<open>The errors, one constructor per message.\<close>

datatype ConfigError =
    BadDomain DomainError
  | BadAddr AddrError
  | SecretUnreadable string string
  | NoHostname
  | NetworkRequired
  | NetworkRefused
  | DataDirRequired
  | AppIDRequired
  | SyncKeyRequired
  | AlgodURLRequired
  | BadSyncAddress string
  | FileRequired
  | BadStatic DomainError
  | UnknownRegistry string
  | EndpointsRequired
  | AdvertiseRequired
  | PassthroughRefused
  | PassthroughTaken string string
  | ExternalIncomplete nat
  | ExternalHealthCheck nat
  | ExcludesItself string
  | NegativeRetryBudget
  | NegativeRequestTimeout
  | ClientTokenWithLimits
  | NoPlans
  | UnnamedPlan
  | NegativePlan string
  | NegativeCaps string
  | UnknownWeight string
  | BadWeight string
  | UnknownEffort string
  | BadEffort string
  | BadSimulatePerSecond
  | BadIPv6Prefix
  | NegativeMaxKeys
  | NoAnonymousPlan string
  | BadProxy string
  | TokenUnnamed nat
  | TokenNameTwice nat string
  | TokenMissing string
  | TokenNoPlan string string
  | TokenEmpty string
  | TokenIsAdmin string
  | TokenTwice string string

text \<open>The operating system: reading a file, the host name; and types.DecodeAddress of the SDK.\<close>

datatype fs_error = ErrNotExist | ENOTDIR | ErrOther string

record cfg_env =
  env_ReadFile :: "string \<Rightarrow> fs_error + string"
  env_Hostname :: "string option"
  env_DecodeAddress :: "string \<Rightarrow> bool"

definition readSecret :: "cfg_env \<Rightarrow> string \<Rightarrow> fs_error + string" where
  "readSecret env path = (case env_ReadFile env path of Inl e \<Rightarrow> Inl e | Inr b \<Rightarrow> Inr (TrimSpace b))"

section \<open>Trusted proxies\<close>

text \<open>netip.ParseAddr: whether the address is IPv4, its groups (IPv4 mapped) and its zone.\<close>

record Addr =
  ad_Is4 :: bool
  ad_Groups :: IP
  ad_Zone :: string

definition ParseAddr :: "string \<Rightarrow> Addr option" where
  "ParseAddr s =
     (case dropWhile (\<lambda>c. c \<noteq> CHR ''.'' \<and> c \<noteq> CHR '':'' \<and> c \<noteq> CHR ''%'') s of
        [] \<Rightarrow> None
      | c # _ \<Rightarrow>
        if c = CHR ''.'' then
          map_option (\<lambda>v4. \<lparr>ad_Is4 = True, ad_Groups = [0, 0, 0, 0, 0, 65535] @ v4, ad_Zone = []\<rparr>) (parseIPv4 s)
        else if c = CHR '':'' then
          (case Cut s (CHR ''%'') of (front, zone, found) \<Rightarrow>
             if found \<and> zone = [] then None
             else map_option (\<lambda>ip. \<lparr>ad_Is4 = False, ad_Groups = ip, ad_Zone = zone\<rparr>) (parseIPv6 front))
        else None)"

definition Unmap :: "Addr \<Rightarrow> Addr" where
  "Unmap a = (if To4 (ad_Groups a) \<noteq> None then a\<lparr>ad_Is4 := True, ad_Zone := []\<rparr> else a)"

record Prefix =
  pf_Is4 :: bool
  pf_Groups :: IP
  pf_Bits :: nat

definition PrefixFrom :: "Addr \<Rightarrow> nat \<Rightarrow> Prefix" where
  "PrefixFrom a bits = \<lparr>pf_Is4 = ad_Is4 a, pf_Groups = ad_Groups a, pf_Bits = bits\<rparr>"

definition BitLen :: "Addr \<Rightarrow> nat" where
  "BitLen a = (if ad_Is4 a then 32 else 128)"

fun last_slash :: "string \<Rightarrow> (string \<times> string) option" where
  "last_slash [] = None"
| "last_slash (c # cs) =
     (case last_slash cs of
        Some (a, b) \<Rightarrow> Some (c # a, b)
      | None \<Rightarrow> if c = CHR ''/'' then Some ([], cs) else None)"

text \<open>netip.ParsePrefix: no zone, and a number of bits without sign or leading zero.\<close>

definition ParsePrefix :: "string \<Rightarrow> Prefix option" where
  "ParsePrefix s =
     (case last_slash s of
        None \<Rightarrow> None
      | Some (front, bits) \<Rightarrow>
        (case ParseAddr front of
           None \<Rightarrow> None
         | Some a \<Rightarrow>
           if \<not> ad_Is4 a \<and> ad_Zone a \<noteq> [] then None
           else if bits = [] \<or> \<not> list_all is_digit bits \<or> length bits > 1 \<and> hd bits = CHR ''0'' then None
           else if dec_value bits > int (BitLen a) then None
           else Some (PrefixFrom a (nat (dec_value bits)))))"

text \<open>Prefix.Masked: the groups with the bits past the prefix cleared.\<close>

definition mask_group :: "nat \<Rightarrow> nat \<Rightarrow> nat \<Rightarrow> nat" where
  "mask_group bits i g = (let k = min 16 (bits - 16 * i) in g div 2 ^ (16 - k) * 2 ^ (16 - k))"

definition Masked :: "Prefix \<Rightarrow> Prefix" where
  "Masked p =
     p\<lparr>pf_Groups := map (\<lambda>(i, g). mask_group (if pf_Is4 p then 96 + pf_Bits p else pf_Bits p) i g) (enumerate 0 (pf_Groups p))\<rparr>"

definition parsePrefix :: "string \<Rightarrow> Prefix option" where
  "parsePrefix s0 =
     (let s = TrimSpace s0 in
      if Contains s ''/'' then map_option Masked (ParsePrefix s)
      else (case ParseAddr s of
              None \<Rightarrow> None
            | Some a0 \<Rightarrow> let a = Unmap a0 in Some (PrefixFrom a (BitLen a))))"

definition TrustedPrefixes :: "RateLimitConfig \<Rightarrow> Prefix list" where
  "TrustedPrefixes r = List.map_filter parsePrefix (rl_TrustedProxies r)"

section \<open>Finishing the rate limits\<close>

definition EffortKeys :: "string list" where
  "EffortKeys = [''opcodes_per_credit'', ''lookups_per_credit'', ''history_per_credit'', ''scanned_per_credit'', ''trace_kb_per_credit'']"

definition EffortRates_map :: "EffortRates \<Rightarrow> (string \<times> yfloat) list" where
  "EffortRates_map r = [(''opcodes_per_credit'', Num (OpcodesPerCredit r)), (''lookups_per_credit'', Num (LookupsPerCredit r)),
     (''history_per_credit'', Num (HistoryPerCredit r)), (''scanned_per_credit'', Num (ScannedPerCredit r)),
     (''trace_kb_per_credit'', Num (TraceKBPerCredit r))]"

fun plan_error :: "string \<times> RatePlan \<Rightarrow> ConfigError option" where
  "plan_error (name, p) =
     (if name = [] then Some UnnamedPlan
      else if \<not> nonNegative (rp_PerMinute p) \<or> \<not> nonNegative (rp_PerDay p) then Some (NegativePlan name)
      else if cc_MaxGroups (rp_Simulate p) < 0 \<or> cc_MaxRounds (rp_Simulate p) < 0 then Some (NegativeCaps name)
      else None)"

fun first_error :: "('a \<Rightarrow> 'e option) \<Rightarrow> 'a list \<Rightarrow> 'e option" where
  "first_error f [] = None"
| "first_error f (x # xs) = (case f x of Some e \<Rightarrow> Some e | None \<Rightarrow> first_error f xs)"

text \<open>The loop that lays the configured numbers over the defaults.\<close>

fun overlay :: "(string \<Rightarrow> ConfigError) \<Rightarrow> (string \<Rightarrow> ConfigError) \<Rightarrow> (string \<times> yfloat) list \<Rightarrow> (string \<times> yfloat) list
    \<Rightarrow> ConfigError + (string \<times> yfloat) list" where
  "overlay unknown bad m [] = Inr m"
| "overlay unknown bad m ((k, v) # kvs) =
     (if map_of m k = None then Inl (unknown k)
      else if \<not> nonNegative v then Inl (bad k)
      else overlay unknown bad (AList.update k v m) kvs)"

definition default_weights :: "(string \<times> yfloat) list" where
  "default_weights = map (\<lambda>k. (k, Num (weight_of DefaultCostWeights k))) CostKeys"

text \<open>One token: it is named, read from its file, on a plan, and like no other.\<close>

definition finish_token ::
  "cfg_env \<Rightarrow> string \<Rightarrow> (string \<times> RatePlan) list \<Rightarrow> string list \<Rightarrow> (string \<times> string) list \<Rightarrow> nat \<Rightarrow> RateToken \<Rightarrow> ConfigError + RateToken" where
  "finish_token env admin plans names vals i t =
     (if rt_Name t = [] then Inl (TokenUnnamed i)
      else if rt_Name t \<in> set names then Inl (TokenNameTwice i (rt_Name t))
      else if rt_Token t = [] \<and> rt_TokenFile t = [] then Inl (TokenMissing (rt_Name t))
      else if map_of plans (rt_Plan t) = None then Inl (TokenNoPlan (rt_Name t) (rt_Plan t))
      else
        case (if rt_TokenFile t = [] then Inr t
              else case readSecret env (rt_TokenFile t) of
                Inl _ \<Rightarrow> Inl (SecretUnreadable ''ratelimit.tokens'' (rt_TokenFile t))
              | Inr v \<Rightarrow> if rt_Token t \<noteq> [] \<and> rt_Token t \<noteq> v then Inl (TokenMissing (rt_Name t)) else Inr (t\<lparr>rt_Token := v\<rparr>)) of
          Inl e \<Rightarrow> Inl e
        | Inr t' \<Rightarrow>
          if rt_Token t' = [] then Inl (TokenEmpty (rt_Name t'))
          else if rt_Token t' = admin then Inl (TokenIsAdmin (rt_Name t'))
          else case map_of vals (rt_Token t') of
            Some other \<Rightarrow> Inl (TokenTwice (rt_Name t') other)
          | None \<Rightarrow> Inr t')"

fun finish_tokens ::
  "cfg_env \<Rightarrow> string \<Rightarrow> (string \<times> RatePlan) list \<Rightarrow> string list \<Rightarrow> (string \<times> string) list \<Rightarrow> nat \<Rightarrow> RateToken list \<Rightarrow> ConfigError + RateToken list" where
  "finish_tokens env admin plans names vals i [] = Inr []"
| "finish_tokens env admin plans names vals i (t # ts) =
     (case finish_token env admin plans names vals i t of
        Inl e \<Rightarrow> Inl e
      | Inr t' \<Rightarrow>
        (case finish_tokens env admin plans (rt_Name t' # names) ((rt_Token t', rt_Name t') # vals) (Suc i) ts of
           Inl e \<Rightarrow> Inl e
         | Inr ts' \<Rightarrow> Inr (t' # ts')))"

section \<open>The steps\<close>

text \<open>A sequence of steps that stops at the first error.\<close>

fun run_steps :: "('c \<Rightarrow> 'e + 'c) list \<Rightarrow> 'c \<Rightarrow> 'e + 'c" where
  "run_steps [] c = Inr c"
| "run_steps (f # fs) c = (case f c of Inl e \<Rightarrow> Inl e | Inr c' \<Rightarrow> run_steps fs c')"

definition rl_plans :: "RateLimitConfig \<Rightarrow> ConfigError + RateLimitConfig" where
  "rl_plans r =
     (if rl_Plans r = [] then Inl NoPlans
      else case first_error plan_error (rl_Plans r) of Some e \<Rightarrow> Inl e | None \<Rightarrow> Inr r)"

definition rl_weights :: "RateLimitConfig \<Rightarrow> ConfigError + RateLimitConfig" where
  "rl_weights r = (case overlay UnknownWeight BadWeight default_weights (rl_Weights r) of Inl e \<Rightarrow> Inl e | Inr m \<Rightarrow> Inr (r\<lparr>rl_Weights := m\<rparr>))"

definition rl_effort :: "RateLimitConfig \<Rightarrow> ConfigError + RateLimitConfig" where
  "rl_effort r = (case overlay UnknownEffort BadEffort (EffortRates_map DefaultEffortRates) (rl_Effort r) of
     Inl e \<Rightarrow> Inl e | Inr m \<Rightarrow> Inr (r\<lparr>rl_Effort := m\<rparr>))"

definition rl_numbers :: "RateLimitConfig \<Rightarrow> ConfigError + RateLimitConfig" where
  "rl_numbers r =
     (let v = (case rl_SimulatePerSecond r of None \<Rightarrow> Num 20 | Some v \<Rightarrow> v);
          bits = (if rl_IPv6Prefix r = 0 then 64 else rl_IPv6Prefix r)
      in if \<not> nonNegative v then Inl BadSimulatePerSecond
         else if bits < 1 \<or> bits > 128 then Inl BadIPv6Prefix
         else if rl_MaxKeys r < 0 then Inl NegativeMaxKeys
         else Inr (r\<lparr>rl_SimulatePerSecond := Some v, rl_IPv6Prefix := bits,
                     rl_MaxKeys := (if rl_MaxKeys r = 0 then 200000 else rl_MaxKeys r)\<rparr>))"

definition rl_anonymous :: "RateLimitConfig \<Rightarrow> ConfigError + RateLimitConfig" where
  "rl_anonymous r =
     (let a = (case rl_AnonymousPlan r of Some a \<Rightarrow> a
               | None \<Rightarrow> if map_of (rl_Plans r) ''free'' \<noteq> None then ''free'' else [])
      in if a \<noteq> [] \<and> map_of (rl_Plans r) a = None then Inl (NoAnonymousPlan a) else Inr (r\<lparr>rl_AnonymousPlan := Some a\<rparr>))"

definition rl_proxies :: "RateLimitConfig \<Rightarrow> ConfigError + RateLimitConfig" where
  "rl_proxies r =
     (case find (\<lambda>s. parsePrefix s = None) (rl_TrustedProxies r) of Some s \<Rightarrow> Inl (BadProxy s) | None \<Rightarrow> Inr r)"

definition rl_tokens :: "cfg_env \<Rightarrow> string \<Rightarrow> RateLimitConfig \<Rightarrow> ConfigError + RateLimitConfig" where
  "rl_tokens env admin r =
     (case finish_tokens env admin (rl_Plans r) [] [] 0 (rl_Tokens r) of Inl e \<Rightarrow> Inl e | Inr ts \<Rightarrow> Inr (r\<lparr>rl_Tokens := ts\<rparr>))"

definition ratelimit_finish :: "cfg_env \<Rightarrow> string \<Rightarrow> string \<Rightarrow> RateLimitConfig \<Rightarrow> ConfigError + RateLimitConfig" where
  "ratelimit_finish env clientToken adminToken r =
     (if \<not> rl_Enabled r then Inr r
      else if clientToken \<noteq> [] then Inl ClientTokenWithLimits
      else run_steps [rl_plans, rl_weights, rl_effort, rl_numbers, rl_anonymous, rl_proxies, rl_tokens env adminToken] r)"

definition balancer_role :: "Config \<Rightarrow> bool" where
  "balancer_role c = (cf_Role c = RoleBalancer)"

definition finish_role :: "Config \<Rightarrow> ConfigError + Config" where
  "finish_role c0 =
     (case ParseRole (cf_Role c0) of
        Inl e \<Rightarrow> Inl (BadDomain e)
      | Inr role \<Rightarrow>
        let c = c0\<lparr>cf_Role := role\<rparr> in
        (case ParseMode (cf_Mode c) of
           Inl e \<Rightarrow> Inl (BadDomain e)
         | Inr _ \<Rightarrow> Inr (c\<lparr>cf_Mode := (if cf_Mode c \<noteq> [] then cf_Mode c
                                      else if balancer_role c then ModeLoadBalancer else ModeFallback)\<rparr>)))"

definition finish_listen :: "Config \<Rightarrow> ConfigError + Config" where
  "finish_listen c =
     (case resolve ''listen'' ''127.0.0.1:4000'' (cf_Listen c) of Inl e \<Rightarrow> Inl (BadAddr e) | Inr l \<Rightarrow> Inr (c\<lparr>cf_Listen := l\<rparr>))"

definition finish_clientToken :: "cfg_env \<Rightarrow> Config \<Rightarrow> ConfigError + Config" where
  "finish_clientToken env c =
     (if cf_ClientToken c = [] \<and> cf_ClientTokenFile c \<noteq> [] then
        (case readSecret env (cf_ClientTokenFile c) of
           Inl _ \<Rightarrow> Inl (SecretUnreadable ''client_token_file'' (cf_ClientTokenFile c))
         | Inr t \<Rightarrow> Inr (c\<lparr>cf_ClientToken := t\<rparr>))
      else Inr c)"

definition finish_local :: "cfg_env \<Rightarrow> Config \<Rightarrow> ConfigError + Config" where
  "finish_local env c0 =
     (let lg = cf_Log c0; lc = cf_Local c0;
          lg' = (if lg_Level lg = [] then lg\<lparr>lg_Level := ''info''\<rparr> else lg)
      in if lc_ID lc = [] \<and> (env_Hostname env = None \<or> env_Hostname env = Some []) then Inl NoHostname
         else
           let lc' = (if lc_ID lc = [] then lc\<lparr>lc_ID := the (env_Hostname env)\<rparr> else lc);
               c = c0\<lparr>cf_Log := lg', cf_Local := lc'\<rparr>
           in if balancer_role c \<and> lc_Network lc' = [] then Inl NetworkRequired
              else if \<not> balancer_role c \<and> lc_Network lc' \<noteq> [] then Inl NetworkRefused
              else if \<not> balancer_role c \<and> lc_DataDir lc' = [] then Inl DataDirRequired
              else Inr c)"

definition finish_schemes :: "Config \<Rightarrow> ConfigError + Config" where
  "finish_schemes c =
     (let lc = cf_Local c; rg = cf_Registry c in
      Inr (c\<lparr>cf_Local := lc\<lparr>lc_AdvertiseEndpoints := map withScheme (lc_AdvertiseEndpoints lc)\<rparr>,
             cf_Registry := rg\<lparr>rg_AlgodURL := withScheme (rg_AlgodURL rg),
               rg_Static := map (\<lambda>r. r\<lparr>rec_Endpoints := map withScheme (rec_Endpoints r)\<rparr>) (rg_Static rg)\<rparr>,
             cf_External := map (\<lambda>e. e\<lparr>xt_URL := withScheme (xt_URL e)\<rparr>) (cf_External c)\<rparr>))"

text \<open>The admin token: filepath.Join names the default file in the data directory.\<close>

definition finish_adminToken :: "cfg_env \<Rightarrow> Config \<Rightarrow> ConfigError + Config" where
  "finish_adminToken env c =
     (if cf_AdminToken c = [] \<and> (cf_AdminTokenFile c \<noteq> [] \<or> lc_DataDir (cf_Local c) \<noteq> []) then
        let explicit = cf_AdminTokenFile c \<noteq> [];
            path = (if explicit then cf_AdminTokenFile c else lc_DataDir (cf_Local c) @ ''/algod.admin.token'')
        in (case readSecret env path of
              Inr t \<Rightarrow> Inr (c\<lparr>cf_AdminToken := t\<rparr>)
            | Inl e \<Rightarrow> if \<not> explicit \<and> (e = ErrNotExist \<or> e = ENOTDIR) then Inr c
                       else Inl (SecretUnreadable ''admin_token_file'' path))
      else Inr c)"

definition registry_type :: "Reg \<Rightarrow> string" where
  "registry_type rg =
     (if rg_Type rg \<noteq> [] then rg_Type rg
      else if rg_AppID rg \<noteq> 0 then ''algorand''
      else if rg_File rg \<noteq> [] then ''file''
      else ''static'')"

definition registry_error :: "cfg_env \<Rightarrow> bool \<Rightarrow> Reg \<Rightarrow> ConfigError option" where
  "registry_error env balancer rg =
     (if rg_Type rg = ''algorand'' then
        (if rg_AppID rg = 0 then Some AppIDRequired
         else if rg_SyncKey rg = [] \<and> rg_SyncKeyFile rg = [] then Some SyncKeyRequired
         else if balancer \<and> rg_AlgodURL rg = [] then Some AlgodURLRequired
         else if rg_SyncAddress rg \<noteq> [] \<and> \<not> env_DecodeAddress env (rg_SyncAddress rg) then Some (BadSyncAddress (rg_SyncAddress rg))
         else None)
      else if rg_Type rg = ''file'' then (if rg_File rg = [] then Some FileRequired else None)
      else if rg_Type rg = ''memory'' then None
      else if rg_Type rg = ''static'' then first_error (\<lambda>r. map_option BadStatic (Validate r)) (rg_Static rg)
      else Some (UnknownRegistry (rg_Type rg)))"

definition finish_registry :: "cfg_env \<Rightarrow> Config \<Rightarrow> ConfigError + Config" where
  "finish_registry env c =
     (let rg = (cf_Registry c)\<lparr>rg_Type := registry_type (cf_Registry c)\<rparr> in
      case registry_error env (balancer_role c) rg of Some e \<Rightarrow> Inl e | None \<Rightarrow> Inr (c\<lparr>cf_Registry := rg\<rparr>))"

definition finish_syncKey :: "cfg_env \<Rightarrow> Config \<Rightarrow> ConfigError + Config" where
  "finish_syncKey env c =
     (let rg = cf_Registry c in
      if rg_SyncKey rg = [] \<and> rg_SyncKeyFile rg \<noteq> [] then
        (case readSecret env (rg_SyncKeyFile rg) of
           Inl _ \<Rightarrow> Inl (SecretUnreadable ''registry.sync_key_file'' (rg_SyncKeyFile rg))
         | Inr k \<Rightarrow> Inr (c\<lparr>cf_Registry := rg\<lparr>rg_SyncKey := k\<rparr>\<rparr>))
      else Inr c)"

definition auto_register :: "Config \<Rightarrow> bool" where
  "auto_register c = (rg_AutoRegister (cf_Registry c) = Some True \<and> rg_Type (cf_Registry c) \<noteq> ''static'')"

definition finish_register :: "Config \<Rightarrow> ConfigError + Config" where
  "finish_register c0 =
     (let rg = cf_Registry c0;
          rg' = rg\<lparr>rg_Refresh := (if rg_Refresh rg = 0 then 300 * Second else rg_Refresh rg),
                   rg_AutoRegister := Some (case rg_AutoRegister rg of Some v \<Rightarrow> v | None \<Rightarrow> rg_Type rg \<noteq> ''static'')\<rparr>;
          c = c0\<lparr>cf_Registry := rg'\<rparr>
      in if auto_register c \<and> \<not> balancer_role c \<and> lc_AdvertiseEndpoints (cf_Local c) = [] then Inl EndpointsRequired else Inr c)"

definition finish_mesh :: "Config \<Rightarrow> ConfigError + Config" where
  "finish_mesh c =
     (let ms = cf_Mesh c in
      case resolve ''mesh.listen'' ''0.0.0.0:4001'' (ms_Listen ms) of
        Inl e \<Rightarrow> Inl (BadAddr e)
      | Inr l \<Rightarrow>
        (case resolvePeers ''mesh.advertise'' (ms_Advertise ms) of
           Inl e \<Rightarrow> Inl (BadAddr e)
         | Inr a \<Rightarrow>
           if a = [] \<and> auto_register c then Inl AdvertiseRequired
           else Inr (c\<lparr>cf_Mesh := ms\<lparr>ms_Listen := l, ms_Advertise := a\<rparr>\<rparr>)))"

text \<open>The first pass-through address a client listener already binds, with that listener.\<close>

definition binds_already :: "string \<Rightarrow> string \<Rightarrow> bool" where
  "binds_already pt l =
     (case (split_or_empty pt, split_or_empty l) of ((ph, pp), (lh, lp)) \<Rightarrow>
        lp = pp \<and> (l = pt \<or> wildcardHost lh \<and> wildcardCovers l ph))"

definition passthrough_error :: "Addrs \<Rightarrow> string \<Rightarrow> ConfigError option" where
  "passthrough_error listen pt = map_option (PassthroughTaken pt) (find (binds_already pt) listen)"

definition finish_passthrough :: "Config \<Rightarrow> ConfigError + Config" where
  "finish_passthrough c =
     (case resolveSpecific ''local.passthrough'' [] (lc_Passthrough (cf_Local c)) of
        Inl e \<Rightarrow> Inl (BadAddr e)
      | Inr pt \<Rightarrow>
        if balancer_role c \<and> pt \<noteq> [] then Inl PassthroughRefused
        else case first_error (passthrough_error (cf_Listen c)) pt of
          Some e \<Rightarrow> Inl e
        | None \<Rightarrow> Inr (c\<lparr>cf_Local := (cf_Local c)\<lparr>lc_Passthrough := pt\<rparr>\<rparr>))"

fun finish_external :: "nat \<Rightarrow> External list \<Rightarrow> ConfigError + External list" where
  "finish_external i [] = Inr []"
| "finish_external i (e # es) =
     (if xt_Name e = [] \<or> xt_URL e = [] then Inl (ExternalIncomplete i)
      else if xt_HealthCheck e < 0 then Inl (ExternalHealthCheck i)
      else case finish_external (Suc i) es of
        Inl err \<Rightarrow> Inl err
      | Inr es' \<Rightarrow> Inr (e\<lparr>xt_HealthCheck := (if xt_HealthCheck e = 0 then 60 * Second else xt_HealthCheck e),
                          xt_Tier := (if xt_Tier e = 0 then 100 else xt_Tier e)\<rparr> # es'))"

definition finish_externals :: "Config \<Rightarrow> ConfigError + Config" where
  "finish_externals c =
     (let ms = cf_Mesh c;
          ms' = ms\<lparr>ms_PathProbeInterval := (if ms_PathProbeInterval ms = 0 then 30 * Second else ms_PathProbeInterval ms),
                   ms_PathTimeout := (if ms_PathTimeout ms = 0 then 2 * Second else ms_PathTimeout ms)\<rparr>
      in case finish_external 0 (cf_External c) of Inl e \<Rightarrow> Inl e | Inr es \<Rightarrow> Inr (c\<lparr>cf_Mesh := ms', cf_External := es\<rparr>))"

fun exclude_loop :: "string \<Rightarrow> string list \<Rightarrow> string list \<Rightarrow> ConfigError + string list" where
  "exclude_loop me out [] = Inr out"
| "exclude_loop me out (i0 # ids) =
     (let i = TrimSpace i0 in
      if i = [] \<or> i \<in> set out then exclude_loop me out ids
      else if i = me then Inl (ExcludesItself i)
      else exclude_loop me (out @ [i]) ids)"

definition finish_exclude :: "Config \<Rightarrow> ConfigError + Config" where
  "finish_exclude c =
     (case exclude_loop (lc_ID (cf_Local c)) [] (rt_Exclude (cf_Routing c)) of
        Inl e \<Rightarrow> Inl e | Inr ids \<Rightarrow> Inr (c\<lparr>cf_Routing := (cf_Routing c)\<lparr>rt_Exclude := ids\<rparr>\<rparr>))"

definition or_default :: "int \<Rightarrow> int \<Rightarrow> int" where
  "or_default v d = (if v = 0 then d else v)"

text \<open>The routing numbers; a duration is a 64-bit integer and wraps.\<close>

definition finish_routing :: "Config \<Rightarrow> ConfigError + Config" where
  "finish_routing c =
     (let rt = cf_Routing c;
          up = or_default (rt_UpstreamTimeout rt) (60 * Second)
      in if (case rt_RetryBudget rt of Some b \<Rightarrow> b < 0 | None \<Rightarrow> False) then Inl NegativeRetryBudget
         else if rt_RequestTimeout rt < 0 then Inl NegativeRequestTimeout
         else Inr (c\<lparr>cf_Routing := rt\<lparr>
             rt_ReturnHysteresisRounds := or_default (rt_ReturnHysteresisRounds rt) 3,
             rt_LagGrace := or_default (rt_LagGrace rt) (1500 * Millisecond),
             rt_UpstreamTimeout := up,
             rt_RequestTimeout := or_default (rt_RequestTimeout rt) (wrap64 (2 * up)),
             rt_PendingTTL := or_default (rt_PendingTTL rt) (10 * Second),
             rt_DrainTimeout := or_default (rt_DrainTimeout rt) (10 * Second),
             rt_BreakerThreshold := or_default (rt_BreakerThreshold rt) 5,
             rt_BreakerOpenFor := or_default (rt_BreakerOpenFor rt) (10 * Second)\<rparr>,
           cf_Local := (cf_Local c)\<lparr>lc_WaitTimeout := or_default (lc_WaitTimeout (cf_Local c)) (60 * Second)\<rparr>\<rparr>))"

definition finish_ratelimit :: "cfg_env \<Rightarrow> Config \<Rightarrow> ConfigError + Config" where
  "finish_ratelimit env c =
     (case ratelimit_finish env (cf_ClientToken c) (cf_AdminToken c) (cf_RateLimit c) of
        Inl e \<Rightarrow> Inl e | Inr r \<Rightarrow> Inr (c\<lparr>cf_RateLimit := r\<rparr>))"

definition Finish :: "cfg_env \<Rightarrow> Config \<Rightarrow> ConfigError + Config" where
  "Finish env =
     run_steps [finish_role, finish_listen, finish_clientToken env, finish_local env, finish_schemes, finish_adminToken env,
       finish_registry env, finish_syncKey env, finish_register, finish_mesh, finish_passthrough, finish_externals,
       finish_exclude, finish_routing, finish_ratelimit env]"

definition Balancer :: "Config \<Rightarrow> bool" where
  "Balancer c = (cf_Role c = RoleBalancer)"

text \<open>Warnings, one constructor each.\<close>

datatype Warning =
    MeshWildcard Addrs | MeshPublic Addrs | AdvertisePublic Addrs | PassthroughPublic Addrs | PassthroughUnused Addrs
  | SuspectTooEarly Duration Duration

definition Warnings :: "(string \<Rightarrow> string option) \<Rightarrow> Config \<Rightarrow> Warning list" where
  "Warnings url_host c =
     (let warn = (\<lambda>w a. if a = [] then [] else [w a]);
          ms = cf_Mesh c; lc = cf_Local c;
          keepAlive = or_default (ms_KeepAlive ms) (5 * Second);
          suspectAfter = or_default (ms_SuspectAfter ms) (15 * Second)
      in warn MeshWildcard (Wildcard (ms_Listen ms)) @ warn MeshPublic (Public (ms_Listen ms))
         @ warn AdvertisePublic (Public (ms_Advertise ms)) @ warn PassthroughPublic (Public (lc_Passthrough lc))
         @ warn PassthroughUnused (notIn url_host (lc_AdvertiseEndpoints lc) (lc_Passthrough lc))
         @ (if suspectAfter < wrap64 (3 * keepAlive) then [SuspectTooEarly suspectAfter (wrap64 (3 * keepAlive))] else []))"

section \<open>Loading, and the keys\<close>

definition EffortRatesOf :: "RateLimitConfig \<Rightarrow> EffortRates" where
  "EffortRatesOf r =
     (let at_key = (\<lambda>k. case map_of (rl_Effort r) k of Some (Num v) \<Rightarrow> v | _ \<Rightarrow> 0) in
      \<lparr>OpcodesPerCredit = at_key ''opcodes_per_credit'', LookupsPerCredit = at_key ''lookups_per_credit'',
       HistoryPerCredit = at_key ''history_per_credit'', ScannedPerCredit = at_key ''scanned_per_credit'',
       TraceKBPerCredit = at_key ''trace_kb_per_credit''\<rparr>)"

text \<open>Load: the YAML decoder is an argument.\<close>

datatype LoadError = Unreadable fs_error | Undecodable string | Unfinished ConfigError

definition Load :: "cfg_env \<Rightarrow> (string \<Rightarrow> string + Config) \<Rightarrow> string \<Rightarrow> LoadError + Config" where
  "Load env decode path =
     (case env_ReadFile env path of
        Inl e \<Rightarrow> Inl (Unreadable e)
      | Inr b \<Rightarrow>
        (case decode b of
           Inl e \<Rightarrow> Inl (Undecodable e)
         | Inr c \<Rightarrow> (case Finish env c of Inl e \<Rightarrow> Inl (Unfinished e) | Inr d \<Rightarrow> Inr d)))"

text \<open>hex.DecodeString and base64.StdEncoding.DecodeString, the latter over the input without its line ends.\<close>

fun hex_DecodeString :: "string \<Rightarrow> 8 word list option" where
  "hex_DecodeString [] = Some []"
| "hex_DecodeString [_] = None"
| "hex_DecodeString (a # b # cs) =
     (case (hex_digit a, hex_digit b, hex_DecodeString cs) of
        (Some x, Some y, Some bs) \<Rightarrow> Some (word_of_nat (16 * x + y) # bs)
      | _ \<Rightarrow> None)"

definition b64_digit :: "char \<Rightarrow> nat option" where
  "b64_digit c =
     (let n = (of_char c :: nat) in
      if 65 \<le> n \<and> n \<le> 90 then Some (n - 65)
      else if 97 \<le> n \<and> n \<le> 122 then Some (n - 71)
      else if 48 \<le> n \<and> n \<le> 57 then Some (n + 4)
      else if n = 43 then Some 62
      else if n = 47 then Some 63
      else None)"

fun b64_quanta :: "string \<Rightarrow> 8 word list option" where
  "b64_quanta [] = Some []"
| "b64_quanta (a # b # c # d # cs) =
     (case (b64_digit a, b64_digit b, b64_digit c, b64_digit d) of
        (Some w, Some x, Some y, Some z) \<Rightarrow>
          map_option (\<lambda>bs. map word_of_nat [4 * w + x div 16, 16 * (x mod 16) + y div 4, 64 * (y mod 4) + z] @ bs) (b64_quanta cs)
      | (Some w, Some x, Some y, None) \<Rightarrow>
          if d = CHR ''='' \<and> cs = [] then Some (map word_of_nat [4 * w + x div 16, 16 * (x mod 16) + y div 4]) else None
      | (Some w, Some x, None, None) \<Rightarrow>
          if c = CHR ''='' \<and> d = CHR ''='' \<and> cs = [] then Some [word_of_nat (4 * w + x div 16)] else None
      | _ \<Rightarrow> None)"
| "b64_quanta _ = None"

definition base64_DecodeString :: "string \<Rightarrow> 8 word list option" where
  "base64_DecodeString s = b64_quanta (filter (\<lambda>c. c \<noteq> CHR 0x0A \<and> c \<noteq> CHR 0x0D) s)"

text \<open>
  SyncSeed and KeyMaterial: mnemonic.ToPrivateKey of the Algorand SDK and the hash are arguments. A nil
  seed is None; sk[:32] of a shorter key panics, which a 64-byte private key never does.
\<close>

datatype KeyError = BadMnemonic | BadSyncKey

definition SyncSeed :: "(string \<Rightarrow> 8 word list option) \<Rightarrow> Config \<Rightarrow> KeyError + 8 word list option" where
  "SyncSeed to_key c =
     (let k = TrimSpace (rg_SyncKey (cf_Registry c));
          sized = (\<lambda>b. length b = 32 \<or> length b = 64)
      in if k = [] then Inr None
         else if length (filter (\<lambda>x. x = CHR '' '') k) \<ge> 24 then
           (case to_key k of None \<Rightarrow> Inl BadMnemonic | Some sk \<Rightarrow> Inr (Some (take 32 sk)))
         else case hex_DecodeString k of
           Some b \<Rightarrow> if sized b then Inr (Some (take 32 b)) else
             (case base64_DecodeString k of Some b' \<Rightarrow> if sized b' then Inr (Some (take 32 b')) else Inl BadSyncKey | None \<Rightarrow> Inl BadSyncKey)
         | None \<Rightarrow>
             (case base64_DecodeString k of Some b' \<Rightarrow> if sized b' then Inr (Some (take 32 b')) else Inl BadSyncKey | None \<Rightarrow> Inl BadSyncKey))"

definition KeyMaterial :: "(string \<Rightarrow> 8 word list option) \<Rightarrow> (string \<Rightarrow> 8 word list) \<Rightarrow> Config \<Rightarrow> KeyError + 8 word list" where
  "KeyMaterial to_key sha256 c =
     (case SyncSeed to_key c of
        Inl e \<Rightarrow> Inl e
      | Inr (Some seed) \<Rightarrow> Inr seed
      | Inr None \<Rightarrow> Inr (sha256 (''algod-loadb-mesh-shared-secret:'' @ ms_SharedSecret (cf_Mesh c))))"

end
