(* ===== verification/ConfigProps.thy ===== *)
theory ConfigProps
  imports Config
begin

text \<open>
  What a configuration that Finish accepts looks like: each step leaves the configuration in a form
  the step itself accepts unchanged, and what a finished rate limit section promises the limiter.
\<close>

section \<open>Definitions\<close>

text \<open>What the limiter relies on: every plan named is there, and the tokens are told apart.\<close>

definition limits_ok :: "string \<Rightarrow> RateLimitConfig \<Rightarrow> bool" where
  "limits_ok admin r =
     ((\<exists>a. rl_AnonymousPlan r = Some a \<and> (a = [] \<or> a \<in> fst ` set (rl_Plans r)))
      \<and> (\<forall>t \<in> set (rl_Tokens r). rt_Plan t \<in> fst ` set (rl_Plans r) \<and> rt_Token t \<noteq> [] \<and> rt_Token t \<noteq> admin)
      \<and> distinct (map rt_Token (rl_Tokens r)) \<and> distinct (map rt_Name (rl_Tokens r))
      \<and> (\<forall>(_, p) \<in> set (rl_Plans r). \<exists>m d. rp_PerMinute p = Num m \<and> rp_PerDay p = Num d \<and> 0 \<le> m \<and> 0 \<le> d)
      \<and> (\<forall>k \<in> set CostKeys. \<exists>v. map_of (rl_Weights r) k = Some (Num v) \<and> 0 \<le> v)
      \<and> (\<forall>k \<in> set EffortKeys. \<exists>v. map_of (rl_Effort r) k = Some (Num v) \<and> 0 \<le> v)
      \<and> (\<exists>v. rl_SimulatePerSecond r = Some (Num v) \<and> 0 \<le> v)
      \<and> 1 \<le> rl_IPv6Prefix r \<and> rl_IPv6Prefix r \<le> 128 \<and> 0 < rl_MaxKeys r
      \<and> (\<forall>s \<in> set (rl_TrustedProxies r). parsePrefix s \<noteq> None))"

text \<open>What an agent may rely on in a configuration it starts with.\<close>

definition config_ok :: "Config \<Rightarrow> bool" where
  "config_ok c =
     (cf_Role c \<in> {RoleNode, RoleBalancer} \<and> cf_Mode c \<in> {ModeFallback, ModeLoadBalancer}
      \<and> cf_Listen c \<noteq> [] \<and> bindable (cf_Listen c) \<and> ms_Listen (cf_Mesh c) \<noteq> [] \<and> bindable (ms_Listen (cf_Mesh c))
      \<and> (\<forall>a \<in> set (ms_Advertise (cf_Mesh c)). addr_good a \<and> host_of a \<notin> {[], ''0.0.0.0'', ''::''})
      \<and> (\<forall>pt \<in> set (lc_Passthrough (cf_Local c)). \<forall>l \<in> set (cf_Listen c). l \<noteq> pt \<and> \<not> takes_port l pt)
      \<and> (if cf_Role c = RoleBalancer then lc_Network (cf_Local c) \<noteq> [] \<and> lc_Passthrough (cf_Local c) = [] else lc_DataDir (cf_Local c) \<noteq> [])
      \<and> lc_ID (cf_Local c) \<noteq> [] \<and> lc_ID (cf_Local c) \<notin> set (rt_Exclude (cf_Routing c))
      \<and> (auto_register c \<longrightarrow> ms_Advertise (cf_Mesh c) \<noteq> [] \<and> (cf_Role c = RoleNode \<longrightarrow> lc_AdvertiseEndpoints (cf_Local c) \<noteq> []))
      \<and> (rg_Type (cf_Registry c) = ''static'' \<longrightarrow> (\<forall>r \<in> set (rg_Static (cf_Registry c)). Validate r = None))
      \<and> (\<forall>e \<in> set (cf_External c). xt_Name e \<noteq> [] \<and> xt_URL e \<noteq> [] \<and> 0 < xt_HealthCheck e)
      \<and> (\<forall>b. rt_RetryBudget (cf_Routing c) = Some b \<longrightarrow> 0 \<le> b)
      \<and> (rl_Enabled (cf_RateLimit c) \<longrightarrow> limits_ok (cf_AdminToken c) (cf_RateLimit c) \<and> cf_ClientToken c = []))"

text \<open>When a step leaves the admin token, an excluded id and the routing numbers as they are.\<close>

definition admin_ok :: "cfg_env \<Rightarrow> string \<Rightarrow> string \<Rightarrow> string \<Rightarrow> bool" where
  "admin_ok env t file dir =
     (t = [] \<and> (file \<noteq> [] \<or> dir \<noteq> []) \<longrightarrow>
        (if file \<noteq> [] then readSecret env file = Inr []
         else readSecret env (dir @ ''/algod.admin.token'') \<in> {Inr [], Inl ErrNotExist, Inl ENOTDIR}))"

definition routing_ok :: "Routing \<Rightarrow> Duration \<Rightarrow> bool" where
  "routing_ok rt w =
     (rt_ReturnHysteresisRounds rt \<noteq> 0 \<and> rt_LagGrace rt \<noteq> 0 \<and> rt_UpstreamTimeout rt \<noteq> 0 \<and> rt_PendingTTL rt \<noteq> 0 \<and> rt_DrainTimeout rt \<noteq> 0
      \<and> rt_BreakerThreshold rt \<noteq> 0 \<and> rt_BreakerOpenFor rt \<noteq> 0 \<and> w \<noteq> 0
      \<and> (rt_RequestTimeout rt = 0 \<longrightarrow> wrap64 (2 * rt_UpstreamTimeout rt) = 0)
      \<and> (case rt_RetryBudget rt of Some b \<Rightarrow> 0 \<le> b | None \<Rightarrow> True))"

definition exclude_ok :: "string \<Rightarrow> string \<Rightarrow> bool" where
  "exclude_ok me i = (TrimSpace i = i \<and> i \<noteq> [] \<and> i \<noteq> me)"

text \<open>The steps before the routing numbers, which accept what Finish made unchanged.\<close>

definition early_steps :: "cfg_env \<Rightarrow> (Config \<Rightarrow> ConfigError + Config) list" where
  "early_steps env = [finish_role, finish_listen, finish_clientToken env, finish_local env, finish_schemes, finish_adminToken env,
       finish_registry env, finish_syncKey env, finish_register, finish_mesh, finish_passthrough, finish_externals, finish_exclude]"

text \<open>A configuration to apply the properties to: a balancer named by its host, its registry static or in memory.\<close>

definition sample_env :: "string \<Rightarrow> cfg_env" where
  "sample_env host = \<lparr>env_ReadFile = (\<lambda>f. if f = ''/etc/token'' then Inr ''secret'' else Inl ErrNotExist),
     env_Hostname = Some host, env_DecodeAddress = (\<lambda>_. True)\<rparr>"

definition sample_config :: "Duration \<Rightarrow> string \<Rightarrow> Config" where
  "sample_config up ty = \<lparr>cf_Role = ''balancer'', cf_Mode = [], cf_Listen = [''127.0.0.1:4000''], cf_ClientToken = [], cf_ClientTokenFile = [],
     cf_AdminToken = ''admin'', cf_AdminTokenFile = [], cf_Log = \<lparr>lg_Level = [], lg_JSON = False\<rparr>,
     cf_Local = \<lparr>lc_ID = [], lc_DataDir = [], lc_Network = ''testnet'', lc_AdvertiseEndpoints = [], lc_Passthrough = [], lc_Tier = 0, lc_Tags = [],
       lc_Overrides = None, lc_WaitTimeout = 0, lc_VerifyInterval = 0\<rparr>,
     cf_Registry = \<lparr>rg_Type = ty, rg_AppID = 0, rg_SyncKey = [], rg_SyncKeyFile = [], rg_SyncAddress = [], rg_AlgodURL = [], rg_AlgodToken = [],
       rg_Refresh = 0, rg_AutoRegister = None, rg_Cache = [], rg_File = [], rg_Static = []\<rparr>,
     cf_Mesh = \<lparr>ms_Listen = [''10.0.0.1:4001''], ms_Advertise = [''10.0.0.1:4001''], ms_SharedSecret = [], ms_SuspectAfter = 0, ms_DownAfter = 0, ms_ProbeInterval = 0,
       ms_KeepAlive = 0, ms_PathProbeInterval = 0, ms_PathTimeout = 0, ms_PeerOverrides = []\<rparr>,
     cf_External = [],
     cf_Routing = \<lparr>rt_SyncTolerance = 0, rt_LagGrace = 0, rt_ReturnHysteresisRounds = 0, rt_MultiBroadcast = False, rt_RetryBudget = None,
       rt_UpstreamTimeout = up, rt_RequestTimeout = 0, rt_PendingTTL = 0, rt_DrainTimeout = 0, rt_BreakerThreshold = 0, rt_BreakerOpenFor = 0,
       rt_Exclude = [''n9'']\<rparr>,
     cf_RateLimit = \<lparr>rl_Enabled = True, rl_StateFile = [], rl_TrustedProxies = [], rl_IPv6Prefix = 0, rl_MaxKeys = 0, rl_AnonymousPlan = Some ''p'',
       rl_SimulatePerSecond = None, rl_Weights = [], rl_Effort = [],
       rl_Plans = [(''p'', \<lparr>rp_PerMinute = Num 60, rp_PerDay = Num 0, rp_Simulate = \<lparr>cc_MaxGroups = 0, cc_MaxRounds = 0,
         cc_MaxExtraOpcodeBudget = 0, cc_UnnamedResources = None, cc_ExecTrace = None\<rparr>\<rparr>)],
       rl_Tokens = [\<lparr>rt_Name = ''alice'', rt_Token = [], rt_TokenFile = ''/etc/token'', rt_Plan = ''p''\<rparr>]\<rparr>\<rparr>"

section \<open>Lemmas: sequences of steps\<close>

lemma run_steps_Cons: "run_steps (f # fs) c = Inr d \<longleftrightarrow> (\<exists>c1. f c = Inr c1 \<and> run_steps fs c1 = Inr d)"
  by (auto split: sum.splits)

lemma run_steps_fixed: "\<forall>f \<in> set fs. f c = Inr c \<Longrightarrow> run_steps fs c = Inr c"
  by (induction fs) auto

lemma run_steps_append: "run_steps (fs @ gs) c = (case run_steps fs c of Inl e \<Rightarrow> Inl e | Inr d \<Rightarrow> run_steps gs d)"
  by (induction fs arbitrary: c) (auto split: sum.splits)

lemma first_error_None: "first_error f xs = None \<longleftrightarrow> (\<forall>x \<in> set xs. f x = None)"
  by (induction xs) (auto split: option.splits)

lemma nonNegative_iff: "nonNegative v \<longleftrightarrow> (\<exists>x. v = Num x \<and> 0 \<le> x)"
  by (cases v) auto

lemma update_keys: "map_of m k \<noteq> None \<Longrightarrow> map fst (AList.update k v m) = map fst m"
  by (induction m) (auto split: if_splits)

lemma update_same: "distinct (map fst m) \<Longrightarrow> map_of m k = Some v \<Longrightarrow> AList.update k v m = m"
  by (induction m) (auto split: if_splits simp: map_of_eq_None_iff rev_image_eqI dest: map_of_SomeD)

section \<open>Lemmas: the rate limit section\<close>

text \<open>The overlay keeps the keys, and what it yields lies over the same defaults to the same.\<close>

lemma overlay_keys: "overlay u b m kvs = Inr m' \<Longrightarrow> map fst m' = map fst m"
proof (induction kvs arbitrary: m)
  case (Cons kv kvs)
  then show ?case by (cases kv) (auto simp: update_keys split: if_splits)
qed simp

lemma overlay_nonNegative:
  assumes "overlay u b m kvs = Inr m'" "\<forall>(k, v) \<in> set m. nonNegative v"
  shows "\<forall>(k, v) \<in> set m'. nonNegative v"
  using assms
proof (induction kvs arbitrary: m)
  case (Cons kv kvs)
  obtain k v where kv: "kv = (k, v)" by (cases kv)
  have "set (AList.update k v m) \<subseteq> insert (k, v) (set m)" by (induction m) auto
  then have "\<forall>(k, v) \<in> set (AList.update k v m). nonNegative v" if "nonNegative v" using Cons.prems(2) that by fast
  then show ?case using Cons kv by (auto split: if_splits)
qed simp

lemma overlay_all:
  assumes "map fst m = map fst n" "distinct (map fst m)" "\<forall>(k, v) \<in> set n. nonNegative v"
  shows "overlay u b m n = Inr n"
proof -
  have "overlay u b (ys @ m) n = Inr (ys @ n)" if "distinct (map fst (ys @ m))" for ys
    using assms(1,3) that
  proof (induction n arbitrary: m ys)
    case (Cons kv n)
    obtain k v where kv: "kv = (k, v)" by (cases kv)
    obtain w m1 where m: "m = (k, w) # m1" "map fst m1 = map fst n" using Cons.prems(1) kv by (cases m) auto
    have k: "k \<notin> fst ` set ys" using Cons.prems(3) m by auto
    have up: "AList.update k v (ys @ m) = (ys @ [(k, v)]) @ m1" using k by (induction ys) (auto simp: m)
    have "map_of (ys @ m) k \<noteq> None" using m by (auto simp: map_add_def split: option.splits)
    then show ?case using Cons.IH [OF m(2), of "ys @ [(k, v)]"] Cons.prems(2,3) kv m up by auto
  qed simp
  from this [of "[]"] show ?thesis using assms(2) by simp
qed

lemma default_weights_ok: "distinct (map fst default_weights)" "\<forall>(k, v) \<in> set default_weights. nonNegative v"
    "map fst default_weights = CostKeys"
  by (simp_all add: default_weights_def CostKeys_def weight_of_def DefaultCostWeights_def)

lemma default_effort_ok: "distinct (map fst (EffortRates_map DefaultEffortRates))"
    "\<forall>(k, v) \<in> set (EffortRates_map DefaultEffortRates). nonNegative v" "map fst (EffortRates_map DefaultEffortRates) = EffortKeys"
  by (simp_all add: EffortRates_map_def DefaultEffortRates_def EffortKeys_def)

lemma rl_weights_result:
  assumes "rl_weights r = Inr r'"
  shows "\<exists>m. r' = r\<lparr>rl_Weights := m\<rparr> \<and> map fst m = CostKeys \<and> (\<forall>(k, v) \<in> set m. nonNegative v)"
proof -
  obtain m where m: "overlay UnknownWeight BadWeight default_weights (rl_Weights r) = Inr m" "r' = r\<lparr>rl_Weights := m\<rparr>"
    using assms by (auto simp: rl_weights_def split: sum.splits)
  show ?thesis using overlay_keys [OF m(1)] overlay_nonNegative [OF m(1) default_weights_ok(2)] m(2) default_weights_ok(3) by auto
qed

lemma rl_weights_fixed:
  assumes "map fst (rl_Weights r) = CostKeys" "\<forall>(k, v) \<in> set (rl_Weights r). nonNegative v"
  shows "rl_weights r = Inr r"
  using overlay_all [OF _ default_weights_ok(1), of "rl_Weights r" UnknownWeight BadWeight] assms default_weights_ok(3)
  by (simp add: rl_weights_def)

lemma rl_effort_result:
  assumes "rl_effort r = Inr r'"
  shows "\<exists>m. r' = r\<lparr>rl_Effort := m\<rparr> \<and> map fst m = EffortKeys \<and> (\<forall>(k, v) \<in> set m. nonNegative v)"
proof -
  obtain m where m: "overlay UnknownEffort BadEffort (EffortRates_map DefaultEffortRates) (rl_Effort r) = Inr m" "r' = r\<lparr>rl_Effort := m\<rparr>"
    using assms by (auto simp: rl_effort_def split: sum.splits)
  show ?thesis using overlay_keys [OF m(1)] overlay_nonNegative [OF m(1) default_effort_ok(2)] m(2) default_effort_ok(3) by auto
qed

lemma rl_effort_fixed:
  assumes "map fst (rl_Effort r) = EffortKeys" "\<forall>(k, v) \<in> set (rl_Effort r). nonNegative v"
  shows "rl_effort r = Inr r"
  using overlay_all [OF _ default_effort_ok(1), of "rl_Effort r" UnknownEffort BadEffort] assms default_effort_ok(3)
  by (simp add: rl_effort_def)

lemma rl_numbers_result:
  assumes "rl_numbers r = Inr r'"
  shows "\<exists>v bits n. r' = r\<lparr>rl_SimulatePerSecond := Some v, rl_IPv6Prefix := bits, rl_MaxKeys := n\<rparr> \<and> nonNegative v
    \<and> 1 \<le> bits \<and> bits \<le> 128 \<and> 0 < n"
proof -
  let ?v = "case rl_SimulatePerSecond r of None \<Rightarrow> Num 20 | Some v \<Rightarrow> v" and ?bits = "if rl_IPv6Prefix r = 0 then 64 else rl_IPv6Prefix r"
    and ?n = "if rl_MaxKeys r = 0 then 200000 else rl_MaxKeys r"
  have "r' = r\<lparr>rl_SimulatePerSecond := Some ?v, rl_IPv6Prefix := ?bits, rl_MaxKeys := ?n\<rparr> \<and> nonNegative ?v
      \<and> 1 \<le> ?bits \<and> ?bits \<le> 128 \<and> 0 < ?n"
    using assms unfolding rl_numbers_def Let_def by (simp split: if_split_asm)
  then show ?thesis by blast
qed

lemma rl_numbers_fixed:
  "rl_SimulatePerSecond r = Some v \<Longrightarrow> nonNegative v \<Longrightarrow> 1 \<le> rl_IPv6Prefix r \<Longrightarrow> rl_IPv6Prefix r \<le> 128 \<Longrightarrow> 0 < rl_MaxKeys r
   \<Longrightarrow> rl_numbers r = Inr r"
  by (simp add: rl_numbers_def)

lemma rl_anonymous_result:
  assumes "rl_anonymous r = Inr r'"
  shows "\<exists>a. r' = r\<lparr>rl_AnonymousPlan := Some a\<rparr> \<and> (a = [] \<or> map_of (rl_Plans r) a \<noteq> None)"
  using assms by (auto simp: rl_anonymous_def Let_def split: if_splits)

lemma rl_anonymous_fixed:
  "rl_AnonymousPlan r = Some a \<Longrightarrow> a = [] \<or> map_of (rl_Plans r) a \<noteq> None \<Longrightarrow> rl_anonymous r = Inr r"
  by (auto simp: rl_anonymous_def)

text \<open>Tokens: what finish_token promises, and that a finished list is finished.\<close>

lemma finish_token_result:
  assumes "finish_token env admin plans names vals i t = Inr t'"
  shows "rt_Name t' = rt_Name t" "rt_Plan t' = rt_Plan t" "rt_TokenFile t' = rt_TokenFile t" "rt_Name t' \<noteq> []" "rt_Name t' \<notin> set names"
    "map_of plans (rt_Plan t') \<noteq> None" "rt_Token t' \<noteq> []" "rt_Token t' \<noteq> admin" "map_of vals (rt_Token t') = None"
    "rt_TokenFile t' \<noteq> [] \<Longrightarrow> readSecret env (rt_TokenFile t') = Inr (rt_Token t')"
  using assms by (auto simp: finish_token_def split: if_splits sum.splits option.splits)

lemma finish_token_fixed:
  assumes "rt_Name t \<noteq> []" "rt_Name t \<notin> set names" "map_of plans (rt_Plan t) \<noteq> None" "rt_Token t \<noteq> []" "rt_Token t \<noteq> admin"
    "map_of vals (rt_Token t) = None" "rt_TokenFile t \<noteq> [] \<Longrightarrow> readSecret env (rt_TokenFile t) = Inr (rt_Token t)"
  shows "finish_token env admin plans names vals i t = Inr t"
  using assms by (auto simp: finish_token_def)

lemma finish_tokens_result:
  assumes "finish_tokens env admin plans names vals i ts = Inr ts'"
  shows "\<forall>t \<in> set ts'. map_of plans (rt_Plan t) \<noteq> None \<and> rt_Token t \<noteq> [] \<and> rt_Token t \<noteq> admin"
    "distinct (map rt_Name ts')" "distinct (map rt_Token ts')"
    "\<forall>t \<in> set ts'. rt_Name t \<notin> set names \<and> rt_Token t \<notin> fst ` set vals"
    "finish_tokens env admin plans names vals j ts' = Inr ts'"
proof -
  have "(\<forall>t \<in> set ts'. map_of plans (rt_Plan t) \<noteq> None \<and> rt_Token t \<noteq> [] \<and> rt_Token t \<noteq> admin)
    \<and> distinct (map rt_Name ts') \<and> distinct (map rt_Token ts')
    \<and> (\<forall>t \<in> set ts'. rt_Name t \<notin> set names \<and> rt_Token t \<notin> fst ` set vals)
    \<and> finish_tokens env admin plans names vals j ts' = Inr ts'"
    using assms
  proof (induction ts arbitrary: ts' names vals i j)
    case (Cons t ts)
    obtain t1 ts1 where s: "finish_token env admin plans names vals i t = Inr t1" "ts' = t1 # ts1"
        "finish_tokens env admin plans (rt_Name t1 # names) ((rt_Token t1, rt_Name t1) # vals) (Suc i) ts = Inr ts1"
      using Cons.prems by (auto split: sum.splits)
    note r = finish_token_result [OF s(1)]
    have f: "finish_token env admin plans names vals j t1 = Inr t1" by (rule finish_token_fixed) (use r in auto)
    show ?case using Cons.IH [OF s(3), of "Suc j"] r f s(2) by (auto simp: map_of_eq_None_iff rev_image_eqI)
  qed simp
  then show "\<forall>t \<in> set ts'. map_of plans (rt_Plan t) \<noteq> None \<and> rt_Token t \<noteq> [] \<and> rt_Token t \<noteq> admin"
    "distinct (map rt_Name ts')" "distinct (map rt_Token ts')"
    "\<forall>t \<in> set ts'. rt_Name t \<notin> set names \<and> rt_Token t \<notin> fst ` set vals"
    "finish_tokens env admin plans names vals j ts' = Inr ts'" by blast+
qed

text \<open>A finished section: what it promises, and that it stays as it is.\<close>

lemma rl_steps_result:
  assumes "run_steps [rl_plans, rl_weights, rl_effort, rl_numbers, rl_anonymous, rl_proxies, rl_tokens env admin] r = Inr r'"
  shows "limits_ok admin r'" "run_steps [rl_plans, rl_weights, rl_effort, rl_numbers, rl_anonymous, rl_proxies, rl_tokens env admin] r' = Inr r'"
    "rl_Enabled r' = rl_Enabled r"
proof -
  obtain r2 r3 r4 r5 where s: "rl_plans r = Inr r" "rl_weights r = Inr r2" "rl_effort r2 = Inr r3" "rl_numbers r3 = Inr r4"
      "rl_anonymous r4 = Inr r5" "rl_proxies r5 = Inr r5" "rl_tokens env admin r5 = Inr r'"
    using assms by (auto simp: run_steps_Cons rl_plans_def rl_proxies_def simp del: run_steps.simps(2) split: if_splits option.splits)
  obtain w where w: "r2 = r\<lparr>rl_Weights := w\<rparr>" "map fst w = CostKeys" "\<forall>(k, v) \<in> set w. nonNegative v"
    using rl_weights_result [OF s(2)] by blast
  obtain e where e: "r3 = r2\<lparr>rl_Effort := e\<rparr>" "map fst e = EffortKeys" "\<forall>(k, v) \<in> set e. nonNegative v"
    using rl_effort_result [OF s(3)] by blast
  obtain v bits n where n: "r4 = r3\<lparr>rl_SimulatePerSecond := Some v, rl_IPv6Prefix := bits, rl_MaxKeys := n\<rparr>" "nonNegative v"
      "1 \<le> bits" "bits \<le> 128" "0 < n" using rl_numbers_result [OF s(4)] by blast
  obtain a where a: "r5 = r4\<lparr>rl_AnonymousPlan := Some a\<rparr>" "a = [] \<or> map_of (rl_Plans r) a \<noteq> None"
    using rl_anonymous_result [OF s(5)] n(1) e(1) w(1) by auto
  obtain ts where t: "finish_tokens env admin (rl_Plans r) [] [] 0 (rl_Tokens r) = Inr ts" "r' = r5\<lparr>rl_Tokens := ts\<rparr>"
    using s(7) a(1) n(1) e(1) w(1) by (auto simp: rl_tokens_def split: sum.splits)
  note ts = finish_tokens_result [OF t(1)]
  have r': "r' = r\<lparr>rl_Weights := w, rl_Effort := e, rl_SimulatePerSecond := Some v, rl_IPv6Prefix := bits, rl_MaxKeys := n,
      rl_AnonymousPlan := Some a, rl_Tokens := ts\<rparr>" using t(2) a(1) n(1) e(1) w(1) by simp
  have pl: "rl_Plans r \<noteq> []" "\<forall>p \<in> set (rl_Plans r). plan_error p = None"
    using s(1) by (auto simp: rl_plans_def first_error_None split: if_splits option.splits)
  have px: "\<forall>x \<in> set (rl_TrustedProxies r). parsePrefix x \<noteq> None"
    using s(6) a(1) n(1) e(1) w(1) by (auto simp: rl_proxies_def find_None_iff split: option.splits)
  have key: "\<exists>x. map_of m k = Some (Num x) \<and> 0 \<le> x" if "map fst m = ks" "\<forall>(k, v) \<in> set m. nonNegative v" "k \<in> set ks" for m k and ks :: "string list"
  proof -
    have "k \<in> fst ` set m" using that(1,3) by (metis set_map)
    then obtain y where y: "map_of m k = Some y" by (metis map_of_eq_None_iff not_None_eq)
    then have "nonNegative y" using that(2) map_of_SomeD by fastforce
    then show ?thesis using y by (auto simp: nonNegative_iff)
  qed
  have "\<forall>(k, p) \<in> set (rl_Plans r). \<exists>m d. rp_PerMinute p = Num m \<and> rp_PerDay p = Num d \<and> 0 \<le> m \<and> 0 \<le> d"
    using pl(2) by (fastforce simp: nonNegative_iff split: if_splits)
  then show "limits_ok admin r'"
    using a(2) ts(1-3) key [OF w(2,3)] key [OF e(2,3)] n px unfolding limits_ok_def r'
    by (auto simp: nonNegative_iff map_of_eq_None_iff)
  show "rl_Enabled r' = rl_Enabled r" by (simp add: r')
  show "run_steps [rl_plans, rl_weights, rl_effort, rl_numbers, rl_anonymous, rl_proxies, rl_tokens env admin] r' = Inr r'"
  proof (rule run_steps_fixed, simp, intro conjI)
    show "rl_plans r' = Inr r'" using s(1) by (auto simp: rl_plans_def r' split: if_splits option.splits)
    show "rl_weights r' = Inr r'" by (rule rl_weights_fixed) (use w in \<open>simp_all add: r'\<close>)
    show "rl_effort r' = Inr r'" by (rule rl_effort_fixed) (use e in \<open>simp_all add: r'\<close>)
    show "rl_numbers r' = Inr r'" by (rule rl_numbers_fixed) (use n in \<open>simp_all add: r'\<close>)
    show "rl_anonymous r' = Inr r'" by (rule rl_anonymous_fixed) (use a in \<open>simp_all add: r'\<close>)
    show "rl_proxies r' = Inr r'" using s(6) a(1) n(1) e(1) w(1) by (auto simp: rl_proxies_def r' split: option.splits)
    show "rl_tokens env admin r' = Inr r'" using ts(5) by (simp add: rl_tokens_def r')
  qed
qed

lemma ratelimit_finish_result:
  assumes "ratelimit_finish env ct adm r = Inr r'"
  shows "ratelimit_finish env ct adm r' = Inr r'" "rl_Enabled r' \<Longrightarrow> limits_ok adm r'" "rl_Enabled r' \<Longrightarrow> ct = []" "rl_Enabled r' = rl_Enabled r"
  using assms rl_steps_result [of env adm r r'] unfolding ratelimit_finish_def by (auto split: if_splits)

section \<open>Lemmas: the steps\<close>

text \<open>
  For each step: what it changes, in terms of the configuration before it, and when it changes
  nothing.
\<close>

lemma finish_role_result:
  assumes "finish_role c = Inr d"
  shows "\<exists>r m. d = c\<lparr>cf_Role := r, cf_Mode := m\<rparr> \<and> r \<in> {RoleNode, RoleBalancer} \<and> m \<in> {ModeFallback, ModeLoadBalancer}"
  using assms by (intro exI [of _ "cf_Role d"] exI [of _ "cf_Mode d"])
    (auto simp: finish_role_def ParseRole_def ParseMode_def Let_def split: if_splits)

lemma finish_role_fixed: "cf_Role c \<in> {RoleNode, RoleBalancer} \<Longrightarrow> cf_Mode c \<in> {ModeFallback, ModeLoadBalancer} \<Longrightarrow> finish_role c = Inr c"
  by (auto simp: finish_role_def ParseRole_def ParseMode_def Let_def)

lemma resolve_fixed:
  assumes "resolve what def a = Inr out" "resolve what def [def] = Inr [def]"
  shows "resolve what def out = Inr out"
proof (cases "out = []")
  case True
  then show ?thesis using assms(1) by (auto simp: resolve_def split: sum.splits option.splits if_splits)
next
  case False
  then show ?thesis using resolve_bindable [OF assms(1)] resolve_again [OF _ False] assms(2) by (auto split: if_splits)
qed

lemma default_listen: "resolve what ''127.0.0.1:4000'' [''127.0.0.1:4000''] = Inr [''127.0.0.1:4000'']"
    "resolve what ''0.0.0.0:4001'' [''0.0.0.0:4001''] = Inr [''0.0.0.0:4001'']"
  by (simp_all add: resolve_def TrimSpace_def is_space_def SplitHostPort_def wildcardHost_def taken_by_def split_or_empty_def Let_def)

lemma finish_listen_result:
  assumes "finish_listen c = Inr d"
  shows "\<exists>l. d = c\<lparr>cf_Listen := l\<rparr> \<and> resolve ''listen'' ''127.0.0.1:4000'' l = Inr l"
  using assms resolve_fixed [OF _ default_listen(1)] by (auto simp: finish_listen_def split: sum.splits)

lemma finish_clientToken_result:
  assumes "finish_clientToken env c = Inr d"
  shows "\<exists>t. d = c\<lparr>cf_ClientToken := t\<rparr> \<and> (t = [] \<and> cf_ClientTokenFile c \<noteq> [] \<longrightarrow> readSecret env (cf_ClientTokenFile c) = Inr [])"
  using assms by (auto simp: finish_clientToken_def split: if_splits sum.splits intro: exI [of _ "cf_ClientToken c"])

lemma finish_clientToken_fixed:
  "cf_ClientToken c = [] \<and> cf_ClientTokenFile c \<noteq> [] \<longrightarrow> readSecret env (cf_ClientTokenFile c) = Inr [] \<Longrightarrow> finish_clientToken env c = Inr c"
  by (auto simp: finish_clientToken_def)

lemma finish_local_result:
  assumes "finish_local env c = Inr d"
  shows "\<exists>g i. d = c\<lparr>cf_Log := g, cf_Local := (cf_Local c)\<lparr>lc_ID := i\<rparr>\<rparr> \<and> lg_Level g \<noteq> [] \<and> i \<noteq> []
    \<and> (if cf_Role c = RoleBalancer then lc_Network (cf_Local c) \<noteq> [] else lc_Network (cf_Local c) = [] \<and> lc_DataDir (cf_Local c) \<noteq> [])"
proof -
  have "\<exists>i. (if lc_ID (cf_Local c) = [] then (cf_Local c)\<lparr>lc_ID := the (env_Hostname env)\<rparr> else cf_Local c) = (cf_Local c)\<lparr>lc_ID := i\<rparr> \<and> i \<noteq> []"
    using assms by (cases "lc_ID (cf_Local c) = []") (auto simp: finish_local_def Let_def split: if_splits intro: exI [of _ "lc_ID (cf_Local c)"])
  then show ?thesis using assms
    by (auto simp: finish_local_def Let_def balancer_role_def split: if_splits intro!: exI)
qed

lemma finish_local_fixed:
  assumes "lg_Level (cf_Log c) \<noteq> []" "lc_ID (cf_Local c) \<noteq> []"
    "if cf_Role c = RoleBalancer then lc_Network (cf_Local c) \<noteq> [] else lc_Network (cf_Local c) = [] \<and> lc_DataDir (cf_Local c) \<noteq> []"
  shows "finish_local env c = Inr c"
  using assms by (auto simp: finish_local_def Let_def balancer_role_def split: if_splits)

lemma finish_schemes_fixed:
  assumes "map withScheme (lc_AdvertiseEndpoints (cf_Local c)) = lc_AdvertiseEndpoints (cf_Local c)"
    "withScheme (rg_AlgodURL (cf_Registry c)) = rg_AlgodURL (cf_Registry c)"
    "\<forall>r \<in> set (rg_Static (cf_Registry c)). map withScheme (rec_Endpoints r) = rec_Endpoints r"
    "\<forall>e \<in> set (cf_External c). withScheme (xt_URL e) = xt_URL e"
  shows "finish_schemes c = Inr c"
proof -
  have "map (\<lambda>r. r\<lparr>rec_Endpoints := map withScheme (rec_Endpoints r)\<rparr>) (rg_Static (cf_Registry c)) = rg_Static (cf_Registry c)"
    using assms(3) by (intro map_idI) simp
  moreover have "map (\<lambda>e. e\<lparr>xt_URL := withScheme (xt_URL e)\<rparr>) (cf_External c) = cf_External c"
    using assms(4) by (intro map_idI) simp
  ultimately show ?thesis using assms(1,2) by (simp add: finish_schemes_def Let_def)
qed

lemma finish_adminToken_result:
  assumes "finish_adminToken env c = Inr d"
  shows "\<exists>t. d = c\<lparr>cf_AdminToken := t\<rparr> \<and> admin_ok env t (cf_AdminTokenFile c) (lc_DataDir (cf_Local c))"
  using assms by (auto simp: finish_adminToken_def admin_ok_def Let_def split: if_splits sum.splits intro: exI [of _ "cf_AdminToken c"])

lemma finish_adminToken_fixed:
  "admin_ok env (cf_AdminToken c) (cf_AdminTokenFile c) (lc_DataDir (cf_Local c)) \<Longrightarrow> finish_adminToken env c = Inr c"
  by (auto simp: finish_adminToken_def admin_ok_def Let_def split: if_splits)

lemma finish_registry_result:
  assumes "finish_registry env c = Inr d"
  shows "\<exists>t. d = c\<lparr>cf_Registry := (cf_Registry c)\<lparr>rg_Type := t\<rparr>\<rparr> \<and> t \<noteq> []
    \<and> registry_error env (cf_Role c = RoleBalancer) ((cf_Registry c)\<lparr>rg_Type := t\<rparr>) = None"
proof -
  have "registry_type rg \<noteq> []" for rg by (simp add: registry_type_def)
  then show ?thesis using assms
    by (intro exI [of _ "registry_type (cf_Registry c)"]) (auto simp: finish_registry_def balancer_role_def Let_def split: option.splits)
qed

lemma finish_registry_fixed:
  "rg_Type (cf_Registry c) \<noteq> [] \<Longrightarrow> registry_error env (cf_Role c = RoleBalancer) (cf_Registry c) = None \<Longrightarrow> finish_registry env c = Inr c"
  by (simp add: finish_registry_def registry_type_def balancer_role_def)

lemma registry_error_frame:
  assumes "registry_error env b rg = None" "k \<noteq> [] \<or> rg_SyncKeyFile rg \<noteq> [] \<or> k = rg_SyncKey rg"
  shows "registry_error env b (rg\<lparr>rg_SyncKey := k, rg_Refresh := x, rg_AutoRegister := y\<rparr>) = None"
  using assms by (auto simp: registry_error_def split: if_splits)

lemma finish_syncKey_result:
  assumes "finish_syncKey env c = Inr d"
  shows "\<exists>k. d = c\<lparr>cf_Registry := (cf_Registry c)\<lparr>rg_SyncKey := k\<rparr>\<rparr>
    \<and> (k = [] \<and> rg_SyncKeyFile (cf_Registry c) \<noteq> [] \<longrightarrow> readSecret env (rg_SyncKeyFile (cf_Registry c)) = Inr [])
    \<and> (rg_SyncKeyFile (cf_Registry c) \<noteq> [] \<or> k = rg_SyncKey (cf_Registry c))"
  using assms by (auto simp: finish_syncKey_def Let_def split: if_splits sum.splits intro: exI [of _ "rg_SyncKey (cf_Registry c)"])

lemma finish_syncKey_fixed:
  "rg_SyncKey (cf_Registry c) = [] \<and> rg_SyncKeyFile (cf_Registry c) \<noteq> [] \<longrightarrow> readSecret env (rg_SyncKeyFile (cf_Registry c)) = Inr []
   \<Longrightarrow> finish_syncKey env c = Inr c"
  by (auto simp: finish_syncKey_def Let_def)

lemma finish_register_result:
  assumes "finish_register c = Inr d"
  shows "\<exists>x v. d = c\<lparr>cf_Registry := (cf_Registry c)\<lparr>rg_Refresh := x, rg_AutoRegister := Some v\<rparr>\<rparr> \<and> x \<noteq> 0
    \<and> (v \<and> rg_Type (cf_Registry c) \<noteq> ''static'' \<and> cf_Role c \<noteq> RoleBalancer \<longrightarrow> lc_AdvertiseEndpoints (cf_Local c) \<noteq> [])"
proof -
  let ?x = "if rg_Refresh (cf_Registry c) = 0 then 300 * Second else rg_Refresh (cf_Registry c)"
    and ?v = "case rg_AutoRegister (cf_Registry c) of Some v \<Rightarrow> v | None \<Rightarrow> rg_Type (cf_Registry c) \<noteq> ''static''"
  have "d = c\<lparr>cf_Registry := (cf_Registry c)\<lparr>rg_Refresh := ?x, rg_AutoRegister := Some ?v\<rparr>\<rparr> \<and> ?x \<noteq> 0
    \<and> (?v \<and> rg_Type (cf_Registry c) \<noteq> ''static'' \<and> cf_Role c \<noteq> RoleBalancer \<longrightarrow> lc_AdvertiseEndpoints (cf_Local c) \<noteq> [])"
    using assms unfolding finish_register_def Let_def by (auto simp: auto_register_def balancer_role_def Second_def split: if_split_asm)
  then show ?thesis by blast
qed

lemma finish_register_fixed:
  assumes "rg_Refresh (cf_Registry c) \<noteq> 0" "rg_AutoRegister (cf_Registry c) = Some v"
    "v \<and> rg_Type (cf_Registry c) \<noteq> ''static'' \<and> cf_Role c \<noteq> RoleBalancer \<longrightarrow> lc_AdvertiseEndpoints (cf_Local c) \<noteq> []"
  shows "finish_register c = Inr c"
proof -
  have "c\<lparr>cf_Registry := (cf_Registry c)\<lparr>rg_Refresh := rg_Refresh (cf_Registry c), rg_AutoRegister := Some v\<rparr>\<rparr> = c"
    using assms(2) by (cases "cf_Registry c"; cases c) simp
  then show ?thesis using assms by (auto simp: finish_register_def Let_def auto_register_def balancer_role_def)
qed

lemma resolveSpecific_fixed: "resolveSpecific what [] a = Inr out \<Longrightarrow> resolveSpecific what [] out = Inr out"
  using resolveSpecific_result [of what "[]" a out] resolveSpecific_again [of "[]" out what] by simp

lemma finish_mesh_result:
  assumes "finish_mesh c = Inr d"
  shows "\<exists>l a. d = c\<lparr>cf_Mesh := (cf_Mesh c)\<lparr>ms_Listen := l, ms_Advertise := a\<rparr>\<rparr>
    \<and> resolve ''mesh.listen'' ''0.0.0.0:4001'' l = Inr l \<and> resolvePeers ''mesh.advertise'' a = Inr a
    \<and> (a = [] \<longrightarrow> \<not> auto_register c)"
proof -
  obtain l a where r: "resolve ''mesh.listen'' ''0.0.0.0:4001'' (ms_Listen (cf_Mesh c)) = Inr l"
      "resolvePeers ''mesh.advertise'' (ms_Advertise (cf_Mesh c)) = Inr a" "a = [] \<longrightarrow> \<not> auto_register c"
      "d = c\<lparr>cf_Mesh := (cf_Mesh c)\<lparr>ms_Listen := l, ms_Advertise := a\<rparr>\<rparr>"
    using assms by (auto simp: finish_mesh_def Let_def split: sum.splits if_splits)
  then show ?thesis using resolve_fixed [OF r(1) default_listen(2)] resolveSpecific_fixed r unfolding resolvePeers_def by blast
qed

lemma finish_mesh_fixed:
  assumes "resolve ''mesh.listen'' ''0.0.0.0:4001'' (ms_Listen (cf_Mesh c)) = Inr (ms_Listen (cf_Mesh c))"
    "resolvePeers ''mesh.advertise'' (ms_Advertise (cf_Mesh c)) = Inr (ms_Advertise (cf_Mesh c))"
    "ms_Advertise (cf_Mesh c) = [] \<longrightarrow> \<not> auto_register c"
  shows "finish_mesh c = Inr c"
  using assms by (auto simp: finish_mesh_def)

lemma finish_passthrough_result:
  assumes "finish_passthrough c = Inr d"
  shows "\<exists>pt. d = c\<lparr>cf_Local := (cf_Local c)\<lparr>lc_Passthrough := pt\<rparr>\<rparr> \<and> resolveSpecific ''local.passthrough'' [] pt = Inr pt
    \<and> (cf_Role c = RoleBalancer \<longrightarrow> pt = []) \<and> first_error (passthrough_error (cf_Listen c)) pt = None"
  using assms resolveSpecific_fixed
  by (auto simp: finish_passthrough_def balancer_role_def split: sum.splits if_splits option.splits)

lemma finish_passthrough_fixed:
  assumes "resolveSpecific ''local.passthrough'' [] (lc_Passthrough (cf_Local c)) = Inr (lc_Passthrough (cf_Local c))"
    "cf_Role c = RoleBalancer \<longrightarrow> lc_Passthrough (cf_Local c) = []"
    "first_error (passthrough_error (cf_Listen c)) (lc_Passthrough (cf_Local c)) = None"
  shows "finish_passthrough c = Inr c"
  using assms by (simp add: finish_passthrough_def balancer_role_def)

lemma finish_external_result:
  assumes "finish_external i es = Inr es'"
  shows "finish_external j es' = Inr es'" "map xt_URL es' = map xt_URL es"
proof -
  have "finish_external j es' = Inr es' \<and> map xt_URL es' = map xt_URL es"
    using assms
  proof (induction es arbitrary: i j es')
    case (Cons e es)
    obtain es1 where es1: "finish_external (Suc i) es = Inr es1" using Cons.prems by (auto split: if_splits sum.splits)
    from Cons.IH [OF es1, of "Suc j"] show ?case using Cons.prems es1 by (auto simp: Second_def split: if_splits)
  qed simp
  then show "finish_external j es' = Inr es'" "map xt_URL es' = map xt_URL es" by auto
qed

lemma finish_externals_result:
  assumes "finish_externals c = Inr d"
  shows "\<exists>x y es. d = c\<lparr>cf_Mesh := (cf_Mesh c)\<lparr>ms_PathProbeInterval := x, ms_PathTimeout := y\<rparr>, cf_External := es\<rparr>
    \<and> x \<noteq> 0 \<and> y \<noteq> 0 \<and> finish_external 0 es = Inr es \<and> map xt_URL es = map xt_URL (cf_External c)"
proof -
  let ?x = "if ms_PathProbeInterval (cf_Mesh c) = 0 then 30 * Second else ms_PathProbeInterval (cf_Mesh c)"
    and ?y = "if ms_PathTimeout (cf_Mesh c) = 0 then 2 * Second else ms_PathTimeout (cf_Mesh c)"
  obtain es where "finish_external 0 (cf_External c) = Inr es"
      "d = c\<lparr>cf_Mesh := (cf_Mesh c)\<lparr>ms_PathProbeInterval := ?x, ms_PathTimeout := ?y\<rparr>, cf_External := es\<rparr>"
    using assms unfolding finish_externals_def Let_def by (auto split: sum.splits)
  moreover have "?x \<noteq> 0" "?y \<noteq> 0" by (simp_all add: Second_def)
  ultimately show ?thesis using finish_external_result by blast
qed

lemma finish_externals_fixed:
  assumes "ms_PathProbeInterval (cf_Mesh c) \<noteq> 0" "ms_PathTimeout (cf_Mesh c) \<noteq> 0" "finish_external 0 (cf_External c) = Inr (cf_External c)"
  shows "finish_externals c = Inr c"
  using assms by (simp add: finish_externals_def Let_def)

lemma exclude_loop_result:
  assumes "exclude_loop me out ids = Inr ids'" "\<forall>i \<in> set out. exclude_ok me i" "distinct out"
  shows "(\<forall>i \<in> set ids'. exclude_ok me i) \<and> distinct ids' \<and> set ids' = set out \<union> (TrimSpace ` set ids - {[]})"
  using assms
proof (induction ids arbitrary: out)
  case (Cons i ids)
  show ?case
  proof (cases "TrimSpace i = [] \<or> TrimSpace i \<in> set out")
    case True
    then have e: "exclude_loop me out ids = Inr ids'" using Cons.prems(1) by (simp add: Let_def)
    have b: "set out \<union> (TrimSpace ` set (i # ids) - {[]}) = set out \<union> (TrimSpace ` set ids - {[]})" using True by auto
    show ?thesis unfolding b by (rule Cons.IH [OF e Cons.prems(2,3)])
  next
    case False
    then have e: "exclude_loop me (out @ [TrimSpace i]) ids = Inr ids'" "exclude_ok me (TrimSpace i)"
      using Cons.prems(1) by (auto simp: Let_def exclude_ok_def split: if_splits)
    have b: "set out \<union> (TrimSpace ` set (i # ids) - {[]}) = set (out @ [TrimSpace i]) \<union> (TrimSpace ` set ids - {[]})" using False by auto
    show ?thesis unfolding b by (rule Cons.IH [OF e(1)]) (use Cons.prems(2,3) e(2) False in simp_all)
  qed
qed simp

lemma exclude_loop_again:
  assumes "\<forall>i \<in> set ids. exclude_ok me i" "distinct (out @ ids)"
  shows "exclude_loop me out ids = Inr (out @ ids)"
  using assms
proof (induction ids arbitrary: out)
  case (Cons i ids)
  then have "TrimSpace i = i" "i \<noteq> []" "i \<noteq> me" by (auto simp: exclude_ok_def)
  then show ?case using Cons.IH [of "out @ [i]"] Cons.prems by (auto simp: Let_def)
qed simp

lemma finish_exclude_result:
  assumes "finish_exclude c = Inr d"
  shows "\<exists>ids. d = c\<lparr>cf_Routing := (cf_Routing c)\<lparr>rt_Exclude := ids\<rparr>\<rparr> \<and> exclude_loop (lc_ID (cf_Local c)) [] ids = Inr ids"
proof -
  obtain ids where l: "exclude_loop (lc_ID (cf_Local c)) [] (rt_Exclude (cf_Routing c)) = Inr ids"
      "d = c\<lparr>cf_Routing := (cf_Routing c)\<lparr>rt_Exclude := ids\<rparr>\<rparr>"
    using assms by (auto simp: finish_exclude_def split: sum.splits)
  have "(\<forall>i \<in> set ids. exclude_ok (lc_ID (cf_Local c)) i) \<and> distinct ids" using exclude_loop_result [OF l(1)] by simp
  then have "exclude_loop (lc_ID (cf_Local c)) [] ids = Inr ids" using exclude_loop_again [of ids "lc_ID (cf_Local c)" "[]"] by simp
  then show ?thesis using l(2) by blast
qed

lemma finish_exclude_fixed:
  "exclude_loop (lc_ID (cf_Local c)) [] (rt_Exclude (cf_Routing c)) = Inr (rt_Exclude (cf_Routing c)) \<Longrightarrow> finish_exclude c = Inr c"
  by (simp add: finish_exclude_def)

lemma or_default_idem [simp]: "d \<noteq> 0 \<Longrightarrow> or_default (or_default v d) d = or_default v d"
  by (simp add: or_default_def)

lemma finish_routing_result:
  assumes "finish_routing c = Inr d"
  shows "\<exists>rt w. d = c\<lparr>cf_Routing := rt, cf_Local := (cf_Local c)\<lparr>lc_WaitTimeout := w\<rparr>\<rparr> \<and> rt_Exclude rt = rt_Exclude (cf_Routing c)
    \<and> routing_ok rt w"
proof -
  define rt where "rt = cf_Routing d"
  define w where "w = or_default (lc_WaitTimeout (cf_Local c)) (60 * Second)"
  have "d = c\<lparr>cf_Routing := rt, cf_Local := (cf_Local c)\<lparr>lc_WaitTimeout := w\<rparr>\<rparr> \<and> rt_Exclude rt = rt_Exclude (cf_Routing c)"
    using assms unfolding finish_routing_def Let_def rt_def w_def by (auto split: if_splits)
  moreover have "routing_ok rt w"
  proof -
    have e: "cf_Routing d = (cf_Routing c)\<lparr>
             rt_ReturnHysteresisRounds := or_default (rt_ReturnHysteresisRounds (cf_Routing c)) 3,
             rt_LagGrace := or_default (rt_LagGrace (cf_Routing c)) (1500 * Millisecond),
             rt_UpstreamTimeout := or_default (rt_UpstreamTimeout (cf_Routing c)) (60 * Second),
             rt_RequestTimeout := or_default (rt_RequestTimeout (cf_Routing c)) (wrap64 (2 * or_default (rt_UpstreamTimeout (cf_Routing c)) (60 * Second))),
             rt_PendingTTL := or_default (rt_PendingTTL (cf_Routing c)) (10 * Second),
             rt_DrainTimeout := or_default (rt_DrainTimeout (cf_Routing c)) (10 * Second),
             rt_BreakerThreshold := or_default (rt_BreakerThreshold (cf_Routing c)) 5,
             rt_BreakerOpenFor := or_default (rt_BreakerOpenFor (cf_Routing c)) (10 * Second)\<rparr>"
      and b: "case rt_RetryBudget (cf_Routing c) of Some b \<Rightarrow> 0 \<le> b | None \<Rightarrow> True"
      using assms unfolding finish_routing_def Let_def by (auto split: if_split_asm option.splits)
    have "or_default v x = 0 \<longleftrightarrow> v = 0 \<and> x = 0" for v x by (simp add: or_default_def)
    then show ?thesis using b unfolding routing_ok_def rt_def e w_def by (simp add: Second_def Millisecond_def)
  qed
  ultimately show ?thesis by blast
qed

lemma finish_routing_again:
  assumes "routing_ok (cf_Routing c) (lc_WaitTimeout (cf_Local c))"
  shows "finish_routing c = (if rt_RequestTimeout (cf_Routing c) < 0 then Inl NegativeRequestTimeout else Inr c)"
proof -
  have d: "v \<noteq> 0 \<Longrightarrow> or_default v x = v" for v x by (simp add: or_default_def)
  have q: "or_default (rt_RequestTimeout (cf_Routing c)) (wrap64 (2 * rt_UpstreamTimeout (cf_Routing c))) = rt_RequestTimeout (cf_Routing c)"
    using assms by (auto simp: routing_ok_def or_default_def)
  have r: "\<not> (case rt_RetryBudget (cf_Routing c) of Some b \<Rightarrow> b < 0 | None \<Rightarrow> False)" using assms by (auto simp: routing_ok_def split: option.splits)
  have "finish_routing c = (if rt_RequestTimeout (cf_Routing c) < 0 then Inl NegativeRequestTimeout
      else Inr (c\<lparr>cf_Routing := cf_Routing c, cf_Local := cf_Local c\<rparr>))"
    using assms unfolding finish_routing_def Let_def routing_ok_def by (simp add: d q r)
  then show ?thesis by simp
qed

section \<open>Lemmas: the whole of Finish\<close>

lemma Finish_early: "Finish env c = run_steps (early_steps env @ [finish_routing, finish_ratelimit env]) c"
  by (simp add: Finish_def early_steps_def)

lemma Finish_result:
  assumes "Finish env c = Inr d"
  shows "\<forall>f \<in> set (early_steps env). f d = Inr d" "routing_ok (cf_Routing d) (lc_WaitTimeout (cf_Local d))" "finish_ratelimit env d = Inr d"
    "rl_Enabled (cf_RateLimit d) \<Longrightarrow> limits_ok (cf_AdminToken d) (cf_RateLimit d) \<and> cf_ClientToken d = []"
proof -
  obtain c1 c2 c3 c4 c5 c6 c7 c8 c9 c10 c11 c12 c13 c14 where s:
      "finish_role c = Inr c1" "finish_listen c1 = Inr c2" "finish_clientToken env c2 = Inr c3" "finish_local env c3 = Inr c4"
      "finish_schemes c4 = Inr c5" "finish_adminToken env c5 = Inr c6" "finish_registry env c6 = Inr c7" "finish_syncKey env c7 = Inr c8"
      "finish_register c8 = Inr c9" "finish_mesh c9 = Inr c10" "finish_passthrough c10 = Inr c11" "finish_externals c11 = Inr c12"
      "finish_exclude c12 = Inr c13" "finish_routing c13 = Inr c14" "finish_ratelimit env c14 = Inr d"
    using assms unfolding Finish_def run_steps_Cons by (auto simp: run_steps_Cons simp del: run_steps.simps(2))
  obtain r m where q1: "c1 = c\<lparr>cf_Role := r, cf_Mode := m\<rparr>" "r \<in> {RoleNode, RoleBalancer}" "m \<in> {ModeFallback, ModeLoadBalancer}"
    using finish_role_result [OF s(1)] by blast
  obtain l where q2: "c2 = c1\<lparr>cf_Listen := l\<rparr>" "resolve ''listen'' ''127.0.0.1:4000'' l = Inr l" using finish_listen_result [OF s(2)] by blast
  obtain t where q3: "c3 = c2\<lparr>cf_ClientToken := t\<rparr>" "t = [] \<and> cf_ClientTokenFile c2 \<noteq> [] \<longrightarrow> readSecret env (cf_ClientTokenFile c2) = Inr []"
    using finish_clientToken_result [OF s(3)] by blast
  obtain g i where q4: "c4 = c3\<lparr>cf_Log := g, cf_Local := (cf_Local c3)\<lparr>lc_ID := i\<rparr>\<rparr>" "lg_Level g \<noteq> []" "i \<noteq> []"
      "if cf_Role c3 = RoleBalancer then lc_Network (cf_Local c3) \<noteq> [] else lc_Network (cf_Local c3) = [] \<and> lc_DataDir (cf_Local c3) \<noteq> []"
    using finish_local_result [OF s(4)] by blast
  have q5: "c5 = c4\<lparr>cf_Local := (cf_Local c4)\<lparr>lc_AdvertiseEndpoints := map withScheme (lc_AdvertiseEndpoints (cf_Local c4))\<rparr>,
             cf_Registry := (cf_Registry c4)\<lparr>rg_AlgodURL := withScheme (rg_AlgodURL (cf_Registry c4)),
               rg_Static := map (\<lambda>r. r\<lparr>rec_Endpoints := map withScheme (rec_Endpoints r)\<rparr>) (rg_Static (cf_Registry c4))\<rparr>,
             cf_External := map (\<lambda>e. e\<lparr>xt_URL := withScheme (xt_URL e)\<rparr>) (cf_External c4)\<rparr>"
    using s(5) by (simp add: finish_schemes_def Let_def)
  obtain a where q6: "c6 = c5\<lparr>cf_AdminToken := a\<rparr>" "admin_ok env a (cf_AdminTokenFile c5) (lc_DataDir (cf_Local c5))"
    using finish_adminToken_result [OF s(6)] by blast
  obtain ty where q7: "c7 = c6\<lparr>cf_Registry := (cf_Registry c6)\<lparr>rg_Type := ty\<rparr>\<rparr>" "ty \<noteq> []"
      "registry_error env (cf_Role c6 = RoleBalancer) ((cf_Registry c6)\<lparr>rg_Type := ty\<rparr>) = None" using finish_registry_result [OF s(7)] by blast
  obtain k where q8: "c8 = c7\<lparr>cf_Registry := (cf_Registry c7)\<lparr>rg_SyncKey := k\<rparr>\<rparr>"
      "k = [] \<and> rg_SyncKeyFile (cf_Registry c7) \<noteq> [] \<longrightarrow> readSecret env (rg_SyncKeyFile (cf_Registry c7)) = Inr []"
      "rg_SyncKeyFile (cf_Registry c7) \<noteq> [] \<or> k = rg_SyncKey (cf_Registry c7)" using finish_syncKey_result [OF s(8)] by blast
  obtain x v where q9: "c9 = c8\<lparr>cf_Registry := (cf_Registry c8)\<lparr>rg_Refresh := x, rg_AutoRegister := Some v\<rparr>\<rparr>" "x \<noteq> 0"
      "v \<and> rg_Type (cf_Registry c8) \<noteq> ''static'' \<and> cf_Role c8 \<noteq> RoleBalancer \<longrightarrow> lc_AdvertiseEndpoints (cf_Local c8) \<noteq> []"
    using finish_register_result [OF s(9)] by blast
  obtain ml ma where q10: "c10 = c9\<lparr>cf_Mesh := (cf_Mesh c9)\<lparr>ms_Listen := ml, ms_Advertise := ma\<rparr>\<rparr>"
      "resolve ''mesh.listen'' ''0.0.0.0:4001'' ml = Inr ml" "resolvePeers ''mesh.advertise'' ma = Inr ma" "ma = [] \<longrightarrow> \<not> auto_register c9"
    using finish_mesh_result [OF s(10)] by blast
  obtain pt where q11: "c11 = c10\<lparr>cf_Local := (cf_Local c10)\<lparr>lc_Passthrough := pt\<rparr>\<rparr>" "resolveSpecific ''local.passthrough'' [] pt = Inr pt"
      "cf_Role c10 = RoleBalancer \<longrightarrow> pt = []" "first_error (passthrough_error (cf_Listen c10)) pt = None"
    using finish_passthrough_result [OF s(11)] by blast
  obtain px py es where q12: "c12 = c11\<lparr>cf_Mesh := (cf_Mesh c11)\<lparr>ms_PathProbeInterval := px, ms_PathTimeout := py\<rparr>, cf_External := es\<rparr>"
      "px \<noteq> 0" "py \<noteq> 0" "finish_external 0 es = Inr es" "map xt_URL es = map xt_URL (cf_External c11)" using finish_externals_result [OF s(12)] by blast
  obtain ids where q13: "c13 = c12\<lparr>cf_Routing := (cf_Routing c12)\<lparr>rt_Exclude := ids\<rparr>\<rparr>" "exclude_loop (lc_ID (cf_Local c12)) [] ids = Inr ids"
    using finish_exclude_result [OF s(13)] by blast
  obtain rt w where q14: "c14 = c13\<lparr>cf_Routing := rt, cf_Local := (cf_Local c13)\<lparr>lc_WaitTimeout := w\<rparr>\<rparr>"
      "rt_Exclude rt = rt_Exclude (cf_Routing c13)" "routing_ok rt w" using finish_routing_result [OF s(14)] by blast
  obtain rl where q15: "ratelimit_finish env (cf_ClientToken c14) (cf_AdminToken c14) (cf_RateLimit c14) = Inr rl" "d = c14\<lparr>cf_RateLimit := rl\<rparr>"
    using s(15) by (auto simp: finish_ratelimit_def split: sum.splits)
  note lim = ratelimit_finish_result [OF q15(1)]
  note n1 = q1(1)
  note n2 = q2(1) [unfolded n1, simplified]
  note n3 = q3(1) [unfolded n2, simplified]
  note n4 = q4(1) [unfolded n3, simplified]
  note n5 = q5 [unfolded n4, simplified]
  note n6 = q6(1) [unfolded n5, simplified]
  note n7 = q7(1) [unfolded n6, simplified]
  note n8 = q8(1) [unfolded n7, simplified]
  note n9 = q9(1) [unfolded n8, simplified]
  note n10 = q10(1) [unfolded n9, simplified]
  note n11 = q11(1) [unfolded n10, simplified]
  note n12 = q12(1) [unfolded n11, simplified]
  note n13 = q13(1) [unfolded n12, simplified]
  note n14 = q14(1) [unfolded n13, simplified]
  note n15 = q15(2) [unfolded n14, simplified]
  note eqs = n15 n14 n13 n12 n11 n10 n9 n8 n7 n6 n5 n4 n3 n2 n1
  show "routing_ok (cf_Routing d) (lc_WaitTimeout (cf_Local d))" using q14(3) by (simp add: eqs)
  show "finish_ratelimit env d = Inr d" using lim(1) by (simp add: finish_ratelimit_def q15(2))
  show "rl_Enabled (cf_RateLimit d) \<Longrightarrow> limits_ok (cf_AdminToken d) (cf_RateLimit d) \<and> cf_ClientToken d = []"
    using lim(2,3) by (simp add: q15(2))
  have u: "withScheme (xt_URL e) = xt_URL e" if "e \<in> set es" for e
  proof -
    have "xt_URL e \<in> set (map xt_URL (cf_External c11))" using that q12(5) by (metis image_eqI set_map)
    then show ?thesis by (auto simp: q11(1) q10(1) q9(1) q8(1) q7(1) q6(1) q5)
  qed
  have re: "registry_error env (cf_Role d = RoleBalancer) (cf_Registry d) = None"
    using registry_error_frame [OF q7(3), where k = k and x = x and y = "Some v"] q8(3) by (simp add: eqs)
  have "finish_role d = Inr d" by (rule finish_role_fixed) (use q1(2,3) in \<open>simp_all add: eqs\<close>)
  moreover have "finish_listen d = Inr d" using q2(2) by (simp add: finish_listen_def eqs)
  moreover have "finish_clientToken env d = Inr d" by (rule finish_clientToken_fixed) (use q3(2) in \<open>simp add: eqs\<close>)
  moreover have "finish_local env d = Inr d" by (rule finish_local_fixed) (use q4(2-4) in \<open>simp_all add: eqs split: if_split_asm\<close>)
  moreover have "finish_schemes d = Inr d" by (rule finish_schemes_fixed) (use u in \<open>auto simp: eqs\<close>)
  moreover have "finish_adminToken env d = Inr d" by (rule finish_adminToken_fixed) (use q6(2) in \<open>simp add: eqs\<close>)
  moreover have "finish_registry env d = Inr d" by (rule finish_registry_fixed [OF _ re]) (use q7(2) in \<open>simp add: eqs\<close>)
  moreover have "finish_syncKey env d = Inr d" by (rule finish_syncKey_fixed) (use q8(2) in \<open>simp add: eqs\<close>)
  moreover have "finish_register d = Inr d" by (rule finish_register_fixed [where v = v]) (use q9(2,3) in \<open>simp_all add: eqs\<close>)
  moreover have "finish_mesh d = Inr d" by (rule finish_mesh_fixed) (use q10(2-4) in \<open>simp_all add: eqs auto_register_def\<close>)
  moreover have "finish_passthrough d = Inr d" by (rule finish_passthrough_fixed) (use q11(2-4) in \<open>simp_all add: eqs\<close>)
  moreover have "finish_externals d = Inr d" by (rule finish_externals_fixed) (use q12(2-4) in \<open>simp_all add: eqs\<close>)
  moreover have "finish_exclude d = Inr d" by (rule finish_exclude_fixed) (use q13(2) q14(2) in \<open>simp add: eqs\<close>)
  ultimately show "\<forall>f \<in> set (early_steps env). f d = Inr d" by (simp add: early_steps_def)
qed

text \<open>What a step says about a configuration it leaves alone.\<close>

lemma listen_fixed:
  assumes "finish_listen c = Inr c"
  shows "cf_Listen c \<noteq> [] \<and> bindable (cf_Listen c)"
proof -
  obtain l where l: "resolve ''listen'' ''127.0.0.1:4000'' l = Inr l" "c = c\<lparr>cf_Listen := l\<rparr>" using finish_listen_result [OF assms] by blast
  from arg_cong [OF l(2), of cf_Listen] have "cf_Listen c = l" by simp
  moreover have "bindable [''127.0.0.1:4000'']"
    by (simp add: bindable_def addr_good_def TrimSpace_def is_space_def SplitHostPort_def port_of_def split_or_empty_def)
  ultimately show ?thesis using resolve_bindable [OF l(1)] by (cases "l = []") (auto split: if_splits)
qed

lemma mesh_fixed:
  assumes "finish_mesh c = Inr c"
  shows "ms_Listen (cf_Mesh c) \<noteq> [] \<and> bindable (ms_Listen (cf_Mesh c))"
    "\<forall>a \<in> set (ms_Advertise (cf_Mesh c)). addr_good a \<and> \<not> wildcardHost (host_of a)" "auto_register c \<Longrightarrow> ms_Advertise (cf_Mesh c) \<noteq> []"
proof -
  obtain l a where r: "resolve ''mesh.listen'' ''0.0.0.0:4001'' l = Inr l" "resolvePeers ''mesh.advertise'' a = Inr a"
      "a = [] \<longrightarrow> \<not> auto_register c" "c = c\<lparr>cf_Mesh := (cf_Mesh c)\<lparr>ms_Listen := l, ms_Advertise := a\<rparr>\<rparr>"
    using finish_mesh_result [OF assms] by blast
  from arg_cong [OF r(4), of "\<lambda>c. (ms_Listen (cf_Mesh c), ms_Advertise (cf_Mesh c))"]
  have e: "ms_Listen (cf_Mesh c) = l" "ms_Advertise (cf_Mesh c) = a" by simp_all
  moreover have "bindable [''0.0.0.0:4001'']"
    by (simp add: bindable_def addr_good_def TrimSpace_def is_space_def SplitHostPort_def port_of_def split_or_empty_def)
  ultimately show "ms_Listen (cf_Mesh c) \<noteq> [] \<and> bindable (ms_Listen (cf_Mesh c))"
    using resolve_bindable [OF r(1)] by (cases "l = []") (auto split: if_splits)
  show "\<forall>a \<in> set (ms_Advertise (cf_Mesh c)). addr_good a \<and> \<not> wildcardHost (host_of a)"
    using resolveSpecific_result [of "''mesh.advertise''" "[]" a a] r(2) e(2) by (auto simp: resolvePeers_def list_all_iff)
  show "auto_register c \<Longrightarrow> ms_Advertise (cf_Mesh c) \<noteq> []" using r(3) e(2) by auto
qed

lemma passthrough_fixed:
  assumes "finish_passthrough c = Inr c"
  shows "\<forall>pt \<in> set (lc_Passthrough (cf_Local c)). \<forall>l \<in> set (cf_Listen c). l \<noteq> pt \<and> \<not> takes_port l pt"
    "cf_Role c = RoleBalancer \<Longrightarrow> lc_Passthrough (cf_Local c) = []"
proof -
  obtain pt where p: "resolveSpecific ''local.passthrough'' [] pt = Inr pt" "cf_Role c = RoleBalancer \<longrightarrow> pt = []"
      "first_error (passthrough_error (cf_Listen c)) pt = None" "c = c\<lparr>cf_Local := (cf_Local c)\<lparr>lc_Passthrough := pt\<rparr>\<rparr>"
    using finish_passthrough_result [OF assms] by blast
  from arg_cong [OF p(4), of "\<lambda>c. lc_Passthrough (cf_Local c)"] have e: "lc_Passthrough (cf_Local c) = pt" by simp
  have w: "\<not> wildcardHost (host_of x)" if "x \<in> set pt" for x
    using resolveSpecific_result [OF p(1)] that by (auto simp: list_all_iff)
  have "\<not> binds_already x l" if "x \<in> set pt" "l \<in> set (cf_Listen c)" for x l
    using p(3) that by (auto simp: first_error_None passthrough_error_def find_None_iff)
  moreover have "binds_already x l \<longleftrightarrow> l = x \<or> takes_port l x" if "x \<in> set pt" for x l
    using w [OF that] by (auto simp: binds_already_def takes_port_def host_of_def port_of_def wildcardHost_def wildcardCovers_def split: prod.splits)
  ultimately show "\<forall>pt \<in> set (lc_Passthrough (cf_Local c)). \<forall>l \<in> set (cf_Listen c). l \<noteq> pt \<and> \<not> takes_port l pt" using e by blast
  show "cf_Role c = RoleBalancer \<Longrightarrow> lc_Passthrough (cf_Local c) = []" using p(2) e by simp
qed

lemma finish_external_ok: "finish_external i es = Inr es' \<Longrightarrow> \<forall>e \<in> set es'. xt_Name e \<noteq> [] \<and> xt_URL e \<noteq> [] \<and> 0 < xt_HealthCheck e"
proof (induction es arbitrary: i es')
  case (Cons e es)
  obtain es1 where es1: "finish_external (Suc i) es = Inr es1" using Cons.prems by (auto split: if_splits sum.splits)
  from Cons.IH [OF es1] show ?case using Cons.prems es1 by (auto simp: Second_def split: if_splits)
qed simp

lemma Finish_ok:
  assumes "Finish env c = Inr d"
  shows "config_ok d"
proof -
  note f = Finish_result [OF assms]
  have g: "finish_role d = Inr d" "finish_listen d = Inr d" "finish_local env d = Inr d" "finish_registry env d = Inr d" "finish_register d = Inr d"
      "finish_mesh d = Inr d" "finish_passthrough d = Inr d" "finish_externals d = Inr d" "finish_exclude d = Inr d"
    using f(1) by (simp_all add: early_steps_def)
  obtain r m where r: "d = d\<lparr>cf_Role := r, cf_Mode := m\<rparr>" "r \<in> {RoleNode, RoleBalancer}" "m \<in> {ModeFallback, ModeLoadBalancer}"
    using finish_role_result [OF g(1)] by blast
  from arg_cong [OF r(1), of "\<lambda>c. (cf_Role c, cf_Mode c)"] have r1: "cf_Role d = r" "cf_Mode d = m" by simp_all
  obtain lg i where l: "d = d\<lparr>cf_Log := lg, cf_Local := (cf_Local d)\<lparr>lc_ID := i\<rparr>\<rparr>" "i \<noteq> []"
      "if cf_Role d = RoleBalancer then lc_Network (cf_Local d) \<noteq> [] else lc_Network (cf_Local d) = [] \<and> lc_DataDir (cf_Local d) \<noteq> []"
    using finish_local_result [OF g(3)] by blast
  from arg_cong [OF l(1), of "\<lambda>c. lc_ID (cf_Local c)"] have l1: "lc_ID (cf_Local d) = i" by simp
  obtain t where t: "d = d\<lparr>cf_Registry := (cf_Registry d)\<lparr>rg_Type := t\<rparr>\<rparr>"
      "registry_error env (cf_Role d = RoleBalancer) ((cf_Registry d)\<lparr>rg_Type := t\<rparr>) = None" using finish_registry_result [OF g(4)] by blast
  from arg_cong [OF t(1), of "\<lambda>c. rg_Type (cf_Registry c)"] have t1: "rg_Type (cf_Registry d) = t" by simp
  have st: "rg_Type (cf_Registry d) = ''static'' \<Longrightarrow> \<forall>r \<in> set (rg_Static (cf_Registry d)). Validate r = None"
    using t(2) by (auto simp: t1 registry_error_def first_error_None)
  obtain x v where a: "d = d\<lparr>cf_Registry := (cf_Registry d)\<lparr>rg_Refresh := x, rg_AutoRegister := Some v\<rparr>\<rparr>"
      "v \<and> rg_Type (cf_Registry d) \<noteq> ''static'' \<and> cf_Role d \<noteq> RoleBalancer \<longrightarrow> lc_AdvertiseEndpoints (cf_Local d) \<noteq> []"
    using finish_register_result [OF g(5)] by blast
  from arg_cong [OF a(1), of "\<lambda>c. rg_AutoRegister (cf_Registry c)"] have a1: "rg_AutoRegister (cf_Registry d) = Some v" by simp
  have ar: "auto_register d \<Longrightarrow> cf_Role d = RoleNode \<Longrightarrow> lc_AdvertiseEndpoints (cf_Local d) \<noteq> []"
    using a(2) a1 by (simp add: auto_register_def)
  obtain y z es where e: "d = d\<lparr>cf_Mesh := (cf_Mesh d)\<lparr>ms_PathProbeInterval := y, ms_PathTimeout := z\<rparr>, cf_External := es\<rparr>"
      "finish_external 0 es = Inr es" using finish_externals_result [OF g(8)] by blast
  from arg_cong [OF e(1), of cf_External] have "cf_External d = es" by simp
  then have ex: "\<forall>e \<in> set (cf_External d). xt_Name e \<noteq> [] \<and> xt_URL e \<noteq> [] \<and> 0 < xt_HealthCheck e"
    using finish_external_ok [OF e(2)] by simp
  obtain ids where ids: "d = d\<lparr>cf_Routing := (cf_Routing d)\<lparr>rt_Exclude := ids\<rparr>\<rparr>" "exclude_loop (lc_ID (cf_Local d)) [] ids = Inr ids"
    using finish_exclude_result [OF g(9)] by blast
  from arg_cong [OF ids(1), of "\<lambda>c. rt_Exclude (cf_Routing c)"] have "rt_Exclude (cf_Routing d) = ids" by simp
  then have me: "lc_ID (cf_Local d) \<notin> set (rt_Exclude (cf_Routing d))"
    using exclude_loop_result [OF ids(2)] by (auto simp: exclude_ok_def)
  have rb: "rt_RetryBudget (cf_Routing d) = Some b \<Longrightarrow> 0 \<le> b" for b using f(2) by (simp add: routing_ok_def)
  show ?thesis
    unfolding config_ok_def
    using r(2,3) r1 l(2,3) l1 st ar ex me rb listen_fixed [OF g(2)] mesh_fixed [OF g(6)] passthrough_fixed [OF g(7)] f(4) by (simp add: wildcardHost_def)
qed

lemma Finish_again:
  assumes "Finish env c = Inr d"
  shows "Finish env d = (if rt_RequestTimeout (cf_Routing d) < 0 then Inl NegativeRequestTimeout else Inr d)"
  using run_steps_fixed [OF Finish_result(1) [OF assms]] finish_routing_again [OF Finish_result(2) [OF assms]] Finish_result(3) [OF assms]
  by (simp add: Finish_early run_steps_append)

lemma sample_resolve:
  "resolve w df [''127.0.0.1:4000''] = Inr [''127.0.0.1:4000'']" "resolve w df [''10.0.0.1:4001''] = Inr [''10.0.0.1:4001'']"
  "resolvePeers w [''10.0.0.1:4001''] = Inr [''10.0.0.1:4001'']"
  by (simp_all add: resolve_def resolvePeers_def TrimSpace_def is_space_def SplitHostPort_def wildcardHost_def taken_by_def split_or_empty_def)

lemma sample_secret: "readSecret (sample_env host) ''/etc/token'' = Inr ''secret''"
  by (simp add: sample_env_def readSecret_def TrimSpace_def is_space_def)

lemma sample_fields:
  "cf_Role (sample_config up ty) = ''balancer''"
  "cf_Mode (sample_config up ty) = []"
  "cf_Listen (sample_config up ty) = [''127.0.0.1:4000'']"
  "cf_ClientToken (sample_config up ty) = []"
  "cf_ClientTokenFile (sample_config up ty) = []"
  "cf_AdminToken (sample_config up ty) = ''admin''"
  "cf_AdminTokenFile (sample_config up ty) = []"
  "cf_Log (sample_config up ty) = \<lparr>lg_Level = [], lg_JSON = False\<rparr>"
  "cf_Local (sample_config up ty) = \<lparr>lc_ID = [], lc_DataDir = [], lc_Network = ''testnet'', lc_AdvertiseEndpoints = [], lc_Passthrough = [], lc_Tier = 0, lc_Tags = [], lc_Overrides = None, lc_WaitTimeout = 0, lc_VerifyInterval = 0\<rparr>"
  "cf_Registry (sample_config up ty) = \<lparr>rg_Type = ty, rg_AppID = 0, rg_SyncKey = [], rg_SyncKeyFile = [], rg_SyncAddress = [], rg_AlgodURL = [], rg_AlgodToken = [], rg_Refresh = 0, rg_AutoRegister = None, rg_Cache = [], rg_File = [], rg_Static = []\<rparr>"
  "cf_Mesh (sample_config up ty) = \<lparr>ms_Listen = [''10.0.0.1:4001''], ms_Advertise = [''10.0.0.1:4001''], ms_SharedSecret = [], ms_SuspectAfter = 0, ms_DownAfter = 0, ms_ProbeInterval = 0, ms_KeepAlive = 0, ms_PathProbeInterval = 0, ms_PathTimeout = 0, ms_PeerOverrides = []\<rparr>"
  "cf_External (sample_config up ty) = []"
  "cf_Routing (sample_config up ty) = \<lparr>rt_SyncTolerance = 0, rt_LagGrace = 0, rt_ReturnHysteresisRounds = 0, rt_MultiBroadcast = False, rt_RetryBudget = None, rt_UpstreamTimeout = up, rt_RequestTimeout = 0, rt_PendingTTL = 0, rt_DrainTimeout = 0, rt_BreakerThreshold = 0, rt_BreakerOpenFor = 0, rt_Exclude = [''n9'']\<rparr>"
  "cf_RateLimit (sample_config up ty) = \<lparr>rl_Enabled = True, rl_StateFile = [], rl_TrustedProxies = [], rl_IPv6Prefix = 0, rl_MaxKeys = 0, rl_AnonymousPlan = Some ''p'', rl_SimulatePerSecond = None, rl_Weights = [], rl_Effort = [], rl_Plans = [(''p'', \<lparr>rp_PerMinute = Num 60, rp_PerDay = Num 0, rp_Simulate = \<lparr>cc_MaxGroups = 0, cc_MaxRounds = 0, cc_MaxExtraOpcodeBudget = 0, cc_UnnamedResources = None, cc_ExecTrace = None\<rparr>\<rparr>)], rl_Tokens = [\<lparr>rt_Name = ''alice'', rt_Token = [], rt_TokenFile = ''/etc/token'', rt_Plan = ''p''\<rparr>]\<rparr>"
  by (simp_all add: sample_config_def)

lemma sample_limits:
  "\<exists>r. ratelimit_finish (sample_env host) [] ''admin'' (cf_RateLimit (sample_config up ty)) = Inr r
     \<and> rl_Enabled r \<and> map rt_Token (rl_Tokens r) = [''secret'']"
  by (simp add: sample_fields ratelimit_finish_def rl_plans_def rl_weights_def rl_effort_def rl_numbers_def rl_anonymous_def
    rl_proxies_def rl_tokens_def finish_token_def sample_secret Let_def)

lemma sample_finish:
  assumes "ty \<in> {[], ''memory''}" "host \<noteq> []" "host \<noteq> ''n9''"
  shows "\<exists>d. Finish (sample_env host) (sample_config up ty) = Inr d \<and> rt_RequestTimeout (cf_Routing d) = wrap64 (2 * or_default up (60 * Second))
     \<and> rl_Enabled (cf_RateLimit d) \<and> map rt_Token (rl_Tokens (cf_RateLimit d)) = [''secret''] \<and> lc_ID (cf_Local d) = host
     \<and> cf_Role d = RoleBalancer \<and> auto_register d = (ty \<noteq> [])"
proof -
  obtain r where r: "ratelimit_finish (sample_env host) [] ''admin'' (cf_RateLimit (sample_config up ty)) = Inr r" "rl_Enabled r"
      "map rt_Token (rl_Tokens r) = [''secret'']"
    using sample_limits [of host up ty] by (elim exE conjE) (rule that)
  have e: "env_Hostname (sample_env host) = Some host" by (simp add: sample_env_def)
  have z: "or_default 0 v = v" for v by (simp add: or_default_def)
  have c: "finish_role (sample_config up t) = Inr (sample_config up t\<lparr>cf_Role := RoleBalancer, cf_Mode := ModeLoadBalancer\<rparr>)" for t
    by (simp add: finish_role_def sample_fields ParseRole_def ParseMode_def balancer_role_def Let_def)
  have "ty = [] \<or> ty = ''memory''" using assms(1) by simp
  then show ?thesis using r [unfolded sample_fields] assms(2,3)
    by (elim disjE; hypsubst) (simp_all add: Finish_def c e z sample_fields sample_resolve Let_def balancer_role_def
      finish_listen_def finish_clientToken_def finish_local_def finish_schemes_def finish_adminToken_def
      finish_registry_def registry_type_def registry_error_def finish_syncKey_def finish_register_def auto_register_def finish_mesh_def
      finish_passthrough_def finish_externals_def finish_exclude_def TrimSpace_def is_space_def
      finish_routing_def finish_ratelimit_def withScheme_def)
qed

section \<open>Properties\<close>



text \<open>
  C35. Finish runs more than once on one configuration (when it is loaded, and again when the agent is
  built from it): the second run leaves what the first accepted as it is, secrets read from files
  included, with one exception. A negative upstream_timeout passes the first run, which takes twice of
  it for the unset request_timeout; the second run then refuses that as a negative request_timeout.
\<close>

theorem finish_twice:
  assumes "Finish env c = Inr d"
  shows "Finish env d = (if rt_RequestTimeout (cf_Routing d) < 0 then Inl NegativeRequestTimeout else Inr d)"
  by (rule Finish_again [OF assms])

theorem finish_twice_witness:
  "(\<exists>d. Finish (sample_env ''lb1'') (sample_config 0 []) = Inr d \<and> Finish (sample_env ''lb1'') d = Inr d)
     \<and> (\<exists>d. Finish (sample_env ''lb1'') (sample_config (- Second) []) = Inr d \<and> Finish (sample_env ''lb1'') d = Inl NegativeRequestTimeout)"
proof
  obtain d where d: "Finish (sample_env ''lb1'') (sample_config 0 []) = Inr d" "rt_RequestTimeout (cf_Routing d) = wrap64 (2 * or_default 0 (60 * Second))"
    using sample_finish [of "[]" "''lb1''" 0] by (auto intro: that)
  have "\<not> rt_RequestTimeout (cf_Routing d) < 0" using d(2) by (simp add: or_default_def Second_def wrap64_def)
  then show "\<exists>d. Finish (sample_env ''lb1'') (sample_config 0 []) = Inr d \<and> Finish (sample_env ''lb1'') d = Inr d"
    using finish_twice [OF d(1)] d(1) by (intro exI [of _ d]) simp
next
  obtain d where d: "Finish (sample_env ''lb1'') (sample_config (- Second) []) = Inr d"
      "rt_RequestTimeout (cf_Routing d) = wrap64 (2 * or_default (- Second) (60 * Second))"
    using sample_finish [of "[]" "''lb1''" "- Second"] by (auto intro: that)
  have "rt_RequestTimeout (cf_Routing d) < 0" using d(2) by (simp add: or_default_def Second_def wrap64_def)
  then show "\<exists>d. Finish (sample_env ''lb1'') (sample_config (- Second) []) = Inr d \<and> Finish (sample_env ''lb1'') d = Inl NegativeRequestTimeout"
    using finish_twice [OF d(1)] d(1) by (intro exI [of _ d]) simp
qed

end
