(* ===== verification/RegistryFile.thy ===== *)
theory RegistryFile
  imports Types "HOL-Library.AList"
begin

text \<open>
  The registry of internal/adapters/registryfile/file.go: the cache of records in a JSON file, the
  registry on a shared file or in memory, and the static registry. A file is what reading and decoding
  it gives, so a list of records written is the list read back. What the operating system lets happen
  to a write is an argument. The locale registry is what the agent's synchronisation relies on in any
  registry (ports.Registry); the registry of this file is an instance.
\<close>

section \<open>Files\<close>

datatype content = Records "NodeRecord list" | Garbage | Denied

type_synonym files = "string \<Rightarrow> content option"

datatype FileError = ReadFailed | DecodeFailed | MkdirFailed | WriteFailed | RenameFailed | InvalidRecord DomainError | ReadOnly

text \<open>How far a write gets: a write that fails leaves the temporary file in any state.\<close>

datatype write_outcome = NoDirectory | WriteTorn "content option" | NotRenamed | Written

definition Cache_Load :: "string \<Rightarrow> files \<Rightarrow> FileError + NodeRecord list" where
  "Cache_Load path fs =
     (if path = [] then Inr []
      else case fs path of
        None \<Rightarrow> Inr []
      | Some Denied \<Rightarrow> Inl ReadFailed
      | Some Garbage \<Rightarrow> Inl DecodeFailed
      | Some (Records recs) \<Rightarrow> Inr recs)"

definition Cache_Save :: "write_outcome \<Rightarrow> string \<Rightarrow> NodeRecord list \<Rightarrow> files \<Rightarrow> FileError option \<times> files" where
  "Cache_Save w path recs fs =
     (if path = [] then (None, fs)
      else
        let tmp = path @ ''.tmp'' in
        case w of
          NoDirectory \<Rightarrow> (Some MkdirFailed, fs)
        | WriteTorn f \<Rightarrow> (Some WriteFailed, fs(tmp := f))
        | NotRenamed \<Rightarrow> (Some RenameFailed, fs(tmp := Some (Records recs)))
        | Written \<Rightarrow> (None, fs(path := Some (Records recs), tmp := None)))"

section \<open>The registry\<close>

text \<open>A map of records by id is the list of its entries.\<close>

record Registry =
  rf_Path :: string
  rf_mem :: "(string \<times> NodeRecord) list"
  rf_Round :: u64

definition by_id :: "NodeRecord list \<Rightarrow> (string \<times> NodeRecord) list" where
  "by_id recs = fold (\<lambda>r. AList.update (rec_ID r) r) recs []"

definition rf_load :: "Registry \<Rightarrow> files \<Rightarrow> FileError + (string \<times> NodeRecord) list" where
  "rf_load r fs =
     (if rf_Path r = [] then Inr (rf_mem r)
      else case Cache_Load (rf_Path r) fs of Inl e \<Rightarrow> Inl e | Inr recs \<Rightarrow> Inr (by_id recs))"

definition sorted_records :: "(string \<times> NodeRecord) list \<Rightarrow> NodeRecord list" where
  "sorted_records m = sort_key rec_ID (map snd m)"

definition rf_store :: "write_outcome \<Rightarrow> (string \<times> NodeRecord) list \<Rightarrow> Registry \<Rightarrow> files \<Rightarrow> FileError option \<times> Registry \<times> files" where
  "rf_store w m r fs =
     (if rf_Path r = [] then (None, r\<lparr>rf_mem := m\<rparr>, fs)
      else case Cache_Save w (rf_Path r) (sorted_records m) fs of (e, fs') \<Rightarrow> (e, r, fs'))"

definition rf_List :: "Registry \<times> files \<Rightarrow> FileError + (NodeRecord list \<times> u64)" where
  "rf_List = (\<lambda>(r, fs). case rf_load r fs of Inl e \<Rightarrow> Inl e | Inr m \<Rightarrow> Inr (sorted_records m, rf_Round r))"

definition rf_Put :: "write_outcome \<Rightarrow> NodeRecord \<Rightarrow> Registry \<times> files \<Rightarrow> FileError option \<times> (Registry \<times> files)" where
  "rf_Put w rec = (\<lambda>(r, fs).
     case Validate rec of
       Some e \<Rightarrow> (Some (InvalidRecord e), r, fs)
     | None \<Rightarrow>
       (case rf_load r fs of
          Inl e \<Rightarrow> (Some e, r, fs)
        | Inr m \<Rightarrow> rf_store w (AList.update (rec_ID rec) rec m) (r\<lparr>rf_Round := rf_Round r + 1\<rparr>) fs))"

definition rf_Delete :: "write_outcome \<Rightarrow> string \<Rightarrow> Registry \<times> files \<Rightarrow> FileError option \<times> (Registry \<times> files)" where
  "rf_Delete w i = (\<lambda>(r, fs).
     case rf_load r fs of
       Inl e \<Rightarrow> (Some e, r, fs)
     | Inr m \<Rightarrow> rf_store w (AList.delete i m) (r\<lparr>rf_Round := rf_Round r + 1\<rparr>) fs)"

text \<open>A registry from the configuration: it cannot be written.\<close>

definition Static_List :: "NodeRecord list \<Rightarrow> FileError + (NodeRecord list \<times> u64)" where
  "Static_List recs = Inr (recs, 0)"

definition Static_Put :: "NodeRecord \<Rightarrow> NodeRecord list \<Rightarrow> FileError option \<times> NodeRecord list" where
  "Static_Put rec recs = (Some ReadOnly, recs)"

definition Static_Delete :: "string \<Rightarrow> NodeRecord list \<Rightarrow> FileError option \<times> NodeRecord list" where
  "Static_Delete i recs = (Some ReadOnly, recs)"

text \<open>The entries of a registry in memory stand under their own ids, each once.\<close>

definition keyed :: "(string \<times> NodeRecord) list \<Rightarrow> bool" where
  "keyed m = (distinct (map fst m) \<and> (\<forall>(i, r) \<in> set m. rec_ID r = i))"

definition reg_ok :: "Registry \<times> files \<Rightarrow> bool" where
  "reg_ok s = keyed (rf_mem (fst s))"

section \<open>The interface\<close>

text \<open>
  What an agent relies on in a registry, in the states that satisfy ok and for the records that fit: a
  listing names every node once, a record put is in the next listing in place of the one before and
  nothing else is touched, and a put that fails, for whatever reason out, has changed nothing that is
  listed or has been done all the same.
\<close>

locale registry =
  fixes listing :: "'s \<Rightarrow> 'e + (NodeRecord list \<times> u64)"
    and put :: "'o \<Rightarrow> NodeRecord \<Rightarrow> 's \<Rightarrow> 'e option \<times> 's"
    and ok :: "'s \<Rightarrow> bool"
    and fits :: "NodeRecord \<Rightarrow> 's \<Rightarrow> bool"
  assumes listed_once: "ok s \<Longrightarrow> listing s = Inr (recs, rd) \<Longrightarrow> distinct (map rec_ID recs)"
    and put_ok: "ok s \<Longrightarrow> fits r s \<Longrightarrow> ok (snd (put out r s))"
    and put_listed: "ok s \<Longrightarrow> fits r s \<Longrightarrow> put out r s = (None, t) \<Longrightarrow> \<exists>recs rd recs' rd'. listing s = Inr (recs, rd)
      \<and> listing t = Inr (recs', rd') \<and> set recs' = insert r {x \<in> set recs. rec_ID x \<noteq> rec_ID r}"
    and put_failed: "ok s \<Longrightarrow> fits r s \<Longrightarrow> put out r s = (Some e, t) \<Longrightarrow> listing s = Inr (recs, rd) \<Longrightarrow>
      \<exists>recs' rd'. listing t = Inr (recs', rd') \<and> (set recs' = set recs \<or> set recs' = insert r {x \<in> set recs. rec_ID x \<noteq> rec_ID r})"
begin

text \<open>Two writers: each finds its own record in place, whoever came last.\<close>

lemma put_both:
  assumes "ok s" "fits r s" "put out r s = (None, t)" "fits q t" "put out' q t = (None, u)" "rec_ID q \<noteq> rec_ID r" "listing u = Inr (recs, rd)"
  shows "r \<in> set recs \<and> q \<in> set recs"
proof -
  have "ok t" using put_ok [OF assms(1,2)] assms(3) by (metis snd_conv)
  then show ?thesis using put_listed [OF assms(1-3)] put_listed [OF _ assms(4,5)] assms(6,7) by fastforce
qed

end

section \<open>Lemmas\<close>

lemma set_update: "distinct (map fst m) \<Longrightarrow> set (AList.update k v m) = insert (k, v) {x \<in> set m. fst x \<noteq> k}"
  by (induction m) (auto simp: rev_image_eqI)

lemma update_absent: "k \<notin> fst ` set m \<Longrightarrow> AList.update k v m = m @ [(k, v)]"
  by (induction m) auto

lemma keyed_update: "keyed m \<Longrightarrow> keyed (AList.update (rec_ID r) r m)"
  using distinct_update [of m "rec_ID r" r] by (auto simp: keyed_def set_update)

lemma keyed_by_id: "keyed (by_id recs)"
proof -
  have "keyed (fold (\<lambda>r. AList.update (rec_ID r) r) recs m)" if "keyed m" for m
    using that by (induction recs arbitrary: m) (simp_all add: keyed_update)
  from this [of "[]"] show ?thesis by (simp add: by_id_def keyed_def)
qed

lemma set_sorted [simp]: "set (sorted_records m) = snd ` set m"
  by (simp add: sorted_records_def)

lemma sorted_once:
  assumes "keyed m"
  shows "distinct (map rec_ID (sorted_records m))"
proof -
  have "map rec_ID (map snd m) = map fst m" using assms by (auto simp: keyed_def)
  moreover have "mset (map rec_ID (sorted_records m)) = mset (map rec_ID (map snd m))" unfolding mset_map by (simp add: sorted_records_def)
  ultimately show ?thesis using assms mset_eq_imp_distinct_iff by (metis keyed_def)
qed

lemma set_by_id:
  assumes "distinct (map rec_ID recs)"
  shows "snd ` set (by_id recs) = set recs"
proof -
  have "snd ` set (fold (\<lambda>r. AList.update (rec_ID r) r) recs m) = snd ` set m \<union> set recs"
    if "rec_ID ` set recs \<inter> fst ` set m = {}" for m
    using assms that
  proof (induction recs arbitrary: m)
    case (Cons r recs)
    then have "AList.update (rec_ID r) r m = m @ [(rec_ID r, r)]" by (intro update_absent) auto
    then show ?case using Cons.IH [of "m @ [(rec_ID r, r)]"] Cons.prems by auto
  qed simp
  from this [of "[]"] show ?thesis by (simp add: by_id_def)
qed

lemma load_keyed: "reg_ok (r, fs) \<Longrightarrow> rf_load r fs = Inr m \<Longrightarrow> keyed m"
  by (auto simp: rf_load_def reg_ok_def keyed_by_id split: if_splits sum.splits)

text \<open>What a write leaves behind: all of it, or nothing that a later read sees.\<close>

lemma load_store:
  assumes "keyed m" "rf_store w m r fs = (None, r', fs')"
  shows "\<exists>m'. rf_load r' fs' = Inr m' \<and> snd ` set m' = snd ` set m"
  using assms set_by_id [OF sorted_once [OF assms(1)]]
  by (auto simp: rf_store_def rf_load_def Cache_Save_def Cache_Load_def Let_def split: if_splits write_outcome.splits)

lemma load_not_stored:
  assumes "rf_store w m r fs = (Some e, r', fs')"
  shows "rf_load r' fs' = rf_load r fs"
  using assms by (auto simp: rf_store_def rf_load_def Cache_Save_def Cache_Load_def Let_def split: if_splits write_outcome.splits)

lemma store_ok: "reg_ok (r, fs) \<Longrightarrow> keyed m \<Longrightarrow> rf_store w m r fs = (e, r', fs') \<Longrightarrow> reg_ok (r', fs')"
  by (auto simp: rf_store_def reg_ok_def split: if_splits prod.splits)

lemma round_irrelevant: "rf_load (r\<lparr>rf_Round := n\<rparr>) fs = rf_load r fs" "reg_ok (r\<lparr>rf_Round := n\<rparr>, fs) = reg_ok (r, fs)"
  by (simp_all add: rf_load_def reg_ok_def)

lemma rf_Put_ok: "reg_ok s \<Longrightarrow> reg_ok (snd (rf_Put w rec s))"
proof (cases s)
  case (Pair r fs)
  assume ok: "reg_ok s"
  have "reg_ok (snd (rf_store w (AList.update (rec_ID rec) rec m) (r\<lparr>rf_Round := n\<rparr>) fs))" if "rf_load r fs = Inr m" for m n
    using store_ok [of "r\<lparr>rf_Round := n\<rparr>" fs "AList.update (rec_ID rec) rec m" w] load_keyed [OF _ that] ok Pair
    by (cases "rf_store w (AList.update (rec_ID rec) rec m) (r\<lparr>rf_Round := n\<rparr>) fs") (auto simp: round_irrelevant keyed_update)
  then show ?thesis using ok Pair by (auto simp: rf_Put_def split: option.splits sum.splits)
qed

lemma rf_Put_listed:
  assumes "reg_ok s" "rf_Put w rec s = (None, t)"
  shows "\<exists>recs rd recs' rd'. rf_List s = Inr (recs, rd) \<and> rf_List t = Inr (recs', rd')
    \<and> set recs' = insert rec {x \<in> set recs. rec_ID x \<noteq> rec_ID rec}"
proof -
  obtain r fs r' fs' where st: "s = (r, fs)" "t = (r', fs')" by (metis surj_pair)
  obtain m where m: "rf_load r fs = Inr m" "rf_store w (AList.update (rec_ID rec) rec m) (r\<lparr>rf_Round := rf_Round r + 1\<rparr>) fs = (None, r', fs')"
    using assms(2) st by (auto simp: rf_Put_def split: option.splits sum.splits)
  have k: "keyed m" using load_keyed assms(1) m(1) st by blast
  obtain m' where m': "rf_load r' fs' = Inr m'" "snd ` set m' = snd ` set (AList.update (rec_ID rec) rec m)"
    using load_store [OF keyed_update [OF k] m(2)] by blast
  have "snd ` set (AList.update (rec_ID rec) rec m) = insert rec {x \<in> snd ` set m. rec_ID x \<noteq> rec_ID rec}"
    using k by (force simp: keyed_def set_update)
  then show ?thesis using m(1) m' st by (auto simp: rf_List_def)
qed

lemma rf_Put_failed:
  assumes "rf_Put w rec s = (Some e, t)"
  shows "map_sum id fst (rf_List t) = map_sum id fst (rf_List s)"
  using assms
  by (cases s; cases t) (auto simp: rf_Put_def rf_List_def round_irrelevant dest!: load_not_stored split: option.splits sum.splits)

interpretation file_registry: registry rf_List rf_Put reg_ok "\<lambda>_ _. True"
proof
  fix s recs rd
  assume "reg_ok s" "rf_List s = Inr (recs, rd)"
  then show "distinct (map rec_ID recs)" by (cases s) (auto simp: rf_List_def sorted_once dest: load_keyed split: sum.splits)
next
  fix s r out e t recs rd
  assume "rf_Put out r s = (Some e, t)" "rf_List s = Inr (recs, rd)"
  then show "\<exists>recs' rd'. rf_List t = Inr (recs', rd') \<and> (set recs' = set recs \<or> set recs' = insert r {x \<in> set recs. rec_ID x \<noteq> rec_ID r})"
    using rf_Put_failed [of out r s e t] by (cases "rf_List t") auto
qed (erule rf_Put_ok, erule (1) rf_Put_listed)

end
