(* ===== verification/RegistrySync.thy ===== *)
theory RegistrySync
  imports RegistryFile DirectoryGossip "HOL-Library.Signed_Division"
begin

text \<open>
  The registry synchronisation of internal/app/registrysync.go: reading the registry, keeping this
  node's own record in it up to date, and handing the records to the directory. Reading and writing are
  arguments, as the Go code has them behind ports.Registry; the lemmas about any registry are in the
  context of the locale registry, and the properties are those of the registry in a file.
\<close>

section \<open>State and operations\<close>

record RegistrySyncOptions =
  rs_Refresh :: Duration
  rs_AutoRegister :: bool

text \<open>The channel kick holds at most one request.\<close>

record RegistrySync =
  rs_opts :: RegistrySyncOptions
  rs_lastKick :: Time
  rs_kick :: bool

definition NewRegistrySync :: "RegistrySyncOptions \<Rightarrow> RegistrySync" where
  "NewRegistrySync op =
     \<lparr>rs_opts = (if rs_Refresh op = 0 then op\<lparr>rs_Refresh := 300 * Second\<rparr> else op), rs_lastKick = 0, rs_kick = False\<rparr>"

definition RefreshNow :: "Time \<Rightarrow> RegistrySync \<Rightarrow> RegistrySync" where
  "RefreshNow now s =
     (if time_Sub now (rs_lastKick s) < rs_Refresh (rs_opts s) sdiv 10 then s
      else s\<lparr>rs_lastKick := now, rs_kick := True\<rparr>)"

text \<open>
  register: the record to write, and whether it is to be written at all; then the write. The results are
  the record, whether the registry has changed, the error and the registry.
\<close>

definition register_record :: "NodeRecord list \<Rightarrow> NodeRecord \<Rightarrow> u64 \<Rightarrow> NodeRecord \<times> bool" where
  "register_record recs want0 rd =
     (let stamp = (\<lambda>w. (w\<lparr>rec_Version := (if rec_Version w = 0 then 1 else rec_Version w), rec_UpdatedAt := rd\<rparr>, True)) in
      case find (\<lambda>r. rec_ID r = rec_ID want0) recs of
        Some r \<Rightarrow> if StaticEqual r want0 then (r, False) else stamp (want0\<lparr>rec_Version := wrap64 (rec_Version r + 1)\<rparr>)
      | None \<Rightarrow> stamp want0)"

definition register ::
  "('o \<Rightarrow> NodeRecord \<Rightarrow> 's \<Rightarrow> 'e option \<times> 's) \<Rightarrow> 'o \<Rightarrow> NodeRecord list \<Rightarrow> NodeRecord \<Rightarrow> u64 \<Rightarrow> 's \<Rightarrow> NodeRecord \<times> bool \<times> 'e option \<times> 's" where
  "register put out recs want rd s =
     (case register_record recs want rd of
        (r, False) \<Rightarrow> (r, False, None, s)
      | (w, True) \<Rightarrow>
        (case put out w s of
           (Some e, t) \<Rightarrow> (w, False, Some e, t)
         | (None, t) \<Rightarrow> (w, True, None, t)))"

fun upsert :: "NodeRecord list \<Rightarrow> NodeRecord \<Rightarrow> NodeRecord list" where
  "upsert [] rec = [rec]"
| "upsert (r # recs) rec = (if rec_ID r = rec_ID rec then rec # recs else r # upsert recs rec)"

text \<open>
  refresh, with what List returned and the registry at the time of the write: whether the read
  succeeded, whether the node is registered, the records for the directory and the cache, and the registry.
\<close>

definition refresh ::
  "('o \<Rightarrow> NodeRecord \<Rightarrow> 's \<Rightarrow> 'e option \<times> 's) \<Rightarrow> RegistrySyncOptions \<Rightarrow> 'o \<Rightarrow> 'e + (NodeRecord list \<times> u64) \<Rightarrow> NodeRecord option \<Rightarrow> bool \<Rightarrow> 's
     \<Rightarrow> bool \<times> bool \<times> NodeRecord list option \<times> 's" where
  "refresh put opts out listed local registered s =
     (case listed of
        Inl _ \<Rightarrow> (False, registered, None, s)
      | Inr (recs, rd) \<Rightarrow>
        if rs_AutoRegister opts \<and> \<not> registered then
          (case local of
             None \<Rightarrow> (True, registered, Some recs, s)
           | Some want \<Rightarrow>
             (case register put out recs want rd s of
                (rec, changed, err, t) \<Rightarrow> (True, err = None, Some (if changed then upsert recs rec else recs), t)))
        else (True, registered, Some recs, s))"

text \<open>Run: the records of the cache to start from, and how the loop goes on after a refresh.\<close>

definition run_start :: "string option \<Rightarrow> files \<Rightarrow> NodeRecord list option" where
  "run_start cache fs =
     (case cache of
        None \<Rightarrow> None
      | Some path \<Rightarrow> (case Cache_Load path fs of Inl _ \<Rightarrow> None | Inr recs \<Rightarrow> if recs = [] then None else Some recs))"

datatype pause = Sleep Duration | Select

definition first_retry :: "RegistrySyncOptions \<Rightarrow> Duration" where
  "first_retry opts = min (rs_Refresh opts) (10 * Second) sdiv 2"

definition run_next :: "RegistrySyncOptions \<Rightarrow> bool \<Rightarrow> bool \<Rightarrow> Duration \<Rightarrow> pause \<times> Duration" where
  "run_next opts read registered retry =
     (if \<not> read \<or> rs_AutoRegister opts \<and> \<not> registered
      then (Sleep retry, min (wrap64 (2 * retry)) (rs_Refresh opts))
      else (Select, first_retry opts))"

section \<open>Lemmas\<close>

lemma StaticEqual_iff:
  "StaticEqual r s \<longleftrightarrow> rec_ID r = rec_ID s \<and> IsBalancer r = IsBalancer s \<and> rec_Network r = rec_Network s \<and> rec_Token r = rec_Token s
     \<and> rec_Tier r = rec_Tier s \<and> GossipAddrs (rec_Agent r) = GossipAddrs (rec_Agent s) \<and> ai_PubKey (rec_Agent r) = ai_PubKey (rec_Agent s)
     \<and> rec_Endpoints r = rec_Endpoints s \<and> rec_Tags r = rec_Tags s \<and> rec_Declared r = rec_Declared s"
  by (auto simp: StaticEqual_def)

lemma register_record_static: "register_record recs want rd = (r, b) \<Longrightarrow> StaticEqual r want"
  by (auto simp: register_record_def Let_def StaticEqual_iff IsBalancer_def find_Some_iff split: option.splits if_splits)

lemma register_record_unchanged: "register_record recs want rd = (r, False) \<Longrightarrow> r \<in> set recs"
  by (auto simp: register_record_def Let_def find_Some_iff split: option.splits if_splits)

lemma register_record_again:
  assumes "distinct (map rec_ID recs)" "r \<in> set recs" "StaticEqual r want"
  shows "register_record recs want rd = (r, False)"
proof -
  have "find (\<lambda>r. rec_ID r = rec_ID want) recs = Some r"
    using assms by (induction recs) (auto simp: StaticEqual_iff rev_image_eqI)
  then show ?thesis using assms(3) by (simp add: register_record_def)
qed

lemma set_upsert: "distinct (map rec_ID recs) \<Longrightarrow> set (upsert recs rec) = insert rec {x \<in> set recs. rec_ID x \<noteq> rec_ID rec}"
  by (induction recs) (auto simp: rev_image_eqI)

lemma upsert_once: "distinct (map rec_ID recs) \<Longrightarrow> distinct (map rec_ID (upsert recs rec))"
proof (induction recs)
  case (Cons r recs)
  then show ?case using set_upsert [of recs rec] by (auto simp: rev_image_eqI)
qed simp

text \<open>One registration, over any registry.\<close>

context registry
begin

lemma refresh_ok:
  assumes "ok s" "\<And>recs rd want. listed = Inr (recs, rd) \<Longrightarrow> local = Some want \<Longrightarrow> fits (fst (register_record recs want rd)) s"
  shows "ok (snd (snd (snd (refresh put opts out listed local registered s))))"
proof -
  have "ok (snd (snd (snd (register put out recs want rd s))))" if "fits (fst (register_record recs want rd)) s" for recs want rd
  proof -
    obtain r b e t where r: "register_record recs want rd = (r, b)" "put out r s = (e, t)" by fastforce
    then show ?thesis using put_ok [OF assms(1), of r out] assms(1) that by (cases b; cases e) (simp_all add: register_def)
  qed
  then show ?thesis using assms by (simp add: refresh_def case_prod_beta split: sum.split option.split)
qed

lemma registered:
  assumes "ok s" "listing s = Inr (recs, rd)" "rs_AutoRegister opts" "fits (fst (register_record recs want rd)) s"
    and "refresh put opts out (Inr (recs, rd)) (Some want) False s = (True, True, Some recs', t)"
  shows "\<exists>listed rd'. listing t = Inr (listed, rd') \<and> set listed = set recs' \<and> distinct (map rec_ID recs')
    \<and> (\<exists>r \<in> set recs'. StaticEqual r want) \<and> {x \<in> set recs'. rec_ID x \<noteq> rec_ID want} = {x \<in> set recs. rec_ID x \<noteq> rec_ID want}
    \<and> (\<forall>out'. refresh put opts out' (Inr (listed, rd')) (Some want) False t = (True, True, Some listed, t))"
proof -
  have once: "distinct (map rec_ID recs)" by (rule listed_once [OF assms(1,2)])
  obtain r b where rb: "register_record recs want rd = (r, b)" by fastforce
  note st = register_record_static [OF rb]
  have again: "refresh put opts out' (Inr (l, rd')) (Some want) False t = (True, True, Some l, t)"
    if "distinct (map rec_ID l)" "r \<in> set l" for l rd' out'
    using register_record_again [OF that st] assms(3) by (simp add: refresh_def register_def)
  show ?thesis
  proof (cases b)
    case False
    then have "t = s" "recs' = recs" using assms(3,5) rb by (auto simp: refresh_def register_def)
    moreover have "r \<in> set recs" using register_record_unchanged rb False by simp
    ultimately show ?thesis using assms(2) once st again [OF once] by (intro exI [of _ recs] exI [of _ rd]) auto
  next
    case True
    have f: "fits r s" using assms(4) rb by simp
    have p: "put out r s = (None, t)" "recs' = upsert recs r"
      using assms(3,5) rb True by (auto simp: refresh_def register_def split: prod.splits option.splits)
    obtain listed rd' where l: "listing t = Inr (listed, rd')" "set listed = insert r {x \<in> set recs. rec_ID x \<noteq> rec_ID r}"
      using put_listed [OF assms(1) f p(1)] assms(2) by auto
    have ok: "ok t" using put_ok [OF assms(1) f, of out] p(1) by simp
    have "rec_ID r = rec_ID want" using st by (simp add: StaticEqual_iff)
    then show ?thesis using l set_upsert [OF once, of r] upsert_once [OF once, of r] p(2) st again [OF listed_once [OF ok l(1)]]
      by (intro exI [of _ listed] exI [of _ rd']) auto
  qed
qed

end

lemma register_record_valid: "register_record recs want rd = (r, True) \<Longrightarrow> Validate r = Validate want"
proof -
  assume "register_record recs want rd = (r, True)"
  then have f: "rec_ID r = rec_ID want" "rec_Role r = rec_Role want" "rec_Network r = rec_Network want" "rec_Endpoints r = rec_Endpoints want"
      "rec_Agent r = rec_Agent want" "rec_Tier r = rec_Tier want"
    by (auto simp: register_record_def Let_def split: option.splits if_splits)
  show ?thesis unfolding Validate_def f by (rule refl)
qed

lemma rf_Put_written: "Validate rec = None \<Longrightarrow> rf_List s = Inr x \<Longrightarrow> fst (rf_Put Written rec s) = None"
  by (cases s) (auto simp: rf_Put_def rf_List_def rf_store_def Cache_Save_def Let_def split: sum.splits)

lemma refresh_written:
  assumes "rf_List s = Inr (recs, rd)" "rs_AutoRegister opts" "Validate want = None"
  shows "\<exists>recs' t. refresh rf_Put opts Written (Inr (recs, rd)) (Some want) False s = (True, True, Some recs', t)"
proof -
  obtain r b where rb: "register_record recs want rd = (r, b)" by fastforce
  show ?thesis
  proof (cases b)
    case True
    then have "fst (rf_Put Written r s) = None" using rf_Put_written [OF _ assms(1)] register_record_valid rb assms(3) by metis
    then show ?thesis using rb True assms(2) by (auto simp: refresh_def register_def split: prod.splits option.splits)
  qed (use rb assms(2) in \<open>simp add: refresh_def register_def\<close>)
qed

lemma refresh_failed:
  assumes "rf_List s = Inr (recs, rd)" "rs_AutoRegister opts"
    and "refresh rf_Put opts out (Inr (recs, rd)) (Some want) False s = (read, False, given, t)"
  shows "read \<and> given = Some recs \<and> (\<exists>rd'. rf_List t = Inr (recs, rd'))"
proof -
  obtain r e where p: "rf_Put out r s = (Some e, t)" "read" "given = Some recs"
    using assms(2,3) by (auto simp: refresh_def register_def split: prod.splits option.splits bool.splits)
  then show ?thesis using rf_Put_failed [OF p(1)] assms(1) by (cases "rf_List t") auto
qed

section \<open>Properties\<close>



text \<open>
  A node that has registered is known to the others: an agent of the same network that reads the
  registry afterwards has it among its peers, with the key its gossip is signed with, its endpoints and
  a path for each of its gossip addresses.
\<close>

theorem registered_known:
  assumes "reg_ok s" and "rf_List s = Inr (recs, rd)" and "rs_AutoRegister opts"
    and "refresh rf_Put opts out (Inr (recs, rd)) (Some want) False s = (True, True, Some recs', t)"
    and "rf_List t = Inr (listed, rd')"
    and "dir_run o0 d" and "applies d (caps_GenesisID (ls_Caps local)) want" and "\<not> IsBalancer want"
  shows "\<exists>p. map_of (d_peers (snd (SetRecords nrm hosts local now listed d))) (rec_ID want) = Some p
    \<and> ln_pub (pr_ln p) = ai_PubKey (rec_Agent want) \<and> rec_Endpoints (pr_rec p) = rec_Endpoints want
    \<and> pt_addr ` set (ln_paths (pr_ln p)) = nrm ` set (GossipAddrs (rec_Agent want))"
proof -
  obtain r where r: "r \<in> set listed" "StaticEqual r want" using file_registry.registered [OF assms(1-3) TrueI assms(4)] assms(5) by auto
  have ok: "reg_ok t" using file_registry.refresh_ok [OF assms(1) TrueI, where listed = "Inr (recs, rd)" and local = "Some want" and opts = opts and out = out and registered = False]
    assms(4) by simp
  have a: "applies d (caps_GenesisID (ls_Caps local)) r" "\<not> IsBalancer r" using r(2) assms(7,8) by (auto simp: StaticEqual_iff applies_def)
  have "dir_shape d" using dir_run_ok [OF assms(6)] by (simp add: dir_ok_def)
  then have "taken_over nrm hosts d r (snd (sync_peer nrm hosts now d r))" by (rule sync_peer_taken_over)
  moreover have "rec_Endpoints (tiered d r) = rec_Endpoints r" by (simp add: tiered_def split: option.splits)
  ultimately show ?thesis using SetRecords_peer [OF file_registry.listed_once [OF ok assms(5)] r(1) a] r(2)
    by (auto simp: taken_over_def StaticEqual_iff)
qed

theorem registered_known_witness:
  "\<exists>recs' listed rd' t p. refresh rf_Put \<lparr>rs_Refresh = 0, rs_AutoRegister = True\<rparr> Written (Inr ([], 0)) (Some sample_record) False
       (\<lparr>rf_Path = ''r'', rf_mem = [], rf_Round = 0\<rparr>, \<lambda>_. None) = (True, True, Some recs', t)
     \<and> rf_List t = Inr (listed, rd')
     \<and> map_of (d_peers (snd (SetRecords id id sample_state 1000 listed (NewDirectory sample_options)))) ''n1'' = Some p
     \<and> ln_pub (pr_ln p) = replicate 32 7"
proof -
  let ?s = "(\<lparr>rf_Path = ''r'', rf_mem = [], rf_Round = 0\<rparr>, \<lambda>_. None) :: Registry \<times> files" and ?o = "\<lparr>rs_Refresh = 0, rs_AutoRegister = True\<rparr>"
  have s: "reg_ok ?s" "rf_List ?s = Inr ([], 0)" "rs_AutoRegister ?o"
    by (simp_all add: reg_ok_def keyed_def rf_List_def rf_load_def Cache_Load_def by_id_def sorted_records_def)
  have v: "Validate sample_record = None" by code_simp
  obtain recs' t where r: "refresh rf_Put ?o Written (Inr ([], 0)) (Some sample_record) False ?s = (True, True, Some recs', t)"
    using refresh_written [OF s(2,3) v] by blast
  obtain listed rd' where l: "rf_List t = Inr (listed, rd')" using file_registry.registered [OF s TrueI r] by auto
  have a: "applies (NewDirectory sample_options) (caps_GenesisID (ls_Caps sample_state)) sample_record" "\<not> IsBalancer sample_record" by code_simp+
  have k: "rec_ID sample_record = ''n1''" "ai_PubKey (rec_Agent sample_record) = replicate 32 7" by (simp_all add: sample_record_def)
  show ?thesis using registered_known [OF s r l run_new a, of id id 1000] r l k by auto
qed

end
