(* ===== verification/Passthrough.thy ===== *)
theory Passthrough
  imports Types
begin

text \<open>
  The pass-through of internal/adapters/passthrough/passthrough.go: listeners on algod's port on the
  other interfaces, each accepted connection spliced to algod. The state under the server's mutex is a
  record and each critical section a function of it; the goroutines (Serve, the accept loops, the
  splices and Shutdown) are program counters, and ps_step is any interleaving of their steps. The bytes
  copied are not modelled: how a copy ends is. The i-th accepted connection is Client i, the one to
  algod for it Up i.
\<close>

section \<open>The server\<close>

datatype conn = Client nat | Up nat

record Server =
  sv_lns :: "string list"
  sv_listening :: bool
  sv_accepting :: nat
  sv_wg :: nat
  sv_dialsCut :: bool
  sv_closed :: bool
  sv_cut :: bool
  sv_ncut :: nat
  sv_conns :: "conn set"
  sv_active :: int

definition newServer :: "string list \<Rightarrow> Server" where
  "newServer lns = \<lparr>sv_lns = lns, sv_listening = True, sv_accepting = 0, sv_wg = 0, sv_dialsCut = False, sv_closed = False, sv_cut = False,
     sv_ncut = 0, sv_conns = {}, sv_active = 0\<rparr>"

text \<open>
  Binding every address or none: can_bind says whether the operating system lets an address be bound beside
  those bound before. The failed address comes with the listeners closed on the way out.
\<close>

fun bind_all :: "(string list \<Rightarrow> string \<Rightarrow> bool) \<Rightarrow> string list \<Rightarrow> string list \<Rightarrow> (string \<times> string list) + string list" where
  "bind_all can_bind lns [] = Inr lns"
| "bind_all can_bind lns (a # as) = (if can_bind lns a then bind_all can_bind (lns @ [a]) as else Inl (a, lns))"

definition Listen :: "(string list \<Rightarrow> string \<Rightarrow> bool) \<Rightarrow> string list \<Rightarrow> (string \<times> string list) + Server" where
  "Listen can_bind addrs = (case bind_all can_bind [] addrs of Inl e \<Rightarrow> Inl e | Inr lns \<Rightarrow> Inr (newServer lns))"

definition closeListeners :: "Server \<Rightarrow> Server" where
  "closeListeners s = s\<lparr>sv_listening := False\<rparr>"

text \<open>Serve's first critical section: None when Shutdown ran before.\<close>

definition serve_begin :: "Server \<Rightarrow> Server option" where
  "serve_begin s = (if sv_closed s then None else Some (s\<lparr>sv_accepting := sv_accepting s + length (sv_lns s)\<rparr>))"

text \<open>
  One turn of an accept loop: a connection to splice, a pause before the next turn, or the end of the
  loop. At a timeout, stop is whether the select saw the context done.
\<close>

datatype accepted = AcceptConn | AcceptClosed | AcceptTimeout bool | AcceptError

datatype turn = Spliced Duration | Again Duration | LoopEnds bool

fun accept_turn :: "Duration \<Rightarrow> accepted \<Rightarrow> turn" where
  "accept_turn delay AcceptConn = Spliced (5 * Millisecond)"
| "accept_turn delay AcceptClosed = LoopEnds False"
| "accept_turn delay (AcceptTimeout stop) =
     (if stop then LoopEnds False else Again (if 2 * delay > Second then Second else 2 * delay))"
| "accept_turn delay AcceptError = LoopEnds True"

text \<open>track, under the mutex: the connections it closes on the spot are the second result.\<close>

definition track_add :: "conn \<Rightarrow> conn \<Rightarrow> Server \<Rightarrow> Server \<times> conn set" where
  "track_add c up s =
     (let s1 = s\<lparr>sv_conns := sv_conns s \<union> {c, up}\<rparr> in
      if sv_cut s1 then (s1\<lparr>sv_ncut := sv_ncut s1 + 1\<rparr>, {c, up}) else (s1, {}))"

definition track_remove :: "conn \<Rightarrow> conn \<Rightarrow> Server \<Rightarrow> Server" where
  "track_remove c up s = s\<lparr>sv_conns := sv_conns s - {c, up}\<rparr>"

text \<open>Shutdown: its first critical section, then the cut, which closes all that is tracked.\<close>

definition shutdown_begin :: "Server \<Rightarrow> Server" where
  "shutdown_begin s = closeListeners (s\<lparr>sv_closed := True\<rparr>)"

definition shutdown_cut :: "Server \<Rightarrow> Server \<times> conn set" where
  "shutdown_cut s = (s\<lparr>sv_cut := True, sv_ncut := sv_ncut s + card (sv_conns s) div 2\<rparr>, sv_conns s)"

definition HostPort :: "(string \<Rightarrow> string option) \<Rightarrow> string \<Rightarrow> string" where
  "HostPort url_host baseURL = (case url_host baseURL of None \<Rightarrow> [] | Some h \<Rightarrow> h)"

section \<open>The goroutines\<close>

text \<open>
  A splice: it reads its target and dials, is tracked and counted, copies both ways, is forgotten and
  uncounted, and closes its connections. Failing and Ended False had no connection to algod.
\<close>

datatype splice =
    Started | Dialing | Dialed | Tracked | Copying bool bool | Copied | Untracked | Closing | Failing
  | Ended bool

datatype serve_pc = ServeIdle | ServeAccepting | ServeStopping | ServeReturned

datatype shut_pc = ShutIdle | ShutLoops | ShutDrain | ShutCut | ShutWait | ShutReturned

record System =
  sy_srv :: Server
  sy_loops :: "Duration list"
  sy_splices :: "splice list"
  sy_serve :: serve_pc
  sy_shut :: shut_pc
  sy_dead :: "conn set"

definition ps_init :: "string list \<Rightarrow> System" where
  "ps_init lns = \<lparr>sy_srv = newServer lns, sy_loops = [], sy_splices = [], sy_serve = ServeIdle, sy_shut = ShutIdle, sy_dead = {}\<rparr>"

definition set_splice :: "nat \<Rightarrow> splice \<Rightarrow> System \<Rightarrow> System" where
  "set_splice i p s = s\<lparr>sy_splices := (sy_splices s)[i := p]\<rparr>"

text \<open>One direction of a copy, and whether its connections leave it no choice but to end.\<close>

definition both_open :: "nat \<Rightarrow> System \<Rightarrow> bool" where
  "both_open i s = (Client i \<notin> sy_dead s \<and> Up i \<notin> sy_dead s)"

text \<open>
  The steps of a splice that touch nothing but itself and the connections: each with whether the
  program takes it by itself (True) or waits for the network (False).
\<close>

fun splice_steps :: "bool \<Rightarrow> bool \<Rightarrow> splice \<Rightarrow> (bool \<times> splice) list" where
  "splice_steps ended alive Started = [(True, Dialing), (True, Failing)]"
| "splice_steps ended alive Dialing = [(False, Dialed), (ended, Failing)]"
| "splice_steps ended alive (Copying a b) =
     (if a then [] else [(\<not> alive, Copying True b)]) @ (if b then [] else [(\<not> alive, Copying a True)])
       @ (if a \<and> b then [(True, Copied)] else [])"
| "splice_steps ended alive _ = []"

inductive ps_step :: "bool \<Rightarrow> System \<Rightarrow> System \<Rightarrow> bool" where
  serve_start: "sy_serve s = ServeIdle \<Longrightarrow> serve_begin (sy_srv s) = Some srv
    \<Longrightarrow> ps_step False s (s\<lparr>sy_srv := srv, sy_loops := sy_loops s @ replicate (length (sv_lns srv)) (5 * Millisecond), sy_serve := ServeAccepting\<rparr>)"
| serve_refused: "sy_serve s = ServeIdle \<Longrightarrow> serve_begin (sy_srv s) = None \<Longrightarrow> ps_step False s (s\<lparr>sy_serve := ServeReturned\<rparr>)"
| serve_stop: "sy_serve s = ServeAccepting \<Longrightarrow> ps_step False s (s\<lparr>sy_srv := closeListeners (sy_srv s), sy_serve := ServeStopping\<rparr>)"
| serve_return: "sy_serve s = ServeStopping \<Longrightarrow> sv_accepting (sy_srv s) = 0 \<Longrightarrow> ps_step True s (s\<lparr>sy_serve := ServeReturned\<rparr>)"
| accept_splice: "j < length (sy_loops s) \<Longrightarrow> sv_listening (sy_srv s) \<Longrightarrow> accept_turn (sy_loops s ! j) r = Spliced d
    \<Longrightarrow> ps_step False s (s\<lparr>sy_srv := (sy_srv s)\<lparr>sv_wg := sv_wg (sy_srv s) + 1\<rparr>, sy_loops := (sy_loops s)[j := d],
          sy_splices := sy_splices s @ [Started]\<rparr>)"
| accept_again: "j < length (sy_loops s) \<Longrightarrow> sv_listening (sy_srv s) \<Longrightarrow> accept_turn (sy_loops s ! j) r = Again d
    \<Longrightarrow> ps_step False s (s\<lparr>sy_loops := (sy_loops s)[j := d]\<rparr>)"
| accept_ends: "j < length (sy_loops s) \<Longrightarrow> r = AcceptClosed \<longleftrightarrow> \<not> sv_listening (sy_srv s) \<Longrightarrow> accept_turn (sy_loops s ! j) r = LoopEnds e
    \<Longrightarrow> ps_step (r = AcceptClosed) s (s\<lparr>sy_srv := (sy_srv s)\<lparr>sv_accepting := sv_accepting (sy_srv s) - 1\<rparr>,
          sy_loops := take j (sy_loops s) @ drop (Suc j) (sy_loops s)\<rparr>)"
| splice_own: "i < length (sy_splices s) \<Longrightarrow> (b, p) \<in> set (splice_steps (sv_dialsCut (sy_srv s)) (both_open i s) (sy_splices s ! i))
    \<Longrightarrow> ps_step b s (set_splice i p s)"
| splice_track: "i < length (sy_splices s) \<Longrightarrow> sy_splices s ! i = Dialed \<Longrightarrow> track_add (Client i) (Up i) (sy_srv s) = (srv, dead)
    \<Longrightarrow> ps_step True s (set_splice i Tracked (s\<lparr>sy_srv := srv, sy_dead := sy_dead s \<union> dead\<rparr>))"
| splice_count: "i < length (sy_splices s) \<Longrightarrow> sy_splices s ! i = Tracked
    \<Longrightarrow> ps_step True s (set_splice i (Copying False False) (s\<lparr>sy_srv := (sy_srv s)\<lparr>sv_active := sv_active (sy_srv s) + 1\<rparr>\<rparr>))"
| splice_untrack: "i < length (sy_splices s) \<Longrightarrow> sy_splices s ! i = Copied
    \<Longrightarrow> ps_step True s (set_splice i Untracked (s\<lparr>sy_srv := track_remove (Client i) (Up i) (sy_srv s)\<rparr>))"
| splice_uncount: "i < length (sy_splices s) \<Longrightarrow> sy_splices s ! i = Untracked
    \<Longrightarrow> ps_step True s (set_splice i Closing (s\<lparr>sy_srv := (sy_srv s)\<lparr>sv_active := sv_active (sy_srv s) - 1\<rparr>\<rparr>))"
| splice_close: "i < length (sy_splices s) \<Longrightarrow> sy_splices s ! i = Closing
    \<Longrightarrow> ps_step True s (set_splice i (Ended True) (s\<lparr>sy_srv := (sy_srv s)\<lparr>sv_wg := sv_wg (sy_srv s) - 1\<rparr>, sy_dead := sy_dead s \<union> {Client i, Up i}\<rparr>))"
| splice_fail: "i < length (sy_splices s) \<Longrightarrow> sy_splices s ! i = Failing
    \<Longrightarrow> ps_step True s (set_splice i (Ended False) (s\<lparr>sy_srv := (sy_srv s)\<lparr>sv_wg := sv_wg (sy_srv s) - 1\<rparr>, sy_dead := sy_dead s \<union> {Client i}\<rparr>))"
| shut_start: "sy_shut s = ShutIdle \<Longrightarrow> ps_step False s (s\<lparr>sy_srv := shutdown_begin (sy_srv s), sy_shut := ShutLoops\<rparr>)"
| shut_loops: "sy_shut s = ShutLoops \<Longrightarrow> sv_accepting (sy_srv s) = 0 \<Longrightarrow> ps_step True s (s\<lparr>sy_shut := ShutDrain\<rparr>)"
| shut_drained: "sy_shut s = ShutDrain \<Longrightarrow> sv_wg (sy_srv s) = 0 \<Longrightarrow> ps_step True s (s\<lparr>sy_shut := ShutReturned\<rparr>)"
| shut_cut: "sy_shut s = ShutDrain \<Longrightarrow> shutdown_cut (sy_srv s) = (srv, dead)
    \<Longrightarrow> ps_step False s (s\<lparr>sy_srv := srv, sy_dead := sy_dead s \<union> dead, sy_shut := ShutCut\<rparr>)"
| shut_dials: "sy_shut s = ShutCut \<Longrightarrow> ps_step True s (s\<lparr>sy_srv := (sy_srv s)\<lparr>sv_dialsCut := True\<rparr>, sy_shut := ShutWait\<rparr>)"
| shut_return: "sy_shut s = ShutWait \<Longrightarrow> sv_wg (sy_srv s) = 0 \<Longrightarrow> ps_step True s (s\<lparr>sy_shut := ShutReturned\<rparr>)"

inductive ps_run :: "string list \<Rightarrow> System \<Rightarrow> bool" for lns where
  ps_start: "ps_run lns (ps_init lns)"
| ps_next: "ps_run lns s \<Longrightarrow> ps_step b s t \<Longrightarrow> ps_run lns t"


section \<open>What holds along every run\<close>

text \<open>Which splices run, are in the table, are counted as active, and how many steps each has left at most.\<close>

fun live :: "splice \<Rightarrow> bool" where
  "live (Ended _) = False"
| "live _ = True"

fun tracked :: "splice \<Rightarrow> bool" where
  "tracked Tracked = True"
| "tracked (Copying _ _) = True"
| "tracked Copied = True"
| "tracked _ = False"

fun counted_active :: "splice \<Rightarrow> bool" where
  "counted_active (Copying _ _) = True"
| "counted_active Copied = True"
| "counted_active Untracked = True"
| "counted_active _ = False"

fun splice_rank :: "splice \<Rightarrow> nat" where
  "splice_rank Started = 10"
| "splice_rank Dialing = 9"
| "splice_rank Dialed = 8"
| "splice_rank Tracked = 7"
| "splice_rank (Copying a b) = 4 + (if a then 0 else 1) + (if b then 0 else 1)"
| "splice_rank Copied = 3"
| "splice_rank Untracked = 2"
| "splice_rank Closing = 1"
| "splice_rank Failing = 1"
| "splice_rank (Ended _) = 0"

fun serve_rank :: "serve_pc \<Rightarrow> nat" where
  "serve_rank ServeIdle = 1"
| "serve_rank ServeAccepting = 2"
| "serve_rank ServeStopping = 1"
| "serve_rank ServeReturned = 0"

fun shut_rank :: "shut_pc \<Rightarrow> nat" where
  "shut_rank ShutIdle = 5"
| "shut_rank ShutLoops = 4"
| "shut_rank ShutDrain = 3"
| "shut_rank ShutCut = 2"
| "shut_rank ShutWait = 1"
| "shut_rank ShutReturned = 0"

definition ps_rank :: "System \<Rightarrow> nat" where
  "ps_rank s = sum_list (map splice_rank (sy_splices s)) + serve_rank (sy_serve s) + shut_rank (sy_shut s)"

definition pair_of :: "nat \<Rightarrow> conn set" where
  "pair_of i = {Client i, Up i}"

definition tracked_conns :: "splice list \<Rightarrow> conn set" where
  "tracked_conns ps = (\<Union>i \<in> {i. i < length ps \<and> tracked (ps ! i)}. pair_of i)"

text \<open>The wait groups and the gauge count what they say.\<close>

definition counts_ok :: "System \<Rightarrow> bool" where
  "counts_ok s =
     (sv_wg (sy_srv s) = length (filter live (sy_splices s)) \<and> sv_accepting (sy_srv s) = length (sy_loops s)
      \<and> sv_active (sy_srv s) = int (length (filter counted_active (sy_splices s))))"

text \<open>The table holds the spliced pairs; after the cut all of them are closed; an ended splice left nothing open.\<close>

definition conns_ok :: "System \<Rightarrow> bool" where
  "conns_ok s =
     (sv_conns (sy_srv s) = tracked_conns (sy_splices s) \<and> (sv_cut (sy_srv s) \<longrightarrow> sv_conns (sy_srv s) \<subseteq> sy_dead s)
      \<and> (\<forall>i < length (sy_splices s). \<forall>u. sy_splices s ! i = Ended u \<longrightarrow> Client i \<in> sy_dead s \<and> (u \<longrightarrow> Up i \<in> sy_dead s)))"

text \<open>How far Shutdown has come, and what it may rely on there.\<close>

definition control_ok :: "System \<Rightarrow> bool" where
  "control_ok s =
     ((sv_closed (sy_srv s) \<longleftrightarrow> sy_shut s \<noteq> ShutIdle) \<and> (sv_closed (sy_srv s) \<longrightarrow> \<not> sv_listening (sy_srv s))
      \<and> (sy_shut s \<in> {ShutDrain, ShutCut, ShutWait, ShutReturned} \<longrightarrow> sy_loops s = [])
      \<and> (sy_shut s \<in> {ShutCut, ShutWait} \<longrightarrow> sv_cut (sy_srv s)) \<and> (sy_shut s = ShutWait \<longrightarrow> sv_dialsCut (sy_srv s))
      \<and> (sy_shut s = ShutReturned \<longrightarrow> sv_wg (sy_srv s) = 0))"

text \<open>A server with one listener and nothing spliced yet, to apply the properties to.\<close>

definition sample_ps :: "bool \<Rightarrow> nat \<Rightarrow> nat \<Rightarrow> bool \<Rightarrow> bool \<Rightarrow> bool \<Rightarrow> Duration list \<Rightarrow> splice list \<Rightarrow> serve_pc \<Rightarrow> shut_pc \<Rightarrow> System" where
  "sample_ps l a w dc cl cu ds ps sv sh =
     \<lparr>sy_srv = \<lparr>sv_lns = [''a''], sv_listening = l, sv_accepting = a, sv_wg = w, sv_dialsCut = dc, sv_closed = cl, sv_cut = cu,
        sv_ncut = 0, sv_conns = {}, sv_active = 0\<rparr>, sy_loops = ds, sy_splices = ps, sy_serve = sv, sy_shut = sh, sy_dead = {}\<rparr>"

section \<open>Lemmas\<close>

lemmas server_defs = serve_begin_def closeListeners_def track_add_def track_remove_def shutdown_begin_def shutdown_cut_def set_splice_def Let_def

lemma splice_steps_keep:
  assumes "(b, p) \<in> set (splice_steps ended alive q)"
  shows "live q" "live p" "tracked p = tracked q" "counted_active p = counted_active q" "splice_rank p < splice_rank q"
  using assms by (cases q; auto split: if_splits)+

lemma count_update:
  "i < length xs \<Longrightarrow> length (filter P (xs[i := p])) + of_bool (P (xs ! i)) = length (filter P xs) + of_bool (P p)"
proof (induction xs arbitrary: i)
  case (Cons x xs)
  then show ?case by (cases i) (auto simp: of_bool_def split: if_splits)
qed simp

lemma sum_update:
  "i < length xs \<Longrightarrow> f p < f (xs ! i) \<Longrightarrow> sum_list (map f (xs[i := p])) < (sum_list (map f xs) :: nat)"
  by (induction xs arbitrary: i) (auto split: nat.splits simp: nth_Cons' less_Suc_eq_0_disj)

lemma tracked_update:
  assumes "i < length ps"
  shows "tracked_conns (ps[i := p]) = tracked_conns ps - pair_of i \<union> (if tracked p then pair_of i else {})"
  using assms by (auto simp: tracked_conns_def pair_of_def nth_list_update split: if_splits)

lemma tracked_same:
  assumes "i < length ps" "tracked p = tracked (ps ! i)"
  shows "tracked_conns (ps[i := p]) = tracked_conns ps"
  using assms by (auto simp: tracked_conns_def nth_list_update split: if_splits)

lemma tracked_snoc: "tracked_conns (ps @ [Started]) = tracked_conns ps"
  by (auto simp: tracked_conns_def nth_append less_Suc_eq)

lemma track_add_frame:
  assumes "track_add c up s = (srv, dead)"
  shows "sv_closed srv = sv_closed s" "sv_listening srv = sv_listening s" "sv_cut srv = sv_cut s" "sv_dialsCut srv = sv_dialsCut s"
    "sv_wg srv = sv_wg s" "sv_accepting srv = sv_accepting s" "sv_active srv = sv_active s"
  using assms by (auto simp: track_add_def Let_def split: if_splits)

lemma counts_step:
  assumes "ps_step b s t" "counts_ok s"
  shows "counts_ok t"
  using assms
proof (cases rule: ps_step.cases)
  case (splice_own i p)
  then show ?thesis using assms(2) splice_steps_keep(1,2,4) [OF splice_own(3)] count_update [OF splice_own(2), of live p]
      count_update [OF splice_own(2), of counted_active p] by (simp add: counts_ok_def server_defs)
next
  case (splice_track i srv dead)
  then show ?thesis using assms(2) count_update [OF splice_track(3), of live Tracked] count_update [OF splice_track(3), of counted_active Tracked]
    by (auto simp: counts_ok_def server_defs split: if_splits)
next
  case (splice_count i)
  then show ?thesis using assms(2) count_update [OF splice_count(3), of live "Copying False False"]
      count_update [OF splice_count(3), of counted_active "Copying False False"] by (simp add: counts_ok_def server_defs)
next
  case (splice_untrack i)
  then show ?thesis using assms(2) count_update [OF splice_untrack(3), of live Untracked] count_update [OF splice_untrack(3), of counted_active Untracked]
    by (simp add: counts_ok_def server_defs)
next
  case (splice_uncount i)
  then show ?thesis using assms(2) count_update [OF splice_uncount(3), of live Closing] count_update [OF splice_uncount(3), of counted_active Closing]
    by (simp add: counts_ok_def server_defs)
next
  case (splice_close i)
  then show ?thesis using assms(2) count_update [OF splice_close(3), of live "Ended True"] count_update [OF splice_close(3), of counted_active "Ended True"]
    by (simp add: counts_ok_def server_defs)
next
  case (splice_fail i)
  then show ?thesis using assms(2) count_update [OF splice_fail(3), of live "Ended False"] count_update [OF splice_fail(3), of counted_active "Ended False"]
    by (simp add: counts_ok_def server_defs)
qed (auto simp: counts_ok_def server_defs split: if_splits)

lemma conns_step:
  assumes "ps_step b s t" "conns_ok s"
  shows "conns_ok t"
  using assms
proof (cases rule: ps_step.cases)
  case (accept_splice j r d)
  then show ?thesis using assms(2) by (auto simp: conns_ok_def tracked_snoc nth_append less_Suc_eq)
next
  case (splice_own i p)
  note k = splice_steps_keep [OF splice_own(3)]
  have "p \<noteq> Ended u" for u using k(2) by auto
  then show ?thesis using splice_own assms(2) k tracked_same [OF splice_own(2) k(3)]
    by (auto simp: conns_ok_def server_defs nth_list_update)
next
  case (splice_track i srv dead)
  then show ?thesis using assms(2) tracked_update [OF splice_track(3), of Tracked]
    by (auto simp: conns_ok_def server_defs pair_of_def nth_list_update split: if_splits)
next
  case (splice_count i)
  then show ?thesis using assms(2) tracked_same [OF splice_count(3), of "Copying False False"]
    by (auto simp: conns_ok_def server_defs nth_list_update)
next
  case (splice_untrack i)
  then show ?thesis using assms(2) tracked_update [OF splice_untrack(3), of Untracked]
    by (auto simp: conns_ok_def server_defs pair_of_def nth_list_update split: if_splits)
next
  case (splice_uncount i)
  then show ?thesis using assms(2) tracked_same [OF splice_uncount(3), of Closing]
    by (auto simp: conns_ok_def server_defs nth_list_update)
next
  case (splice_close i)
  then show ?thesis using assms(2) tracked_same [OF splice_close(3), of "Ended True"]
    by (auto simp: conns_ok_def server_defs nth_list_update)
next
  case (splice_fail i)
  then show ?thesis using assms(2) tracked_same [OF splice_fail(3), of "Ended False"]
    by (auto simp: conns_ok_def server_defs nth_list_update)
qed (auto simp: conns_ok_def server_defs split: if_splits)

lemma control_step:
  assumes "ps_step b s t" "control_ok s" "counts_ok s"
  shows "control_ok t"
  using assms
proof (cases rule: ps_step.cases)
  case (splice_track i srv dead)
  then show ?thesis using assms(2) track_add_frame [OF splice_track(5)] by (simp add: control_ok_def set_splice_def)
qed (auto simp: control_ok_def counts_ok_def server_defs split: if_splits)

lemma ps_run_ok:
  assumes "ps_run lns s"
  shows "counts_ok s \<and> conns_ok s \<and> control_ok s"
  using assms
proof (induction rule: ps_run.induct)
  case ps_start
  show ?case by (simp add: ps_init_def newServer_def counts_ok_def conns_ok_def control_ok_def tracked_conns_def)
next
  case (ps_next s b t)
  then show ?case using counts_step conns_step control_step by blast
qed

text \<open>After the cut the program can always move by itself, and every step brings Shutdown nearer to its end.\<close>

lemma splice_moves:
  assumes "i < length (sy_splices s)" "live (sy_splices s ! i)" "sv_dialsCut (sy_srv s)" "tracked (sy_splices s ! i) \<longrightarrow> \<not> both_open i s"
  shows "\<exists>t. ps_step True s t"
proof -
  have own: "\<exists>t. ps_step True s t" if "(True, p) \<in> set (splice_steps (sv_dialsCut (sy_srv s)) (both_open i s) (sy_splices s ! i))" for p
    using splice_own [OF assms(1) that] by blast
  show ?thesis
  proof (cases "sy_splices s ! i")
    case Dialed
    then show ?thesis using splice_track [OF assms(1)] by (metis prod.collapse)
  next
    case (Copying a b)
    then show ?thesis using assms(4) own [of "if a \<and> b then Copied else if a then Copying a True else Copying True b"] by (auto split: if_splits)
  next
    case Started
    then show ?thesis using own [of Dialing] by simp
  next
    case Dialing
    then show ?thesis using own [of Failing] assms(3) by simp
  next
    case Tracked
    then show ?thesis using splice_count [OF assms(1)] by blast
  next
    case Copied
    then show ?thesis using splice_untrack [OF assms(1)] by blast
  next
    case Untracked
    then show ?thesis using splice_uncount [OF assms(1)] by blast
  next
    case Closing
    then show ?thesis using splice_close [OF assms(1)] by blast
  next
    case Failing
    then show ?thesis using splice_fail [OF assms(1)] by blast
  next
    case (Ended u)
    then show ?thesis using assms(2) by simp
  qed
qed

lemma rank_splice:
  assumes "i < length (sy_splices s)" "splice_rank p < splice_rank (sy_splices s ! i)" "sy_splices s' = sy_splices s" "sy_serve s' = sy_serve s"
    "sy_shut s' = sy_shut s"
  shows "ps_rank (set_splice i p s') < ps_rank s"
  using sum_update [OF assms(1,2)] assms(3-5) by (simp add: ps_rank_def set_splice_def)

lemma rank_step:
  assumes "ps_step b s t" "control_ok s" "sy_shut s \<in> {ShutCut, ShutWait}"
  shows "ps_rank t < ps_rank s"
proof -
  have c: "sy_loops s = []" "sv_closed (sy_srv s)" using assms(2,3) by (auto simp: control_ok_def)
  show ?thesis
    using assms(1)
  proof (cases rule: ps_step.cases)
    case (splice_own i p)
    then show ?thesis using rank_splice [OF splice_own(2) splice_steps_keep(5) [OF splice_own(3)]] by simp
  next
    case (splice_track i srv dead)
    then show ?thesis by (simp add: rank_splice)
  next
    case (splice_count i)
    then show ?thesis by (simp add: rank_splice)
  next
    case (splice_untrack i)
    then show ?thesis by (simp add: rank_splice)
  next
    case (splice_uncount i)
    then show ?thesis by (simp add: rank_splice)
  next
    case (splice_close i)
    then show ?thesis by (simp add: rank_splice)
  next
    case (splice_fail i)
    then show ?thesis by (simp add: rank_splice)
  qed (use c assms(3) in \<open>simp_all add: ps_rank_def serve_begin_def\<close>)
qed

lemma shut_step:
  assumes "ps_step b s t" "control_ok s" "sy_shut s \<in> {ShutCut, ShutWait, ShutReturned}"
  shows "sy_shut t \<in> {ShutCut, ShutWait, ShutReturned}" "length (sy_splices t) = length (sy_splices s)"
proof -
  have c: "sy_loops s = []" "sv_closed (sy_srv s)" using assms(2,3) by (auto simp: control_ok_def)
  show "sy_shut t \<in> {ShutCut, ShutWait, ShutReturned}" "length (sy_splices t) = length (sy_splices s)"
    using assms(1) by (cases rule: ps_step.cases; use c assms(3) in \<open>auto simp: set_splice_def\<close>)+
qed

lemma cut_moves:
  assumes "counts_ok s" "conns_ok s" "control_ok s" "sy_shut s \<in> {ShutCut, ShutWait}"
  shows "\<exists>t. ps_step True s t"
proof (cases "sy_shut s = ShutCut \<or> sv_wg (sy_srv s) = 0")
  case True
  then show ?thesis using assms(4) shut_dials [of s] shut_return [of s] by blast
next
  case False
  then have w: "sy_shut s = ShutWait" "sv_cut (sy_srv s)" "sv_dialsCut (sy_srv s)" using assms(3,4) by (auto simp: control_ok_def)
  obtain i where i: "i < length (sy_splices s)" "live (sy_splices s ! i)"
    using False assms(1) by (auto simp: counts_ok_def filter_empty_conv in_set_conv_nth)
  have "\<not> both_open i s" if "tracked (sy_splices s ! i)"
    using that i(1) assms(2) w(2) by (auto simp: conns_ok_def tracked_conns_def pair_of_def both_open_def)
  then show ?thesis using splice_moves [OF i w(3)] by blast
qed

lemma cut_returns:
  assumes "ps_run lns s" "sy_shut s \<in> {ShutCut, ShutWait}"
  shows "\<exists>t. (ps_step True)\<^sup>*\<^sup>* s t \<and> ps_run lns t \<and> sy_shut t = ShutReturned \<and> length (sy_splices t) = length (sy_splices s)"
  using assms
proof (induction s rule: measure_induct_rule [of ps_rank])
  case (less s)
  note ok = ps_run_ok [OF less.prems(1)]
  obtain t where t: "ps_step True s t" using cut_moves ok less.prems(2) by blast
  have r: "ps_run lns t" by (rule ps_next [OF less.prems(1) t])
  have l: "length (sy_splices t) = length (sy_splices s)" "sy_shut t \<in> {ShutCut, ShutWait, ShutReturned}"
    using shut_step [OF t] ok less.prems(2) by auto
  show ?case
  proof (cases "sy_shut t = ShutReturned")
    case True
    then show ?thesis using r l(1) t by blast
  next
    case False
    then obtain u where "(ps_step True)\<^sup>*\<^sup>* t u" "ps_run lns u" "sy_shut u = ShutReturned" "length (sy_splices u) = length (sy_splices t)"
      using less.IH [OF rank_step [OF t] r] ok less.prems(2) l(2) by blast
    then show ?thesis using t l(1) by (metis converse_rtranclp_into_rtranclp)
  qed
qed

text \<open>A run to apply the properties to: one connection, still dialing when the drain window ends.\<close>

lemma sample_run: "\<exists>s. ps_run [''a''] s \<and> sy_shut s = ShutWait \<and> sy_splices s = [Dialed]"
proof -
  let ?d = "[5 * Millisecond]"
  note e = sample_ps_def server_defs
  have "ps_run [''a''] (sample_ps True 0 0 False False False [] [] ServeIdle ShutIdle)"
    using ps_start [of "[''a'']"] by (simp add: ps_init_def newServer_def sample_ps_def)
  then have "ps_run [''a''] (sample_ps True 1 0 False False False ?d [] ServeAccepting ShutIdle)"
    by (rule ps_next) (use serve_start [of "sample_ps True 0 0 False False False [] [] ServeIdle ShutIdle"] in \<open>simp add: e\<close>)
  then have "ps_run [''a''] (sample_ps True 1 1 False False False ?d [Started] ServeAccepting ShutIdle)"
    by (rule ps_next) (use accept_splice [of 0 "sample_ps True 1 0 False False False ?d [] ServeAccepting ShutIdle" AcceptConn] in \<open>simp add: e\<close>)
  then have "ps_run [''a''] (sample_ps True 1 1 False False False ?d [Dialing] ServeAccepting ShutIdle)"
    by (rule ps_next) (use splice_own [of 0 "sample_ps True 1 1 False False False ?d [Started] ServeAccepting ShutIdle" True Dialing] in \<open>simp add: e\<close>)
  then have "ps_run [''a''] (sample_ps False 1 1 False True False ?d [Dialing] ServeAccepting ShutLoops)"
    by (rule ps_next) (use shut_start [of "sample_ps True 1 1 False False False ?d [Dialing] ServeAccepting ShutIdle"] in \<open>simp add: e\<close>)
  then have "ps_run [''a''] (sample_ps False 0 1 False True False [] [Dialing] ServeAccepting ShutLoops)"
    by (rule ps_next) (use accept_ends [of 0 "sample_ps False 1 1 False True False ?d [Dialing] ServeAccepting ShutLoops" AcceptClosed False] in \<open>simp add: e\<close>)
  then have "ps_run [''a''] (sample_ps False 0 1 False True False [] [Dialing] ServeAccepting ShutDrain)"
    by (rule ps_next) (use shut_loops [of "sample_ps False 0 1 False True False [] [Dialing] ServeAccepting ShutLoops"] in \<open>simp add: e\<close>)
  then have "ps_run [''a''] (sample_ps False 0 1 False True True [] [Dialing] ServeAccepting ShutCut)"
    by (rule ps_next) (use shut_cut [of "sample_ps False 0 1 False True False [] [Dialing] ServeAccepting ShutDrain"] in \<open>simp add: e\<close>)
  then have "ps_run [''a''] (sample_ps False 0 1 True True True [] [Dialing] ServeAccepting ShutWait)"
    by (rule ps_next) (use shut_dials [of "sample_ps False 0 1 False True True [] [Dialing] ServeAccepting ShutCut"] in \<open>simp add: e\<close>)
  then have "ps_run [''a''] (sample_ps False 0 1 True True True [] [Dialed] ServeAccepting ShutWait)"
    by (rule ps_next) (use splice_own [of 0 "sample_ps False 0 1 True True True [] [Dialing] ServeAccepting ShutWait" False Dialed] in \<open>simp add: e\<close>)
  then show ?thesis by (rule exI [where x = "sample_ps False 0 1 True True True [] [Dialed] ServeAccepting ShutWait", OF conjI]) (simp add: e)
qed

section \<open>Properties\<close>

text \<open>
  C12. Nothing of the pass-through outlives Shutdown: in whatever order accept loops, splices, Serve and
  Shutdown have run, when Shutdown has returned no loop accepts, no splice runs and none can start, every
  connection accepted and every connection made to algod is closed, the table is empty and the gauge
  stands at zero.
\<close>

theorem passthrough_closed:
  assumes "ps_run lns s" and "sy_shut s = ShutReturned"
  shows "(\<forall>i < length (sy_splices s). \<exists>u. sy_splices s ! i = Ended u \<and> Client i \<in> sy_dead s \<and> (u \<longrightarrow> Up i \<in> sy_dead s))
    \<and> sv_conns (sy_srv s) = {} \<and> sv_active (sy_srv s) = 0 \<and> sy_loops s = [] \<and> \<not> sv_listening (sy_srv s)
    \<and> (\<forall>b t. ps_step b s t \<longrightarrow> length (sy_splices t) = length (sy_splices s))"
proof -
  note ok = ps_run_ok [OF assms(1)]
  have "\<not> live p" if "p \<in> set (sy_splices s)" for p
    using ok assms(2) that by (auto simp: counts_ok_def control_ok_def filter_empty_conv)
  then have e: "\<exists>u. p = Ended u" if "p \<in> set (sy_splices s)" for p using that live.elims(3) by blast
  then have "\<forall>i < length (sy_splices s). \<exists>u. sy_splices s ! i = Ended u \<and> Client i \<in> sy_dead s \<and> (u \<longrightarrow> Up i \<in> sy_dead s)"
    using ok by (metis conns_ok_def nth_mem)
  moreover have "\<not> tracked p \<and> \<not> counted_active p" if "p \<in> set (sy_splices s)" for p using e [OF that] by auto
  then have "sv_conns (sy_srv s) = {} \<and> sv_active (sy_srv s) = 0"
    using ok by (auto simp: conns_ok_def counts_ok_def tracked_conns_def filter_empty_conv)
  moreover have "sy_loops s = [] \<and> \<not> sv_listening (sy_srv s)" using ok assms(2) by (simp add: control_ok_def)
  moreover have "\<forall>b t. ps_step b s t \<longrightarrow> length (sy_splices t) = length (sy_splices s)" using shut_step(2) ok assms(2) by blast
  ultimately show ?thesis by blast
qed

theorem passthrough_closed_witness:
  "\<exists>s u. ps_run [''a''] s \<and> sy_shut s = ShutReturned \<and> sy_splices s = [Ended u] \<and> Client 0 \<in> sy_dead s \<and> sv_conns (sy_srv s) = {}"
proof -
  obtain s where s: "ps_run [''a''] s" "sy_shut s = ShutWait" "sy_splices s = [Dialed]" using sample_run by blast
  obtain t where t: "ps_run [''a''] t" "sy_shut t = ShutReturned" "length (sy_splices t) = 1" using cut_returns [OF s(1)] s by auto
  obtain p where p: "sy_splices t = [p]" using t(3) by (auto simp: length_Suc_conv)
  show ?thesis using passthrough_closed [OF t(1,2)] t p by (intro exI [of _ t]) auto
qed

text \<open>
  C36. Shutdown ends once its drain window has: after the cut every step, whoever takes it, brings the
  system nearer to a fixed end, and without waiting for the network or for the peers the program alone
  reaches the state where Shutdown has returned.
\<close>

theorem shutdown_returns:
  assumes "ps_run lns s" and "sy_shut s \<in> {ShutCut, ShutWait}"
  shows "(\<exists>t. (ps_step True)\<^sup>*\<^sup>* s t \<and> sy_shut t = ShutReturned) \<and> (\<forall>b t. ps_step b s t \<longrightarrow> ps_rank t < ps_rank s)"
  using cut_returns [OF assms] rank_step ps_run_ok [OF assms(1)] assms(2) by blast

theorem shutdown_returns_witness:
  "\<exists>s t. ps_run [''a''] s \<and> sy_splices s = [Dialed] \<and> (ps_step True)\<^sup>*\<^sup>* s t \<and> sy_shut t = ShutReturned"
proof -
  obtain s where s: "ps_run [''a''] s" "sy_shut s = ShutWait" "sy_splices s = [Dialed]" using sample_run by blast
  then show ?thesis using shutdown_returns [OF s(1)] by blast
qed

end
