(* ===== verification/Agent.thy ===== *)
theory Agent
  imports RouterRun ConfigProps RegistrySync Passthrough
begin

text \<open>
  The composition of internal/agent/agent.go and wire.go: the components are built from one
  configuration. New is modelled with the options each component gets and the state it starts in; a nil
  dereference is None. Goroutines, sockets and logs are not. The derivation of keys (HKDF and Ed25519)
  is an argument.
\<close>

section \<open>The limiter's options\<close>

text \<open>A number of a finished configuration; Finish refuses what is not finite.\<close>

fun num_of :: "yfloat \<Rightarrow> f64" where
  "num_of (Num v) = v"
| "num_of _ = 0"

definition plan_of :: "RatePlan \<Rightarrow> Plan" where
  "plan_of p =
     (let s = rp_Simulate p in
      \<lparr>plan_Name = [], plan_Minute = \<lparr>w_Capacity = num_of (rp_PerMinute p), w_Period = 60 * Second\<rparr>,
       plan_Day = \<lparr>w_Capacity = num_of (rp_PerDay p), w_Period = 86400 * Second\<rparr>,
       plan_Simulate = \<lparr>sc_MaxGroups = cc_MaxGroups s, sc_MaxRounds = cc_MaxRounds s, sc_MaxExtraOpcodeBudget = cc_MaxExtraOpcodeBudget s,
         sc_DenyUnnamedResources = (cc_UnnamedResources s = Some False), sc_DenyExecTrace = (cc_ExecTrace s = Some False)\<rparr>\<rparr>)"

text \<open>
  limiterOptions: Some None without rate limits. The prefixes of the trusted proxies go to the function
  that finds a client's address, an argument of the limiter.
\<close>

definition limiterOptions :: "RateLimitConfig \<Rightarrow> LimiterOptions option option" where
  "limiterOptions r =
     (if \<not> rl_Enabled r then Some None
      else case (rl_SimulatePerSecond r, rl_AnonymousPlan r) of
        (Some v, Some a) \<Rightarrow>
          Some (Some \<lparr>lo_Plans = map (\<lambda>(name, p). (name, plan_of p)) (rl_Plans r),
            lo_Tokens = map (\<lambda>t. \<lparr>lt_Name = rt_Name t, lt_Token = rt_Token t, lt_Plan = rt_Plan t\<rparr>) (rl_Tokens r),
            lo_AnonymousPlan = a, lo_Weights = Some (map_of (map (\<lambda>(k, v). (k, num_of v)) (rl_Weights r))),
            lo_SimulatePerSecond = num_of v, lo_Effort = Some (EffortRatesOf r), lo_IPv6Prefix = rl_IPv6Prefix r,
            lo_MaxKeys = rl_MaxKeys r, lo_StateFile = rl_StateFile r, lo_Tick = 0, lo_SaveEvery = 0\<rparr>)
      | _ \<Rightarrow> None)"

section \<open>New\<close>

record Agent =
  ag_Config :: Config
  ag_Monitor :: LocalState
  ag_Directory :: Directory
  ag_Router :: Router
  ag_Registry :: RegistrySync

definition monitor_options :: "Config \<Rightarrow> MonitorOptions" where
  "monitor_options c =
     \<lparr>mo_NodeID = lc_ID (cf_Local c), mo_WaitTimeout = 0, mo_StatusTimeout = 0, mo_MaxBackoff = 0,
      mo_VerifyInterval = lc_VerifyInterval (cf_Local c), mo_ConfigRecheck = 0, mo_Overrides = lc_Overrides (cf_Local c),
      mo_Absent = Balancer c, mo_Network = lc_Network (cf_Local c), mo_UpstreamTimeout = rt_UpstreamTimeout (cf_Routing c)\<rparr>"

definition directory_options :: "Config \<Rightarrow> DirectoryOptions" where
  "directory_options c =
     (let lc = cf_Local c; ms = cf_Mesh c; rt = cf_Routing c in
      \<lparr>dop_LocalID = lc_ID lc, dop_LocalTier = lc_Tier lc, dop_NoLocal = Balancer c, dop_SuspectAfter = ms_SuspectAfter ms,
       dop_DownAfter = ms_DownAfter ms, dop_ProbeInterval = ms_ProbeInterval ms, dop_KeepAlive = ms_KeepAlive ms,
       dop_PathProbeInterval = ms_PathProbeInterval ms, dop_PathTimeout = ms_PathTimeout ms, dop_SyncTolerance = rt_SyncTolerance rt,
       dop_LagGrace = rt_LagGrace rt, dop_ReturnHysteresis = rt_ReturnHysteresisRounds rt, dop_PeerOverrides = ms_PeerOverrides ms,
       dop_Externals = map (\<lambda>e. \<lparr>ex_Name = xt_Name e, ex_URL = xt_URL e, ex_Token = xt_Token e, ex_Tier = xt_Tier e,
         ex_Capabilities = xt_Capabilities e, ex_HealthCheck = xt_HealthCheck e\<rparr>) (cf_External c),
       dop_Exclude = rt_Exclude rt\<rparr>)"

definition router_options :: "string \<Rightarrow> LimiterOptions option \<Rightarrow> Config \<Rightarrow> RouterOptions" where
  "router_options version lo c =
     (let rt = cf_Routing c in
      \<lparr>ro_Mode = (case ParseMode (cf_Mode c) of Inl _ \<Rightarrow> [] | Inr m \<Rightarrow> m), ro_Balancer = Balancer c,
       ro_ClientToken = cf_ClientToken c, ro_AdminToken = cf_AdminToken c, ro_SyncTolerance = rt_SyncTolerance rt,
       ro_UpstreamTimeout = rt_UpstreamTimeout rt, ro_RequestTimeout = rt_RequestTimeout rt, ro_StatusTimeout = 0,
       ro_WaitTimeout = lc_WaitTimeout (cf_Local c), ro_PendingTTL = rt_PendingTTL rt,
       ro_RetryBudget = (case rt_RetryBudget rt of None \<Rightarrow> - 1 | Some b \<Rightarrow> b), ro_MultiBroadcast = rt_MultiBroadcast rt,
       ro_Weights = zero_weights, ro_Version = version, ro_RateLimit = lo\<rparr>)"

definition agent_New ::
  "cfg_env \<Rightarrow> (string \<Rightarrow> 8 word list) \<Rightarrow> string \<Rightarrow> Time \<Rightarrow> Config \<Rightarrow> (ConfigError + Agent) option" where
  "agent_New env sha version now c0 =
     (case Finish env c0 of
        Inl e \<Rightarrow> Some (Inl e)
      | Inr c \<Rightarrow>
        (case (limiterOptions (cf_RateLimit c), rg_AutoRegister (cf_Registry c)) of
           (Some lo, Some auto) \<Rightarrow>
             let stats = NewStatsBook \<lparr>bo_Threshold = rt_BreakerThreshold (cf_Routing c), bo_OpenFor = rt_BreakerOpenFor (cf_Routing c),
                   bo_Window = 50, bo_Alpha = 1 / 5\<rparr>
             in Some (Inr \<lparr>ag_Config = c, ag_Monitor = NewMonitor (monitor_options c), ag_Directory = NewDirectory (directory_options c),
                  ag_Router = NewRouter sha (router_options version lo c) stats now,
                  ag_Registry = NewRegistrySync \<lparr>rs_Refresh = rg_Refresh (cf_Registry c), rs_AutoRegister = auto\<rparr>\<rparr>)
         | _ \<Rightarrow> None))"

text \<open>localRecord: what the agent wants in the registry, when its node is known.\<close>

definition localRecord :: "Config \<Rightarrow> 8 word list \<Rightarrow> LocalState \<Rightarrow> NodeRecord option" where
  "localRecord c pub st =
     (let lc = cf_Local c; agent = \<lparr>ai_Addrs = ms_Advertise (cf_Mesh c), ai_Addr = [], ai_PubKey = pub\<rparr> in
      if Balancer c then
        Some \<lparr>rec_ID = lc_ID lc, rec_Role = RoleBalancer, rec_Network = lc_Network lc, rec_Endpoints = [], rec_Token = [], rec_Agent = agent,
          rec_Tier = 0, rec_Tags = lc_Tags lc, rec_Declared = None, rec_Version = 0, rec_UpdatedAt = 0\<rparr>
      else if \<not> ls_ConfigOK st \<or> caps_GenesisID (ls_Caps st) = [] then None
      else
        Some \<lparr>rec_ID = lc_ID lc, rec_Role = [], rec_Network = caps_GenesisID (ls_Caps st), rec_Endpoints = lc_AdvertiseEndpoints lc,
          rec_Token = nc_Token (ls_Config st), rec_Agent = agent, rec_Tier = lc_Tier lc, rec_Tags = lc_Tags lc,
          rec_Declared = lc_Overrides lc, rec_Version = 0, rec_UpdatedAt = 0\<rparr>)"

section \<open>Listening\<close>

definition listenAll :: "(string list \<Rightarrow> string \<Rightarrow> bool) \<Rightarrow> Addrs \<Rightarrow> (string \<times> string list) + string list" where
  "listenAll can_bind addrs = bind_all can_bind [] addrs"

definition filterPassthrough :: "Addrs \<Rightarrow> string \<Rightarrow> Addrs \<times> Addrs" where
  "filterPassthrough pt algodNet = (filter (\<lambda>a. \<not> AlgodCovers algodNet a) pt, filter (AlgodCovers algodNet) pt)"

text \<open>Agent.passthrough: no server when nothing is configured or nothing is left to bind.\<close>

datatype pass_error = NodeUnread string | PassTaken string

definition agent_passthrough ::
  "(string list \<Rightarrow> string \<Rightarrow> bool) \<Rightarrow> string + NodeConfig \<Rightarrow> Addrs \<Rightarrow> pass_error + (Server option \<times> Addrs)" where
  "agent_passthrough can_bind nc pt =
     (if pt = [] then Inr (None, [])
      else case nc of
        Inl e \<Rightarrow> Inl (NodeUnread e)
      | Inr n \<Rightarrow>
        (case filterPassthrough pt (nc_NetAddr n) of (keep, skipped) \<Rightarrow>
           if keep = [] then Inr (None, skipped)
           else case Listen can_bind keep of Inl (a, _) \<Rightarrow> Inl (PassTaken a) | Inr s \<Rightarrow> Inr (Some s, skipped)))"

text \<open>FromConfig: the registry a configuration names. A static record without a key gets the one its agent derives.\<close>

datatype backend =
    OnChain u64 "8 word list option" string "(string \<times> string) option" "string option"
  | OnFile string
  | StaticRecords "NodeRecord list"

fun with_keys :: "(string \<Rightarrow> 8 word list option) \<Rightarrow> NodeRecord list \<Rightarrow> NodeRecord list option" where
  "with_keys key [] = Some []"
| "with_keys key (r # rs) =
     (case (if ai_PubKey (rec_Agent r) = [] then map_option (\<lambda>k. r\<lparr>rec_Agent := (rec_Agent r)\<lparr>ai_PubKey := k\<rparr>\<rparr>) (key (rec_ID r)) else Some r) of
        None \<Rightarrow> None
      | Some r' \<Rightarrow> map_option ((#) r') (with_keys key rs))"

definition backend_of :: "(string \<Rightarrow> 8 word list option) \<Rightarrow> (string \<Rightarrow> 8 word list option) \<Rightarrow> Config \<Rightarrow> backend option" where
  "backend_of to_key key c =
     (let rg = cf_Registry c in
      if rg_Type rg = ''algorand'' then
        (case SyncSeed to_key c of
           Inl _ \<Rightarrow> None
         | Inr seed \<Rightarrow> Some (OnChain (rg_AppID rg) seed (rg_SyncAddress rg)
             (if rg_AlgodURL rg = [] then None else Some (rg_AlgodURL rg, rg_AlgodToken rg))
             (if rg_Cache rg \<noteq> [] then Some (rg_Cache rg) else None)))
      else if rg_Type rg = ''file'' then Some (OnFile (rg_File rg))
      else if rg_Type rg = ''memory'' then Some (OnFile [])
      else map_option StaticRecords (with_keys key (rg_Static rg)))"

section \<open>Lemmas\<close>

lemma fold_update_dom: "fst ` set (fold (\<lambda>(k, p). AList.update k (f k p)) kps m) = fst ` set m \<union> fst ` set kps"
proof (induction kps arbitrary: m)
  case (Cons kp kps)
  then show ?case by (cases kp) (auto simp: dom_update)
qed simp

lemma fold_update_values: "snd ` set (fold (\<lambda>t. AList.update (g t) t) ts m) \<subseteq> snd ` set m \<union> set ts"
proof (induction ts arbitrary: m)
  case (Cons t ts)
  have "snd ` set (AList.update (g t) t m) \<subseteq> insert t (snd ` set m)" by (induction m) auto
  moreover have "snd ` set (fold (\<lambda>t. AList.update (g t) t) ts (AList.update (g t) t m)) \<subseteq> snd ` set (AList.update (g t) t m) \<union> set ts"
    by (rule Cons)
  ultimately show ?case unfolding fold_Cons comp_def list.set by blast
qed simp

lemma limiter_configured:
  assumes "rl_Enabled r \<Longrightarrow> limits_ok admin r"
  obtains lo where "limiterOptions r = Some lo" "plans_configured (map_option (NewLimiter sha) lo)"
proof (cases "rl_Enabled r")
  case True
  note ok = assms [OF True, unfolded limits_ok_def]
  obtain a v where av: "rl_AnonymousPlan r = Some a" "rl_SimulatePerSecond r = Some v" using ok by auto
  then obtain lo where lo: "limiterOptions r = Some (Some lo)" "lo_AnonymousPlan lo = a" "fst ` set (lo_Plans lo) = fst ` set (rl_Plans r)"
      "lt_Plan ` set (lo_Tokens lo) = rt_Plan ` set (rl_Tokens r)"
    using True by (auto simp: limiterOptions_def image_image case_prod_beta)
  have d: "lo_AnonymousPlan (defaults lo) = lo_AnonymousPlan lo" "lo_Plans (defaults lo) = lo_Plans lo" "lo_Tokens (defaults lo) = lo_Tokens lo"
    by (simp_all add: defaults_def Let_def)
  let ?l = "NewLimiter sha lo"
  have tok: "\<forall>t \<in> set (rl_Tokens r). rt_Plan t \<in> fst ` set (rl_Plans r)" using ok by blast
  have p: "map_of (lim_plans ?l) k \<noteq> None \<longleftrightarrow> k \<in> fst ` set (rl_Plans r)" for k
    using fold_update_dom [of "\<lambda>k p. p\<lparr>plan_Name := k\<rparr>" "lo_Plans lo" "[]"] lo(3) by (simp add: NewLimiter_def Let_def d map_of_eq_None_iff)
  have "lt_Plan t \<in> fst ` set (rl_Plans r)" if "(h, t) \<in> set (lim_tokens ?l)" for h t
  proof -
    have "t \<in> set (lo_Tokens lo)"
      using fold_update_values [of "\<lambda>t. sha (lt_Token t)" "lo_Tokens lo" "[]"] that by (force simp: NewLimiter_def Let_def d)
    then have "lt_Plan t \<in> rt_Plan ` set (rl_Tokens r)" using lo(4) by blast
    then obtain u where "u \<in> set (rl_Tokens r)" "lt_Plan t = rt_Plan u" by (elim imageE)
    then show ?thesis using tok by simp
  qed
  then have "plans_configured (Some ?l)"
    using p ok av(1) lo(2) by (auto simp: plans_configured_def list_all_iff NewLimiter_def Let_def d)
  then show ?thesis using that [of "Some lo"] lo(1) by simp
next
  case False
  then show ?thesis using that [of None] by (simp add: limiterOptions_def plans_configured_def)
qed

text \<open>An agent that was built: no pointer it reads is nil, and its router is in order.\<close>

lemma agent_built:
  assumes "Finish env c = Inr d"
  shows "\<exists>ag. agent_New env sha version now c = Some (Inr ag) \<and> ag_Config ag = d \<and> book_ok (r_stats (ag_Router ag))
    \<and> plans_configured (r_limiter (ag_Router ag))"
proof -
  note ok = Finish_ok [OF assms]
  have "rl_Enabled (cf_RateLimit d) \<Longrightarrow> limits_ok (cf_AdminToken d) (cf_RateLimit d)" using ok by (simp add: config_ok_def)
  then obtain lo where lo: "limiterOptions (cf_RateLimit d) = Some lo" "plans_configured (map_option (NewLimiter sha) lo)"
    by (rule limiter_configured)
  have "finish_register d = Inr d" using Finish_result(1) [OF assms] by (simp add: early_steps_def)
  then obtain x v where "d = d\<lparr>cf_Registry := (cf_Registry d)\<lparr>rg_Refresh := x, rg_AutoRegister := Some v\<rparr>\<rparr>"
    using finish_register_result by blast
  from arg_cong [OF this, of "\<lambda>c. rg_AutoRegister (cf_Registry c)"] have v: "rg_AutoRegister (cf_Registry d) = Some v" by simp
  have b: "book_ok (NewStatsBook \<lparr>bo_Threshold = n, bo_OpenFor = f, bo_Window = 50, bo_Alpha = 1 / 5\<rparr>)" for n f
    by (simp add: book_ok_def NewStatsBook_def DefaultBreaker_def)
  have r: "r_stats (NewRouter sha ro st now) = st" "r_limiter (NewRouter sha ro st now) = map_option (NewLimiter sha) (ro_RateLimit ro)" for ro st
    by (simp_all add: NewRouter_def router_defaults_def Let_def map_option_case split: option.split)
  have "ro_RateLimit (router_options version lo d) = lo" by (simp add: router_options_def Let_def)
  then show ?thesis using assms lo v b r by (simp add: agent_New_def Let_def)
qed

section \<open>Properties\<close>



text \<open>
  C37. What an accepted configuration has the agent register is a valid record, with two exceptions that
  Finish lets pass: an id of more than 48 bytes, such as a long host name taken for an unset local.id,
  and a negative tier. Every registry refuses those records, so such an agent never gets registered.
\<close>

theorem local_record_valid:
  assumes "Finish env c = Inr d" and "auto_register d" and "localRecord d pub st = Some r"
  shows "Validate r =
    (if length (rec_ID r) > 48 then Some (IdTooLong (rec_ID r))
     else if rec_Tier r < 0 then Some (NegativeTier (rec_ID r)) else None)"
proof -
  have ok: "lc_ID (cf_Local d) \<noteq> []" "ms_Advertise (cf_Mesh d) \<noteq> []" "Balancer d \<Longrightarrow> lc_Network (cf_Local d) \<noteq> []"
      "\<not> Balancer d \<Longrightarrow> lc_AdvertiseEndpoints (cf_Local d) \<noteq> []"
    using Finish_ok [OF assms(1)] assms(2) unfolding config_ok_def Balancer_def by auto
  show ?thesis
  proof (cases "Balancer d")
    case True
    then have r: "rec_ID r = lc_ID (cf_Local d)" "rec_Role r = RoleBalancer" "rec_Network r = lc_Network (cf_Local d)"
        "GossipAddrs (rec_Agent r) = ms_Advertise (cf_Mesh d)" "rec_Tier r = 0"
      using assms(3) by (auto simp: localRecord_def Let_def GossipAddrs_def)
    show ?thesis unfolding Validate_def r using ok True by (simp add: ParseRole_def)
  next
    case False
    then have r: "rec_ID r = lc_ID (cf_Local d)" "rec_Role r = []" "rec_Endpoints r = lc_AdvertiseEndpoints (cf_Local d)"
        "rec_Network r = caps_GenesisID (ls_Caps st)" "caps_GenesisID (ls_Caps st) \<noteq> []"
      using assms(3) by (auto simp: localRecord_def Let_def split: if_splits)
    show ?thesis unfolding Validate_def r(1-4) using ok False r(5) by (simp add: ParseRole_def)
  qed
qed

theorem local_record_valid_witness:
  "\<exists>d r. Finish (sample_env (replicate 49 CHR ''h'')) (sample_config 0 ''memory'') = Inr d \<and> auto_register d
     \<and> localRecord d [] zero_state = Some r \<and> Validate r = Some (IdTooLong (replicate 49 CHR ''h''))"
proof -
  have n: "replicate 49 CHR ''h'' \<noteq> ''n9''"
  proof
    assume "replicate 49 CHR ''h'' = ''n9''"
    from arg_cong [OF this, of length] show False by simp
  qed
  obtain d where d: "Finish (sample_env (replicate 49 CHR ''h'')) (sample_config 0 ''memory'') = Inr d" "auto_register d"
      "cf_Role d = RoleBalancer" "lc_ID (cf_Local d) = replicate 49 CHR ''h''"
    using sample_finish [of "''memory''" "replicate 49 CHR ''h''" 0, OF _ _ n] by (auto intro: that)
  obtain r where r: "localRecord d [] zero_state = Some r" "rec_ID r = replicate 49 CHR ''h''" using d(3,4) by (simp add: localRecord_def Balancer_def Let_def)
  have "Validate r = Some (IdTooLong (replicate 49 CHR ''h''))" using local_record_valid [OF d(1,2) r(1)] unfolding r(2) length_replicate by simp
  then show ?thesis using d(1,2) r(1) by blast
qed

end
