(* ===== verification/Contract.thy ===== *)
theory Contract
  imports Codec "HOL-Library.AList"
begin

text \<open>
  The registry application: how a call to it is built (src/internal/adapters/registryalgo/contract.go)
  and what its program does with the call (src/contract/smart_contracts/registry/contract.algo.ts,
  compiled to program/Registry.approval.teal). The encoders of the SDK's abi package are arguments.
\<close>

section \<open>Limits\<close>

definition MaxAppArgsLen :: nat where "MaxAppArgsLen = 16384"
definition FreeAppArgsLen :: nat where "FreeAppArgsLen = 2048"
definition MaxArgLen :: nat where "MaxArgLen = 4096"
definition argByteSurcharge :: nat where "argByteSurcharge = 100"
definition boxRefBudget :: nat where "boxRefBudget = 2048"
definition BoxRefs :: nat where "BoxRefs = (MaxAppArgsLen + boxRefBudget - 1) div boxRefBudget"
definition selectorLen :: nat where "selectorLen = 4"
definition lengthPrefix :: nat where "lengthPrefix = 2"
definition PutParts :: nat where "PutParts = 4"
definition MaxPartLen :: nat where "MaxPartLen = MaxArgLen - lengthPrefix"
definition MaxValueLen :: nat where "MaxValueLen = MaxAppArgsLen - selectorLen - BoxTagLen - PutParts * lengthPrefix"

section \<open>Building a call\<close>

text \<open>A method of the ARC-56 description: its name, and the name and type of each argument.\<close>

record Method =
  m_Name :: string
  m_Args :: "(string \<times> string) list"

definition PutMethod :: Method where
  "PutMethod = \<lparr>m_Name = ''put'', m_Args = [(''tag'', ''byte[16]''), (''part0'', ''byte[]''), (''part1'', ''byte[]''),
     (''part2'', ''byte[]''), (''part3'', ''byte[]'')]\<rparr>"

definition RemoveMethod :: Method where
  "RemoveMethod = \<lparr>m_Name = ''remove'', m_Args = [(''tag'', ''byte[16]'')]\<rparr>"

text \<open>The SDK: the selector of a method, and the encoding of bytes as a type (None when it fails).\<close>

record abi =
  ab_GetSelector :: "Method \<Rightarrow> bytes"
  ab_Encode :: "string \<Rightarrow> bytes \<Rightarrow> bytes option"

datatype ArgsError = ValueTooLong nat | WrongArgCount nat | NotEncoded string

fun encode_args :: "abi \<Rightarrow> (string \<times> string) list \<Rightarrow> bytes list \<Rightarrow> ArgsError + bytes list" where
  "encode_args A ((name, ty) # ms) (v # vs) =
     (case ab_Encode A ty v of
        None \<Rightarrow> Inl (NotEncoded name)
      | Some enc \<Rightarrow> map_sum id ((#) enc) (encode_args A ms vs))"
| "encode_args A _ _ = Inr []"

definition encodeCall :: "abi \<Rightarrow> Method \<Rightarrow> bytes list \<Rightarrow> ArgsError + bytes list" where
  "encodeCall A m values =
     (if length values \<noteq> length (m_Args m) then Inl (WrongArgCount (length values))
      else map_sum id ((#) (ab_GetSelector A m)) (encode_args A (m_Args m) values))"

fun put_parts :: "nat \<Rightarrow> bytes \<Rightarrow> bytes list" where
  "put_parts 0 blob = []"
| "put_parts (Suc k) blob = (let n = min (length blob) MaxPartLen in take n blob # put_parts k (drop n blob))"

definition PutArgs :: "abi \<Rightarrow> bytes \<Rightarrow> bytes \<Rightarrow> ArgsError + bytes list" where
  "PutArgs A tag blob =
     (if length blob > MaxValueLen then Inl (ValueTooLong (length blob))
      else encodeCall A PutMethod (tag # put_parts PutParts blob))"

definition RemoveArgs :: "abi \<Rightarrow> bytes \<Rightarrow> ArgsError + bytes list" where
  "RemoveArgs A tag = encodeCall A RemoveMethod [tag]"

definition CallFee :: "u64 \<Rightarrow> bytes list \<Rightarrow> u64" where
  "CallFee minFee args =
     (let n = sum_list (map length args);
          factor = (if n > FreeAppArgsLen then 1000000 + word_of_nat argByteSurcharge * word_of_nat (n - FreeAppArgsLen) else 1000000)
      in (minFee * factor + 999999) div 1000000)"

definition BoxMinBalance :: "nat \<Rightarrow> nat \<Rightarrow> u64" where
  "BoxMinBalance nameLen valueLen = 2500 + 400 * word_of_nat (nameLen + valueLen)"

section \<open>The program\<close>

text \<open>
  The approval program: a call comes from a sender with arguments (or none, for a bare call), and is
  approved with the boxes it leaves or rejected (None). An argument of type byte[] is its length in two
  bytes, then the bytes.
\<close>

type_synonym boxes = "(bytes \<times> bytes) list"

datatype OnCompletion = NoOp | UpdateApplication | DeleteApplication

definition arg_tag :: "bytes \<Rightarrow> bytes option" where
  "arg_tag a = (if length a = 16 then Some a else None)"

definition arg_bytes :: "bytes \<Rightarrow> bytes option" where
  "arg_bytes a = (if length a < 2 \<or> 256 * unat (a ! 0) + unat (a ! 1) + 2 \<noteq> length a then None else Some (drop 2 a))"

definition box_replace :: "nat \<Rightarrow> bytes \<Rightarrow> bytes \<Rightarrow> bytes option" where
  "box_replace off part blob =
     (if off + length part > length blob then None else Some (take off blob @ part @ drop (off + length part) blob))"

fun box_write :: "nat \<Rightarrow> bytes list \<Rightarrow> bytes \<Rightarrow> bytes option" where
  "box_write off [] blob = Some blob"
| "box_write off (p # ps) blob = (case box_replace off p blob of None \<Rightarrow> None | Some v \<Rightarrow> box_write (off + length p) ps v)"

definition prog_put :: "bytes \<Rightarrow> bytes list \<Rightarrow> boxes \<Rightarrow> boxes option" where
  "prog_put tag parts bx =
     (case box_write 0 parts (replicate (sum_list (map length parts)) 0) of
        None \<Rightarrow> None
      | Some v \<Rightarrow> Some (AList.update (BoxKeyPrefix @ tag) v bx))"

definition prog_remove :: "bytes \<Rightarrow> boxes \<Rightarrow> boxes option" where
  "prog_remove tag bx = Some (AList.delete (BoxKeyPrefix @ tag) bx)"

definition put_selector :: bytes where "put_selector = [0x32, 0x4f, 0x5a, 0x1b]"
definition remove_selector :: bytes where "remove_selector = [0x12, 0xad, 0x14, 0xc2]"

fun approval :: "string \<Rightarrow> string \<Rightarrow> OnCompletion \<Rightarrow> bytes list \<Rightarrow> boxes \<Rightarrow> boxes option" where
  "approval creator sender oc [] bx =
     (if (oc = UpdateApplication \<or> oc = DeleteApplication) \<and> sender = creator then Some bx else None)"
| "approval creator sender oc (sel # args) bx =
     (if oc \<noteq> NoOp then None
      else if sel = put_selector then
        (if length args < 5 then None
         else case (arg_tag (args ! 0), arg_bytes (args ! 1), arg_bytes (args ! 2), arg_bytes (args ! 3), arg_bytes (args ! 4)) of
           (Some tag, Some p0, Some p1, Some p2, Some p3) \<Rightarrow> if sender = creator then prog_put tag [p0, p1, p2, p3] bx else None
         | _ \<Rightarrow> None)
      else if sel = remove_selector then
        (if length args < 1 then None
         else case arg_tag (args ! 0) of Some tag \<Rightarrow> if sender = creator then prog_remove tag bx else None | None \<Rightarrow> None)
      else None)"

text \<open>What ARC-4 says of the encoders: the selectors of the two methods, and the encodings of the two types.\<close>

definition abi_ok :: "abi \<Rightarrow> bool" where
  "abi_ok A = (ab_GetSelector A PutMethod = put_selector \<and> ab_GetSelector A RemoveMethod = remove_selector
     \<and> (\<forall>v. length v = 16 \<longrightarrow> ab_Encode A ''byte[16]'' v = Some v)
     \<and> (\<forall>v. length v < 2 ^ 16 \<longrightarrow>
          ab_Encode A ''byte[]'' v = Some (word_of_nat (length v div 256) # word_of_nat (length v mod 256) # v)))"

definition sample_abi :: abi where
  "sample_abi = \<lparr>ab_GetSelector = (\<lambda>m. if m_Name m = ''put'' then put_selector else remove_selector),
     ab_Encode = (\<lambda>ty v. Some (if ty = ''byte[16]'' then v else word_of_nat (length v div 256) # word_of_nat (length v mod 256) # v))\<rparr>"

text \<open>The limits of the protocol on one call, with the fee they ask for.\<close>

definition call_ok :: "nat \<Rightarrow> nat \<Rightarrow> bytes list \<Rightarrow> nat \<Rightarrow> bool" where
  "call_ok minFee fee args refs =
     (sum_list (map length args) \<le> MaxAppArgsLen \<and> list_all (\<lambda>a. length a \<le> MaxArgLen) args \<and> refs \<le> 8
      \<and> minFee * (1000000 + argByteSurcharge * (sum_list (map length args) - FreeAppArgsLen)) \<le> fee * 1000000)"

section \<open>Lemmas\<close>

lemmas limits = MaxAppArgsLen_def FreeAppArgsLen_def MaxArgLen_def argByteSurcharge_def boxRefBudget_def BoxRefs_def
  selectorLen_def lengthPrefix_def PutParts_def MaxPartLen_def MaxValueLen_def BoxTagLen_def

lemma put_parts_value: "length blob \<le> k * MaxPartLen \<Longrightarrow> concat (put_parts k blob) = blob"
proof (induction k arbitrary: blob)
  case (Suc k)
  have "length (drop (min (length blob) MaxPartLen) blob) \<le> k * MaxPartLen" using Suc.prems by (auto simp: min_def)
  then show ?case using Suc.IH by (simp add: Let_def)
qed simp

lemma put_parts_length: "length (put_parts k blob) = k" "\<forall>p \<in> set (put_parts k blob). length p \<le> MaxPartLen"
  by (induction k arbitrary: blob) (auto simp: Let_def)

lemma put_parts_total: "sum_list (map length (put_parts k blob)) \<le> length blob"
proof (induction k arbitrary: blob)
  case (Suc k)
  from Suc [of "drop (min (length blob) MaxPartLen) blob"] show ?case by (simp add: Let_def)
qed simp

lemma box_write_concat:
  "length rest = sum_list (map length parts) \<Longrightarrow> box_write (length pre) parts (pre @ rest) = Some (pre @ concat parts)"
proof (induction parts arbitrary: pre rest)
  case (Cons p ps)
  have "box_replace (length pre) p (pre @ rest) = Some (pre @ p @ drop (length p) rest)" using Cons.prems by (simp add: box_replace_def)
  moreover have "box_write (length (pre @ p)) ps ((pre @ p) @ drop (length p) rest) = Some ((pre @ p) @ concat ps)"
    by (rule Cons.IH) (use Cons.prems in simp)
  ultimately show ?case by simp
qed simp

lemma prog_put_value: "prog_put tag parts bx = Some (AList.update (BoxKeyPrefix @ tag) (concat parts) bx)"
  using box_write_concat [of "replicate (sum_list (map length parts)) 0" parts "[]"] by (simp add: prog_put_def)

lemma encoded_length: "n < 2 ^ 16 \<Longrightarrow> 256 * unat (word_of_nat (n div 256) :: 8 word) + unat (word_of_nat (n mod 256) :: 8 word) = n"
  by (simp add: unat_of_nat take_bit_eq_mod)

lemma arg_bytes_encoded: "length v < 2 ^ 16 \<Longrightarrow> arg_bytes (word_of_nat (length v div 256) # word_of_nat (length v mod 256) # v) = Some v"
  using encoded_length [of "length v"] by (simp add: arg_bytes_def)

lemma encoded_parts:
  assumes "abi_ok A" "length p0 < 2 ^ 16" "length p1 < 2 ^ 16" "length p2 < 2 ^ 16" "length p3 < 2 ^ 16" "length tag = 16"
  shows "encodeCall A PutMethod [tag, p0, p1, p2, p3] = Inr (put_selector # tag #
    map (\<lambda>p. word_of_nat (length p div 256) # word_of_nat (length p mod 256) # p) [p0, p1, p2, p3])"
  using assms by (simp add: abi_ok_def encodeCall_def PutMethod_def)

lemma put_args:
  assumes "abi_ok A" "length tag = 16" "length blob \<le> MaxValueLen"
  obtains args where "PutArgs A tag blob = Inr args" "sum_list (map length args) \<le> MaxAppArgsLen" "list_all (\<lambda>a. length a \<le> MaxArgLen) args"
    "\<And>c sender bx. approval c sender NoOp args bx = (if sender = c then Some (AList.update (BoxKeyPrefix @ tag) blob bx) else None)"
proof -
  have l: "length (put_parts PutParts blob) = 4" using put_parts_length(1) by (simp add: PutParts_def)
  obtain p0 p1 p2 p3 where p: "put_parts PutParts blob = [p0, p1, p2, p3]"
    using l by (auto simp: numeral_eq_Suc length_Suc_conv)
  have n: "length p0 \<le> MaxPartLen" "length p1 \<le> MaxPartLen" "length p2 \<le> MaxPartLen" "length p3 \<le> MaxPartLen"
    using put_parts_length(2) [of PutParts blob] p by simp_all
  then have m: "length p0 < 2 ^ 16" "length p1 < 2 ^ 16" "length p2 < 2 ^ 16" "length p3 < 2 ^ 16" by (simp_all add: limits)
  have c: "concat [p0, p1, p2, p3] = blob" using put_parts_value [of blob PutParts] assms(3) p by (simp add: limits)
  have t: "length p0 + length p1 + length p2 + length p3 \<le> length blob" using put_parts_total [of PutParts blob] p by simp
  let ?args = "put_selector # tag # map (\<lambda>p. word_of_nat (length p div 256) # word_of_nat (length p mod 256) # p) [p0, p1, p2, p3]"
  show ?thesis
  proof (rule that [of ?args])
    show "PutArgs A tag blob = Inr ?args" using assms(3) p encoded_parts [OF assms(1) m assms(2)] by (simp add: PutArgs_def)
    show "sum_list (map length ?args) \<le> MaxAppArgsLen" using t assms(2,3) by (simp add: put_selector_def limits)
    show "list_all (\<lambda>a. length a \<le> MaxArgLen) ?args" using n assms(2) by (simp add: put_selector_def limits)
    show "approval c' sender NoOp ?args bx = (if sender = c' then Some (AList.update (BoxKeyPrefix @ tag) blob bx) else None)" for c' sender bx
      using m assms(2) c by (simp add: arg_bytes_encoded arg_tag_def prog_put_value)
  qed
qed

lemma remove_args:
  assumes "abi_ok A" "length tag = 16"
  shows "RemoveArgs A tag = Inr [remove_selector, tag]"
    and "approval c sender NoOp [remove_selector, tag] bx = (if sender = c then Some (AList.delete (BoxKeyPrefix @ tag) bx) else None)"
  using assms by (simp_all add: RemoveArgs_def encodeCall_def RemoveMethod_def abi_ok_def arg_tag_def prog_remove_def put_selector_def remove_selector_def)

text \<open>The fee covers the surcharge, and is the least that does.\<close>

lemma CallFee_exact:
  assumes "unat minFee \<le> 10 ^ 12" "sum_list (map length args) \<le> MaxAppArgsLen"
  defines "cost \<equiv> unat minFee * (1000000 + argByteSurcharge * (sum_list (map length args) - FreeAppArgsLen))"
  shows "cost \<le> unat (CallFee minFee args) * 1000000" "unat (CallFee minFee args) * 1000000 < cost + 1000000"
proof -
  let ?f = "1000000 + argByteSurcharge * (sum_list (map length args) - FreeAppArgsLen)"
  have f: "?f \<le> 2433600" using assms(2) by (simp add: limits)
  then have b: "cost \<le> 10 ^ 12 * 2433600" unfolding cost_def using assms(1) by (rule mult_le_mono [rotated])
  have "CallFee minFee args = (minFee * word_of_nat ?f + 999999) div 1000000" by (simp add: CallFee_def Let_def)
  also have "minFee * word_of_nat ?f + 999999 = word_of_nat (cost + 999999)" by (simp add: cost_def)
  finally have "unat (CallFee minFee args) = (cost + 999999) div 1000000"
    using b by (simp add: unat_div_distrib unat_of_nat take_bit_nat_eq_self del: of_nat_add)
  then show "cost \<le> unat (CallFee minFee args) * 1000000" "unat (CallFee minFee args) * 1000000 < cost + 1000000" by simp_all
qed

section \<open>Properties\<close>

text \<open>
  C38. The calls the agent makes to the registry application. For every value of up to MaxValueLen bytes
  put's arguments are within the limits of the protocol with the fee CallFee computes, the references
  they carry cover the value, and the program stores exactly that value under the tag's box, or
  removes that box, for the creator, and rejects the call of anyone else.
\<close>

theorem registry_calls:
  assumes "abi_ok A" and "length tag = 16" and "length blob \<le> MaxValueLen" and "unat minFee \<le> 10 ^ 12"
  shows "(\<exists>args. PutArgs A tag blob = Inr args \<and> call_ok (unat minFee) (unat (CallFee minFee args)) args BoxRefs
      \<and> length blob \<le> BoxRefs * boxRefBudget
      \<and> approval creator sender NoOp args bx = (if sender = creator then Some (AList.update (BoxKeyPrefix @ tag) blob bx) else None))
    \<and> (\<exists>args. RemoveArgs A tag = Inr args \<and> call_ok (unat minFee) (unat (CallFee minFee args)) args BoxRefs
      \<and> approval creator sender NoOp args bx = (if sender = creator then Some (AList.delete (BoxKeyPrefix @ tag) bx) else None))"
proof
  obtain args where a: "PutArgs A tag blob = Inr args" "sum_list (map length args) \<le> MaxAppArgsLen" "list_all (\<lambda>a. length a \<le> MaxArgLen) args"
      "approval creator sender NoOp args bx = (if sender = creator then Some (AList.update (BoxKeyPrefix @ tag) blob bx) else None)"
    using put_args [OF assms(1-3)] by metis
  have "length blob \<le> BoxRefs * boxRefBudget" using assms(3) by (simp add: limits)
  moreover have "call_ok (unat minFee) (unat (CallFee minFee args)) args BoxRefs"
    using CallFee_exact(1) [OF assms(4) a(2)] a(2,3) by (simp add: call_ok_def) (simp add: limits)
  ultimately show "\<exists>args. PutArgs A tag blob = Inr args \<and> call_ok (unat minFee) (unat (CallFee minFee args)) args BoxRefs
      \<and> length blob \<le> BoxRefs * boxRefBudget
      \<and> approval creator sender NoOp args bx = (if sender = creator then Some (AList.update (BoxKeyPrefix @ tag) blob bx) else None)"
    using a(1,4) by blast
  let ?args = "[remove_selector, tag]"
  have l: "sum_list (map length ?args) \<le> MaxAppArgsLen" "list_all (\<lambda>a. length a \<le> MaxArgLen) ?args"
    using assms(2) by (simp_all add: limits remove_selector_def)
  then have "call_ok (unat minFee) (unat (CallFee minFee ?args)) ?args BoxRefs"
    using CallFee_exact(1) [OF assms(4) l(1)] by (simp add: call_ok_def) (simp add: limits)
  then show "\<exists>args. RemoveArgs A tag = Inr args \<and> call_ok (unat minFee) (unat (CallFee minFee args)) args BoxRefs
      \<and> approval creator sender NoOp args bx = (if sender = creator then Some (AList.delete (BoxKeyPrefix @ tag) bx) else None)"
    using remove_args [OF assms(1,2)] by blast
qed

lemma sample_abi_ok: "abi_ok sample_abi"
  by (simp add: abi_ok_def sample_abi_def PutMethod_def RemoveMethod_def)

theorem registry_calls_witness:
  "\<exists>args. PutArgs sample_abi (replicate 16 7) (replicate 5000 1) = Inr args
     \<and> approval ''SYNC'' ''SYNC'' NoOp args [] = Some [(110 # replicate 16 7, replicate 5000 1)]"
  using registry_calls [OF sample_abi_ok, of "replicate 16 7" "replicate 5000 1" 1000 "''SYNC''" "''SYNC''" "[]"]
  by (simp add: limits BoxKeyPrefix_def) blast

end
