(* ===== verification/RegistryChain.thy ===== *)
theory RegistryChain
  imports Contract Config RegistrySync
begin

text \<open>
  The registry on chain (src/internal/adapters/registryalgo/registry.go). The chain is the state: the
  applications with their programs and boxes, and the transactions that went through. What the nodes
  answer and what becomes of a transaction that is sent is the environment; the machine that runs a
  program on chain is an argument, and the theorems suppose it runs the registry's program as written.
\<close>

section \<open>The chain\<close>

record App =
  app_Creator :: string
  app_Approval :: bytes
  app_Clear :: bytes
  app_Boxes :: boxes

datatype tx =
    Payment string string u64
  | AppCall string u64 "bytes list" u64 "bytes list"
  | AppCreate string u64 bytes bytes
  | AppUpdate string u64 bytes bytes
  | AppDelete string u64

record Chain =
  ch_Apps :: "u64 \<Rightarrow> App option"
  ch_Round :: u64
  ch_Txs :: "tx list"

type_synonym avm = "bytes \<Rightarrow> string \<Rightarrow> string \<Rightarrow> OnCompletion \<Rightarrow> bytes list \<Rightarrow> boxes \<Rightarrow> boxes option"

text \<open>What a transaction does when it is committed; None when a program rejects it.\<close>

definition call_app :: "avm \<Rightarrow> string \<Rightarrow> u64 \<Rightarrow> OnCompletion \<Rightarrow> bytes list \<Rightarrow> (App \<Rightarrow> App option) \<Rightarrow> Chain \<Rightarrow> Chain option" where
  "call_app run sender app oc args after ch =
     (case ch_Apps ch app of
        None \<Rightarrow> None
      | Some a \<Rightarrow>
        (case run (app_Approval a) (app_Creator a) sender oc args (app_Boxes a) of
           None \<Rightarrow> None
         | Some bx \<Rightarrow> Some (ch\<lparr>ch_Apps := (ch_Apps ch)(app := after (a\<lparr>app_Boxes := bx\<rparr>))\<rparr>)))"

fun apply_tx :: "avm \<Rightarrow> tx \<Rightarrow> Chain \<Rightarrow> Chain option" where
  "apply_tx run (Payment sender receiver amount) ch = Some ch"
| "apply_tx run (AppCall sender app args fee refs) ch = call_app run sender app NoOp args Some ch"
| "apply_tx run (AppCreate sender app prog clear) ch =
     Some (ch\<lparr>ch_Apps := (ch_Apps ch)(app \<mapsto> \<lparr>app_Creator = sender, app_Approval = prog, app_Clear = clear, app_Boxes = []\<rparr>)\<rparr>)"
| "apply_tx run (AppUpdate sender app prog clear) ch =
     call_app run sender app UpdateApplication [] (\<lambda>a. Some (a\<lparr>app_Approval := prog, app_Clear := clear\<rparr>)) ch"
| "apply_tx run (AppDelete sender app) ch = call_app run sender app DeleteApplication [] (\<lambda>_. None) ch"

datatype ChainError =
    KeyFailed CodecError | BadAccount | BadSyncAddress | BadClient | AccountUnread | NotAuthorized string | NoAppID | BoxesUnread | StatusUnread
  | BoxUnread bytes | NoRandom | NotSealed CodecError | SealedTooLong nat | BadArgs ArgsError | ParamsUnread | NotSent | NotConfirmed
  | AppUnread | NotCreator string | ForeignBoxes nat | HoldsBoxes nat

text \<open>
  What becomes of a transaction: it is not built, signed or taken; it is taken but not seen confirmed
  in time, and may have been committed all the same; or it is confirmed.
\<close>

datatype submission = SubmitFails | Unconfirmed bool | Confirmed

definition submit :: "avm \<Rightarrow> submission \<Rightarrow> tx \<Rightarrow> Chain \<Rightarrow> ChainError option \<times> Chain" where
  "submit run sub t ch =
     (let committed = map_option (\<lambda>c. c\<lparr>ch_Txs := t # ch_Txs c\<rparr>) (apply_tx run t ch) in
      case (sub, committed) of
        (Unconfirmed True, Some c) \<Rightarrow> (Some NotConfirmed, c)
      | (Unconfirmed _, _) \<Rightarrow> (Some NotConfirmed, ch)
      | (Confirmed, Some c) \<Rightarrow> (None, c)
      | _ \<Rightarrow> (Some NotSent, ch))"

section \<open>The client\<close>

record ChainRegistry =
  cr_AppID :: u64
  cr_Key :: bytes
  cr_sender :: string
  cr_signer :: string
  cr_MaxRecords :: nat

record account =
  ac_Amount :: u64
  ac_MinBalance :: u64
  ac_AuthAddr :: string

text \<open>
  The answers of the nodes, the SDK's address of an application's account and fee of a built call, the
  random nonce, and what becomes of a payment and of an application transaction.
\<close>

record chain_env =
  ce_Account :: "string \<Rightarrow> account option"
  ce_AppAddr :: "u64 \<Rightarrow> string"
  ce_Nonce :: "bytes option"
  ce_FundParams :: bool
  ce_Fund :: submission
  ce_MinFee :: "u64 option"
  ce_TxFee :: u64
  ce_Submit :: submission
  ce_Compile :: "string \<Rightarrow> string option"
  ce_AppIndex :: u64
  ce_AppRead :: bool
  ce_BoxesRead :: bool

text \<open>
  New: the address of a seed's key and the decoder of addresses are the SDK's, whether its client can be
  built is the environment's. An address stands for its canonical spelling.
\<close>

definition chain_New ::
  "primitives \<Rightarrow> (bytes \<Rightarrow> string option) \<Rightarrow> (string \<Rightarrow> string option) \<Rightarrow> bool \<Rightarrow> u64 \<Rightarrow> bytes \<Rightarrow> string \<Rightarrow> ChainError + ChainRegistry" where
  "chain_New P account_of decode client appID syncSeed syncAddress =
     (case DeriveSyncKey P syncSeed of
        Inl e \<Rightarrow> Inl (KeyFailed e)
      | Inr key \<Rightarrow>
        (case account_of (take 32 syncSeed) of
           None \<Rightarrow> Inl BadAccount
         | Some own \<Rightarrow>
           (case (if syncAddress \<noteq> [] then decode syncAddress else Some own) of
              None \<Rightarrow> Inl BadSyncAddress
            | Some sender \<Rightarrow>
              if \<not> client then Inl BadClient
              else Inr \<lparr>cr_AppID = appID, cr_Key = key, cr_sender = sender, cr_signer = own, cr_MaxRecords = 1000\<rparr>)))"

definition CheckAuth :: "chain_env \<Rightarrow> ChainRegistry \<Rightarrow> ChainError option" where
  "CheckAuth env reg =
     (case ce_Account env (cr_sender reg) of
        None \<Rightarrow> Some AccountUnread
      | Some info \<Rightarrow>
        let auth = (if ac_AuthAddr info \<noteq> [] then ac_AuthAddr info else cr_sender reg) in
        if auth \<noteq> cr_signer reg then Some (NotAuthorized auth) else None)"

text \<open>List, with what the reader answers: the names of the boxes, its status and the value of each box.\<close>

datatype box_answer = BoxValue bytes | BoxMissing | BoxFails

record box_reader =
  br_BoxNames :: "bytes list option"
  br_Status :: "u64 option"
  br_Box :: "bytes \<Rightarrow> box_answer"

fun list_boxes :: "primitives \<Rightarrow> bytes \<Rightarrow> nat \<Rightarrow> (bytes \<Rightarrow> box_answer) \<Rightarrow> nat \<Rightarrow> bytes list \<Rightarrow> ChainError + NodeRecord list" where
  "list_boxes P key most box i [] = Inr []"
| "list_boxes P key most box i (name # names) =
     (if i \<ge> most then Inr []
      else if \<not> IsRecordBox name then list_boxes P key most box (Suc i) names
      else case box name of
        BoxMissing \<Rightarrow> list_boxes P key most box (Suc i) names
      | BoxFails \<Rightarrow> Inl (BoxUnread name)
      | BoxValue blob \<Rightarrow>
        (case OpenRecord P key name blob of
           Inl _ \<Rightarrow> list_boxes P key most box (Suc i) names
         | Inr r \<Rightarrow> map_sum id ((#) r) (list_boxes P key most box (Suc i) names)))"

definition chain_List :: "primitives \<Rightarrow> ChainRegistry \<Rightarrow> box_reader \<Rightarrow> ChainError + (NodeRecord list \<times> u64)" where
  "chain_List P reg rd =
     (if cr_AppID reg = 0 then Inl NoAppID
      else case br_BoxNames rd of
        None \<Rightarrow> Inl BoxesUnread
      | Some names \<Rightarrow>
        (case br_Status rd of
           None \<Rightarrow> Inl StatusUnread
         | Some lastRound \<Rightarrow> map_sum id (\<lambda>recs. (recs, lastRound)) (list_boxes P (cr_Key reg) (cr_MaxRecords reg) (br_Box rd) 0 names)))"

text \<open>ensureFunded, call and send; then the operations that write.\<close>

definition ensureFunded :: "avm \<Rightarrow> chain_env \<Rightarrow> ChainRegistry \<Rightarrow> nat \<Rightarrow> nat \<Rightarrow> Chain \<Rightarrow> ChainError option \<times> Chain" where
  "ensureFunded run env reg nameLen valueLen ch =
     (let appAddr = ce_AppAddr env (cr_AppID reg) in
      case ce_Account env appAddr of
        None \<Rightarrow> (Some AccountUnread, ch)
      | Some info \<Rightarrow>
        let need = ac_MinBalance info + BoxMinBalance nameLen valueLen + 100000 in
        if ac_Amount info \<ge> need then (None, ch)
        else if \<not> ce_FundParams env then (Some ParamsUnread, ch)
        else submit run (ce_Fund env) (Payment (cr_sender reg) appAddr (need - ac_Amount info)) ch)"

definition chain_call :: "avm \<Rightarrow> chain_env \<Rightarrow> ChainRegistry \<Rightarrow> bytes list \<Rightarrow> bytes \<Rightarrow> Chain \<Rightarrow> ChainError option \<times> Chain" where
  "chain_call run env reg args box ch =
     (case ce_MinFee env of
        None \<Rightarrow> (Some ParamsUnread, ch)
      | Some minFee \<Rightarrow>
        let fee = CallFee minFee args; paid = (if ce_TxFee env < fee then fee else ce_TxFee env) in
        submit run (ce_Submit env) (AppCall (cr_sender reg) (cr_AppID reg) args paid (replicate BoxRefs box)) ch)"

definition chain_Put :: "primitives \<Rightarrow> abi \<Rightarrow> avm \<Rightarrow> ChainRegistry \<Rightarrow> chain_env \<Rightarrow> NodeRecord \<Rightarrow> Chain \<Rightarrow> ChainError option \<times> Chain" where
  "chain_Put P A run reg env rec ch =
     (case ce_Nonce env of
        None \<Rightarrow> (Some NoRandom, ch)
      | Some nonce \<Rightarrow>
        (case SealRecord P (cr_Key reg) rec nonce of
           Inl e \<Rightarrow> (Some (NotSealed e), ch)
         | Inr blob \<Rightarrow>
           if length blob > MaxValueLen then (Some (SealedTooLong (length blob)), ch)
           else (case PutArgs A (BoxTag P (cr_Key reg) (rec_ID rec)) blob of
                   Inl e \<Rightarrow> (Some (BadArgs e), ch)
                 | Inr args \<Rightarrow>
                   let name = BoxName P (cr_Key reg) (rec_ID rec) in
                   (case ensureFunded run env reg (length name) (length blob) ch of
                      (Some e, c) \<Rightarrow> (Some e, c)
                    | (None, c) \<Rightarrow> chain_call run env reg args name c))))"

definition chain_Delete :: "primitives \<Rightarrow> abi \<Rightarrow> avm \<Rightarrow> ChainRegistry \<Rightarrow> chain_env \<Rightarrow> string \<Rightarrow> Chain \<Rightarrow> ChainError option \<times> Chain" where
  "chain_Delete P A run reg env i ch =
     (case RemoveArgs A (BoxTag P (cr_Key reg) i) of
        Inl e \<Rightarrow> (Some (BadArgs e), ch)
      | Inr args \<Rightarrow> chain_call run env reg args (BoxName P (cr_Key reg) i) ch)"

text \<open>The programs: the sources and the bytecode embedded in the agent, and algod's own compilation of them.\<close>

record embedded =
  em_ApprovalTEAL :: string
  em_ApprovalProgram :: bytes
  em_ClearTEAL :: string
  em_ClearProgram :: bytes

definition programs :: "embedded \<Rightarrow> chain_env \<Rightarrow> bytes \<times> bytes" where
  "programs em env =
     (case Option.bind (ce_Compile env (em_ApprovalTEAL em)) base64_DecodeString of
        None \<Rightarrow> (em_ApprovalProgram em, em_ClearProgram em)
      | Some b \<Rightarrow>
        if b = [] then (em_ApprovalProgram em, em_ClearProgram em)
        else (b, case Option.bind (ce_Compile env (em_ClearTEAL em)) base64_DecodeString of None \<Rightarrow> em_ClearProgram em | Some c \<Rightarrow> c))"

definition Create :: "embedded \<Rightarrow> avm \<Rightarrow> chain_env \<Rightarrow> ChainRegistry \<Rightarrow> Chain \<Rightarrow> ChainError option \<times> ChainRegistry \<times> Chain" where
  "Create em run env reg ch =
     (case programs em env of (prog, clear) \<Rightarrow>
        if ce_MinFee env = None then (Some ParamsUnread, reg, ch)
        else case submit run (ce_Submit env) (AppCreate (cr_sender reg) (ce_AppIndex env) prog clear) ch of
          (Some e, c) \<Rightarrow> (Some e, reg, c)
        | (None, c) \<Rightarrow>
          let reg' = reg\<lparr>cr_AppID := ce_AppIndex env\<rparr> in
          (case ensureFunded run env reg' 0 0 c of (err, c') \<Rightarrow> (err, reg', c')))"

record AppState =
  as_ID :: u64
  as_Creator :: string
  as_UpToDate :: bool
  as_Boxes :: nat
  as_Foreign :: nat
  as_Balance :: u64
  as_MinBalance :: u64

definition Inspect :: "embedded \<Rightarrow> chain_env \<Rightarrow> u64 \<Rightarrow> Chain \<Rightarrow> ChainError option \<times> AppState" where
  "Inspect em env appID ch =
     (let zero = \<lparr>as_ID = 0, as_Creator = [], as_UpToDate = False, as_Boxes = 0, as_Foreign = 0, as_Balance = 0, as_MinBalance = 0\<rparr> in
      case (ce_AppRead env, ch_Apps ch appID) of
        (True, Some a) \<Rightarrow>
          let st = zero\<lparr>as_ID := appID, as_Creator := app_Creator a, as_UpToDate := (app_Approval a = em_ApprovalProgram em)\<rparr> in
          if \<not> ce_BoxesRead env then (Some BoxesUnread, st)
          else
            let st = st\<lparr>as_Boxes := length (app_Boxes a), as_Foreign := length (filter (\<lambda>b. \<not> IsRecordBox (fst b)) (app_Boxes a))\<rparr> in
            (case ce_Account env (ce_AppAddr env appID) of
               None \<Rightarrow> (Some AccountUnread, st)
             | Some acct \<Rightarrow> (None, st\<lparr>as_Balance := ac_Amount acct, as_MinBalance := ac_MinBalance acct\<rparr>))
      | _ \<Rightarrow> (Some AppUnread, zero))"

definition Update :: "embedded \<Rightarrow> avm \<Rightarrow> chain_env \<Rightarrow> ChainRegistry \<Rightarrow> u64 \<Rightarrow> Chain \<Rightarrow> ChainError option \<times> Chain" where
  "Update em run env reg appID ch =
     (case Inspect em env appID ch of
        (Some e, _) \<Rightarrow> (Some e, ch)
      | (None, st) \<Rightarrow>
        if as_Creator st \<noteq> cr_sender reg then (Some (NotCreator (as_Creator st)), ch)
        else if as_Foreign st > 0 then (Some (ForeignBoxes (as_Foreign st)), ch)
        else (case programs em env of (prog, clear) \<Rightarrow>
          if ce_MinFee env = None then (Some ParamsUnread, ch)
          else submit run (ce_Submit env) (AppUpdate (cr_sender reg) appID prog clear) ch))"

definition DeleteApp :: "embedded \<Rightarrow> avm \<Rightarrow> chain_env \<Rightarrow> ChainRegistry \<Rightarrow> u64 \<Rightarrow> Chain \<Rightarrow> ChainError option \<times> Chain" where
  "DeleteApp em run env reg appID ch =
     (case Inspect em env appID ch of
        (Some e, _) \<Rightarrow> (Some e, ch)
      | (None, st) \<Rightarrow>
        if as_Creator st \<noteq> cr_sender reg then (Some (NotCreator (as_Creator st)), ch)
        else if as_Boxes st > 0 then (Some (HoldsBoxes (as_Boxes st)), ch)
        else if ce_MinFee env = None then (Some ParamsUnread, ch)
        else submit run (ce_Submit env) (AppDelete (cr_sender reg) appID) ch)"

text \<open>Any operation of the client that may write.\<close>

datatype chain_op = OpPut NodeRecord | OpDelete string | OpCreate | OpUpdate u64 | OpDeleteApp u64

fun chain_do :: "primitives \<Rightarrow> abi \<Rightarrow> embedded \<Rightarrow> avm \<Rightarrow> ChainRegistry \<Rightarrow> chain_env \<Rightarrow> chain_op \<Rightarrow> Chain \<Rightarrow> Chain" where
  "chain_do P A em run reg env (OpPut r) ch = snd (chain_Put P A run reg env r ch)"
| "chain_do P A em run reg env (OpDelete i) ch = snd (chain_Delete P A run reg env i ch)"
| "chain_do P A em run reg env OpCreate ch = snd (snd (Create em run env reg ch))"
| "chain_do P A em run reg env (OpUpdate app) ch = snd (Update em run env reg app ch)"
| "chain_do P A em run reg env (OpDeleteApp app) ch = snd (DeleteApp em run env reg app ch)"

text \<open>What a reader at a node that is up to date answers.\<close>

definition reads :: "ChainRegistry \<Rightarrow> Chain \<Rightarrow> box_reader" where
  "reads reg ch =
     (case ch_Apps ch (cr_AppID reg) of
        None \<Rightarrow> \<lparr>br_BoxNames = None, br_Status = Some (ch_Round ch), br_Box = (\<lambda>_. BoxMissing)\<rparr>
      | Some a \<Rightarrow> \<lparr>br_BoxNames = Some (map fst (app_Boxes a)), br_Status = Some (ch_Round ch),
          br_Box = (\<lambda>name. case map_of (app_Boxes a) name of None \<Rightarrow> BoxMissing | Some v \<Rightarrow> BoxValue v)\<rparr>)"

text \<open>
  The states the registry's promises hold in: the application runs the registry's program and has no
  more boxes than a listing reads; and the records that can be put there: their JSON reads back, their
  box holds no other node's record (two ids never have the same tag), and there is room for a new one.
\<close>

definition chain_ok :: "avm \<Rightarrow> ChainRegistry \<Rightarrow> Chain \<Rightarrow> bool" where
  "chain_ok run reg ch =
     (case ch_Apps ch (cr_AppID reg) of
        None \<Rightarrow> True
      | Some a \<Rightarrow> run (app_Approval a) = approval \<and> distinct (map fst (app_Boxes a)) \<and> length (app_Boxes a) \<le> cr_MaxRecords reg)"

definition chain_fits :: "primitives \<Rightarrow> ChainRegistry \<Rightarrow> NodeRecord \<Rightarrow> Chain \<Rightarrow> bool" where
  "chain_fits P reg r ch =
     (record_json P r \<and>
      (case ch_Apps ch (cr_AppID reg) of
         None \<Rightarrow> True
       | Some a \<Rightarrow>
         (case map_of (app_Boxes a) (BoxName P (cr_Key reg) (rec_ID r)) of
            None \<Rightarrow> length (app_Boxes a) < cr_MaxRecords reg
          | Some v \<Rightarrow> (case OpenRecord P (cr_Key reg) (BoxName P (cr_Key reg) (rec_ID r)) v of Inl _ \<Rightarrow> True | Inr q \<Rightarrow> rec_ID q = rec_ID r))))"

definition tags_ok :: "primitives \<Rightarrow> ChainRegistry \<Rightarrow> bool" where
  "tags_ok P reg = (\<forall>i. length (BoxTag P (cr_Key reg) i) = BoxTagLen)"

text \<open>
  An environment in which a record can be written: the nodes answer, transactions are confirmed, and
  the record sealed fits a call.
\<close>

definition answers :: "primitives \<Rightarrow> ChainRegistry \<Rightarrow> chain_env \<Rightarrow> NodeRecord \<Rightarrow> bool" where
  "answers P reg env r =
     ((\<exists>nonce. ce_Nonce env = Some nonce \<and> length nonce = recordNonceLen
        \<and> 1 + recordNonceLen + length (aead_Seal P (cr_Key reg) nonce (marshal_record P r) (BoxName P (cr_Key reg) (rec_ID r))) \<le> MaxValueLen)
      \<and> ce_Account env (ce_AppAddr env (cr_AppID reg)) \<noteq> None \<and> ce_FundParams env \<and> ce_Fund env = Confirmed
      \<and> ce_MinFee env \<noteq> None \<and> ce_Submit env = Confirmed)"

definition opened :: "primitives \<Rightarrow> bytes \<Rightarrow> boxes \<Rightarrow> bytes \<Rightarrow> NodeRecord option" where
  "opened P key bx name =
     (if IsRecordBox name
      then case map_of bx name of None \<Rightarrow> None | Some v \<Rightarrow> (case OpenRecord P key name v of Inl _ \<Rightarrow> None | Inr r \<Rightarrow> Some r)
      else None)"

text \<open>An application that holds nothing yet, and an environment in which everything works.\<close>

definition sample_chain :: Chain where
  "sample_chain = \<lparr>ch_Apps = [7 \<mapsto> \<lparr>app_Creator = ''SYNC'', app_Approval = [1], app_Clear = [2], app_Boxes = []\<rparr>], ch_Round = 0, ch_Txs = []\<rparr>"

definition sample_registry :: ChainRegistry where
  "sample_registry = \<lparr>cr_AppID = 7, cr_Key = replicate 32 5, cr_sender = ''SYNC'', cr_signer = ''SYNC'', cr_MaxRecords = 1000\<rparr>"

definition sample_chain_env :: chain_env where
  "sample_chain_env = \<lparr>ce_Account = (\<lambda>_. Some \<lparr>ac_Amount = 0, ac_MinBalance = 100000, ac_AuthAddr = []\<rparr>), ce_AppAddr = (\<lambda>_. ''APP''),
     ce_Nonce = Some (replicate 12 0), ce_FundParams = True, ce_Fund = Confirmed, ce_MinFee = Some 1000, ce_TxFee = 1000, ce_Submit = Confirmed,
     ce_Compile = (\<lambda>_. None), ce_AppIndex = 8, ce_AppRead = True, ce_BoxesRead = True\<rparr>"

section \<open>Lemmas\<close>

subsection \<open>Listing\<close>

lemma list_boxes_opened:
  assumes "i + length names \<le> most"
  shows "list_boxes P key most (\<lambda>n. case map_of bx n of None \<Rightarrow> BoxMissing | Some v \<Rightarrow> BoxValue v) i names
    = Inr (List.map_filter (opened P key bx) names)"
  using assms
proof (induction names arbitrary: i)
  case (Cons n ns)
  then show ?case by (auto simp: opened_def List.map_filter_simps split: option.splits sum.splits)
qed (simp add: List.map_filter_simps)

lemma OpenRecord_name: "OpenRecord P key name v = Inr r \<Longrightarrow> BoxName P key (rec_ID r) = name \<and> Validate r = None"
  by (auto simp: OpenRecord_def split: if_splits option.splits)

lemma opened_name: "opened P key bx name = Some r \<Longrightarrow> BoxName P key (rec_ID r) = name"
  by (auto simp: opened_def dest: OpenRecord_name split: if_splits option.splits sum.splits)

lemma set_map_filter: "set (List.map_filter f ns) = {r. \<exists>n \<in> set ns. f n = Some r}"
  by (induction ns) (auto simp: List.map_filter_simps split: option.split)

lemma map_filter_distinct:
  assumes "distinct ns" "\<And>n r. f n = Some r \<Longrightarrow> g (h r) = n"
  shows "distinct (map h (List.map_filter f ns))"
  using assms(1)
proof (induction ns)
  case (Cons n ns)
  have "h r \<notin> h ` set (List.map_filter f ns)" if "f n = Some r" for r
    using Cons.prems assms(2) that by (auto simp: set_map_filter dest!: arg_cong [of _ _ g])
  then show ?case using Cons by (auto simp: List.map_filter_simps split: option.splits)
qed (simp add: List.map_filter_simps)

lemma set_map_filter_boxes: "set (List.map_filter (opened P key bx) (map fst bx)) = {r. \<exists>n. opened P key bx n = Some r}"
proof -
  have "n \<in> fst ` set bx" if "opened P key bx n = Some r" for n r
    using that map_of_eq_None_iff [of bx n] by (auto simp: opened_def split: if_splits option.splits)
  then show ?thesis by (auto simp: set_map_filter)
qed

lemma chain_listing:
  assumes "cr_AppID reg \<noteq> 0" "ch_Apps ch (cr_AppID reg) = Some a" "length (app_Boxes a) \<le> cr_MaxRecords reg"
  shows "chain_List P reg (reads reg ch) = Inr (List.map_filter (opened P (cr_Key reg) (app_Boxes a)) (map fst (app_Boxes a)), ch_Round ch)"
  using assms list_boxes_opened [of 0 "map fst (app_Boxes a)" "cr_MaxRecords reg" P "cr_Key reg" "app_Boxes a"]
  by (simp add: chain_List_def reads_def)

lemma chain_listing_once:
  assumes "chain_ok run reg ch" "chain_List P reg (reads reg ch) = Inr (recs, rd)"
  shows "distinct (map rec_ID recs)"
proof -
  obtain a where a: "cr_AppID reg \<noteq> 0" "ch_Apps ch (cr_AppID reg) = Some a"
    using assms(2) by (cases "ch_Apps ch (cr_AppID reg)") (auto simp: chain_List_def reads_def split: if_splits)
  have o: "length (app_Boxes a) \<le> cr_MaxRecords reg" "distinct (map fst (app_Boxes a))" using assms(1) a by (simp_all add: chain_ok_def)
  show ?thesis using chain_listing [OF a o(1), of P] assms(2) map_filter_distinct [OF o(2), of "opened P (cr_Key reg) (app_Boxes a)" "BoxName P (cr_Key reg)" rec_ID]
    by (simp add: opened_name)
qed

lemma listing_same: "ch_Apps t = ch_Apps s \<Longrightarrow> ch_Round t = ch_Round s \<Longrightarrow> reads reg t = reads reg s"
  by (simp add: reads_def split: option.split)

subsection \<open>Writing\<close>

lemma call_app_cases:
  assumes "call_app run sender app oc args after ch = Some c"
  obtains a bx where "ch_Apps ch app = Some a" "run (app_Approval a) (app_Creator a) sender oc args (app_Boxes a) = Some bx"
    "c = ch\<lparr>ch_Apps := (ch_Apps ch)(app := after (a\<lparr>app_Boxes := bx\<rparr>))\<rparr>"
  using assms by (auto simp: call_app_def split: option.splits)

lemma submit_cases:
  assumes "submit run sub x ch = (e, t)"
  shows "(e \<noteq> None \<and> t = ch) \<or> (\<exists>c. apply_tx run x ch = Some c \<and> t = c\<lparr>ch_Txs := x # ch_Txs c\<rparr>)"
  using assms by (auto simp: submit_def Let_def split: submission.splits option.splits bool.splits)

lemma submit_confirmed: "apply_tx run x ch = Some c \<Longrightarrow> submit run Confirmed x ch = (None, c\<lparr>ch_Txs := x # ch_Txs c\<rparr>)"
  by (simp add: submit_def)

lemma ensureFunded_same:
  assumes "ensureFunded run env reg n v ch = (e, t)"
  shows "ch_Apps t = ch_Apps ch" "ch_Round t = ch_Round ch"
proof -
  have "ch_Apps t = ch_Apps ch \<and> ch_Round t = ch_Round ch"
  proof (cases "ce_Account env (ce_AppAddr env (cr_AppID reg))")
    case (Some info)
    have "\<exists>k. t = ch\<lparr>ch_Txs := k\<rparr>" if "submit run (ce_Fund env) (Payment x y z) ch = (e, t)" for x y z
      using submit_cases [OF that] by (elim disjE conjE exE) (auto intro: exI [of _ "ch_Txs ch"])
    then show ?thesis using assms Some by (force simp: ensureFunded_def Let_def split: if_splits)
  qed (use assms in \<open>simp add: ensureFunded_def\<close>)
  then show "ch_Apps t = ch_Apps ch" "ch_Round t = ch_Round ch" by simp_all
qed

lemma chain_call_cases:
  assumes "chain_call run env reg args box ch = (e, t)"
  shows "(e \<noteq> None \<and> t = ch) \<or> (\<exists>a bx. ch_Apps ch (cr_AppID reg) = Some a
    \<and> run (app_Approval a) (app_Creator a) (cr_sender reg) NoOp args (app_Boxes a) = Some bx
    \<and> ch_Apps t = (ch_Apps ch)(cr_AppID reg \<mapsto> a\<lparr>app_Boxes := bx\<rparr>) \<and> ch_Round t = ch_Round ch)"
proof (cases "ce_MinFee env")
  case (Some mf)
  then obtain fee where "submit run (ce_Submit env) (AppCall (cr_sender reg) (cr_AppID reg) args fee (replicate BoxRefs box)) ch = (e, t)"
    using assms by (simp add: chain_call_def Let_def)
  from submit_cases [OF this] show ?thesis by (auto elim!: call_app_cases)
qed (use assms in \<open>auto simp: chain_call_def\<close>)

lemma seal_open:
  assumes "aead_ok P" "record_json P r" "SealRecord P key r nonce = Inr blob"
  shows "OpenRecord P key (BoxName P key (rec_ID r)) blob = Inr r"
  using assms by (auto simp: SealRecord_def OpenRecord_def aead_ok_def record_json_def split: option.splits if_splits)

lemma chain_Put_cases:
  assumes "abi_ok A" "tags_ok P reg" "\<forall>a. ch_Apps ch (cr_AppID reg) = Some a \<longrightarrow> run (app_Approval a) = approval"
    and "chain_Put P A run reg env r ch = (e, t)"
  shows "(e \<noteq> None \<and> ch_Apps t = ch_Apps ch \<and> ch_Round t = ch_Round ch)
    \<or> (\<exists>a nonce blob. ch_Apps ch (cr_AppID reg) = Some a \<and> cr_sender reg = app_Creator a \<and> SealRecord P (cr_Key reg) r nonce = Inr blob
         \<and> ch_Apps t = (ch_Apps ch)(cr_AppID reg \<mapsto> a\<lparr>app_Boxes := AList.update (BoxName P (cr_Key reg) (rec_ID r)) blob (app_Boxes a)\<rparr>)
         \<and> ch_Round t = ch_Round ch)"
proof -
  let ?key = "cr_Key reg" and ?name = "BoxName P (cr_Key reg) (rec_ID r)"
  consider "e \<noteq> None" "t = ch" | nonce blob where "ce_Nonce env = Some nonce" "SealRecord P ?key r nonce = Inr blob" "length blob \<le> MaxValueLen"
    using assms(4) by (force simp: chain_Put_def split: option.splits sum.splits if_splits)
  then show ?thesis
  proof cases
    case 2
    have tag: "length (BoxTag P ?key (rec_ID r)) = 16" using assms(2) by (simp add: tags_ok_def BoxTagLen_def)
    obtain args where args: "PutArgs A (BoxTag P ?key (rec_ID r)) blob = Inr args"
        "\<And>c sender bx. approval c sender NoOp args bx = (if sender = c then Some (AList.update ?name blob bx) else None)"
      using put_args [OF assms(1) tag 2(3)] unfolding BoxName_def by metis
    obtain e1 c where f: "ensureFunded run env reg (length ?name) (length blob) ch = (e1, c)" by fastforce
    note same = ensureFunded_same [OF f]
    show ?thesis
    proof (cases e1)
      case None
      then have "chain_call run env reg args ?name c = (e, t)" using assms(4) 2 args(1) f by (simp add: chain_Put_def)
      from chain_call_cases [OF this] show ?thesis
      proof (elim disjE exE conjE)
        fix a bx
        assume a: "ch_Apps c (cr_AppID reg) = Some a" "run (app_Approval a) (app_Creator a) (cr_sender reg) NoOp args (app_Boxes a) = Some bx"
          "ch_Apps t = (ch_Apps c)(cr_AppID reg \<mapsto> a\<lparr>app_Boxes := bx\<rparr>)" "ch_Round t = ch_Round c"
        then have "run (app_Approval a) = approval" using assms(3) same by simp
        then have "bx = AList.update ?name blob (app_Boxes a)" "cr_sender reg = app_Creator a" using a(2) args(2) by (simp_all split: if_splits)
        then show ?thesis using a same 2(2) by auto
      qed (use same in simp)
    qed (use same assms(4) 2 args(1) f in \<open>auto simp: chain_Put_def\<close>)
  qed simp
qed

lemma length_update: "length (AList.update k v bx) = (if map_of bx k = None then Suc (length bx) else length bx)"
  by (induction bx) auto

lemma opened_update:
  assumes "IsRecordBox (BoxName P key (rec_ID r))" "OpenRecord P key (BoxName P key (rec_ID r)) blob = Inr r"
    and "\<And>q. opened P key bx (BoxName P key (rec_ID r)) = Some q \<Longrightarrow> rec_ID q = rec_ID r"
  shows "{q. \<exists>n. opened P key (AList.update (BoxName P key (rec_ID r)) blob bx) n = Some q}
    = insert r {x \<in> {q. \<exists>n. opened P key bx n = Some q}. rec_ID x \<noteq> rec_ID r}"
proof -
  let ?name = "BoxName P key (rec_ID r)"
  have o: "opened P key (AList.update ?name blob bx) n = (if n = ?name then Some r else opened P key bx n)" for n
    using assms(1,2) by (simp add: opened_def update_conv)
  have "rec_ID x \<noteq> rec_ID r" if "opened P key bx n = Some x" "n \<noteq> ?name" for n x using opened_name [OF that(1)] that(2) by metis
  moreover have "n \<noteq> ?name" if "opened P key bx n = Some x" "rec_ID x \<noteq> rec_ID r" for n x using assms(3) that by blast
  ultimately show ?thesis unfolding o by (auto split: if_splits) blast
qed

lemma tags_record_box: "tags_ok P reg \<Longrightarrow> IsRecordBox (BoxName P (cr_Key reg) i)"
  by (simp add: tags_ok_def IsRecordBox_def BoxName_def)

text \<open>What a put that was committed does to the listing, and to the conditions of the next one.\<close>

lemma committed_put:
  assumes "cr_AppID reg \<noteq> 0" "tags_ok P reg" "chain_ok run reg ch" "chain_fits P reg r ch" "ch_Apps ch (cr_AppID reg) = Some a"
    and "OpenRecord P (cr_Key reg) (BoxName P (cr_Key reg) (rec_ID r)) blob = Inr r"
    and "ch_Apps t = (ch_Apps ch)(cr_AppID reg \<mapsto> a\<lparr>app_Boxes := AList.update (BoxName P (cr_Key reg) (rec_ID r)) blob (app_Boxes a)\<rparr>)"
  shows "chain_ok run reg t"
    and "\<exists>recs rd recs' rd'. chain_List P reg (reads reg ch) = Inr (recs, rd) \<and> chain_List P reg (reads reg t) = Inr (recs', rd')
      \<and> set recs' = insert r {x \<in> set recs. rec_ID x \<noteq> rec_ID r}"
proof -
  let ?name = "BoxName P (cr_Key reg) (rec_ID r)"
  have o: "length (app_Boxes a) \<le> cr_MaxRecords reg" "distinct (map fst (app_Boxes a))" "run (app_Approval a) = approval"
    using assms(3,5) by (simp_all add: chain_ok_def)
  have l: "length (AList.update ?name blob (app_Boxes a)) \<le> cr_MaxRecords reg"
    using assms(4,5) o(1) by (simp add: chain_fits_def length_update split: option.splits)
  have q: "rec_ID q = rec_ID r" if "opened P (cr_Key reg) (app_Boxes a) ?name = Some q" for q
    using that assms(4,5) by (auto simp: chain_fits_def opened_def split: option.splits sum.splits if_splits)
  show "chain_ok run reg t" using l o distinct_update [OF o(2)] assms(7) by (simp add: chain_ok_def)
  have t: "ch_Apps t (cr_AppID reg) = Some (a\<lparr>app_Boxes := AList.update ?name blob (app_Boxes a)\<rparr>)" using assms(7) by simp
  show "\<exists>recs rd recs' rd'. chain_List P reg (reads reg ch) = Inr (recs, rd) \<and> chain_List P reg (reads reg t) = Inr (recs', rd')
      \<and> set recs' = insert r {x \<in> set recs. rec_ID x \<noteq> rec_ID r}"
    using chain_listing [OF assms(1,5) o(1), of P] chain_listing [OF assms(1) t, of P] l
      opened_update [OF tags_record_box [OF assms(2)] assms(6) q] by (simp add: set_map_filter_boxes)
qed

lemma chain_Put_ok:
  assumes "abi_ok A" "aead_ok P" "tags_ok P reg" "cr_AppID reg \<noteq> 0" "chain_ok run reg ch" "chain_fits P reg r ch"
    and "chain_Put P A run reg env r ch = (e, t)"
  shows "chain_ok run reg t"
    and "(e \<noteq> None \<and> reads reg t = reads reg ch) \<or> (\<exists>recs rd recs' rd'. chain_List P reg (reads reg ch) = Inr (recs, rd)
      \<and> chain_List P reg (reads reg t) = Inr (recs', rd') \<and> set recs' = insert r {x \<in> set recs. rec_ID x \<noteq> rec_ID r})"
proof -
  have j: "record_json P r" using assms(6) by (simp add: chain_fits_def)
  have run: "\<forall>a. ch_Apps ch (cr_AppID reg) = Some a \<longrightarrow> run (app_Approval a) = approval" using assms(5) by (auto simp: chain_ok_def)
  note c = chain_Put_cases [OF assms(1,3) run assms(7)]
  show "chain_ok run reg t"
    using c committed_put(1) [OF assms(4,3,5,6)] seal_open [OF assms(2) j] assms(5) by (auto simp: chain_ok_def)
  show "(e \<noteq> None \<and> reads reg t = reads reg ch) \<or> (\<exists>recs rd recs' rd'. chain_List P reg (reads reg ch) = Inr (recs, rd)
      \<and> chain_List P reg (reads reg t) = Inr (recs', rd') \<and> set recs' = insert r {x \<in> set recs. rec_ID x \<noteq> rec_ID r})"
    using c listing_same [of t ch reg] committed_put(2) [OF assms(4,3,5,6)] seal_open [OF assms(2) j] by blast
qed

text \<open>The registry on chain keeps the promises of the interface.\<close>

lemma chain_laws:
  assumes "abi_ok A" "aead_ok P" "tags_ok P reg" "cr_AppID reg \<noteq> 0"
  shows "registry (\<lambda>ch. chain_List P reg (reads reg ch)) (chain_Put P A run reg) (chain_ok run reg) (chain_fits P reg)"
proof
  fix ch recs rd
  assume "chain_ok run reg ch" "chain_List P reg (reads reg ch) = Inr (recs, rd)"
  then show "distinct (map rec_ID recs)" by (rule chain_listing_once)
next
  fix ch r env
  assume "chain_ok run reg ch" "chain_fits P reg r ch"
  then show "chain_ok run reg (snd (chain_Put P A run reg env r ch))" using chain_Put_ok(1) [OF assms] by (metis prod.collapse)
next
  fix ch r env t
  assume "chain_ok run reg ch" "chain_fits P reg r ch" "chain_Put P A run reg env r ch = (None, t)"
  from chain_Put_ok(2) [OF assms this] show "\<exists>recs rd recs' rd'. chain_List P reg (reads reg ch) = Inr (recs, rd)
      \<and> chain_List P reg (reads reg t) = Inr (recs', rd') \<and> set recs' = insert r {x \<in> set recs. rec_ID x \<noteq> rec_ID r}" by simp
next
  fix ch r env e t recs rd
  assume "chain_ok run reg ch" "chain_fits P reg r ch" "chain_Put P A run reg env r ch = (Some e, t)"
    and l: "chain_List P reg (reads reg ch) = Inr (recs, rd)"
  from chain_Put_ok(2) [OF assms this(1-3)] show "\<exists>recs' rd'. chain_List P reg (reads reg t) = Inr (recs', rd')
      \<and> (set recs' = set recs \<or> set recs' = insert r {x \<in> set recs. rec_ID x \<noteq> rec_ID r})"
    by (elim disjE) (use l in auto)
qed

lemma chain_Put_answered:
  assumes "abi_ok A" "tags_ok P reg" "Validate r = None" "answers P reg env r"
    and "ch_Apps ch (cr_AppID reg) = Some a" "run (app_Approval a) = approval" "app_Creator a = cr_sender reg"
  shows "fst (chain_Put P A run reg env r ch) = None"
proof -
  let ?name = "BoxName P (cr_Key reg) (rec_ID r)"
  obtain nonce blob where n: "ce_Nonce env = Some nonce" "SealRecord P (cr_Key reg) r nonce = Inr blob" "length blob \<le> MaxValueLen"
    using assms(3,4) by (auto simp: answers_def SealRecord_def)
  have tag: "length (BoxTag P (cr_Key reg) (rec_ID r)) = 16" using assms(2) by (simp add: tags_ok_def BoxTagLen_def)
  obtain args where args: "PutArgs A (BoxTag P (cr_Key reg) (rec_ID r)) blob = Inr args"
      "\<And>c sender bx. approval c sender NoOp args bx = (if sender = c then Some (AList.update ?name blob bx) else None)"
    using put_args [OF assms(1) tag n(3)] unfolding BoxName_def by metis
  have "fst (ensureFunded run env reg (length ?name) (length blob) ch) = None"
    using assms(4) by (auto simp: answers_def ensureFunded_def submit_confirmed Let_def)
  then obtain c where f: "ensureFunded run env reg (length ?name) (length blob) ch = (None, c)" by (metis prod.collapse)
  have "ch_Apps c (cr_AppID reg) = Some a" using ensureFunded_same(1) [OF f] assms(5) by simp
  then have "fst (chain_call run env reg args ?name c) = None"
    using assms(4,6,7) args(2) by (auto simp: answers_def chain_call_def call_app_def submit_confirmed Let_def)
  then show ?thesis using n args(1) f by (simp add: chain_Put_def)
qed

lemma refresh_cases:
  assumes "rs_AutoRegister opts" "refresh put opts env (Inr (recs, rd)) (Some want) False s = (read, registered, given, t)"
  shows "read" "given \<noteq> None"
    and "registered \<Longrightarrow> given \<noteq> None \<and> refresh put opts env (Inr (recs, rd)) (Some want) False s = (True, True, Some (the given), t)"
    and "\<not> registered \<Longrightarrow> \<exists>r e. register_record recs want rd = (r, True) \<and> put env r s = (Some e, t) \<and> given = Some recs"
  using assms by (auto simp: refresh_def register_def split: prod.splits option.splits bool.splits)

subsection \<open>Administration\<close>

text \<open>What an operation keeps of an application: its creator, and what becomes of its program and of one of its boxes.\<close>

lemma Delete_keeps:
  assumes "abi_ok A" "tags_ok P reg" "\<forall>a. ch_Apps ch (cr_AppID reg) = Some a \<longrightarrow> run (app_Approval a) = approval"
    and "chain_Delete P A run reg env i ch = (e, t)"
  shows "ch_Apps t = ch_Apps ch \<or> (\<exists>a. ch_Apps ch (cr_AppID reg) = Some a \<and> cr_sender reg = app_Creator a
    \<and> ch_Apps t = (ch_Apps ch)(cr_AppID reg \<mapsto> a\<lparr>app_Boxes := AList.delete (BoxName P (cr_Key reg) i) (app_Boxes a)\<rparr>))"
proof -
  have tag: "length (BoxTag P (cr_Key reg) i) = 16" using assms(2) by (simp add: tags_ok_def BoxTagLen_def)
  note args = remove_args [OF assms(1) tag, folded BoxName_def]
  have "chain_call run env reg [remove_selector, BoxTag P (cr_Key reg) i] (BoxName P (cr_Key reg) i) ch = (e, t)"
    using assms(4) args(1) by (simp add: chain_Delete_def)
  from chain_call_cases [OF this] show ?thesis
  proof (elim disjE exE conjE)
    fix a bx
    assume a: "ch_Apps ch (cr_AppID reg) = Some a" "ch_Apps t = (ch_Apps ch)(cr_AppID reg \<mapsto> a\<lparr>app_Boxes := bx\<rparr>)"
      "run (app_Approval a) (app_Creator a) (cr_sender reg) NoOp [remove_selector, BoxTag P (cr_Key reg) i] (app_Boxes a) = Some bx"
    then have "bx = AList.delete (BoxName P (cr_Key reg) i) (app_Boxes a)" "cr_sender reg = app_Creator a"
      using assms(3) args(2) by (simp_all split: if_splits)
    then show ?thesis using a(1,2) by auto
  qed simp
qed

lemma Inspect_read:
  assumes "Inspect em env app ch = (None, st)"
  obtains a where "ch_Apps ch app = Some a" "as_Creator st = app_Creator a" "as_Boxes st = length (app_Boxes a)"
    "as_Foreign st = length (filter (\<lambda>b. \<not> IsRecordBox (fst b)) (app_Boxes a))"
  using assms by (auto simp: Inspect_def Let_def split: option.splits bool.splits if_splits)

lemma Create_keeps:
  assumes "Create em run env reg ch = (e, reg', t)" "app \<noteq> ce_AppIndex env"
  shows "ch_Apps t app = ch_Apps ch app"
proof -
  obtain prog clear where pr: "programs em env = (prog, clear)" by fastforce
  obtain e1 c where c: "submit run (ce_Submit env) (AppCreate (cr_sender reg) (ce_AppIndex env) prog clear) ch = (e1, c)" by fastforce
  have s: "ch_Apps c app = ch_Apps ch app" using submit_cases [OF c] assms(2) by auto
  show ?thesis
  proof (cases "ce_MinFee env = None \<or> e1 \<noteq> None")
    case True
    then show ?thesis using assms(1) pr c s by (auto simp: Create_def split: if_splits)
  next
    case False
    then obtain e2 where "ensureFunded run env (reg\<lparr>cr_AppID := ce_AppIndex env\<rparr>) 0 0 c = (e2, t)"
      using assms(1) pr c by (auto simp: Create_def Let_def split: prod.splits)
    from ensureFunded_same(1) [OF this] show ?thesis using s by simp
  qed
qed

lemma Update_keeps:
  assumes "\<forall>a. ch_Apps ch app = Some a \<longrightarrow> run (app_Approval a) = approval" "Update em run env reg app ch = (e, t)"
  shows "ch_Apps t = ch_Apps ch \<or> (\<exists>a prog clear. ch_Apps ch app = Some a \<and> cr_sender reg = app_Creator a
    \<and> (\<forall>b \<in> set (app_Boxes a). IsRecordBox (fst b)) \<and> ch_Apps t = (ch_Apps ch)(app \<mapsto> a\<lparr>app_Approval := prog, app_Clear := clear\<rparr>))"
proof -
  consider "t = ch" | st prog clear where "Inspect em env app ch = (None, st)" "as_Creator st = cr_sender reg" "as_Foreign st = 0"
      "submit run (ce_Submit env) (AppUpdate (cr_sender reg) app prog clear) ch = (e, t)"
    using assms(2) by (auto simp: Update_def split: prod.splits option.splits if_splits)
  then show ?thesis
  proof cases
    case 2
    from 2(1) obtain a where a: "ch_Apps ch app = Some a" "cr_sender reg = app_Creator a" "\<forall>b \<in> set (app_Boxes a). IsRecordBox (fst b)"
      by (rule Inspect_read) (use 2(2,3) in \<open>auto simp: filter_empty_conv\<close>)
    then have "run (app_Approval a) = approval" using assms(1) by simp
    then have "t = ch \<or> ch_Apps t = (ch_Apps ch)(app \<mapsto> a\<lparr>app_Approval := prog, app_Clear := clear\<rparr>)"
      using submit_cases [OF 2(4)] a by (auto simp: call_app_def)
    then show ?thesis using a by (elim disjE) (simp, blast)
  qed simp
qed

lemma DeleteApp_keeps:
  assumes "DeleteApp em run env reg app ch = (e, t)"
  shows "ch_Apps t = ch_Apps ch \<or> (\<exists>a. ch_Apps ch app = Some a \<and> app_Boxes a = [] \<and> ch_Apps t = (ch_Apps ch)(app := None))"
proof -
  consider "t = ch" | st where "Inspect em env app ch = (None, st)" "as_Boxes st = 0"
      "submit run (ce_Submit env) (AppDelete (cr_sender reg) app) ch = (e, t)"
    using assms by (auto simp: DeleteApp_def split: prod.splits option.splits if_splits)
  then show ?thesis
  proof cases
    case 2
    from 2(1) obtain a where "ch_Apps ch app = Some a" "app_Boxes a = []" by (rule Inspect_read) (use 2(2) in auto)
    then show ?thesis using submit_cases [OF 2(3)] by (auto elim!: call_app_cases)
  qed simp
qed

section \<open>Properties\<close>

text \<open>
  C13. Registering itself on chain. When every node answers and transactions are confirmed, a valid
  record that fits a call is registered. A registered node is listed with what it wants to publish, and
  another refresh finds it so and sends nothing. Whatever fails, and also when a transaction that was
  never seen confirmed is committed after all, the records of the other nodes stay as they were and the
  node's own is the one before or the new one.
\<close>

theorem chain_registration:
  assumes "abi_ok A" and "aead_ok P" and "tags_ok P reg" and "cr_AppID reg \<noteq> 0" and "chain_ok run reg ch"
    and "chain_List P reg (reads reg ch) = Inr (recs, rd)" and "rs_AutoRegister opts"
    and "chain_fits P reg (fst (register_record recs want rd)) ch"
    and "refresh (chain_Put P A run reg) opts env (Inr (recs, rd)) (Some want) False ch = (read, registered, given, t)"
  shows "read \<and> (Validate want = None \<and> answers P reg env (fst (register_record recs want rd))
        \<and> (\<exists>a. ch_Apps ch (cr_AppID reg) = Some a \<and> app_Creator a = cr_sender reg) \<longrightarrow> registered)
    \<and> (\<exists>listed rd'. chain_List P reg (reads reg t) = Inr (listed, rd')
         \<and> {x \<in> set listed. rec_ID x \<noteq> rec_ID want} = {x \<in> set recs. rec_ID x \<noteq> rec_ID want}
         \<and> (if registered
            then given \<noteq> None \<and> set (the given) = set listed \<and> (\<exists>r \<in> set listed. StaticEqual r want)
              \<and> (\<forall>env'. refresh (chain_Put P A run reg) opts env' (Inr (listed, rd')) (Some want) False t = (True, True, Some listed, t))
            else given = Some recs \<and> (set listed = set recs \<or> (\<exists>r \<in> set listed. StaticEqual r want))))"
proof -
  note laws = chain_laws [OF assms(1-4), of run]
  note rc = refresh_cases [OF assms(7,9)]
  obtain r b where rb: "register_record recs want rd = (r, b)" by fastforce
  note st = register_record_static [OF rb]
  have live: "registered" if "Validate want = None" "answers P reg env r" "ch_Apps ch (cr_AppID reg) = Some a" "app_Creator a = cr_sender reg" for a
  proof (rule ccontr)
    assume "\<not> registered"
    then obtain e where e: "b" "chain_Put P A run reg env r ch = (Some e, t)" using rc(4) rb by auto
    then have "Validate r = None" using register_record_valid rb that(1) by metis
    moreover have "run (app_Approval a) = approval" using assms(5) that(3) by (simp add: chain_ok_def)
    ultimately show False using chain_Put_answered [OF assms(1,3) _ that(2,3) _ that(4)] e(2) by (metis fst_conv option.distinct(1))
  qed
  show ?thesis
  proof (cases registered)
    case True
    then show ?thesis using registry.registered [OF laws assms(5-8)] rc(1-3) by fastforce
  next
    case False
    then obtain e where e: "chain_Put P A run reg env r ch = (Some e, t)" "given = Some recs" using rc(4) rb by auto
    have "chain_fits P reg r ch" using assms(8) rb by simp
    then obtain listed rd' where l: "chain_List P reg (reads reg t) = Inr (listed, rd')"
        "set listed = set recs \<or> set listed = insert r {x \<in> set recs. rec_ID x \<noteq> rec_ID r}"
      using registry.put_failed [OF laws assms(5) _ e(1) assms(6)] by blast
    have "rec_ID r = rec_ID want" using st by (simp add: StaticEqual_iff)
    then show ?thesis using l e(2) rc(1) False live rb st by auto
  qed
qed

lemma sample_registry_ok:
  "tags_ok sample_primitives sample_registry" "cr_AppID sample_registry \<noteq> 0" "chain_ok (\<lambda>_. approval) sample_registry sample_chain"
  "chain_List sample_primitives sample_registry (reads sample_registry sample_chain) = Inr ([], 0)"
  by (simp_all add: tags_ok_def BoxTag_def BoxTagLen_def sample_primitives_def sample_registry_def chain_ok_def sample_chain_def
      chain_List_def reads_def)

lemma sample_stamped: "register_record [] sample_record 0 = (sample_record, True)"
  by (simp add: register_record_def sample_record_def Let_def)

theorem chain_registration_witness:
  "\<exists>given t listed rd'. refresh (chain_Put sample_primitives sample_abi (\<lambda>_. approval) sample_registry) \<lparr>rs_Refresh = 0, rs_AutoRegister = True\<rparr>
       sample_chain_env (Inr ([], 0)) (Some sample_record) False sample_chain = (True, True, given, t)
     \<and> chain_List sample_primitives sample_registry (reads sample_registry t) = Inr (listed, rd') \<and> (\<exists>r \<in> set listed. StaticEqual r sample_record)"
proof -
  let ?o = "\<lparr>rs_Refresh = 0, rs_AutoRegister = True\<rparr>" and ?put = "chain_Put sample_primitives sample_abi (\<lambda>_. approval) sample_registry"
  obtain read registered given t where r: "refresh ?put ?o sample_chain_env (Inr ([], 0)) (Some sample_record) False sample_chain = (read, registered, given, t)"
    by (metis prod_cases4)
  have a: "rs_AutoRegister ?o" by simp
  have f: "chain_fits sample_primitives sample_registry (fst (register_record [] sample_record 0)) sample_chain"
    using sample_primitives_ok(3) unfolding sample_stamped by (simp add: chain_fits_def sample_registry_def sample_chain_def)
  have v: "Validate sample_record = None" by code_simp
  have n: "answers sample_primitives sample_registry sample_chain_env (fst (register_record [] sample_record 0))"
    unfolding sample_stamped by (simp add: answers_def sample_chain_env_def sample_primitives_def sample_registry_def recordNonceLen_def limits
        BoxName_def BoxKeyPrefix_def BoxTag_def)
  have c: "\<exists>a. ch_Apps sample_chain (cr_AppID sample_registry) = Some a \<and> app_Creator a = cr_sender sample_registry"
    by (simp add: sample_chain_def sample_registry_def)
  note x = chain_registration [OF sample_abi_ok sample_primitives_ok(1) sample_registry_ok(1-4) a f r]
  then have "registered" using v n c by blast
  then show ?thesis using x r by (auto split: if_splits)
qed



end
