(* ===== verification/Base64.thy ===== *)
theory Base64
  imports Config
begin

text \<open>
  encoding/base64 as the code uses it, beside the decoder of Config: the standard encoder, and the
  decoders without padding over the standard and the URL-safe alphabet.
\<close>

definition b64_char :: "nat \<Rightarrow> char" where
  "b64_char n = char_of (if n < 26 then n + 65 else if n < 52 then n + 71 else if n < 62 then n - 4 else if n = 62 then 43 else 47)"

definition url_char :: "char \<Rightarrow> char" where
  "url_char c = (if c = CHR ''+'' then CHR ''-'' else if c = CHR ''/'' then CHR ''_'' else c)"

definition url_digit :: "char \<Rightarrow> nat option" where
  "url_digit c = (if c = CHR ''-'' then Some 62 else if c = CHR ''_'' then Some 63
     else if c = CHR ''+'' \<or> c = CHR ''/'' then None else b64_digit c)"

fun b64_raw :: "8 word list \<Rightarrow> string" where
  "b64_raw [] = []"
| "b64_raw [a] = map b64_char [unat a div 4, 16 * (unat a mod 4)]"
| "b64_raw [a, b] = map b64_char [unat a div 4, 16 * (unat a mod 4) + unat b div 16, 4 * (unat b mod 16)]"
| "b64_raw (a # b # c # bs) =
     map b64_char [unat a div 4, 16 * (unat a mod 4) + unat b div 16, 4 * (unat b mod 16) + unat c div 64, unat c mod 64] @ b64_raw bs"

definition base64_EncodeToString :: "8 word list \<Rightarrow> string" where
  "base64_EncodeToString bs =
     b64_raw bs @ (case length bs mod 3 of 0 \<Rightarrow> [] | Suc 0 \<Rightarrow> ''=='' | _ \<Rightarrow> ''='')"

fun raw_quanta :: "(char \<Rightarrow> nat option) \<Rightarrow> string \<Rightarrow> 8 word list option" where
  "raw_quanta digit [] = Some []"
| "raw_quanta digit [_] = None"
| "raw_quanta digit [a, b] =
     (case (digit a, digit b) of (Some w, Some x) \<Rightarrow> Some [word_of_nat (4 * w + x div 16)] | _ \<Rightarrow> None)"
| "raw_quanta digit [a, b, c] =
     (case (digit a, digit b, digit c) of
        (Some w, Some x, Some y) \<Rightarrow> Some (map word_of_nat [4 * w + x div 16, 16 * (x mod 16) + y div 4])
      | _ \<Rightarrow> None)"
| "raw_quanta digit (a # b # c # d # cs) =
     (case (digit a, digit b, digit c, digit d) of
        (Some w, Some x, Some y, Some z) \<Rightarrow>
          map_option (\<lambda>bs. map word_of_nat [4 * w + x div 16, 16 * (x mod 16) + y div 4, 64 * (y mod 4) + z] @ bs) (raw_quanta digit cs)
      | _ \<Rightarrow> None)"

definition raw_DecodeString :: "(char \<Rightarrow> nat option) \<Rightarrow> string \<Rightarrow> 8 word list option" where
  "raw_DecodeString digit s = raw_quanta digit (filter (\<lambda>c. c \<noteq> CHR 0x0A \<and> c \<noteq> CHR 0x0D) s)"

section \<open>Lemmas\<close>

definition b64_safe :: "char \<Rightarrow> bool" where
  "b64_safe c = (c \<noteq> CHR ''='' \<and> \<not> is_space c \<and> c \<noteq> CHR 0x0A \<and> c \<noteq> CHR 0x0D)"

lemma char_eq_code: "c = d \<longleftrightarrow> of_char c = (of_char d :: nat)"
  by simp

lemma is_space_code: "is_space c \<longleftrightarrow> of_char c \<in> {9, 10, 11, 12, 13, 32 :: nat}"
proof -
  have "(of_char c :: int) = int (of_char c)" by (cases c) (simp add: of_char_def)
  then show ?thesis by (auto simp: is_space_def)
qed

lemma b64_code:
  assumes "n < 64"
  shows "of_char (b64_char n) = (if n < 26 then n + 65 else if n < 52 then n + 71 else if n < 62 then n - 4 else if n = 62 then 43 else 47 :: nat)"
  using assms by (simp add: b64_char_def)

lemma url_code:
  assumes "n < 64"
  shows "of_char (url_char (b64_char n))
    = (if n < 26 then n + 65 else if n < 52 then n + 71 else if n < 62 then n - 4 else if n = 62 then 45 else 95 :: nat)"
proof -
  have "b64_char n = CHR ''+'' \<longleftrightarrow> n = 62" "b64_char n = CHR ''/'' \<longleftrightarrow> n = 63"
    unfolding char_eq_code b64_code [OF assms] using assms by auto
  then show ?thesis using b64_code [OF assms] assms by (auto simp: url_char_def)
qed

lemma alphabet:
  assumes "n < 64"
  shows "b64_digit (b64_char n) = Some n" "url_digit (url_char (b64_char n)) = Some n" "b64_safe (b64_char n)" "b64_safe (url_char (b64_char n))"
    "b64_digit (url_char (b64_char n)) = (if n < 62 then Some n else None)"
proof -
  show "b64_digit (b64_char n) = Some n" unfolding b64_digit_def b64_code [OF assms] Let_def using assms by auto
  show "b64_digit (url_char (b64_char n)) = (if n < 62 then Some n else None)"
    unfolding b64_digit_def url_code [OF assms] Let_def using assms by auto
  then show "url_digit (url_char (b64_char n)) = Some n"
    unfolding url_digit_def char_eq_code url_code [OF assms] using assms by auto
  show "b64_safe (b64_char n)" unfolding b64_safe_def is_space_code char_eq_code b64_code [OF assms] using assms by auto
  show "b64_safe (url_char (b64_char n))" unfolding b64_safe_def is_space_code char_eq_code url_code [OF assms] using assms by auto
qed

lemma byte_bound: "unat (a :: 8 word) < 256"
  using unsigned_less [of a] by simp

lemma byte_digits:
  fixes a b c :: "8 word"
  shows "unat a div 4 < 64" "16 * (unat a mod 4) + unat b div 16 < 64" "4 * (unat b mod 16) + unat c div 64 < 64" "unat c mod 64 < 64"
    "16 * (unat a mod 4) < 64" "4 * (unat b mod 16) < 64"
proof -
  have "unat a mod 4 < 4" "unat b mod 16 < 16" "unat b div 16 < 16" "unat c div 64 < 4"
    using byte_bound [of b] byte_bound [of c] by (simp_all add: less_mult_imp_div_less)
  then show "16 * (unat a mod 4) + unat b div 16 < 64" "4 * (unat b mod 16) + unat c div 64 < 64" "unat c mod 64 < 64"
    "16 * (unat a mod 4) < 64" "4 * (unat b mod 16) < 64" "unat a div 4 < 64" using byte_bound [of a] by (linarith, linarith, simp, linarith, linarith, linarith)
qed

lemma byte_join:
  fixes a b c :: "8 word"
  shows "4 * (unat a div 4) + (16 * (unat a mod 4) + unat b div 16) div 16 = unat a"
    "16 * ((16 * (unat a mod 4) + unat b div 16) mod 16) + (4 * (unat b mod 16) + unat c div 64) div 4 = unat b"
    "64 * ((4 * (unat b mod 16) + unat c div 64) mod 4) + unat c mod 64 = unat c"
proof -
  have "unat b div 16 < 16" "unat c div 64 < 4" using byte_bound [of b] byte_bound [of c] by (simp_all add: less_mult_imp_div_less)
  then have "(16 * (unat a mod 4) + unat b div 16) div 16 = unat a mod 4" "(16 * (unat a mod 4) + unat b div 16) mod 16 = unat b div 16"
    "(4 * (unat b mod 16) + unat c div 64) div 4 = unat b mod 16" "(4 * (unat b mod 16) + unat c div 64) mod 4 = unat c div 64"
    by (simp_all add: div_add1_eq mod_add_eq)
  then show "4 * (unat a div 4) + (16 * (unat a mod 4) + unat b div 16) div 16 = unat a"
    "16 * ((16 * (unat a mod 4) + unat b div 16) mod 16) + (4 * (unat b mod 16) + unat c div 64) div 4 = unat b"
    "64 * ((4 * (unat b mod 16) + unat c div 64) mod 4) + unat c mod 64 = unat c" by simp_all
qed

lemma byte_words:
  fixes a b c :: "8 word"
  shows "(word_of_nat (4 * (unat a div 4) + (16 * (unat a mod 4) + unat b div 16) div 16) :: 8 word) = a"
    "(word_of_nat (16 * ((16 * (unat a mod 4) + unat b div 16) mod 16) + (4 * (unat b mod 16) + unat c div 64) div 4) :: 8 word) = b"
    "(word_of_nat (64 * ((4 * (unat b mod 16) + unat c div 64) mod 4) + unat c mod 64) :: 8 word) = c"
    "(word_of_nat (4 * (unat a div 4) + 16 * (unat a mod 4) div 16) :: 8 word) = a"
    "(word_of_nat (16 * ((16 * (unat a mod 4) + unat b div 16) mod 16) + 4 * (unat b mod 16) div 4) :: 8 word) = b"
  unfolding byte_join using byte_join(1) [of a 0] byte_join(2) [of a b 0] by simp_all

lemma raw_roundtrip:
  assumes "\<And>n. n < 64 \<Longrightarrow> digit (f (b64_char n)) = Some n"
  shows "raw_quanta digit (map f (b64_raw bs)) = Some bs"
proof (induction bs rule: b64_raw.induct)
  case (2 a)
  show ?case unfolding b64_raw.simps list.map raw_quanta.simps assms [OF byte_digits(1)] assms [OF byte_digits(5)] prod.case option.case byte_words ..
next
  case (3 a b)
  show ?case unfolding b64_raw.simps list.map raw_quanta.simps assms [OF byte_digits(1)] assms [OF byte_digits(2)] assms [OF byte_digits(6)]
    prod.case option.case byte_words ..
next
  case (4 a b c bs)
  show ?case unfolding b64_raw.simps list.map map_append append_Cons append_Nil raw_quanta.simps assms [OF byte_digits(1)] assms [OF byte_digits(2)]
    assms [OF byte_digits(3)] assms [OF byte_digits(4)] prod.case option.case byte_words 4 option.map ..
qed simp

lemma pad_digit: "b64_digit CHR ''='' = None"
  by (simp add: b64_digit_def)

lemma quanta_roundtrip: "b64_quanta (base64_EncodeToString bs) = Some bs"
proof (induction bs rule: b64_raw.induct)
  case (2 a)
  have e: "base64_EncodeToString [a] = map b64_char [unat a div 4, 16 * (unat a mod 4)] @ ''==''" by (simp add: base64_EncodeToString_def)
  show ?case unfolding e list.map append_Cons append_Nil b64_quanta.simps alphabet(1) [OF byte_digits(1)] alphabet(1) [OF byte_digits(5)] pad_digit
    prod.case option.case byte_words by simp
next
  case (3 a b)
  have e: "base64_EncodeToString [a, b] = map b64_char [unat a div 4, 16 * (unat a mod 4) + unat b div 16, 4 * (unat b mod 16)] @ ''=''"
    by (simp add: base64_EncodeToString_def)
  show ?case unfolding e list.map append_Cons append_Nil b64_quanta.simps alphabet(1) [OF byte_digits(1)] alphabet(1) [OF byte_digits(2)]
    alphabet(1) [OF byte_digits(6)] pad_digit prod.case option.case byte_words by simp
next
  case (4 a b c bs)
  have "length (a # b # c # bs) mod 3 = length bs mod 3" by simp
  then show ?case using 4 unfolding base64_EncodeToString_def b64_raw.simps list.map append_Cons append_Nil append_assoc b64_quanta.simps
      alphabet(1) [OF byte_digits(1)] alphabet(1) [OF byte_digits(2)] alphabet(1) [OF byte_digits(3)] alphabet(1) [OF byte_digits(4)] prod.case option.case
      byte_words by simp
qed (simp add: base64_EncodeToString_def)

lemma b64_raw_safe: "list_all b64_safe (b64_raw bs)" "list_all b64_safe (map url_char (b64_raw bs))"
  by (induction bs rule: b64_raw.induct) (simp_all add: alphabet byte_digits)

lemma safe_filter: "list_all b64_safe s \<Longrightarrow> filter (\<lambda>c. c \<noteq> CHR 0x0A \<and> c \<noteq> CHR 0x0D) s = s"
  by (auto simp: list_all_iff b64_safe_def filter_id_conv)

lemma base64_roundtrip: "base64_DecodeString (base64_EncodeToString bs) = Some bs"
proof -
  let ?keep = "filter (\<lambda>c. c \<noteq> CHR 0x0A \<and> c \<noteq> CHR 0x0D)"
  have "?keep (base64_EncodeToString bs) = base64_EncodeToString bs"
    using safe_filter [OF b64_raw_safe(1), of bs] by (simp add: base64_EncodeToString_def split: nat.split)
  then show ?thesis using quanta_roundtrip by (simp add: base64_DecodeString_def)
qed

lemma raw_quanta_None: "c \<in> set s \<Longrightarrow> digit c = None \<Longrightarrow> raw_quanta digit s = None"
  by (induction digit s rule: raw_quanta.induct) (auto split: option.split)

lemma raw_decoded:
  "raw_DecodeString b64_digit (b64_raw bs) = Some bs" "raw_DecodeString url_digit (map url_char (b64_raw bs)) = Some bs"
  "raw_DecodeString b64_digit (map url_char (b64_raw bs)) \<in> {None, Some bs}"
proof -
  show std: "raw_DecodeString b64_digit (b64_raw bs) = Some bs"
    using raw_roundtrip [of b64_digit id bs] alphabet(1) by (simp add: raw_DecodeString_def safe_filter b64_raw_safe)
  show "raw_DecodeString url_digit (map url_char (b64_raw bs)) = Some bs"
    using raw_roundtrip [of url_digit url_char bs] alphabet(2) by (simp add: raw_DecodeString_def safe_filter b64_raw_safe)
  show "raw_DecodeString b64_digit (map url_char (b64_raw bs)) \<in> {None, Some bs}"
  proof (cases "\<exists>c \<in> set (map url_char (b64_raw bs)). b64_digit c = None")
    case True
    then show ?thesis using raw_quanta_None by (fastforce simp: raw_DecodeString_def safe_filter b64_raw_safe)
  next
    case False
    have "b64_digit CHR ''-'' = None" "b64_digit CHR ''_'' = None" by (simp_all add: b64_digit_def)
    then have "url_char c = c" if "c \<in> set (b64_raw bs)" for c using False that by (force simp: url_char_def split: if_splits)
    then have "map url_char (b64_raw bs) = b64_raw bs" by (simp add: map_idI)
    then show ?thesis using std by simp
  qed
qed

end
