(* ===== verification/HttpClient.thy ===== *)
theory HttpClient
  imports RegistryChain Base64 Classify
begin

text \<open>
  The client of algod's REST API (src/internal/adapters/algodhttp/client.go). What a node answers is the
  environment: a status and a body, or a failure. The JSON decoders of the bodies are arguments.
\<close>

section \<open>Requests\<close>

record Client =
  hc_base :: string
  hc_token :: string

text \<open>The answer to a GET of a URL with a token; None when the request or the reading of the body fails.\<close>

type_synonym http = "string \<Rightarrow> string \<Rightarrow> (nat \<times> string) option"

datatype ClientError = HttpFailed | BadStatus string nat string | Undecoded string | BadBoxName string | NotFound

definition client_New :: "string \<Rightarrow> string \<Rightarrow> Client" where
  "client_New baseURL token = \<lparr>hc_base = TrimSuffix baseURL ''/'', hc_token = token\<rparr>"

definition body_limit :: nat where "body_limit = 4 * 2 ^ 20"

definition client_get :: "http \<Rightarrow> Client \<Rightarrow> string \<Rightarrow> (nat \<times> string) option" where
  "client_get http c path = map_option (\<lambda>(code, body). (code, take body_limit body)) (http (hc_base c @ path) (hc_token c))"

definition truncate_body :: "string \<Rightarrow> string" where
  "truncate_body b = (let s = TrimSpace b in if length s > 200 then take 200 s @ ''...'' else s)"

definition getJSON :: "http \<Rightarrow> Client \<Rightarrow> (string \<Rightarrow> 'a option) \<Rightarrow> string \<Rightarrow> ClientError + ('a \<times> string)" where
  "getJSON http c decode path =
     (case client_get http c path of
        None \<Rightarrow> Inl HttpFailed
      | Some (code, body) \<Rightarrow>
        if code \<noteq> 200 then Inl (BadStatus path code (truncate_body body))
        else (case decode body of None \<Rightarrow> Inl (Undecoded path) | Some v \<Rightarrow> Inr (v, body)))"

record Status =
  st_LastRound :: u64
  st_CatchupTime :: u64
  st_TimeSinceLastMS :: u64
  st_Raw :: string

definition client_Status :: "(string \<Rightarrow> Status option) \<Rightarrow> http \<Rightarrow> Client \<Rightarrow> ClientError + Status" where
  "client_Status decode http c = map_sum id (\<lambda>(st, body). st\<lparr>st_Raw := body\<rparr>) (getJSON http c decode ''/v2/status'')"

definition WaitForBlockAfter :: "(string \<Rightarrow> Status option) \<Rightarrow> http \<Rightarrow> Client \<Rightarrow> u64 \<Rightarrow> ClientError + Status" where
  "WaitForBlockAfter decode http c rd =
     map_sum id (\<lambda>(st, body). st\<lparr>st_Raw := body\<rparr>) (getJSON http c decode (''/v2/status/wait-for-block-after/'' @ show_u64 rd))"

definition HasBlock :: "http \<Rightarrow> Client \<Rightarrow> u64 \<Rightarrow> ClientError + bool" where
  "HasBlock http c rd =
     (let path = ''/v2/blocks/'' @ show_u64 rd @ ''/hash'' in
      case client_get http c path of
        None \<Rightarrow> Inl HttpFailed
      | Some (code, body) \<Rightarrow>
        if code = 200 then Inr True
        else if code = 404 \<or> code = 500 \<and> Contains body ''ledger'' then Inr False
        else Inl (BadStatus path code (truncate_body body)))"

record raw_versions =
  rv_GenesisID :: string
  rv_Major :: int
  rv_Minor :: int
  rv_BuildNumber :: int
  rv_Channel :: string

definition Versions :: "(string \<Rightarrow> raw_versions option) \<Rightarrow> http \<Rightarrow> Client \<Rightarrow> ClientError + (string \<times> string)" where
  "Versions decode http c =
     map_sum id (\<lambda>(raw, _). (rv_GenesisID raw,
         show_int (rv_Major raw) @ ''.'' @ show_int (rv_Minor raw) @ ''.'' @ show_int (rv_BuildNumber raw) @ ''-'' @ rv_Channel raw))
       (getJSON http c decode ''/versions'')"

definition client_SimulateLimits :: "(string \<Rightarrow> SimulateLimits option) \<Rightarrow> http \<Rightarrow> Client \<Rightarrow> ClientError + SimulateLimits option" where
  "client_SimulateLimits decode http c =
     (let path = ''/v2/transactions/simulate/limits'' in
      case client_get http c path of
        None \<Rightarrow> Inl HttpFailed
      | Some (code, body) \<Rightarrow>
        if code = 404 then Inr None
        else if code \<noteq> 200 then Inl (BadStatus path code (truncate_body body))
        else (case decode body of None \<Rightarrow> Inl (Undecoded path) | Some v \<Rightarrow> Inr (Some v)))"

section \<open>Boxes\<close>

text \<open>url.QueryEscape: unreserved characters stand for themselves, a space is a plus, the rest is escaped.\<close>

definition upper_hex :: "nat \<Rightarrow> char" where
  "upper_hex n = char_of (if n < 10 then 48 + n else 55 + n)"

definition unreserved :: "char \<Rightarrow> bool" where
  "unreserved c = (let n = (of_char c :: nat) in 65 \<le> n \<and> n \<le> 90 \<or> 97 \<le> n \<and> n \<le> 122 \<or> 48 \<le> n \<and> n \<le> 57 \<or> n \<in> {45, 46, 95, 126})"

definition escape :: "char \<Rightarrow> string" where
  "escape c = (if unreserved c then [c] else if c = CHR '' '' then ''+''
     else [CHR ''%'', upper_hex (of_char c div 16), upper_hex (of_char c mod 16)])"

definition QueryEscape :: "string \<Rightarrow> string" where
  "QueryEscape s = concat (map escape s)"

fun decode_names :: "string list \<Rightarrow> ClientError + bytes list" where
  "decode_names [] = Inr []"
| "decode_names (n # ns) =
     (case base64_DecodeString n of None \<Rightarrow> Inl (BadBoxName n) | Some b \<Rightarrow> map_sum id ((#) b) (decode_names ns))"

definition boxes_path :: "u64 \<Rightarrow> string" where
  "boxes_path appID = ''/v2/applications/'' @ show_u64 appID @ ''/boxes''"

definition box_path :: "u64 \<Rightarrow> bytes \<Rightarrow> string" where
  "box_path appID name = ''/v2/applications/'' @ show_u64 appID @ ''/box?name='' @ QueryEscape (''b64:'' @ base64_EncodeToString name)"

definition BoxNames :: "(string \<Rightarrow> string list option) \<Rightarrow> http \<Rightarrow> Client \<Rightarrow> u64 \<Rightarrow> ClientError + bytes list" where
  "BoxNames decode http c appID =
     (case getJSON http c decode (boxes_path appID) of Inl e \<Rightarrow> Inl e | Inr (names, _) \<Rightarrow> decode_names names)"

definition Box :: "(string \<Rightarrow> string option) \<Rightarrow> http \<Rightarrow> Client \<Rightarrow> u64 \<Rightarrow> bytes \<Rightarrow> ClientError + bytes" where
  "Box decode http c appID name =
     (case client_get http c (box_path appID name) of
        None \<Rightarrow> Inl HttpFailed
      | Some (code, body) \<Rightarrow>
        if code = 404 then Inl NotFound
        else if code \<noteq> 200 then Inl (BadStatus ''box'' code (truncate_body body))
        else (case decode body of
                None \<Rightarrow> Inl (Undecoded ''box'')
              | Some v \<Rightarrow> (case base64_DecodeString v of None \<Rightarrow> Inl (Undecoded ''box'') | Some b \<Rightarrow> Inr b)))"

text \<open>The reader the registry on chain is given.\<close>

record decoders =
  dc_status :: "string \<Rightarrow> Status option"
  dc_names :: "string \<Rightarrow> string list option"
  dc_value :: "string \<Rightarrow> string option"

definition client_reader :: "decoders \<Rightarrow> http \<Rightarrow> Client \<Rightarrow> u64 \<Rightarrow> box_reader" where
  "client_reader D http c appID =
     \<lparr>br_BoxNames = (case BoxNames (dc_names D) http c appID of Inl _ \<Rightarrow> None | Inr ns \<Rightarrow> Some ns),
      br_Status = (case client_Status (dc_status D) http c of Inl _ \<Rightarrow> None | Inr st \<Rightarrow> Some (st_LastRound st)),
      br_Box = (\<lambda>name. case Box (dc_value D) http c appID name of Inl NotFound \<Rightarrow> BoxMissing | Inl _ \<Rightarrow> BoxFails | Inr v \<Rightarrow> BoxValue v)\<rparr>"

text \<open>A node that serves an application: what it answers to the three requests of a listing.\<close>

definition answers_json :: "http \<Rightarrow> Client \<Rightarrow> string \<Rightarrow> (string \<Rightarrow> 'a option) \<Rightarrow> 'a \<Rightarrow> bool" where
  "answers_json http c path decode v =
     (case http (hc_base c @ path) (hc_token c) of
        None \<Rightarrow> False
      | Some (code, body) \<Rightarrow> code = 200 \<and> length body \<le> body_limit \<and> decode body = Some v)"

definition node_serves :: "decoders \<Rightarrow> http \<Rightarrow> Client \<Rightarrow> u64 \<Rightarrow> boxes \<Rightarrow> u64 \<Rightarrow> bool" where
  "node_serves D http c appID bx rd =
     ((\<exists>st. answers_json http c ''/v2/status'' (dc_status D) st \<and> st_LastRound st = rd)
      \<and> answers_json http c (boxes_path appID) (dc_names D) (map (base64_EncodeToString \<circ> fst) bx)
      \<and> (\<forall>name. case map_of bx name of
           Some v \<Rightarrow> answers_json http c (box_path appID name) (dc_value D) (base64_EncodeToString v)
         | None \<Rightarrow> map_option fst (http (hc_base c @ box_path appID name) (hc_token c)) = Some 404))"

text \<open>A node with one box.\<close>

definition sample_decoders :: decoders where
  "sample_decoders = \<lparr>dc_status = (\<lambda>b. Some \<lparr>st_LastRound = 9, st_CatchupTime = 0, st_TimeSinceLastMS = 0, st_Raw = []\<rparr>),
     dc_names = (\<lambda>b. Some [b]), dc_value = Some\<rparr>"

definition sample_http :: http where
  "sample_http url token =
     (if url = ''http://n1/v2/status'' then Some (200, [])
      else if url = ''http://n1'' @ boxes_path 7 then Some (200, base64_EncodeToString [110, 1])
      else if url = ''http://n1'' @ box_path 7 [110, 1] then Some (200, base64_EncodeToString [5, 6])
      else Some (404, []))"

section \<open>Lemmas\<close>

lemma upper_hex_unhex: "n < 16 \<Longrightarrow> unhex (upper_hex n) = Some (int n)"
proof -
  assume n: "n < 16"
  have "(of_char (upper_hex n) :: int) = int (of_char (upper_hex n))" by (rule of_nat_of_char [symmetric])
  then show ?thesis using n by (auto simp: unhex_def upper_hex_def Let_def)
qed

lemma QueryUnescape_escape: "QueryUnescape (escape c @ s) = map_option ((#) c) (QueryUnescape s)"
proof (cases "unreserved c")
  case True
  then have "c \<noteq> CHR ''%''" "c \<noteq> CHR ''+''" by (auto simp: unreserved_def)
  then show ?thesis using True by (simp add: escape_def)
next
  case False
  show ?thesis
  proof (cases "c = CHR '' ''")
    case True
    then show ?thesis by (simp add: escape_def unreserved_def)
  next
    case other: False
    have b: "(of_char c :: nat) div 16 < 16" "(of_char c :: nat) mod 16 < 16" using nat_of_char_less_256 [of c] by (simp_all add: less_mult_imp_div_less)
    have "16 * int (of_char c div 16) + int (of_char c mod 16) = (of_char c :: int)"
      by (simp flip: of_nat_of_char [where c = c and 'a = int] of_nat_mult of_nat_add add: zdiv_int zmod_int)
    then show ?thesis using other False upper_hex_unhex [OF b(1)] upper_hex_unhex [OF b(2)] by (simp add: escape_def)
  qed
qed

lemma QueryEscape_roundtrip: "QueryUnescape (QueryEscape s) = Some s"
  by (induction s) (simp_all add: QueryEscape_def QueryUnescape_escape)

lemma box_path_inj: "box_path appID n = box_path appID m \<longleftrightarrow> n = m"
proof
  assume "box_path appID n = box_path appID m"
  then have "QueryEscape (''b64:'' @ base64_EncodeToString n) = QueryEscape (''b64:'' @ base64_EncodeToString m)" by (simp add: box_path_def)
  then have "base64_EncodeToString n = base64_EncodeToString m" using QueryEscape_roundtrip by (metis option.inject same_append_eq)
  then show "n = m" using base64_roundtrip by (metis option.inject)
qed simp

lemma decoded_names: "decode_names (map (base64_EncodeToString \<circ> f) xs) = Inr (map f xs)"
  by (induction xs) (simp_all add: base64_roundtrip)

lemma getJSON_answered: "answers_json http c path decode v \<Longrightarrow> \<exists>body. getJSON http c decode path = Inr (v, body)"
  by (auto simp: answers_json_def getJSON_def client_get_def split: option.splits)

lemma client_get_answered:
  "answers_json http c path decode v \<Longrightarrow> \<exists>body. client_get http c path = Some (200, body) \<and> decode body = Some v"
  by (auto simp: answers_json_def client_get_def split: option.splits)

lemma Box_served:
  assumes "node_serves D http c appID bx rd"
  shows "Box (dc_value D) http c appID name = (case map_of bx name of None \<Rightarrow> Inl NotFound | Some v \<Rightarrow> Inr v)"
proof (cases "map_of bx name")
  case None
  then have "map_option fst (http (hc_base c @ box_path appID name) (hc_token c)) = Some 404"
    using assms by (auto simp: node_serves_def dest: spec [where x = name])
  then show ?thesis using None by (auto simp: Box_def client_get_def)
next
  case (Some v)
  then have "answers_json http c (box_path appID name) (dc_value D) (base64_EncodeToString v)"
    using assms by (auto simp: node_serves_def dest: spec [where x = name])
  from client_get_answered [OF this] show ?thesis using Some by (auto simp: Box_def base64_roundtrip)
qed

section \<open>Properties\<close>



end
