(* ===== verification/Bundle.thy ===== *)
theory Bundle
  imports Base64
begin

text \<open>
  The registry bundle of src/internal/config/bundle.go: what a new host needs to join a registry on
  chain, as one string. The SDK's spelling of addresses and the public key of a seed are arguments.
\<close>

section \<open>Definitions\<close>

record Bundle =
  bu_AppID :: u64
  bu_SyncAddress :: string
  bu_Seed :: "8 word list"

datatype BundleError = NoAppIDSet | NoSyncKeySet | SeedError KeyError | BadBase64 | BadLength nat | AppIDZero

definition config_Bundle :: "(string \<Rightarrow> 8 word list option) \<Rightarrow> Config \<Rightarrow> BundleError + Bundle" where
  "config_Bundle to_key c =
     (if rg_AppID (cf_Registry c) = 0 then Inl NoAppIDSet
      else case SyncSeed to_key c of
        Inl e \<Rightarrow> Inl (SeedError e)
      | Inr None \<Rightarrow> Inl NoSyncKeySet
      | Inr (Some seed) \<Rightarrow> Inr \<lparr>bu_AppID = rg_AppID (cf_Registry c), bu_SyncAddress = rg_SyncAddress (cf_Registry c), bu_Seed = seed\<rparr>)"

text \<open>binary.BigEndian.\<close>

fun be_bytes :: "nat \<Rightarrow> nat \<Rightarrow> 8 word list" where
  "be_bytes 0 n = []"
| "be_bytes (Suc k) n = be_bytes k (n div 256) @ [word_of_nat (n mod 256)]"

definition be_value :: "8 word list \<Rightarrow> nat" where
  "be_value bs = foldl (\<lambda>n b. 256 * n + unat b) 0 bs"

definition Bundle_String :: "(string \<Rightarrow> 8 word list option) \<Rightarrow> (8 word list \<Rightarrow> 8 word list) \<Rightarrow> Bundle \<Rightarrow> string" where
  "Bundle_String DecodeAddress public b =
     (let buf = be_bytes 8 (unat (bu_AppID b));
          addr = (if bu_SyncAddress b = [] then []
            else case DecodeAddress (bu_SyncAddress b) of None \<Rightarrow> [] | Some a \<Rightarrow> if a \<noteq> public (bu_Seed b) then a else [])
      in base64_EncodeToString (buf @ addr @ bu_Seed b))"

definition TrimRight :: "string \<Rightarrow> char \<Rightarrow> string" where
  "TrimRight s c = rev (dropWhile (\<lambda>x. x = c) (rev s))"

definition ParseBundle :: "(8 word list \<Rightarrow> string) \<Rightarrow> string \<Rightarrow> BundleError + Bundle" where
  "ParseBundle address s0 =
     (let s = TrimRight (TrimSpace s0) CHR ''='' in
      case (case raw_DecodeString b64_digit s of Some raw \<Rightarrow> Some raw | None \<Rightarrow> raw_DecodeString url_digit s) of
        None \<Rightarrow> Inl BadBase64
      | Some raw \<Rightarrow>
        if length raw \<noteq> 40 \<and> length raw \<noteq> 72 then Inl (BadLength (length raw))
        else
          let app = word_of_nat (be_value (take 8 raw)) in
          if app = 0 then Inl AppIDZero
          else Inr \<lparr>bu_AppID = app, bu_SyncAddress = (if length raw = 72 then address (take 32 (drop 8 raw)) else []),
            bu_Seed = drop (length raw - 32) raw\<rparr>)"

section \<open>Lemmas\<close>

lemma be_bytes_length [simp]: "length (be_bytes k n) = k"
  by (induction k arbitrary: n) simp_all

lemma be_roundtrip: "be_value (be_bytes k n) = n mod 256 ^ k"
proof (induction k arbitrary: n)
  case (Suc k)
  have "unat (word_of_nat (n mod 256) :: 8 word) = n mod 256" by (simp add: unat_of_nat take_bit_eq_mod)
  moreover have "256 * (n div 256 mod 256 ^ k) + n mod 256 = n mod 256 ^ Suc k" by (simp add: mod_mult2_eq)
  ultimately show ?case using Suc [of "n div 256"] by (simp add: be_value_def)
qed (simp add: be_value_def)

lemma trimmed:
  assumes "list_all is_space pre" "list_all is_space post" "list_all b64_safe s" "s \<noteq> []"
  shows "TrimRight (TrimSpace (pre @ s @ replicate k CHR ''='' @ post)) CHR ''='' = s"
proof -
  have e: "\<not> is_space CHR ''=''" by (simp add: is_space_def)
  have h: "dropWhile is_space (pre @ x) = dropWhile is_space x" "dropWhile is_space (rev post @ x) = dropWhile is_space x" for x
    using assms(1,2) by (auto simp: list_all_iff dropWhile_append)
  obtain c t where c: "s = c # t" using assms(4) by (cases s) auto
  have "\<not> is_space c" using assms(3) c by (simp add: b64_safe_def)
  then have a: "dropWhile is_space (pre @ s @ replicate k CHR ''='' @ post) = s @ replicate k CHR ''='' @ post" using h(1) c by simp
  obtain d u where d: "s = u @ [d]" using assms(4) by (cases s rule: rev_cases) auto
  have sd: "\<not> is_space d" "d \<noteq> CHR ''=''" using assms(3) d by (simp_all add: b64_safe_def)
  have "dropWhile is_space (replicate k CHR ''='' @ rev s) = replicate k CHR ''='' @ rev s"
    using e sd d by (cases k) simp_all
  then have "TrimSpace (pre @ s @ replicate k CHR ''='' @ post) = s @ replicate k CHR ''=''"
    using h(2) by (simp add: TrimSpace_def a)
  moreover have "dropWhile (\<lambda>x. x = CHR ''='') (replicate k CHR ''='' @ rev s) = rev s" using sd(2) d by (simp add: dropWhile_append)
  ultimately show ?thesis by (simp add: TrimRight_def)
qed

lemma encoded_stripped:
  assumes "raw \<noteq> []"
  shows "TrimRight (base64_EncodeToString raw) CHR ''='' = b64_raw raw" "b64_raw raw \<noteq> []"
proof -
  show n: "b64_raw raw \<noteq> []" using assms by (cases raw rule: b64_raw.cases) simp_all
  obtain k where "base64_EncodeToString raw = b64_raw raw @ replicate k CHR ''=''"
  proof
    show "base64_EncodeToString raw = b64_raw raw @ replicate (case length raw mod 3 of 0 \<Rightarrow> 0 | Suc 0 \<Rightarrow> 2 | _ \<Rightarrow> 1) CHR ''=''"
      by (simp add: base64_EncodeToString_def numeral_2_eq_2 split: nat.split)
  qed
  moreover obtain d u where d: "b64_raw raw = u @ [d]" using n by (cases "b64_raw raw" rule: rev_cases) auto
  moreover have "d \<noteq> CHR ''=''" using b64_raw_safe(1) [of raw] d by (simp add: b64_safe_def)
  ultimately show "TrimRight (base64_EncodeToString raw) CHR ''='' = b64_raw raw" by (simp add: TrimRight_def dropWhile_append)
qed

lemma ParseBundle_raw:
  assumes "raw \<noteq> []" "list_all is_space pre" "list_all is_space post" "f = id \<or> f = url_char"
  shows "ParseBundle address (pre @ map f (TrimRight (base64_EncodeToString raw) CHR ''='') @ replicate k CHR ''='' @ post) =
    (if length raw \<noteq> 40 \<and> length raw \<noteq> 72 then Inl (BadLength (length raw))
     else let app = word_of_nat (be_value (take 8 raw)) in
       if app = 0 then Inl AppIDZero
       else Inr \<lparr>bu_AppID = app, bu_SyncAddress = (if length raw = 72 then address (take 32 (drop 8 raw)) else []),
         bu_Seed = drop (length raw - 32) raw\<rparr>)"
proof -
  have "list_all b64_safe (map f (b64_raw raw))" using b64_raw_safe [of raw] assms(4) by auto
  then have t: "TrimRight (TrimSpace (pre @ map f (b64_raw raw) @ replicate k CHR ''='' @ post)) CHR ''='' = map f (b64_raw raw)"
    using trimmed assms(2,3) encoded_stripped(2) [OF assms(1)] by simp
  have "(case raw_DecodeString b64_digit (map f (b64_raw raw)) of Some raw' \<Rightarrow> Some raw' | None \<Rightarrow> raw_DecodeString url_digit (map f (b64_raw raw))) = Some raw"
    using raw_decoded [of raw] assms(4) by (auto split: option.split)
  then show ?thesis unfolding ParseBundle_def encoded_stripped(1) [OF assms(1)] t by (simp add: Let_def)
qed

section \<open>Properties\<close>

text \<open>
  C39. A bundle reads back: the string of a bundle, in the standard or the URL-safe alphabet, with any
  padding or none and with space around it, parses to the bundle, whose address is left out when it is
  the seed's own.
\<close>

theorem bundle_roundtrip:
  assumes "bu_AppID b \<noteq> 0" and "length (bu_Seed b) = 32"
    and "bu_SyncAddress b = [] \<or> (\<exists>a. length a = 32 \<and> DecodeAddress (bu_SyncAddress b) = Some a \<and> address a = bu_SyncAddress b)"
    and "list_all is_space pre" and "list_all is_space post" and "f = id \<or> f = url_char"
  shows "ParseBundle address (pre @ map f (TrimRight (Bundle_String DecodeAddress public b) CHR ''='') @ replicate k CHR ''='' @ post)
    = Inr (if DecodeAddress (bu_SyncAddress b) = Some (public (bu_Seed b)) then b\<lparr>bu_SyncAddress := []\<rparr> else b)"
proof -
  define addr where "addr = (if bu_SyncAddress b = [] then []
    else case DecodeAddress (bu_SyncAddress b) of None \<Rightarrow> [] | Some a \<Rightarrow> if a \<noteq> public (bu_Seed b) then a else [])"
  let ?raw = "be_bytes 8 (unat (bu_AppID b)) @ addr @ bu_Seed b"
  have s: "Bundle_String DecodeAddress public b = base64_EncodeToString ?raw" by (simp add: Bundle_String_def addr_def)
  have "?raw \<noteq> []" using assms(2) by auto
  note p = ParseBundle_raw [OF this assms(4-6), folded s]
  have "unat (bu_AppID b) < 256 ^ 8" using unsigned_less [of "bu_AppID b"] by simp
  then have app: "word_of_nat (be_value (take 8 ?raw)) = bu_AppID b" by (simp add: be_roundtrip)
  show ?thesis
  proof (cases "bu_SyncAddress b = [] \<or> DecodeAddress (bu_SyncAddress b) = Some (public (bu_Seed b))")
    case True
    then have "addr = []" by (auto simp: addr_def)
    then show ?thesis using p app assms(1,2) True by (auto simp: Let_def)
  next
    case False
    then obtain a where a: "length a = 32" "DecodeAddress (bu_SyncAddress b) = Some a" "address a = bu_SyncAddress b" "addr = a"
      using assms(3) by (auto simp: addr_def)
    then show ?thesis using p app assms(1,2) False by (simp add: Let_def)
  qed
qed

theorem bundle_roundtrip_witness:
  "ParseBundle (\<lambda>a. ''ADDR'') ('' '' @ map url_char (TrimRight (Bundle_String (\<lambda>_. Some (replicate 32 3)) (\<lambda>_. replicate 32 9)
      \<lparr>bu_AppID = 77, bu_SyncAddress = ''ADDR'', bu_Seed = replicate 32 255\<rparr>) CHR ''='') @ ''='')
    = Inr \<lparr>bu_AppID = 77, bu_SyncAddress = ''ADDR'', bu_Seed = replicate 32 255\<rparr>"
proof -
  let ?b = "\<lparr>bu_AppID = 77, bu_SyncAddress = ''ADDR'', bu_Seed = replicate 32 255\<rparr>"
  have h: "bu_AppID ?b \<noteq> 0" "length (bu_Seed ?b) = 32" "bu_SyncAddress ?b = [] \<or> (\<exists>a. length a = 32
      \<and> (\<lambda>_. Some (replicate 32 3)) (bu_SyncAddress ?b) = Some a \<and> (\<lambda>a. ''ADDR'') a = bu_SyncAddress ?b)"
    "list_all is_space '' ''" "list_all is_space []" "url_char = id \<or> url_char = url_char" by (simp_all add: is_space_def)
  have n: "replicate 32 3 \<noteq> (replicate 32 9 :: 8 word list)" by (simp add: replicate_eq_replicate)
  show ?thesis using bundle_roundtrip [OF h, where k = 1 and public = "\<lambda>_. replicate 32 9"] n by simp
qed

end
