(* ===== verification/GossipUdp.thy ===== *)
theory GossipUdp
  imports Codec Ip "HOL-Library.AList"
begin

text \<open>
  The gossip transport of src/internal/adapters/gossipudp/udp.go: one socket per mesh address, the route
  of a destination picked once and kept, and a bounded queue of what arrives. The resolver, the routing
  table of the routed and the outcome of a write are the environment.
\<close>

section \<open>State and operations\<close>

text \<open>A resolved address is a type of its own, 'a; a socket is known by its position.\<close>

record 'a route =
  rt_to :: 'a
  rt_conn :: nat

record 'a Transport =
  ut_conns :: "IP list"
  ut_recv :: "(string \<times> bytes) list"
  ut_routes :: "(string \<times> 'a route) list"
  ut_closed :: bool

definition MaxDatagram :: nat where "MaxDatagram = 1400"

definition recvQueue :: nat where "recvQueue = 256"

datatype UdpError = NoListenAddress | ListenFailed string | PayloadTooLarge | ContextDone | NoRoute | WriteError

text \<open>Listen: \<open>sockets\<close> binds an address, to the local address of the socket or not at all.\<close>

fun bind_udp :: "(string \<Rightarrow> IP option) \<Rightarrow> string list \<Rightarrow> string + IP list" where
  "bind_udp sockets [] = Inr []"
| "bind_udp sockets (a # as) =
     (case sockets a of None \<Rightarrow> Inl a | Some ip \<Rightarrow> map_sum id ((#) ip) (bind_udp sockets as))"

definition udp_Listen :: "(string \<Rightarrow> IP option) \<Rightarrow> string list \<Rightarrow> UdpError + 'a Transport" where
  "udp_Listen sockets addrs =
     (if addrs = [] then Inl NoListenAddress
      else case bind_udp sockets addrs of
        Inl a \<Rightarrow> Inl (ListenFailed a)
      | Inr conns \<Rightarrow> Inr \<lparr>ut_conns = conns, ut_recv = [], ut_routes = [], ut_closed = False\<rparr>)"

text \<open>The body of loop: a datagram that arrives is dropped when the receiver is slow.\<close>

definition loop_receive :: "string \<Rightarrow> bytes \<Rightarrow> 'a Transport \<Rightarrow> 'a Transport" where
  "loop_receive sender datagram t =
     (if ut_closed t \<or> length (ut_recv t) \<ge> recvQueue then t
      else t\<lparr>ut_recv := ut_recv t @ [(NormalizeAddr sender, take MaxDatagram datagram)]\<rparr>)"

definition udp_Receive :: "'a Transport \<Rightarrow> (string \<times> bytes) option \<times> 'a Transport" where
  "udp_Receive t = (case ut_recv t of [] \<Rightarrow> (None, t) | m # ms \<Rightarrow> (Some m, t\<lparr>ut_recv := ms\<rparr>))"

definition IsUnspecified :: "IP \<Rightarrow> bool" where
  "IsUnspecified ip = (ip = replicate 8 0 \<or> ip = [0, 0, 0, 0, 0, 65535, 0, 0])"

definition sameFamily :: "IP \<Rightarrow> IP \<Rightarrow> bool" where
  "sameFamily local src = (if To4 local \<noteq> None then To4 src \<noteq> None else True)"

fun pick_conn :: "IP \<Rightarrow> nat \<Rightarrow> IP list \<Rightarrow> nat option \<times> nat option \<Rightarrow> nat option \<times> nat option" where
  "pick_conn src i [] cw = cw"
| "pick_conn src i (local # conns) (conn, wildcard) =
     pick_conn src (Suc i) conns
       (if local = src then (Some i, wildcard)
        else if IsUnspecified local \<and> wildcard = None \<and> sameFamily local src then (conn, Some i)
        else (conn, wildcard))"

definition pick :: "(string \<Rightarrow> 'a option) \<Rightarrow> ('a \<Rightarrow> IP option) \<Rightarrow> string \<Rightarrow> 'a Transport \<Rightarrow> 'a route option \<times> 'a Transport" where
  "pick resolve routed addr t =
     (case map_of (ut_routes t) addr of
        Some r \<Rightarrow> (Some r, t)
      | None \<Rightarrow>
        (case resolve addr of
           None \<Rightarrow> (None, t)
         | Some ua \<Rightarrow>
           (case routed ua of
              None \<Rightarrow> (None, t)
            | Some src \<Rightarrow>
              (case pick_conn src 0 (ut_conns t) (None, None) of (conn, wildcard) \<Rightarrow>
                 (case (if conn = None then wildcard else conn) of
                    None \<Rightarrow> (None, t)
                  | Some i \<Rightarrow> let r = \<lparr>rt_to = ua, rt_conn = i\<rparr> in (Some r, t\<lparr>ut_routes := AList.update addr r (ut_routes t)\<rparr>))))))"

text \<open>Send: the error, the socket the datagram left from and the address it went to.\<close>

definition udp_Send ::
  "(string \<Rightarrow> 'a option) \<Rightarrow> ('a \<Rightarrow> IP option) \<Rightarrow> (nat \<Rightarrow> 'a \<Rightarrow> bool) \<Rightarrow> bool \<Rightarrow> string \<Rightarrow> bytes \<Rightarrow> 'a Transport
     \<Rightarrow> UdpError option \<times> (nat \<times> 'a) option \<times> 'a Transport" where
  "udp_Send resolve routed wrote ctx_done addr payload t =
     (if length payload > MaxDatagram then (Some PayloadTooLarge, None, t)
      else if ctx_done then (Some ContextDone, None, t)
      else (case pick resolve routed addr t of
              (None, t') \<Rightarrow> (Some NoRoute, None, t')
            | (Some r, t') \<Rightarrow>
              if \<not> wrote (rt_conn r) (rt_to r) then (Some WriteError, None, t'\<lparr>ut_routes := AList.delete addr (ut_routes t')\<rparr>)
              else (None, Some (rt_conn r, rt_to r), t')))"

definition udp_Close :: "'a Transport \<Rightarrow> 'a Transport" where
  "udp_Close t = t\<lparr>ut_closed := True\<rparr>"

text \<open>Any use of a transport while the resolver and the kernel answer the same.\<close>

inductive udp_run :: "(string \<Rightarrow> IP option) \<Rightarrow> (string \<Rightarrow> 'a option) \<Rightarrow> ('a \<Rightarrow> IP option) \<Rightarrow> string list \<Rightarrow> 'a Transport \<Rightarrow> bool"
  for sockets resolve routed addrs where
  udp_new: "udp_Listen sockets addrs = Inr t \<Longrightarrow> udp_run sockets resolve routed addrs t"
| udp_send: "udp_run sockets resolve routed addrs t \<Longrightarrow> udp_Send resolve routed wrote ctx a p t = (e, s, t') \<Longrightarrow> udp_run sockets resolve routed addrs t'"
| udp_arrive: "udp_run sockets resolve routed addrs t \<Longrightarrow> udp_run sockets resolve routed addrs (loop_receive a p t)"
| udp_taken: "udp_run sockets resolve routed addrs t \<Longrightarrow> udp_run sockets resolve routed addrs (snd (udp_Receive t))"
| udp_closed: "udp_run sockets resolve routed addrs t \<Longrightarrow> udp_run sockets resolve routed addrs (udp_Close t)"

text \<open>The socket a datagram from a source may leave from: one bound to it, or else a wildcard of its family.\<close>

definition leaves_from :: "IP list \<Rightarrow> IP \<Rightarrow> nat \<Rightarrow> bool" where
  "leaves_from conns src i =
     (i < length conns \<and> (conns ! i = src \<or> src \<notin> set conns \<and> IsUnspecified (conns ! i) \<and> sameFamily (conns ! i) src))"

definition can_leave :: "IP list \<Rightarrow> IP \<Rightarrow> bool" where
  "can_leave conns src = list_ex (\<lambda>c. c = src \<or> IsUnspecified c \<and> sameFamily c src) conns"

definition udp_ok :: "(string \<Rightarrow> IP option) \<Rightarrow> (string \<Rightarrow> 'a option) \<Rightarrow> ('a \<Rightarrow> IP option) \<Rightarrow> string list \<Rightarrow> 'a Transport \<Rightarrow> bool" where
  "udp_ok sockets resolve routed addrs t =
     (bind_udp sockets addrs = Inr (ut_conns t) \<and> length (ut_recv t) \<le> recvQueue \<and> (\<forall>m \<in> set (ut_recv t). length (snd m) \<le> MaxDatagram)
      \<and> (\<forall>a r. map_of (ut_routes t) a = Some r \<longrightarrow>
           resolve a = Some (rt_to r) \<and> (\<exists>src. routed (rt_to r) = Some src \<and> leaves_from (ut_conns t) src (rt_conn r))))"

section \<open>Lemmas\<close>

lemma index_shift:
  "\<exists>k < length conns. P (Suc i + k) (conns ! k) \<Longrightarrow> \<exists>k < length (l # conns). P (i + k) ((l # conns) ! k)"
  "P i l \<Longrightarrow> \<exists>k < length (l # conns). P (i + k) ((l # conns) ! k)"
  by (auto intro: exI [of _ "Suc _"] exI [of _ 0])

lemma pick_conn_step:
  "pick_conn src i (l # conns) (c, w) = pick_conn src (Suc i) conns
     (if l = src then Some i else c, if l \<noteq> src \<and> IsUnspecified l \<and> w = None \<and> sameFamily l src then Some i else w)"
  by simp

lemma pick_conn_none: "src \<notin> set conns \<Longrightarrow> fst (pick_conn src i conns (c, w)) = c"
  by (induction conns arbitrary: i c w) auto

lemma pick_conn_some: "src \<in> set conns \<Longrightarrow> \<exists>k < length conns. fst (pick_conn src i conns (c, w)) = Some (i + k) \<and> conns ! k = src"
proof (induction conns arbitrary: i c w)
  case (Cons l conns)
  let ?r = "fst (pick_conn src i (l # conns) (c, w))"
  show ?case
  proof (cases "src \<in> set conns")
    case True
    then have "\<exists>k < length conns. ?r = Some (Suc i + k) \<and> conns ! k = src" unfolding pick_conn_step by (rule Cons.IH)
    then show ?thesis by (rule index_shift(1))
  next
    case False
    then have "?r = Some i \<and> l = src" using Cons.prems by (simp add: pick_conn_none)
    then show ?thesis by (rule index_shift(2))
  qed
qed simp

lemma pick_conn_wildcard:
  "snd (pick_conn src i conns (c, w)) = w
     \<or> (\<exists>k < length conns. snd (pick_conn src i conns (c, w)) = Some (i + k) \<and> IsUnspecified (conns ! k) \<and> sameFamily (conns ! k) src)"
proof (induction conns arbitrary: i c w)
  case (Cons l conns)
  let ?r = "snd (pick_conn src i (l # conns) (c, w))"
  define w1 where "w1 = (if l \<noteq> src \<and> IsUnspecified l \<and> w = None \<and> sameFamily l src then Some i else w)"
  have w1: "w1 = w \<or> w1 = Some i \<and> IsUnspecified l \<and> sameFamily l src" by (simp add: w1_def)
  note IH = Cons.IH [of "Suc i" "if l = src then Some i else c" w1, unfolded w1_def, folded pick_conn_step, folded w1_def]
  from IH w1 consider "?r = w" | "?r = Some i \<and> IsUnspecified l \<and> sameFamily l src"
    | "\<exists>k < length conns. ?r = Some (Suc i + k) \<and> IsUnspecified (conns ! k) \<and> sameFamily (conns ! k) src"
    by (elim disjE) simp_all
  then show ?case
  proof cases
    case 2
    then show ?thesis by (intro disjI2) (rule index_shift(2))
  next
    case 3
    then show ?thesis by (intro disjI2) (rule index_shift(1))
  qed simp
qed simp

lemma pick_conn_missed:
  "snd (pick_conn src i conns (c, w)) = None \<Longrightarrow> w = None \<and> (\<forall>x \<in> set conns. x = src \<or> \<not> (IsUnspecified x \<and> sameFamily x src))"
proof (induction conns arbitrary: i c w)
  case (Cons l conns)
  obtain c1 w1 where s: "pick_conn src i (l # conns) (c, w) = pick_conn src (Suc i) conns (c1, w1)"
    "w1 = (if l \<noteq> src \<and> IsUnspecified l \<and> w = None \<and> sameFamily l src then Some i else w)" using pick_conn_step by blast
  then show ?case using Cons.IH [of "Suc i" c1 w1] Cons.prems by (auto split: if_splits)
qed simp

text \<open>A fresh pick: a socket the source may leave from, or none when there is none.\<close>

lemma picked:
  assumes "map_of (ut_routes t) addr = None" "pick resolve routed addr t = (x, t')"
  shows "(\<exists>ua src i. resolve addr = Some ua \<and> routed ua = Some src \<and> leaves_from (ut_conns t) src i
      \<and> x = Some \<lparr>rt_to = ua, rt_conn = i\<rparr> \<and> t' = t\<lparr>ut_routes := AList.update addr \<lparr>rt_to = ua, rt_conn = i\<rparr> (ut_routes t)\<rparr>)
    \<or> x = None \<and> t' = t \<and> (\<forall>ua src. resolve addr = Some ua \<longrightarrow> routed ua = Some src \<longrightarrow> \<not> can_leave (ut_conns t) src)"
proof (cases "\<exists>ua src. resolve addr = Some ua \<and> routed ua = Some src")
  case True
  then obtain ua src where u: "resolve addr = Some ua" "routed ua = Some src" by blast
  obtain c w where cw: "pick_conn src 0 (ut_conns t) (None, None) = (c, w)" by fastforce
  have "src \<notin> set (ut_conns t) \<longrightarrow> c = None" "src \<in> set (ut_conns t) \<longrightarrow> (\<exists>k < length (ut_conns t). c = Some k \<and> ut_conns t ! k = src)"
      "w = None \<or> (\<exists>k < length (ut_conns t). w = Some k \<and> IsUnspecified (ut_conns t ! k) \<and> sameFamily (ut_conns t ! k) src)"
      "w = None \<longrightarrow> (\<forall>x \<in> set (ut_conns t). x = src \<or> \<not> (IsUnspecified x \<and> sameFamily x src))"
    using pick_conn_none [of src "ut_conns t" 0 None None] pick_conn_some [of src "ut_conns t" 0 None None]
      pick_conn_wildcard [of src 0 "ut_conns t" None None] pick_conn_missed [of src 0 "ut_conns t" None None] cw by auto
  then consider i where "(if c = None then w else c) = Some i" "leaves_from (ut_conns t) src i"
    | "(if c = None then w else c) = None" "\<not> can_leave (ut_conns t) src"
    by (cases "src \<in> set (ut_conns t)") (auto simp: leaves_from_def can_leave_def list_ex_iff)
  then show ?thesis using assms u cw by cases (auto simp: pick_def Let_def)
qed (use assms in \<open>auto simp: pick_def split: option.splits\<close>)

lemma pick_ok:
  assumes "udp_ok sockets resolve routed addrs t" "pick resolve routed addr t = (x, t')"
  shows "udp_ok sockets resolve routed addrs t'"
    and "x = Some r \<Longrightarrow> resolve addr = Some (rt_to r) \<and> (\<exists>src. routed (rt_to r) = Some src \<and> leaves_from (ut_conns t) src (rt_conn r))"
proof -
  have "udp_ok sockets resolve routed addrs t' \<and>
    (x = Some r \<longrightarrow> resolve addr = Some (rt_to r) \<and> (\<exists>src. routed (rt_to r) = Some src \<and> leaves_from (ut_conns t) src (rt_conn r)))"
  proof (cases "map_of (ut_routes t) addr")
    case None
    from picked [OF None assms(2)] show ?thesis using assms(1) by (elim disjE exE conjE) (auto simp: udp_ok_def update_conv split: if_splits)
  next
    case (Some q)
    then show ?thesis using assms by (auto simp: pick_def udp_ok_def)
  qed
  then show "udp_ok sockets resolve routed addrs t'"
    "x = Some r \<Longrightarrow> resolve addr = Some (rt_to r) \<and> (\<exists>src. routed (rt_to r) = Some src \<and> leaves_from (ut_conns t) src (rt_conn r))" by simp_all
qed

lemma udp_Send_cases:
  assumes "udp_Send resolve routed wrote ctx addr p t = (e, sent, t')"
  obtains "e \<noteq> None" "sent = None" "t' = t" "e = Some NoRoute \<Longrightarrow> fst (pick resolve routed addr t) = None"
  | r u where "pick resolve routed addr t = (Some r, u)" "length p \<le> MaxDatagram"
      "e = Some WriteError \<and> sent = None \<and> t' = u\<lparr>ut_routes := AList.delete addr (ut_routes u)\<rparr> \<or> e = None \<and> sent = Some (rt_conn r, rt_to r) \<and> t' = u"
proof (cases "length p > MaxDatagram \<or> ctx")
  case True
  then show ?thesis using assms that(1) by (auto simp: udp_Send_def split: if_splits)
next
  case False
  obtain x u where x: "pick resolve routed addr t = (x, u)" by fastforce
  show ?thesis
  proof (cases x)
    case None
    then have "u = t" using x by (auto simp: pick_def Let_def split: option.splits prod.splits)
    then show ?thesis using assms that(1) False x None by (auto simp: udp_Send_def)
  next
    case (Some r)
    then show ?thesis using assms that(2) [of r u] False x by (auto simp: udp_Send_def split: if_splits)
  qed
qed

lemma udp_run_ok: "udp_run sockets resolve routed addrs t \<Longrightarrow> udp_ok sockets resolve routed addrs t"
proof (induction rule: udp_run.induct)
  case (udp_new t)
  then show ?case by (auto simp: udp_Listen_def udp_ok_def split: if_splits sum.splits)
next
  case (udp_send t wrote ctx a p e s t')
  from udp_send.hyps(2) show ?case
  proof (cases rule: udp_Send_cases)
    case 1
    then show ?thesis using udp_send.IH by simp
  next
    case (2 r u)
    have "udp_ok sockets resolve routed addrs u" using pick_ok(1) [OF udp_send.IH 2(1)] .
    then show ?thesis using 2(3) by (auto simp: udp_ok_def delete_conv split: if_splits)
  qed
qed (auto simp: udp_ok_def loop_receive_def udp_Receive_def udp_Close_def split: list.splits)

section \<open>Properties\<close>

text \<open>
  C21. Gossip leaves the mesh only by the mesh. Along any use of the transport, while the kernel's routing
  stays the same, a datagram that is sent is at most MaxDatagram bytes long and leaves for the address
  the destination resolves to, from a socket that is bound to the source address the kernel would use,
  or, when none is, from a wildcard socket of its family; a destination is refused as having no route
  only when there is no such socket. What is received is never longer nor queued beyond the queue.
\<close>

theorem gossip_source:
  assumes "udp_run sockets resolve routed addrs t" and "udp_Send resolve routed wrote ctx addr p t = (e, sent, t')"
  shows "(\<forall>i to. sent = Some (i, to) \<longrightarrow> e = None \<and> length p \<le> MaxDatagram \<and> resolve addr = Some to
        \<and> (\<exists>src. routed to = Some src \<and> leaves_from (ut_conns t) src i))
    \<and> (e = Some NoRoute \<longrightarrow> (\<forall>to src. resolve addr = Some to \<longrightarrow> routed to = Some src \<longrightarrow> \<not> can_leave (ut_conns t) src))
    \<and> (e = None \<longrightarrow> sent \<noteq> None) \<and> length (ut_recv t') \<le> recvQueue \<and> (\<forall>m \<in> set (ut_recv t'). length (snd m) \<le> MaxDatagram)"
proof -
  note ok = udp_run_ok [OF assms(1)]
  have "udp_ok sockets resolve routed addrs t'" using udp_run_ok [OF udp_send [OF assms]] .
  then have q: "length (ut_recv t') \<le> recvQueue" "\<forall>m \<in> set (ut_recv t'). length (snd m) \<le> MaxDatagram" by (simp_all add: udp_ok_def)
  from assms(2) show ?thesis
  proof (cases rule: udp_Send_cases)
    case 1
    have "\<forall>to src. resolve addr = Some to \<longrightarrow> routed to = Some src \<longrightarrow> \<not> can_leave (ut_conns t) src" if "fst (pick resolve routed addr t) = None"
    proof (cases "map_of (ut_routes t) addr")
      case None
      obtain x u where "pick resolve routed addr t = (x, u)" by fastforce
      then show ?thesis using picked [OF None, of resolve routed x u] that by auto
    qed (use that in \<open>simp add: pick_def\<close>)
    then show ?thesis using 1 q by auto
  next
    case (2 r u)
    then show ?thesis using pick_ok(2) [OF ok 2(1), of r] q by auto
  qed
qed

theorem gossip_source_witness:
  "\<exists>t :: nat Transport. udp_run (\<lambda>_. Some [0, 0, 0, 0, 0, 65535, 2674, 5]) (\<lambda>_. Some 1) (\<lambda>_. Some [0, 0, 0, 0, 0, 65535, 2674, 5]) [''10.114.0.5:4190''] t
     \<and> udp_Send (\<lambda>_. Some 1) (\<lambda>_. Some [0, 0, 0, 0, 0, 65535, 2674, 5]) (\<lambda>_ _. True) False ''10.114.0.6:4190'' [1, 2] t
       = (None, Some (0, 1), t\<lparr>ut_routes := [(''10.114.0.6:4190'', \<lparr>rt_to = 1, rt_conn = 0\<rparr>)]\<rparr>)
     \<and> leaves_from (ut_conns t) [0, 0, 0, 0, 0, 65535, 2674, 5] 0"
proof -
  let ?ip = "[0, 0, 0, 0, 0, 65535, 2674, 5] :: IP"
  let ?t = "\<lparr>ut_conns = [?ip], ut_recv = [], ut_routes = [], ut_closed = False\<rparr> :: nat Transport"
  have r: "udp_run (\<lambda>_. Some ?ip) (\<lambda>_. Some 1) (\<lambda>_. Some ?ip) [''10.114.0.5:4190''] ?t" by (rule udp_new) (simp add: udp_Listen_def)
  have s: "udp_Send (\<lambda>_. Some 1) (\<lambda>_. Some ?ip) (\<lambda>_ _. True) False ''10.114.0.6:4190'' [1, 2] ?t
      = (None, Some (0, 1), ?t\<lparr>ut_routes := [(''10.114.0.6:4190'', \<lparr>rt_to = 1, rt_conn = 0\<rparr>)]\<rparr>)"
    by (simp add: udp_Send_def pick_def MaxDatagram_def Let_def)
  show ?thesis using r s gossip_source [OF r s] by (intro exI [of _ ?t]) simp
qed

end
