(* ===== verification/Datadir.thy ===== *)
theory Datadir
  imports Monitor Ip
begin

text \<open>
  The reader of the local node's data directory (src/internal/adapters/datadir/datadir.go). The files
  are the environment, their JSON decoders arguments.
\<close>

section \<open>Reading\<close>

record configFile =
  cg_Archival :: bool
  cg_MaxBlockHistoryLookback :: u64
  cg_EnableDeveloperAPI :: bool
  cg_EnableFollowMode :: bool
  cg_EnableExperimentalAPI :: bool
  cg_EnableTimeTravel :: bool
  cg_MaxAcctLookback :: u64
  cg_StorageEngine :: string
  cg_RestWriteTimeoutSeconds :: int
  cg_EndpointAddress :: string
  cg_DisableAPIAuth :: bool

definition config_defaults :: configFile where
  "config_defaults = \<lparr>cg_Archival = False, cg_MaxBlockHistoryLookback = 0, cg_EnableDeveloperAPI = False, cg_EnableFollowMode = False,
     cg_EnableExperimentalAPI = False, cg_EnableTimeTravel = False, cg_MaxAcctLookback = 4, cg_StorageEngine = ''sqlite'',
     cg_RestWriteTimeoutSeconds = 120, cg_EndpointAddress = ''127.0.0.1:0'', cg_DisableAPIAuth = False\<rparr>"

text \<open>A file of the directory, and what os.Stat says of config.json.\<close>

datatype dir_file = FileMissing | FileDenied | FileOf string

datatype stat_answer = StatMissing | StatFailed | ModifiedAt Time

datatype DirError = EmptyDirectory | NotReadable string | NotDecoded string

definition readTrimmed :: "(string \<Rightarrow> dir_file) \<Rightarrow> string \<Rightarrow> dir_file" where
  "readTrimmed files name = (case files name of FileOf b \<Rightarrow> FileOf (TrimSpace b) | f \<Rightarrow> f)"

definition endpointURL :: "string \<Rightarrow> string" where
  "endpointURL addr =
     (if HasPrefix addr ''http://'' \<or> HasPrefix addr ''https://'' then addr
      else
        (case (case last_colon addr of Some (b, p) \<Rightarrow> if b \<noteq> [] then (b, p, True) else Cut addr (CHR '':'') | None \<Rightarrow> Cut addr (CHR '':'')) of
           (host, port, ok) \<Rightarrow>
             if \<not> ok then ''http://'' @ addr
             else
               let bracket = (\<lambda>c. c = CHR ''['' \<or> c = CHR '']'');
                   bare = rev (dropWhile bracket (rev (dropWhile bracket host)));
                   host' = (if bare = [] \<or> bare = ''0.0.0.0'' \<or> bare = ''::'' then ''127.0.0.1'' else host)
               in ''http://'' @ host' @ '':'' @ port))"

definition read_config :: "(configFile \<Rightarrow> string \<Rightarrow> configFile option) \<Rightarrow> stat_answer \<Rightarrow> (string \<Rightarrow> dir_file) \<Rightarrow> DirError + (configFile \<times> Time)" where
  "read_config unmarshal stat files =
     (case stat of
        StatMissing \<Rightarrow> Inr (config_defaults, 0)
      | StatFailed \<Rightarrow> Inl (NotReadable ''config.json'')
      | ModifiedAt m \<Rightarrow>
        (case files ''config.json'' of
           FileOf raw \<Rightarrow>
             (case unmarshal config_defaults raw of None \<Rightarrow> Inl (NotDecoded ''config.json'') | Some cf \<Rightarrow> Inr (cf, m))
         | _ \<Rightarrow> Inl (NotReadable ''config.json'')))"

definition dir_Read ::
  "(string \<Rightarrow> (string \<times> string) option) \<Rightarrow> (configFile \<Rightarrow> string \<Rightarrow> configFile option) \<Rightarrow> stat_answer \<Rightarrow> string \<Rightarrow> (string \<Rightarrow> dir_file)
     \<Rightarrow> DirError + NodeConfig" where
  "dir_Read genesis unmarshal stat dir files =
     (if dir = [] then Inl EmptyDirectory
      else case readTrimmed files ''algod.net'' of
        FileOf netAddr \<Rightarrow>
          (case files ''genesis.json'' of
             FileOf gen \<Rightarrow>
               (case genesis gen of
                  None \<Rightarrow> Inl (NotDecoded ''genesis.json'')
                | Some (network, ident) \<Rightarrow>
                  (case read_config unmarshal stat files of
                     Inl e \<Rightarrow> Inl e
                   | Inr (cf, m) \<Rightarrow>
                     (case readTrimmed files ''algod.token'' of
                        FileDenied \<Rightarrow> Inl (NotReadable ''algod.token'')
                      | tk \<Rightarrow>
                        if tk = FileMissing \<and> \<not> cg_DisableAPIAuth cf then Inl (NotReadable ''algod.token'')
                        else Inr \<lparr>nc_Endpoint = endpointURL netAddr, nc_NetAddr = netAddr, nc_Token = (case tk of FileOf t \<Rightarrow> t | _ \<Rightarrow> []),
                          nc_GenesisID = network @ ''-'' @ ident, nc_Archival = cg_Archival cf,
                          nc_MaxBlockHistoryLookback = cg_MaxBlockHistoryLookback cf, nc_EnableDeveloperAPI = cg_EnableDeveloperAPI cf,
                          nc_EnableFollowMode = cg_EnableFollowMode cf, nc_EnableExperimentalAPI = cg_EnableExperimentalAPI cf,
                          nc_EnableTimeTravel = cg_EnableTimeTravel cf, nc_MaxAcctLookback = cg_MaxAcctLookback cf,
                          nc_StorageEngine = cg_StorageEngine cf, nc_RestWriteTimeoutSeconds = cg_RestWriteTimeoutSeconds cf, nc_ModTime = m\<rparr>)))
           | _ \<Rightarrow> Inl (NotReadable ''genesis.json''))
      | _ \<Rightarrow> Inl (NotReadable ''algod.net''))"

section \<open>Lemmas\<close>

lemma endpointURL_split:
  assumes "last_colon addr = Some (b, p)" "\<not> HasPrefix addr ''http://''" "\<not> HasPrefix addr ''https://''"
  defines "bare \<equiv> rev (dropWhile (\<lambda>c. c = CHR ''['' \<or> c = CHR '']'') (rev (dropWhile (\<lambda>c. c = CHR ''['' \<or> c = CHR '']'') b)))"
  shows "endpointURL addr = ''http://'' @ (if bare = [] \<or> bare = ''0.0.0.0'' \<or> bare = ''::'' then ''127.0.0.1'' else b) @ '':'' @ p"
proof -
  have e: "addr = b @ CHR '':'' # p" using last_colon_eq [OF assms(1)] by simp
  have "(case last_colon addr of Some (b, p) \<Rightarrow> if b \<noteq> [] then (b, p, True) else Cut addr (CHR '':'') | None \<Rightarrow> Cut addr (CHR '':'')) = (b, p, True)"
    using e assms(1) by simp
  then show ?thesis using assms(2,3) unfolding endpointURL_def bare_def by (simp add: Let_def)
qed

lemma drop_brackets:
  assumes "\<forall>c \<in> set h. \<not> f c" "list_all f pre" "list_all f post"
  shows "rev (dropWhile f (rev (dropWhile f (pre @ h @ post)))) = h"
proof -
  have pre: "dropWhile f (pre @ x) = dropWhile f x" and post: "dropWhile f (rev post @ x) = dropWhile f x" for x
    using assms(2,3) by (auto simp: list_all_iff dropWhile_append)
  have none: "dropWhile f h = h" "dropWhile f (rev h) = rev h" using assms(1) by (metis dropWhile_eq_self_iff hd_in_set, metis dropWhile_eq_self_iff hd_in_set set_rev)
  show ?thesis
  proof (cases "h = []")
    case True
    have e: "dropWhile f (pre @ h @ post) = []" using True assms(2,3) by (auto simp: list_all_iff)
    show ?thesis unfolding e by (simp add: True)
  next
    case False
    then have "dropWhile f (h @ post) = h @ post" using assms(1) by (cases h) simp_all
    then show ?thesis using pre post none by simp
  qed
qed

lemma Cut_found: "Cut s c = (a, b, True) \<Longrightarrow> s = a @ c # b \<and> c \<notin> set a"
  by (induction s arbitrary: a) (auto split: prod.splits if_splits)

text \<open>The host of an address, and what stands before its last colon.\<close>

lemma split_bare:
  assumes "SplitHostPort s = Some (h, p)"
  obtains b where "last_colon s = Some (b, p)"
    "rev (dropWhile (\<lambda>c. c = CHR ''['' \<or> c = CHR '']'') (rev (dropWhile (\<lambda>c. c = CHR ''['' \<or> c = CHR '']'') b))) = h"
proof -
  let ?f = "\<lambda>c. c = CHR ''['' \<or> c = CHR '']''"
  obtain b where l: "last_colon s = Some (b, p)" using assms by (auto simp: SplitHostPort_def split: option.splits if_splits prod.splits)
  note e = last_colon_eq [OF l]
  have "rev (dropWhile ?f (rev (dropWhile ?f b))) = h"
  proof (cases "hd s = CHR ''[''")
    case True
    obtain h0 where c: "Cut s (CHR '']'') = (h0, CHR '':'' # p, True)" "h = tl h0" "CHR ''['' \<notin> set (tl s)"
      using assms l True by (auto simp: SplitHostPort_def split: if_splits prod.splits)
    have d: "s = h0 @ CHR '']'' # CHR '':'' # p" "CHR '']'' \<notin> set h0"
      using Cut_found [OF c(1)] by simp_all
    have "h0 \<noteq> []" using d(1) True by auto
    then have h0: "h0 = CHR ''['' # h" using d(1) True c(2) by (cases h0) auto
    then have "b = ''['' @ h @ '']''" using e d(1) by (simp add: append_eq_append_conv2 Cons_eq_append_conv)
    moreover have "\<forall>c \<in> set h. \<not> ?f c" using c(3) d h0 by auto
    ultimately show ?thesis using drop_brackets [of h ?f "''[''" "'']''"] by simp
  next
    case False
    then have h: "h = b" "CHR ''['' \<notin> set s" "CHR '']'' \<notin> set s" using assms l by (auto simp: SplitHostPort_def split: if_splits)
    then have "\<forall>c \<in> set h. \<not> ?f c" using e by auto
    from drop_brackets [OF this, of "[]" "[]"] show ?thesis unfolding h(1) append_Nil append_Nil2 by simp
  qed
  then show ?thesis using that l by blast
qed

section \<open>Properties\<close>

text \<open>
  The endpoint read from the data directory is algod's own: for an address host:port in algod.net,
  the agent talks to an address algod listens on, the same one unless algod listens on every interface,
  and then the loopback one.
\<close>

theorem endpoint_is_algod:
  assumes "dir_Read genesis unmarshal stat dir files = Inr nc" and "SplitHostPort (nc_NetAddr nc) = Some (h, p)"
    and "\<not> HasPrefix (nc_NetAddr nc) ''http://''" and "\<not> HasPrefix (nc_NetAddr nc) ''https://''"
  shows "\<exists>target. nc_Endpoint nc = ''http://'' @ target \<and> AlgodCovers (nc_NetAddr nc) target
    \<and> target = (if h \<in> {[], ''0.0.0.0'', ''::''} then ''127.0.0.1:'' @ p else nc_NetAddr nc)"
proof -
  have n: "nc_Endpoint nc = endpointURL (nc_NetAddr nc)"
    using assms(1) by (auto simp: dir_Read_def split: if_splits dir_file.splits option.splits sum.splits)
  obtain b where b: "last_colon (nc_NetAddr nc) = Some (b, p)"
      "rev (dropWhile (\<lambda>c. c = CHR ''['' \<or> c = CHR '']'') (rev (dropWhile (\<lambda>c. c = CHR ''['' \<or> c = CHR '']'') b))) = h"
    using split_bare [OF assms(2)] by blast
  note e = endpointURL_split [OF b(1) assms(3,4), unfolded b(2)]
  show ?thesis
  proof (cases "h \<in> {[], ''0.0.0.0'', ''::''}")
    case True
    have "SplitHostPort (JoinHostPort ''127.0.0.1'' p) = Some (''127.0.0.1'', p)"
      by (rule Split_JoinHostPort) (use SplitHostPort_port [OF assms(2)] in auto)
    moreover have "ParseIP ''127.0.0.1'' = Some [0, 0, 0, 0, 0, 65535, 32512, 1]" by (simp add: parse_eval)
    ultimately have "AlgodCovers (nc_NetAddr nc) (''127.0.0.1:'' @ p)"
      using assms(2) True by (auto simp: AlgodCovers_def JoinHostPort_def Let_def To4_def)
    then show ?thesis using n e True by auto
  next
    case False
    have "AlgodCovers (nc_NetAddr nc) (nc_NetAddr nc)" using assms(2) False by (auto simp: AlgodCovers_def Let_def split: option.split)
    then show ?thesis using n e False last_colon_eq [OF b(1)] by auto
  qed
qed

theorem endpoint_is_algod_witness:
  "\<exists>nc. dir_Read (\<lambda>_. Some (''mainnet'', ''v1.0'')) (\<lambda>cf _. Some cf) StatMissing ''/var/lib/algorand''
       (\<lambda>name. FileOf (if name = ''algod.net'' then ''[::]:8080'' @ [CHR 0x0A] else ''t'')) = Inr nc
     \<and> nc_Endpoint nc = ''http://127.0.0.1:8080'' \<and> AlgodCovers ''[::]:8080'' ''127.0.0.1:8080''"
proof -
  let ?files = "\<lambda>name. FileOf (if name = ''algod.net'' then ''[::]:8080'' @ [CHR 0x0A] else ''t'')"
  obtain nc where r: "dir_Read (\<lambda>_. Some (''mainnet'', ''v1.0'')) (\<lambda>cf _. Some cf) StatMissing ''/var/lib/algorand'' ?files = Inr nc" "nc_NetAddr nc = ''[::]:8080''"
    by (simp add: dir_Read_def readTrimmed_def read_config_def TrimSpace_def is_space_def)
  have s: "SplitHostPort (nc_NetAddr nc) = Some (''::'', ''8080'')" "\<not> HasPrefix (nc_NetAddr nc) ''http://''" "\<not> HasPrefix (nc_NetAddr nc) ''https://''"
    unfolding r(2) by code_simp+
  show ?thesis using r endpoint_is_algod [OF r(1) s] by auto
qed

end
