(* ===== verification/Spec2Isabelle.thy ===== *)
theory Spec2Isabelle
  imports Agent HttpClient Bundle GossipUdp Datadir
begin

text \<open>
  A verification development of algod-mesh: an agent beside each Algorand node (algod) that answers
  the node's HTTP API, sends each request to a node of the fleet that can serve it, and learns what
  the other nodes hold through signed gossip. The definitions are translated from the Go sources
  under src/internal; each theory opens with the files it follows.

  The parts and how they interact. A request enters Router.ServeHTTP (internal/app/router.go), is
  classified (internal/domain/classify.go), authorised and billed by the Limiter
  (internal/app/ratelimit.go), then routed over a snapshot of the Directory
  (internal/app/directory.go): Eligible says which upstreams can serve it, Select orders them, and
  the Forwarder (internal/adapters/proxy) sends it to one after the other, the outcomes going to
  the StatsBook (internal/app/stats.go), whose circuit breaker the next snapshot shows. The Directory
  is fed by the Monitor of the local node (internal/app/monitor.go), by the registry's records and
  by gossip (internal/domain/codec.go), and keeps for every peer one link with its paths
  (internal/domain/path.go) and a judge of its health (internal/domain/health.go). A RegistrySync
  (internal/app/registrysync.go) reads the registry into the Directory and writes the agent's own
  record. All of them are built by New (internal/agent/agent.go) from one configuration
  (internal/config), which also says where the agent listens and which of algod's addresses it passes
  through (internal/adapters/passthrough).

  The theories, in the order they build on each other:

  \<^item> Prelude: the Go library functions the code uses (strings, slices, integers, time), machine
    words, stable sorting with the locale strict_weak_order, shared lemmas.
  \<^item> Types, Classify, Eligible, Selection, HealthJudge, Paths, RateLimit: internal/domain, file by
    file. The locale allowance (RateLimit) is the interface of a token bucket.
  \<^item> Limiter, LimiterRate: internal/app/ratelimit.go. Every operation is a function of the limiter's
    state; LimiterRate has the run of a limiter as an inductive relation and the bound on what a
    client is charged.
  \<^item> StatsBook (with the locale observations), TxnPins: internal/app/stats.go and txnpins.go.
  \<^item> Proxy, Router, RouterForward: one attempt, then the routing of a plain request with retries and
    the external as last resort. What the network answers is the environment, an argument: the
    theorems hold for all of them.
  \<^item> Broadcast, Pending, Waits: submissions to one or all nodes, pending lookups over all nodes, waits
    for a round and the shared status fetch, as a state machine over any interleaving.
  \<^item> Codec: registry boxes and gossip datagrams. HKDF, HMAC, AEAD, Ed25519 and the JSON of a record
    are the fields of a record of primitives, their documented laws (aead_ok, sign_ok, record_json,
    heartbeat_json, probe_json) named hypotheses, shown to hold together of a concrete instance.
  \<^item> Monitor: the local node's published state and the binary search for its oldest block.
  \<^item> Directory, DirectoryProps, DirectoryGossip: the table of peers, balancers and externals; each
    critical section of the code is one function of the state, and dir_run is any sequence of them.
  \<^item> Serve, RouterRun: ServeHTTP to the handler that answers, and the response writers; then any
    sequence of requests to one router, with the limiter's own loop between them.
  \<^item> Ip, ConfigAddrs, Config, ConfigProps: internal/domain/endpoint.go with the parts of net that it
    uses, and internal/config/config.go: addresses, defaults, secrets and validation, step by step in
    the order of Finish.
  \<^item> RegistryFile, RegistrySync: internal/adapters/registryfile and internal/app/registrysync.go. The
    locale registry is what the synchronisation relies on; its lemmas are proved once, and it is
    interpreted on the registry in a file, where a write may fail at every step.
  \<^item> Contract, RegistryChain: internal/adapters/registryalgo and the program of the registry application
    (contract/smart_contracts/registry). The chain is the state; a transaction may fail, be confirmed,
    or be committed without ever being seen confirmed. RegistryChain.chain_laws shows that the registry
    on chain satisfies the locale registry, under the named laws of the cryptography and the ABI.
  \<^item> Base64, Bundle, HttpClient, Datadir, GossipUdp: internal/config/bundle.go, and the adapters of
    algod's REST API, of its data directory and of UDP, with the parts of encoding/base64 and net/url
    they use.
  \<^item> Passthrough: internal/adapters/passthrough. Accept loops, splices and Shutdown are a step relation
    over every interleaving of their critical sections.
  \<^item> Agent: internal/agent. What New builds of a configuration, the record the agent registers, the
    registry a configuration names.

  What the theorems show. Routing: a request is only sent to an upstream that is eligible in a
  snapshot taken for it, in order and within the retry budget, nothing is sent after an answer has
  begun, and every request is answered without a panic. Limiter: along any run the charge of a
  client is bounded by the capacity and the refill of its window, and a refused client that waits
  as told is let in. Directory: the table stays well formed along every run, only authentic gossip
  changes it, a heartbeat that arrives is offered by the following snapshots, and a snapshot
  offers an upstream as reachable only on evidence. Codec: boxes and datagrams read back. Monitor:
  the search returns the oldest block served. Configuration: what Finish accepts is complete and
  bindable, and addresses have one spelling. Registry: a registered node is listed, known to the
  directory and not written again, in a file or on chain, and no operation on chain loses the record
  of another node; what is read over REST is what the chain holds. Gossip leaves from a mesh address.
  Bundles read back. Pass-through: after Shutdown nothing is left open, and Shutdown
  returns. Agent: an agent built from any accepted configuration answers every request. The rest are the exact behaviour of the components:
  breaker, hysteresis, pins, path policy, coalesced status, broadcast and pending answers.

  Numbers. Rounds and sequence numbers are 64-bit words and wrap where Go's do; times and durations
  are integers of nanoseconds; float64 values are rationals, so rounding errors of the limiter's
  arithmetic are not modelled. Recursion is structural or has a termination proof; there is no
  fuel. A panic of the code (a nil dereference, an index out of range) is None.

  Not modelled, and why. Goroutine loops, timers and channels, except those of the pass-through: the
  operations they call are, and the run relations leave their order open. Logs, metrics and process
  control hold no decisions of the program's own. What files, sockets, nodes and the chain answer is
  the environment, an argument. httputil.ReverseProxy, net/url beyond the query, the YAML, JSON and
  msgpack codecs, mnemonics, hashes, the ABI encoders and the derivation of keys are the libraries'
  and enter as arguments. The command line, the transport in memory and the test support (gossipmem,
  fakealgod, devfleet) are not part of the running agent.
\<close>

end
